(* ===== verification/Prelude.thy ===== *)
theory Prelude
  imports Main "HOL-Library.Word" "HOL-Library.Char_ord" "HOL-Library.List_Lexorder"
begin

section \<open>Shared vocabulary: Go strings, byte slices and fallible calls\<close>

text \<open>
  What every component theory uses. A Go byte is a \<^typ>\<open>char\<close> (eight bits), so a Go
  \<open>string\<close> and a \<open>[]byte\<close> are both lists of bytes and \<open>string(b)\<close> is the
  identity. \<open>len\<close> and offsets are \<^typ>\<open>nat\<close>. A call that returns an \<open>error\<close> is a
  sum: \<^term>\<open>Inl\<close> the error, \<^term>\<open>Inr\<close> the result; \<open>andthen\<close> is the
  \<open>if err != nil { return err }\<close> after it.

  The library functions of Go's package \<open>strings\<close> and \<open>strconv\<close> the program calls are
  defined here, byte for byte. The only part of them that is a parameter is the Unicode
  case table: \<open>to_lower\<close> and \<open>to_upper\<close> take the function Go applies to a string that
  holds a byte above 127.
\<close>

named_theorems byte_simps \<open>evaluation of the readers and of the string functions\<close>
named_theorems bound_intros \<open>bounds of offsets and lengths\<close>

type_synonym bytes = "char list"

subsection \<open>Fallible calls\<close>

definition andthen :: "'e + 'a \<Rightarrow> ('a \<Rightarrow> 'e + 'b) \<Rightarrow> 'e + 'b" where
  "andthen m f = (case m of Inl e \<Rightarrow> Inl e | Inr x \<Rightarrow> f x)"

lemma andthen_Inl [simp]: "andthen (Inl e) f = Inl e"
  by (simp add: andthen_def)

lemma andthen_Inr [simp]: "andthen (Inr x) f = f x"
  by (simp add: andthen_def)

lemma andthen_eq_Inr: "andthen m f = Inr y \<longleftrightarrow> (\<exists>x. m = Inr x \<and> f x = Inr y)"
  by (cases m) auto

lemma andthen_eq_Inl: "andthen m f = Inl e \<longleftrightarrow> m = Inl e \<or> (\<exists>x. m = Inr x \<and> f x = Inl e)"
  by (cases m) auto

lemma andthen_cong [fundef_cong]:
  "m = m' \<Longrightarrow> (\<And>x. m' = Inr x \<Longrightarrow> f x = f' x) \<Longrightarrow> andthen m f = andthen m' f'"
  by (cases m') auto

lemma andthen_assoc: "andthen (andthen m f) g = andthen m (\<lambda>x. andthen (f x) g)"
  by (cases m) auto

lemma find_SomeD: "find P xs = Some x \<Longrightarrow> x \<in> set xs \<and> P x"
  by (induction xs) (auto split: if_splits)

fun is_ok :: "'e + 'a \<Rightarrow> bool" where
  "is_ok (Inl e) = False"
| "is_ok (Inr x) = True"

lemma is_ok_iff: "is_ok m \<longleftrightarrow> (\<exists>x. m = Inr x)"
  by (cases m) auto

subsection \<open>Package strings\<close>

definition has_prefix :: "string \<Rightarrow> string \<Rightarrow> bool" where
  "has_prefix s p \<longleftrightarrow> take (length p) s = p"

definition has_suffix :: "string \<Rightarrow> string \<Rightarrow> bool" where
  "has_suffix s p \<longleftrightarrow> has_prefix (rev s) (rev p)"

definition trim_prefix :: "string \<Rightarrow> string \<Rightarrow> string" where
  "trim_prefix s p = (if has_prefix s p then drop (length p) s else s)"

definition trim_suffix :: "string \<Rightarrow> string \<Rightarrow> string" where
  "trim_suffix s p = (if has_suffix s p then take (length s - length p) s else s)"

fun str_index :: "string \<Rightarrow> string \<Rightarrow> nat option" where
  "str_index [] p = (if p = [] then Some 0 else None)"
| "str_index (c # cs) p =
     (if has_prefix (c # cs) p then Some 0 else map_option Suc (str_index cs p))"

definition str_contains :: "string \<Rightarrow> string \<Rightarrow> bool" where
  "str_contains s p \<longleftrightarrow> str_index s p \<noteq> None"

definition str_last_index :: "string \<Rightarrow> char \<Rightarrow> nat option" where
  "str_last_index s c =
     (let hits = filter (\<lambda>i. s ! i = c) [0..<length s]
      in if hits = [] then None else Some (last hits))"

fun split_on :: "char \<Rightarrow> string \<Rightarrow> string list" where
  "split_on sep [] = [[]]"
| "split_on sep (c # cs) =
     (if c = sep then [] # split_on sep cs
      else (case split_on sep cs of [] \<Rightarrow> [[c]] | p # ps \<Rightarrow> (c # p) # ps))"

fun join :: "string \<Rightarrow> string list \<Rightarrow> string" where
  "join sep [] = []"
| "join sep [s] = s"
| "join sep (s # t # ts) = s @ sep @ join sep (t # ts)"

text \<open>
  \<open>unicode.IsSpace\<close>, as the UTF-8 encodings of the characters it accepts. None of these
  encodings can begin inside another character, so stripping them one after the other from
  an end of the byte list is what \<open>strings.TrimSpace\<close> does.
\<close>

definition go_spaces :: "string list" where
  "go_spaces =
     [[CHR 0x09], [CHR 0x0A], [CHR 0x0B], [CHR 0x0C], [CHR 0x0D], [CHR 0x20],
      [CHR 0xC2, CHR 0x85], [CHR 0xC2, CHR 0xA0], [CHR 0xE1, CHR 0x9A, CHR 0x80],
      [CHR 0xE2, CHR 0x80, CHR 0x80], [CHR 0xE2, CHR 0x80, CHR 0x81],
      [CHR 0xE2, CHR 0x80, CHR 0x82], [CHR 0xE2, CHR 0x80, CHR 0x83],
      [CHR 0xE2, CHR 0x80, CHR 0x84], [CHR 0xE2, CHR 0x80, CHR 0x85],
      [CHR 0xE2, CHR 0x80, CHR 0x86], [CHR 0xE2, CHR 0x80, CHR 0x87],
      [CHR 0xE2, CHR 0x80, CHR 0x88], [CHR 0xE2, CHR 0x80, CHR 0x89],
      [CHR 0xE2, CHR 0x80, CHR 0x8A], [CHR 0xE2, CHR 0x80, CHR 0xA8],
      [CHR 0xE2, CHR 0x80, CHR 0xA9], [CHR 0xE2, CHR 0x80, CHR 0xAF],
      [CHR 0xE2, CHR 0x81, CHR 0x9F], [CHR 0xE3, CHR 0x80, CHR 0x80]]"

definition head_len :: "string list \<Rightarrow> string \<Rightarrow> nat" where
  "head_len ps s = (case find (has_prefix s) ps of None \<Rightarrow> 0 | Some p \<Rightarrow> length p)"

lemma head_len_le: "head_len ps s \<le> length s"
proof (cases "find (has_prefix s) ps")
  case (Some p)
  then have "has_prefix s p" by (induction ps) (auto split: if_splits)
  then show ?thesis using Some
    by (auto simp: head_len_def has_prefix_def dest: arg_cong [where f = length])
qed (simp add: head_len_def)

function strip_heads :: "string list \<Rightarrow> string \<Rightarrow> string" where
  "strip_heads ps s =
     (if head_len ps s = 0 then s else strip_heads ps (drop (head_len ps s) s))"
  by pat_completeness auto
termination
proof (relation "measure (\<lambda>(ps, s). length s)")
  fix ps s
  assume "head_len ps s \<noteq> 0"
  then show "((ps, drop (head_len ps s) s), ps, s) \<in> measure (\<lambda>(ps, s). length s)"
    using head_len_le [of ps s] by auto
qed simp

declare strip_heads.simps [simp del]

definition trim_left :: "string \<Rightarrow> string" where
  "trim_left s = strip_heads go_spaces s"

definition trim_right :: "string \<Rightarrow> string" where
  "trim_right s = rev (strip_heads (map rev go_spaces) (rev s))"

definition trim_space :: "string \<Rightarrow> string" where
  "trim_space s = trim_right (trim_left s)"

text \<open>\<open>strings.Fields\<close>: \<open>acc\<close> is the field being read.\<close>

function fields_from :: "string \<Rightarrow> string \<Rightarrow> string list" where
  "fields_from acc s =
     (if s = [] then (if acc = [] then [] else [acc])
      else if head_len go_spaces s = 0 then fields_from (acc @ [hd s]) (tl s)
      else (if acc = [] then [] else [acc]) @ fields_from [] (drop (head_len go_spaces s) s))"
  by pat_completeness auto
termination
proof (relation "measure (\<lambda>(acc, s). length s)")
  fix acc s :: string
  assume "s \<noteq> []" "head_len go_spaces s \<noteq> 0"
  then show "(([], drop (head_len go_spaces s) s), (acc, s)) \<in> measure (\<lambda>(acc, s). length s)"
    by (cases s) auto
qed auto

declare fields_from.simps [simp del]

definition str_fields :: "string \<Rightarrow> string list" where
  "str_fields s = fields_from [] s"

definition ascii :: "char \<Rightarrow> bool" where
  "ascii c \<longleftrightarrow> (of_char c :: nat) < 128"

definition lower_ascii :: "char \<Rightarrow> char" where
  "lower_ascii c =
     (if 65 \<le> (of_char c :: nat) \<and> (of_char c :: nat) \<le> 90 then char_of (of_char c + 32 :: nat) else c)"

definition upper_ascii :: "char \<Rightarrow> char" where
  "upper_ascii c =
     (if 97 \<le> (of_char c :: nat) \<and> (of_char c :: nat) \<le> 122 then char_of (of_char c - 32 :: nat) else c)"

definition to_lower :: "(string \<Rightarrow> string) \<Rightarrow> string \<Rightarrow> string" where
  "to_lower uni s = (if list_all ascii s then map lower_ascii s else uni s)"

definition to_upper :: "(string \<Rightarrow> string) \<Rightarrow> string \<Rightarrow> string" where
  "to_upper uni s = (if list_all ascii s then map upper_ascii s else uni s)"

subsection \<open>Package strconv\<close>

definition digit_val :: "char \<Rightarrow> nat option" where
  "digit_val c =
     (if 48 \<le> (of_char c :: nat) \<and> (of_char c :: nat) \<le> 57 then Some (of_char c - 48) else None)"

fun digits_val :: "nat \<Rightarrow> string \<Rightarrow> nat option" where
  "digits_val acc [] = Some acc"
| "digits_val acc (c # cs) =
     (case digit_val c of None \<Rightarrow> None | Some d \<Rightarrow> digits_val (10 * acc + d) cs)"

text \<open>A number from its bytes, the most significant first.\<close>

definition be_nat :: "bytes \<Rightarrow> nat" where
  "be_nat b = foldl (\<lambda>a c. 256 * a + of_char c) 0 b"

text \<open>The value of a Go \<open>int64\<close> after an operation whose result is \<open>v\<close>.\<close>

definition wrap64 :: "int \<Rightarrow> int" where
  "wrap64 v = (v + 2 ^ 63) mod 2 ^ 64 - 2 ^ 63"

text \<open>
  \<open>strconv.ParseInt(s, 10, 64)\<close>: an optional sign, at least one digit, and an error when
  the value leaves the 64-bit range. \<open>strconv.Atoi\<close> is the same on a 64-bit platform.
\<close>

definition parse_int64 :: "string \<Rightarrow> int option" where
  "parse_int64 s =
     (let neg = (case s of c # _ \<Rightarrow> c = CHR ''-'' | [] \<Rightarrow> False);
          signed = (case s of c # _ \<Rightarrow> c = CHR ''-'' \<or> c = CHR ''+'' | [] \<Rightarrow> False);
          body = (if signed then tl s else s)
      in if body = [] then None
         else (case digits_val 0 body of
             None \<Rightarrow> None
           | Some n \<Rightarrow>
               (let v = (if neg then - int n else int n)
                in if - (2 ^ 63) \<le> v \<and> v < 2 ^ 63 then Some v else None)))"

definition digit_char :: "nat \<Rightarrow> char" where
  "digit_char d = char_of (48 + d mod 10)"

function dec_of :: "nat \<Rightarrow> string" where
  "dec_of n = (if n < 10 then [digit_char n] else dec_of (n div 10) @ [digit_char (n mod 10)])"
  by pat_completeness auto
termination by (relation "measure id") auto

declare dec_of.simps [simp del]

definition itoa :: "int \<Rightarrow> string" where
  "itoa v = (if v < 0 then CHR ''-'' # dec_of (nat (- v)) else dec_of (nat v))"


subsection \<open>Lemmas on the string functions\<close>

lemma has_prefix_Nil [simp]: "has_prefix s []"
  by (simp add: has_prefix_def)

lemma has_prefix_Cons [simp]: "has_prefix (c # s) (d # p) \<longleftrightarrow> c = d \<and> has_prefix s p"
  by (auto simp: has_prefix_def)

lemma has_prefix_empty [simp]: "has_prefix [] p \<longleftrightarrow> p = []"
  by (auto simp: has_prefix_def)

lemma has_prefix_iff: "has_prefix s p \<longleftrightarrow> (\<exists>t. s = p @ t)"
  by (auto simp: has_prefix_def) (metis append_take_drop_id)

lemma has_prefix_append [simp]: "has_prefix (p @ t) p"
  by (auto simp: has_prefix_iff)

lemma has_suffix_iff: "has_suffix s p \<longleftrightarrow> (\<exists>t. s = t @ p)"
  unfolding has_suffix_def has_prefix_iff by (metis rev_append rev_rev_ident)

lemma trim_prefix_append [simp]: "trim_prefix (p @ t) p = t"
  by (simp add: trim_prefix_def)

lemma trim_suffix_append [simp]: "trim_suffix (t @ p) p = t"
  by (simp add: trim_suffix_def has_suffix_iff)

text \<open>A solid character is printable ASCII: no white space starts or ends with it.\<close>

definition solid :: "char \<Rightarrow> bool" where
  "solid c \<longleftrightarrow> 33 \<le> (of_char c :: nat) \<and> (of_char c :: nat) < 128"

definition solid_ends :: "string \<Rightarrow> bool" where
  "solid_ends s \<longleftrightarrow> s \<noteq> [] \<and> solid (hd s) \<and> solid (last s)"

lemma go_spaces_heads: "list_all (\<lambda>p. p \<noteq> [] \<and> \<not> solid (hd p)) go_spaces"
  by (simp add: go_spaces_def solid_def)

lemma go_spaces_lasts: "list_all (\<lambda>p. p \<noteq> [] \<and> \<not> solid (hd p)) (map rev go_spaces)"
  by (simp add: go_spaces_def solid_def)

lemma head_len_miss:
  assumes "list_all (\<lambda>p. p \<noteq> [] \<and> \<not> solid (hd p)) ps" and "s \<noteq> []" and "solid (hd s)"
  shows "head_len ps s = 0"
proof -
  have "\<not> has_prefix s p" if "p \<in> set ps" for p
    using assms that by (cases s; cases p) (auto simp: list_all_iff)
  then have "find (has_prefix s) ps = None" by (simp add: find_None_iff)
  then show ?thesis by (simp add: head_len_def)
qed

lemmas head_len_solid = head_len_miss [OF go_spaces_heads]
lemmas head_len_solid_rev = head_len_miss [OF go_spaces_lasts]

lemma trim_left_solid: "s \<noteq> [] \<Longrightarrow> solid (hd s) \<Longrightarrow> trim_left s = s"
  by (simp add: trim_left_def strip_heads.simps head_len_solid)

lemma trim_right_solid: "s \<noteq> [] \<Longrightarrow> solid (last s) \<Longrightarrow> trim_right s = s"
  by (simp add: trim_right_def strip_heads.simps head_len_solid_rev hd_rev)

lemma trim_space_solid [simp]: "solid_ends s \<Longrightarrow> trim_space s = s"
  by (simp add: trim_space_def solid_ends_def trim_left_solid trim_right_solid)

lemma trim_space_blank [simp]: "solid_ends s \<Longrightarrow> trim_space (CHR '' '' # s) = s"
proof -
  assume s: "solid_ends s"
  have "head_len go_spaces (CHR '' '' # s) = 1"
    by (simp add: head_len_def go_spaces_def)
  then have "trim_left (CHR '' '' # s) = s"
    using s trim_left_solid [of s]
    by (simp add: trim_left_def solid_ends_def strip_heads.simps [of go_spaces "CHR '' '' # s"])
  then show ?thesis using s by (simp add: trim_space_def solid_ends_def trim_right_solid)
qed

lemma trim_space_Nil [simp]: "trim_space [] = []"
  by (simp add: trim_space_def trim_left_def trim_right_def strip_heads.simps head_len_def
      go_spaces_def)

subsection \<open>Splitting, joining and decimals\<close>

lemma split_on_nonempty [simp]: "split_on c s \<noteq> []"
  by (induction s) (auto split: list.splits)

lemma split_on_free: "c \<notin> set s \<Longrightarrow> split_on c s = [s]"
  by (induction s) auto

lemma split_on_append:
  "c \<notin> set p \<Longrightarrow> split_on c (p @ c # s) = p # split_on c s"
  by (induction p) auto

lemma split_on_join:
  assumes "\<forall>p \<in> set ps. c \<notin> set p" and "ps \<noteq> []" and "c \<notin> set sep"
  shows "split_on c (join (c # sep) ps) = hd ps # map (\<lambda>p. sep @ p) (tl ps)"
  using assms(1,2)
proof (induction ps rule: induct_list012)
  case (3 p q ps)
  have "split_on c (sep @ join (c # sep) (q # ps)) =
      (sep @ q) # map (\<lambda>p. sep @ p) ps"
  proof -
    have IH: "split_on c (join (c # sep) (q # ps)) = q # map (\<lambda>p. sep @ p) ps"
      using 3 by simp
    have "split_on c (xs @ t) = (xs @ hd (split_on c t)) # tl (split_on c t)"
      if "c \<notin> set xs" for xs t
      using that by (induction xs) (auto split: list.splits)
    then show ?thesis using assms(3) IH by simp
  qed
  then show ?case using 3(3) by (simp add: split_on_append)
qed (auto simp: split_on_free)

lemma digit_val_digit_char [simp]: "digit_val (digit_char d) = Some (d mod 10)"
proof -
  have "d mod 10 < 10" by simp
  then have "(48 + d mod 10) mod 256 = 48 + d mod 10" by (intro mod_less) linarith
  then show ?thesis using \<open>d mod 10 < 10\<close> by (simp add: digit_val_def digit_char_def)
qed

lemma digits_val_append:
  "digits_val acc (s @ t) = (case digits_val acc s of None \<Rightarrow> None | Some n \<Rightarrow> digits_val n t)"
  by (induction s arbitrary: acc) (auto split: option.splits)

lemma digits_val_dec_of: "digits_val 0 (dec_of n) = Some n"
proof (induction n rule: dec_of.induct)
  case (1 n)
  then show ?case
    by (cases "n < 10") (simp_all add: dec_of.simps [of n] digits_val_append)
qed

lemma dec_of_inj: "dec_of m = dec_of n \<Longrightarrow> m = n"
  by (metis digits_val_dec_of option.inject)

lemma dec_of_nonempty [simp]: "dec_of n \<noteq> []"
  by (subst dec_of.simps) simp

lemma digit_char_range: "48 \<le> (of_char (digit_char d) :: nat) \<and> (of_char (digit_char d) :: nat) \<le> 57"
  using digit_val_digit_char [of d] unfolding digit_val_def
  by (metis option.distinct(1))

lemma dec_of_digits: "c \<in> set (dec_of n) \<Longrightarrow> 48 \<le> (of_char c :: nat) \<and> (of_char c :: nat) \<le> 57"
proof (induction n rule: dec_of.induct)
  case (1 n)
  then show ?case
    using digit_char_range by (cases "n < 10") (auto simp: dec_of.simps [of n])
qed

lemma dec_of_solid: "c \<in> set (dec_of n) \<Longrightarrow> solid c"
  using dec_of_digits [of c n] by (simp add: solid_def)

lemma dec_of_solid_ends [simp]: "solid_ends (dec_of n)"
  using dec_of_solid [of "hd (dec_of n)" n] dec_of_solid [of "last (dec_of n)" n]
  by (simp add: solid_ends_def)

lemma dec_of_free:
  "of_char c < (48 :: nat) \<or> (57 :: nat) < of_char c \<Longrightarrow> c \<notin> set (dec_of n)"
  using dec_of_digits [of c n] by auto

lemma parse_int64_dec_of [simp]: "n < 2 ^ 63 \<Longrightarrow> parse_int64 (dec_of n) = Some (int n)"
proof -
  assume n: "n < 2 ^ 63"
  obtain c cs where c: "dec_of n = c # cs" using dec_of_nonempty by (meson list.exhaust)
  have "c \<noteq> CHR ''-''" "c \<noteq> CHR ''+''"
    using dec_of_digits [of c n] c by auto
  moreover have "int n < 2 ^ 63" using n by (metis of_nat_less_iff of_nat_numeral of_nat_power)
  ultimately show ?thesis
    using c digits_val_dec_of [of n] by (simp add: parse_int64_def Let_def)
qed

end
