(* ===== verification/Port_Match.thy ===== *)
theory Port_Match
  imports Prelude
begin

section \<open>Destination-port lists\<close>

text \<open>
  \<open>internal/config/section_match.go\<close>: the parser and the canonical form of a section's
  destination-port list, and the intersection of two lists that the routing trace and the
  zapret generator use. A Go \<open>int\<close> is an \<^typ>\<open>int\<close>; every value here lies between 1
  and 65535 once the guards have passed. \<open>sort.Slice\<close> is \<^const>\<open>sort_key\<close>: the order
  it leaves ranges with one first port in does not matter, since
  \<open>canonical_unique\<close> below determines the merged list by its ports.
\<close>

record port_range =
  pr_first :: int
  pr_last :: int

datatype port_error = Bad_range string | Bad_port string

definition parse_token :: "string \<Rightarrow> port_error + port_range" where
  "parse_token token =
     (let parts = split_on (CHR ''-'') (trim_space token)
      in if length parts > 2 then Inl (Bad_range token)
         else case parse_int64 (trim_space (hd parts)) of
             None \<Rightarrow> Inl (Bad_port token)
           | Some a \<Rightarrow>
               if a < 1 \<or> a > 65535 then Inl (Bad_port token)
               else case (if length parts = 2 then parse_int64 (trim_space (parts ! 1)) else Some a) of
                   None \<Rightarrow> Inl (Bad_range token)
                 | Some b \<Rightarrow>
                     if b < a \<or> b > 65535 then Inl (Bad_range token)
                     else Inr \<lparr>pr_first = a, pr_last = b\<rparr>)"

fun parse_tokens :: "string list \<Rightarrow> port_error + port_range list" where
  "parse_tokens [] = Inr []"
| "parse_tokens (t # ts) =
     andthen (parse_token t) (\<lambda>r. andthen (parse_tokens ts) (\<lambda>rs. Inr (r # rs)))"

definition merge_step :: "port_range list \<Rightarrow> port_range \<Rightarrow> port_range list" where
  "merge_step merged r =
     (if merged \<noteq> [] \<and> pr_first r \<le> pr_last (last merged) + 1
      then (if pr_last r > pr_last (last merged)
            then butlast merged @ [(last merged)\<lparr>pr_last := pr_last r\<rparr>]
            else merged)
      else merged @ [r])"

definition merge_ranges :: "port_range list \<Rightarrow> port_range list" where
  "merge_ranges out = foldl merge_step [] out"

definition parse_port_ranges :: "string \<Rightarrow> port_error + port_range list" where
  "parse_port_ranges v =
     (if trim_space v = [] then Inr []
      else andthen (parse_tokens (split_on (CHR '','') v))
             (\<lambda>out. Inr (merge_ranges (sort_key pr_first out))))"

definition format_range :: "port_range \<Rightarrow> string" where
  "format_range r =
     itoa (pr_first r) @ (if pr_last r \<noteq> pr_first r then ''-'' @ itoa (pr_last r) else [])"

definition format_port_ranges :: "port_range list \<Rightarrow> string" where
  "format_port_ranges rs = join '', '' (map format_range rs)"

definition normalize_destination_ports :: "string \<Rightarrow> port_error + string" where
  "normalize_destination_ports v =
     andthen (parse_port_ranges v) (\<lambda>rs. Inr (format_port_ranges rs))"

definition range_overlap :: "port_range \<Rightarrow> port_range \<Rightarrow> port_range list" where
  "range_overlap x y =
     (let lo = max (pr_first x) (pr_first y); hi = min (pr_last x) (pr_last y)
      in if lo \<le> hi then [\<lparr>pr_first = lo, pr_last = hi\<rparr>] else [])"

definition intersect_ranges :: "port_range list \<Rightarrow> port_range list \<Rightarrow> port_range list" where
  "intersect_ranges ar br = concat (map (\<lambda>x. concat (map (range_overlap x) br)) ar)"

definition intersect_destination_ports :: "string \<Rightarrow> string \<Rightarrow> string \<times> bool" where
  "intersect_destination_ports a b =
     (case parse_port_ranges a of
        Inl _ \<Rightarrow> ([], False)
      | Inr ar \<Rightarrow>
          (case parse_port_ranges b of
             Inl _ \<Rightarrow> ([], False)
           | Inr br \<Rightarrow>
               if ar = [] then (format_port_ranges br, True)
               else if br = [] then (format_port_ranges ar, True)
               else let out = intersect_ranges ar br in (format_port_ranges out, out \<noteq> [])))"

subsection \<open>The set of ports a list denotes, and its canonical form\<close>

definition ports_in :: "port_range \<Rightarrow> int set" where
  "ports_in r = {pr_first r .. pr_last r}"

definition ports_of :: "port_range list \<Rightarrow> int set" where
  "ports_of rs = \<Union> (ports_in ` set rs)"

definition valid_range :: "port_range \<Rightarrow> bool" where
  "valid_range r \<longleftrightarrow> 1 \<le> pr_first r \<and> pr_first r \<le> pr_last r \<and> pr_last r \<le> 65535"

definition canonical :: "port_range list \<Rightarrow> bool" where
  "canonical rs \<longleftrightarrow>
     list_all valid_range rs \<and> sorted_wrt (\<lambda>a b. pr_last a + 1 < pr_first b) rs"

lemma ports_of_simps [simp]:
  "ports_of [] = {}"
  "ports_of (r # rs) = ports_in r \<union> ports_of rs"
  "ports_of (xs @ ys) = ports_of xs \<union> ports_of ys"
  by (auto simp: ports_of_def)

lemma canonical_Nil [simp]: "canonical []"
  by (simp add: canonical_def)

lemma canonical_Cons:
  "canonical (r # rs) \<longleftrightarrow>
     valid_range r \<and> (\<forall>s \<in> set rs. pr_last r + 1 < pr_first s) \<and> canonical rs"
  by (auto simp: canonical_def)

lemma canonical_snoc:
  "canonical (rs @ [r]) \<longleftrightarrow>
     valid_range r \<and> (\<forall>s \<in> set rs. pr_last s + 1 < pr_first r) \<and> canonical rs"
  by (auto simp: canonical_def sorted_wrt_append)

lemma parse_token_valid: "parse_token t = Inr r \<Longrightarrow> valid_range r"
  by (auto simp: parse_token_def valid_range_def Let_def split: if_splits option.splits)

lemma parse_tokens_ok:
  "parse_tokens ts = Inr rs \<longleftrightarrow> list_all2 (\<lambda>t r. parse_token t = Inr r) ts rs"
  by (induction ts arbitrary: rs) (auto simp: andthen_eq_Inr list_all2_Cons1)


subsection \<open>Merging\<close>

definition merge_inv :: "port_range list \<Rightarrow> int \<Rightarrow> bool" where
  "merge_inv m lo \<longleftrightarrow> canonical m \<and> (\<forall>s \<in> set m. pr_first s \<le> lo)"

lemma merge_step_inv:
  assumes "merge_inv m lo" and "valid_range r" and "lo \<le> pr_first r"
  shows "merge_inv (merge_step m r) (pr_first r)
    \<and> ports_of (merge_step m r) = ports_of m \<union> ports_in r"
proof (cases m rule: rev_cases)
  case Nil
  then show ?thesis using assms
    by (simp add: merge_inv_def merge_step_def canonical_def)
next
  case (snoc ms l)
  have l: "valid_range l" "pr_first l \<le> pr_first r" "canonical ms"
      "\<forall>s \<in> set ms. pr_last s + 1 < pr_first l"
      "\<forall>s \<in> set ms. pr_first s \<le> pr_first r"
    using assms snoc by (auto simp: merge_inv_def canonical_snoc)
  have last_le: "\<forall>s \<in> set m. pr_last s \<le> pr_last l"
    using l snoc by (fastforce simp: valid_range_def)
  show ?thesis
  proof (cases "pr_first r \<le> pr_last l + 1")
    case False
    moreover from False last_le have "\<forall>s \<in> set m. pr_last s + 1 < pr_first r" by fastforce
    ultimately show ?thesis using assms snoc
      using canonical_snoc [of "ms @ [l]" r]
      by (auto simp: merge_inv_def merge_step_def canonical_snoc)
  next
    case True
    then show ?thesis using assms snoc l
      by (auto simp: merge_inv_def merge_step_def canonical_snoc valid_range_def ports_in_def)
  qed
qed

lemma foldl_merge_inv:
  assumes "merge_inv m lo" and "list_all valid_range rs" and "sorted (map pr_first rs)"
    and "\<forall>r \<in> set rs. lo \<le> pr_first r"
  shows "canonical (foldl merge_step m rs)
    \<and> ports_of (foldl merge_step m rs) = ports_of m \<union> ports_of rs"
  using assms
proof (induction rs arbitrary: m lo)
  case Nil
  then show ?case by (simp add: merge_inv_def)
next
  case (Cons r rs)
  have step: "merge_inv (merge_step m r) (pr_first r)"
      "ports_of (merge_step m r) = ports_of m \<union> ports_in r"
    using merge_step_inv [of m lo r] Cons.prems by auto
  show ?case using Cons.IH [OF step(1)] Cons.prems step(2) by auto
qed

lemma merge_ranges_canonical:
  assumes "list_all valid_range rs"
  shows "canonical (merge_ranges (sort_key pr_first rs))"
    and "ports_of (merge_ranges (sort_key pr_first rs)) = ports_of rs"
proof -
  have inv: "merge_inv [] 0" by (simp add: merge_inv_def)
  have valid: "list_all valid_range (sort_key pr_first rs)" using assms by (simp add: list_all_iff)
  have low: "\<forall>r \<in> set (sort_key pr_first rs). 0 \<le> pr_first r"
    using assms by (auto simp: list_all_iff valid_range_def)
  note f = foldl_merge_inv [OF inv valid sorted_sort_key low]
  show "canonical (merge_ranges (sort_key pr_first rs))"
    using f by (simp add: merge_ranges_def)
  show "ports_of (merge_ranges (sort_key pr_first rs)) = ports_of rs"
    using f by (simp add: merge_ranges_def ports_of_def)
qed

lemma parse_port_ranges_canonical: "parse_port_ranges v = Inr rs \<Longrightarrow> canonical rs"
proof (cases "trim_space v = []")
  case False
  assume "parse_port_ranges v = Inr rs"
  with False obtain out where out: "parse_tokens (split_on (CHR '','') v) = Inr out"
      and rs: "rs = merge_ranges (sort_key pr_first out)"
    by (auto simp: parse_port_ranges_def andthen_eq_Inr)
  have "list_all valid_range out"
    using out parse_token_valid unfolding parse_tokens_ok list_all_length list_all2_conv_all_nth
    by metis
  then show ?thesis using rs merge_ranges_canonical by simp
qed (simp add: parse_port_ranges_def)

subsection \<open>The canonical list is determined by its ports\<close>

lemma canonical_head:
  assumes "canonical (r # rs)"
  shows "pr_first r \<in> ports_of (r # rs)"
    and "p \<in> ports_of (r # rs) \<Longrightarrow> pr_first r \<le> p"
    and "pr_last r + 1 \<notin> ports_of (r # rs)"
    and "ports_of rs = ports_of (r # rs) - ports_in r"
    and "p \<in> ports_of rs \<Longrightarrow> pr_last r + 1 < p"
  using assms by (fastforce simp: canonical_Cons valid_range_def ports_of_def ports_in_def)+

lemma canonical_unique:
  "canonical xs \<Longrightarrow> canonical ys \<Longrightarrow> ports_of xs = ports_of ys \<Longrightarrow> xs = ys"
proof (induction xs arbitrary: ys)
  case Nil
  show ?case
  proof (cases ys)
    case (Cons y ys')
    then show ?thesis using Nil canonical_head(1) [of y ys'] by auto
  qed simp
next
  case (Cons x xs)
  then obtain y ys' where ys: "ys = y # ys'"
    using canonical_head(1) [of x xs] by (cases ys) auto
  have eq: "ports_of (x # xs) = ports_of (y # ys')" using Cons.prems ys by simp
  note hx = canonical_head [OF Cons.prems(1)] and hy = canonical_head [OF Cons.prems(2) [unfolded ys]]
  have first: "pr_first x = pr_first y"
    using hx(1) hx(2) [of "pr_first y"] hy(1) hy(2) [of "pr_first x"] eq
    by (metis order_antisym)
  have vx: "valid_range x" and vy: "valid_range y"
    using Cons.prems ys by (auto simp: canonical_Cons)
  have last: "pr_last x = pr_last y"
  proof (rule ccontr)
    assume "pr_last x \<noteq> pr_last y"
    then consider "pr_last x + 1 \<in> ports_in y" | "pr_last y + 1 \<in> ports_in x"
      using first vx vy by (fastforce simp: ports_in_def valid_range_def)
    then show False using hx(3) hy(3) eq by cases auto
  qed
  have xy: "x = y" using first last by simp
  have "ports_of xs = ports_of ys'" using hx(4) hy(4) eq xy by simp
  then have "xs = ys'" using Cons.IH Cons.prems ys by (auto simp: canonical_Cons)
  then show ?case using xy ys by simp
qed

subsection \<open>Printing and reading reread\<close>

lemma itoa_pos [simp]: "0 \<le> v \<Longrightarrow> itoa v = dec_of (nat v)"
  by (simp add: itoa_def)

lemma itoa_range_ends:
  assumes "valid_range r"
  shows "CHR '','' \<notin> set (format_range r)" and "solid_ends (format_range r)"
  using assms dec_of_solid_ends [of "nat (pr_first r)"] dec_of_solid_ends [of "nat (pr_last r)"]
  by (auto simp: format_range_def valid_range_def dec_of_free solid_ends_def)

lemma parse_format_range:
  assumes v: "valid_range r" and t: "t = format_range r \<or> t = CHR '' '' # format_range r"
  shows "parse_token t = Inr r"
proof -
  have tr: "trim_space t = format_range r" using t itoa_range_ends(2) [OF v] by auto
  have dash: "CHR ''-'' \<notin> set (dec_of n)" for n by (simp add: dec_of_free)
  have nf: "nat (pr_first r) < 2 ^ 63" "nat (pr_last r) < 2 ^ 63"
    using v by (auto simp: valid_range_def)
  show ?thesis
  proof (cases "pr_last r = pr_first r")
    case True
    then have sp: "split_on (CHR ''-'') (trim_space t) = [dec_of (nat (pr_first r))]"
      using v tr dash by (simp add: format_range_def split_on_free valid_range_def)
    show ?thesis
      using v nf True by (simp add: parse_token_def sp valid_range_def)
  next
    case False
    then have sp: "split_on (CHR ''-'') (trim_space t) =
        [dec_of (nat (pr_first r)), dec_of (nat (pr_last r))]"
      using v tr dash by (simp add: format_range_def split_on_append split_on_free valid_range_def)
    show ?thesis
      using v nf by (simp add: parse_token_def sp valid_range_def)
  qed
qed

lemma parse_format_list:
  assumes "list_all valid_range rs" and "rs \<noteq> []"
  shows "parse_tokens (split_on (CHR '','') (format_port_ranges rs)) = Inr rs"
proof -
  have "split_on (CHR '','') (format_port_ranges rs) =
      hd (map format_range rs) # map (\<lambda>p. '' '' @ p) (tl (map format_range rs))"
    unfolding format_port_ranges_def using assms
    by (intro split_on_join) (auto simp: list_all_iff itoa_range_ends)
  moreover have "parse_tokens (map (\<lambda>r. CHR '' '' # format_range r) (tl rs)) = Inr (tl rs)"
    using assms
    by (cases rs) (auto simp: parse_tokens_ok parse_format_range list_all_iff list_all2_conv_all_nth)
  moreover have "parse_token (format_range (hd rs)) = Inr (hd rs)"
    using assms by (cases rs) (auto simp: parse_format_range)
  ultimately show ?thesis using assms by (cases rs) (auto simp: comp_def)
qed

lemma join_solid_ends:
  "xs \<noteq> [] \<Longrightarrow> \<forall>x \<in> set xs. solid_ends x \<Longrightarrow> solid_ends (join sep xs)"
  by (induction xs rule: induct_list012) (auto simp: solid_ends_def)

lemma format_solid_ends:
  assumes "list_all valid_range rs" and "rs \<noteq> []"
  shows "solid_ends (format_port_ranges rs)"
  unfolding format_port_ranges_def using assms
  by (intro join_solid_ends) (auto simp: list_all_iff itoa_range_ends)

lemma parse_format_ports:
  assumes "list_all valid_range rs"
  shows "parse_port_ranges (format_port_ranges rs) = Inr (merge_ranges (sort_key pr_first rs))"
proof (cases "rs = []")
  case True
  then show ?thesis
    by (simp add: parse_port_ranges_def format_port_ranges_def merge_ranges_def)
next
  case False
  have "trim_space (format_port_ranges rs) \<noteq> []"
    using format_solid_ends [OF assms False] by (simp add: solid_ends_def)
  then show ?thesis using parse_format_list [OF assms False] by (simp add: parse_port_ranges_def)
qed

lemma parse_format_canonical:
  assumes "canonical rs"
  shows "parse_port_ranges (format_port_ranges rs) = Inr rs"
proof -
  have v: "list_all valid_range rs" using assms by (simp add: canonical_def)
  have "merge_ranges (sort_key pr_first rs) = rs"
    using canonical_unique [OF merge_ranges_canonical(1) [OF v] assms]
      merge_ranges_canonical(2) [OF v] by simp
  then show ?thesis using parse_format_ports [OF v] by simp
qed


subsection \<open>Properties\<close>

text \<open>
  C27: a port list that parses is left in canonical form (valid ranges in increasing order
  that neither overlap nor touch), and it holds exactly the ports of the ranges the
  comma-separated tokens denote.
\<close>

theorem parse_port_ranges_correct:
  assumes "parse_port_ranges v = Inr rs"
  shows "canonical rs \<and>
    (trim_space v \<noteq> [] \<longrightarrow>
       (\<forall>p. p \<in> ports_of rs \<longleftrightarrow>
         (\<exists>t \<in> set (split_on (CHR '','') v). \<exists>r. parse_token t = Inr r \<and> p \<in> ports_in r)))"
proof (intro conjI impI)
  show "canonical rs" using assms by (rule parse_port_ranges_canonical)
  assume "trim_space v \<noteq> []"
  with assms obtain out where out: "list_all2 (\<lambda>t r. parse_token t = Inr r) (split_on (CHR '','') v) out"
      and rs: "rs = merge_ranges (sort_key pr_first out)"
    by (auto simp: parse_port_ranges_def andthen_eq_Inr parse_tokens_ok)
  have "list_all valid_range out"
    using out parse_token_valid unfolding list_all_length list_all2_conv_all_nth by metis
  then have "ports_of rs = ports_of out" using rs merge_ranges_canonical(2) by simp
  then show "\<forall>p. p \<in> ports_of rs \<longleftrightarrow>
      (\<exists>t \<in> set (split_on (CHR '','') v). \<exists>r. parse_token t = Inr r \<and> p \<in> ports_in r)"
    using out by (fastforce simp: ports_of_def list_all2_conv_all_nth in_set_conv_nth)
qed

theorem parse_port_ranges_correct_witness:
  "canonical [\<lparr>pr_first = 80, pr_last = 90\<rparr>]"
proof -
  have "parse_port_ranges ''80-85,86 - 90'' = Inr [\<lparr>pr_first = 80, pr_last = 90\<rparr>]"
    by code_simp
  from parse_port_ranges_correct [OF this] show ?thesis by simp
qed

text \<open>
  C28: the canonical text decides port sets. Two lists normalise to one text exactly when
  they denote one set of ports, and normalising a normalised text changes nothing, so the
  text is safe to store and to compare.
\<close>

theorem normalize_canonical_text:
  assumes "parse_port_ranges v = Inr rs" and "parse_port_ranges w = Inr ss"
  shows "(normalize_destination_ports v = normalize_destination_ports w
            \<longleftrightarrow> ports_of rs = ports_of ss)
    \<and> normalize_destination_ports (format_port_ranges rs) = normalize_destination_ports v"
proof -
  have c: "canonical rs" "canonical ss" using assms parse_port_ranges_canonical by auto
  have reread: "parse_port_ranges (format_port_ranges rs) = Inr rs"
      "parse_port_ranges (format_port_ranges ss) = Inr ss"
    using c parse_format_canonical by auto
  have "format_port_ranges rs = format_port_ranges ss \<longleftrightarrow> rs = ss"
    using reread by (metis sum.inject(2))
  then show ?thesis
    using assms reread canonical_unique [OF c] by (auto simp: normalize_destination_ports_def)
qed

theorem normalize_canonical_text_witness:
  "normalize_destination_ports ''443, 80-82, 81-90'' = normalize_destination_ports ''80 - 90,443''"
proof -
  have v: "parse_port_ranges ''443, 80-82, 81-90'' =
      Inr [\<lparr>pr_first = 80, pr_last = 90\<rparr>, \<lparr>pr_first = 443, pr_last = 443\<rparr>]" by code_simp
  have w: "parse_port_ranges ''80 - 90,443'' =
      Inr [\<lparr>pr_first = 80, pr_last = 90\<rparr>, \<lparr>pr_first = 443, pr_last = 443\<rparr>]" by code_simp
  from normalize_canonical_text [OF v w] show ?thesis by simp
qed

lemma range_overlap_ports: "ports_of (range_overlap x y) = ports_in x \<inter> ports_in y"
  by (auto simp: range_overlap_def Let_def ports_in_def)

lemma ports_of_concat: "ports_of (concat rss) = (\<Union>rs \<in> set rss. ports_of rs)"
  by (auto simp: ports_of_def)

lemma intersect_ranges_ports: "ports_of (intersect_ranges ar br) = ports_of ar \<inter> ports_of br"
  by (auto simp: intersect_ranges_def ports_of_concat range_overlap_ports)
    (auto simp: ports_of_def)

lemma intersect_ranges_valid:
  assumes "list_all valid_range ar" and "list_all valid_range br"
  shows "list_all valid_range (intersect_ranges ar br)"
  using assms
  by (auto simp: intersect_ranges_def range_overlap_def list_all_iff valid_range_def Let_def)

lemma valid_ports_nonempty: "list_all valid_range rs \<Longrightarrow> ports_of rs = {} \<longleftrightarrow> rs = []"
  by (cases rs) (auto simp: valid_range_def ports_in_def)

text \<open>
  C29: intersecting two port lists. An empty list stands for every port. When both lists
  name ports, the answer is positive exactly when they share a port, and the text that
  comes reread denotes the shared ports.
\<close>

theorem intersect_destination_ports_correct:
  assumes "parse_port_ranges a = Inr ar" and "parse_port_ranges b = Inr br"
  shows "(ar = [] \<longrightarrow> intersect_destination_ports a b = (format_port_ranges br, True))
    \<and> (br = [] \<longrightarrow> intersect_destination_ports a b = (format_port_ranges ar, True))
    \<and> (ar \<noteq> [] \<and> br \<noteq> [] \<longrightarrow>
         (snd (intersect_destination_ports a b) \<longleftrightarrow> ports_of ar \<inter> ports_of br \<noteq> {})
         \<and> (\<exists>rs. parse_port_ranges (fst (intersect_destination_ports a b)) = Inr rs
              \<and> ports_of rs = ports_of ar \<inter> ports_of br))"
proof (intro conjI impI)
  have v: "list_all valid_range ar" "list_all valid_range br"
    using assms parse_port_ranges_canonical canonical_def by auto
  note vld = intersect_ranges_valid [OF v]
  show "ar = [] \<Longrightarrow> intersect_destination_ports a b = (format_port_ranges br, True)"
    using assms by (simp add: intersect_destination_ports_def)
  show "br = [] \<Longrightarrow> intersect_destination_ports a b = (format_port_ranges ar, True)"
    using assms by (simp add: intersect_destination_ports_def)
  assume ne: "ar \<noteq> [] \<and> br \<noteq> []"
  then have eq: "intersect_destination_ports a b =
      (format_port_ranges (intersect_ranges ar br), intersect_ranges ar br \<noteq> [])"
    using assms by (simp add: intersect_destination_ports_def Let_def)
  show "snd (intersect_destination_ports a b) \<longleftrightarrow> ports_of ar \<inter> ports_of br \<noteq> {}"
    using eq valid_ports_nonempty [OF vld] intersect_ranges_ports by simp
  show "\<exists>rs. parse_port_ranges (fst (intersect_destination_ports a b)) = Inr rs
      \<and> ports_of rs = ports_of ar \<inter> ports_of br"
    using eq parse_format_ports [OF vld] merge_ranges_canonical(2) [OF vld] intersect_ranges_ports
    by simp
qed

theorem intersect_destination_ports_correct_witness:
  "snd (intersect_destination_ports ''80-90'' ''85, 100'')"
proof -
  have a: "parse_port_ranges ''80-90'' = Inr [\<lparr>pr_first = 80, pr_last = 90\<rparr>]" by code_simp
  have b: "parse_port_ranges ''85, 100'' =
      Inr [\<lparr>pr_first = 85, pr_last = 85\<rparr>, \<lparr>pr_first = 100, pr_last = 100\<rparr>]" by code_simp
  have "(85 :: int) \<in> ports_of [\<lparr>pr_first = 80, pr_last = 90\<rparr>] \<inter>
      ports_of [\<lparr>pr_first = 85, pr_last = 85\<rparr>, \<lparr>pr_first = 100, pr_last = 100\<rparr>]"
    by (simp add: ports_of_def ports_in_def)
  with intersect_destination_ports_correct [OF a b] show ?thesis by blast
qed

end
