(* ===== verification/Mrs_Trie.thy ===== *)
theory Mrs_Trie
  imports Prelude
begin

unbundle bit_operations_syntax

section \<open>The succinct domain trie of an MRS rule set\<close>

text \<open>
  \<open>internal/rules/parse_mrs.go\<close> and \<open>internal/rules/domainset.go\<close>: the bitmap trie of
  reversed domain names, its rank and select tables, the depth-first walk that expands it,
  and the lookup that answers a domain query on the bitmaps without expanding them.

  Indexes and node numbers are \<^typ>\<open>nat\<close>; where the code returns the index \<open>-1\<close> the
  model returns \<^term>\<open>None\<close>. \<open>walk\<close> takes the levels it may still descend instead of the
  depth reached (1025 at the root, one less per level), so that the depth limit of 1024 is
  also its termination argument. The visitor is a function on an explicit state; it says
  whether to descend. Errors carry no text.
\<close>

record mrs_trie =
  leaves :: "64 word list"
  label_bitmap :: "64 word list"
  labels :: bytes

datatype walk_error = Depth_limit | Bad_bitmap_index | Bad_label_index

definition bit_at :: "64 word list \<Rightarrow> nat \<Rightarrow> bool" where
  "bit_at bm i \<longleftrightarrow>
     drop_bit 6 i < length bm \<and> (bm ! drop_bit 6 i) AND push_bit (i AND 63) 1 \<noteq> 0"

definition set_bit_at :: "64 word list \<Rightarrow> nat \<Rightarrow> 64 word list" where
  "set_bit_at bm i =
     (if drop_bit 6 i \<ge> length bm then bm
      else bm[drop_bit 6 i := (bm ! drop_bit 6 i) OR push_bit (i AND 63) 1])"

record rank_select =
  prefix_ones :: "nat list"
  ones_positions :: "nat list"
  bits_len :: nat

definition rank_step :: "64 word list \<Rightarrow> nat list \<times> nat list \<Rightarrow> nat \<Rightarrow> nat list \<times> nat list" where
  "rank_step bm acc i =
     (let (prefix, ones) = acc
      in if bit_at bm i then (prefix @ [last prefix + 1], ones @ [i])
         else (prefix @ [last prefix], ones))"

definition build_rank_select :: "mrs_trie \<Rightarrow> rank_select" where
  "build_rank_select t =
     (let n = length (label_bitmap t) * 64;
          (prefix, ones) = foldl (rank_step (label_bitmap t)) ([0], []) [0..<n]
      in \<lparr>prefix_ones = prefix, ones_positions = ones, bits_len = n\<rparr>)"

definition count_zeros :: "rank_select \<Rightarrow> nat \<Rightarrow> nat" where
  "count_zeros rs n =
     (let m = (if n > bits_len rs then bits_len rs else n) in m - prefix_ones rs ! m)"

definition select_one :: "rank_select \<Rightarrow> nat \<Rightarrow> nat option" where
  "select_one rs i = (if i \<ge> length (ones_positions rs) then None else Some (ones_positions rs ! i))"

definition node_bm_start :: "rank_select \<Rightarrow> nat \<Rightarrow> nat option" where
  "node_bm_start rs n =
     (if n = 0 then Some 0 else map_option Suc (select_one rs (n - 1)))"

subsection \<open>The depth-first walk\<close>

definition next_bm :: "rank_select \<Rightarrow> nat \<Rightarrow> nat" where
  "next_bm rs n =
     (if n = 0 then 0 else case select_one rs (n - 1) of None \<Rightarrow> 0 | Some p \<Rightarrow> p + 1)"

function walk :: "mrs_trie \<Rightarrow> rank_select \<Rightarrow> ('s \<Rightarrow> nat \<Rightarrow> bytes \<Rightarrow> 's \<times> bool) \<Rightarrow> nat
    \<Rightarrow> nat \<Rightarrow> nat \<Rightarrow> bytes \<Rightarrow> 's \<Rightarrow> 's \<times> walk_error option"
  and walk_children :: "mrs_trie \<Rightarrow> rank_select \<Rightarrow> ('s \<Rightarrow> nat \<Rightarrow> bytes \<Rightarrow> 's \<times> bool) \<Rightarrow> nat
    \<Rightarrow> nat \<Rightarrow> nat \<Rightarrow> bytes \<Rightarrow> 's \<Rightarrow> 's \<times> walk_error option"
  where
    "walk t rs visit levels node bm cur s =
       (if levels = 0 then (s, Some Depth_limit)
        else if bm \<ge> bits_len rs then (s, Some Bad_bitmap_index)
        else (case visit s node cur of (s', descend) \<Rightarrow>
          if \<not> descend then (s', None)
          else walk_children t rs visit (levels - 1) node bm cur s'))"
  | "walk_children t rs visit levels node bm cur s =
       (if bit_at (label_bitmap t) bm then (s, None)
        else if bm < node \<or> bm - node \<ge> length (labels t) then (s, Some Bad_label_index)
        else (let child = count_zeros rs (bm + 1)
              in case walk t rs visit levels child (next_bm rs child)
                        (cur @ [labels t ! (bm - node)]) s of
                   (s', Some e) \<Rightarrow> (s', Some e)
                 | (s', None) \<Rightarrow> walk_children t rs visit levels node (bm + 1) cur s'))"
  by pat_completeness auto
termination
  by (relation "measures
      [case_sum (\<lambda>(t, rs, visit, levels, rest). 2 * levels)
         (\<lambda>(t, rs, visit, levels, rest). 2 * levels + 1),
       case_sum (\<lambda>_. 0) (\<lambda>(t, rs, visit, levels, node, bm, rest). node + length (labels t) - bm)]")
    auto

declare walk.simps [simp del] walk_children.simps [simp del]

definition walk_mrs_trie ::
    "mrs_trie \<Rightarrow> ('s \<Rightarrow> nat \<Rightarrow> bytes \<Rightarrow> 's \<times> bool) \<Rightarrow> 's \<Rightarrow> 's \<times> walk_error option" where
  "walk_mrs_trie t visit s = walk t (build_rank_select t) visit 1025 0 0 [] s"

definition collect_domain :: "mrs_trie \<Rightarrow> string list \<Rightarrow> nat \<Rightarrow> bytes \<Rightarrow> string list \<times> bool" where
  "collect_domain t out node cur =
     ((if bit_at (leaves t) node then out @ [rev cur] else out), True)"

text \<open>The names of the set, in walk order, or the error that stopped the walk.\<close>

definition trie_domains :: "mrs_trie \<Rightarrow> walk_error + string list" where
  "trie_domains t =
     (case walk_mrs_trie t (collect_domain t) [] of
        (out, None) \<Rightarrow> Inr out
      | (out, Some e) \<Rightarrow> Inl e)"

subsection \<open>Lookup on the bitmaps\<close>

function find_child :: "mrs_trie \<Rightarrow> rank_select \<Rightarrow> nat \<Rightarrow> nat \<Rightarrow> char \<Rightarrow> (nat \<times> nat option) option" where
  "find_child t rs parent bm target =
     (if bm \<ge> bits_len rs then None
      else if bit_at (label_bitmap t) bm then None
      else if bm < parent \<or> bm - parent \<ge> length (labels t) then None
      else if labels t ! (bm - parent) = target
        then (let child = count_zeros rs (bm + 1) in Some (child, node_bm_start rs child))
      else find_child t rs parent (bm + 1) target)"
  by pat_completeness auto
termination
  by (relation "measure (\<lambda>(t, rs, parent, bm, target). bits_len rs - bm)") auto

declare find_child.simps [simp del]

definition find_child_label ::
    "mrs_trie \<Rightarrow> rank_select \<Rightarrow> nat \<times> nat option \<Rightarrow> char \<Rightarrow> (nat \<times> nat option) option" where
  "find_child_label t rs st target =
     (case snd st of None \<Rightarrow> None | Some bm \<Rightarrow> find_child t rs (fst st) bm target)"

definition wildcard_leaf :: "mrs_trie \<Rightarrow> rank_select \<Rightarrow> nat \<Rightarrow> bool" where
  "wildcard_leaf t rs node =
     (case find_child_label t rs (node, node_bm_start rs node) (CHR ''.'') of
        None \<Rightarrow> False
      | Some c1 \<Rightarrow>
          (case find_child_label t rs c1 (CHR ''+'') of
             None \<Rightarrow> False
           | Some c2 \<Rightarrow>
               (case find_child_label t rs c2 (CHR ''.'') of
                  None \<Rightarrow> False
                | Some c3 \<Rightarrow> bit_at (leaves t) (fst c3))))"

definition mark_leaf ::
    "mrs_trie \<Rightarrow> rank_select \<Rightarrow> 64 word list \<Rightarrow> nat \<Rightarrow> bytes \<Rightarrow> 64 word list \<times> bool" where
  "mark_leaf t rs out node cur =
     ((if bit_at (leaves t) node \<or> wildcard_leaf t rs node then set_bit_at out node else out), True)"

definition build_compact_leaves :: "mrs_trie \<Rightarrow> rank_select \<Rightarrow> 64 word list" where
  "build_compact_leaves t rs =
     (let max_nodes = max 1 (1 + (bits_len rs - length (ones_positions rs)))
      in fst (walk_mrs_trie t (mark_leaf t rs) (replicate ((max_nodes + 63) div 64) 0)))"

record domain_set =
  ds_name :: string
  ds_trie :: mrs_trie
  ds_rank :: rank_select
  compact_leaves :: "64 word list"

definition make_domain_set :: "string \<Rightarrow> mrs_trie \<Rightarrow> domain_set" where
  "make_domain_set nm t =
     (let rs = build_rank_select t
      in \<lparr>ds_name = nm, ds_trie = t, ds_rank = rs, compact_leaves = build_compact_leaves t rs\<rparr>)"

fun lookup_from :: "domain_set \<Rightarrow> bytes \<Rightarrow> nat \<times> nat option \<Rightarrow> bytes \<Rightarrow> string option" where
  "lookup_from d taken st [] = None"
| "lookup_from d taken st (c # cs) =
     (case find_child_label (ds_trie d) (ds_rank d) st c of
        None \<Rightarrow> None
      | Some st' \<Rightarrow>
          if bit_at (compact_leaves d) (fst st') \<and> (cs = [] \<or> hd cs = CHR ''.'')
          then Some (rev (taken @ [c]))
          else lookup_from d (taken @ [c]) st' cs)"

definition ds_lookup :: "domain_set \<Rightarrow> string \<Rightarrow> string option" where
  "ds_lookup d domain =
     (if domain = [] then None
      else let name = trim_suffix domain ''.''
        in if name = [] then None
           else if bit_at (compact_leaves d) 0 then Some []
           else lookup_from d [] (0, Some 0) (rev name))"

end
