(* ===== verification/Mrs_Lookup.thy ===== *)
theory Mrs_Lookup
  imports Mrs_Trie
begin

section \<open>Lookup on the succinct trie\<close>

text \<open>
  What a lookup on the bitmaps answers, against the names the walk expands. The rank and
  select tables are related to the bits they count; the walk visits the paths that following
  one label after the other reaches; a lookup finds the shortest covering name.
\<close>

subsection \<open>Rank and select\<close>

lemma and_63: "i AND 63 = i mod (64 :: nat)"
  using take_bit_eq_mask [of 6 i] by (simp add: take_bit_eq_mod mask_eq_exp_minus_1)

lemma bit_at_iff: "bit_at bm i \<longleftrightarrow> i div 64 < length bm \<and> bit (bm ! (i div 64)) (i mod 64)"
  by (simp add: bit_at_def drop_bit_eq_div bit_iff_and_push_bit_not_eq_0 and_63)

lemma bit_at_bound: "bit_at bm i \<Longrightarrow> i < length bm * 64"
  by (auto simp: bit_at_iff div_less_iff_less_mult)

lemma bit_at_set:
  assumes "i div 64 < length bm"
  shows "bit_at (set_bit_at bm i) j \<longleftrightarrow> j = i \<or> bit_at bm j"
proof -
  have s: "set_bit_at bm i = bm[i div 64 := bm ! (i div 64) OR push_bit (i mod 64) 1]"
    using assms by (simp add: set_bit_at_def drop_bit_eq_div and_63)
  have b: "bit (2 ^ (i mod 64) :: 64 word) k \<longleftrightarrow> k = i mod 64" for k
    by (auto simp: bit_exp_iff)
  show ?thesis
  proof (cases "j div 64 = i div 64")
    case True
    then have "j mod 64 = i mod 64 \<longleftrightarrow> j = i" by (metis div_mult_mod_eq)
    then show ?thesis using assms True by (simp add: bit_at_iff s bit_or_iff b disj_commute)
  next
    case False
    then have "j \<noteq> i" by auto
    then show ?thesis using False by (simp add: bit_at_iff s)
  qed
qed

definition ones_before :: "64 word list \<Rightarrow> nat \<Rightarrow> nat" where
  "ones_before bm n = length (filter (bit_at bm) [0..<n])"

lemma ones_before_Suc:
  "ones_before bm (Suc n) = ones_before bm n + (if bit_at bm n then 1 else 0)"
  by (simp add: ones_before_def)

lemma ones_before_le: "ones_before bm n \<le> n"
  unfolding ones_before_def using length_filter_le [of "bit_at bm" "[0..<n]"] by simp

lemma rank_fold:
  "foldl (rank_step bm) ([0], []) [0..<n] =
     (map (ones_before bm) [0..<Suc n], filter (bit_at bm) [0..<n])"
  by (induction n) (auto simp: rank_step_def ones_before_Suc, simp_all add: ones_before_def)

lemma build_rank_select_simps [simp]:
  "bits_len (build_rank_select t) = length (label_bitmap t) * 64"
  "ones_positions (build_rank_select t) =
     filter (bit_at (label_bitmap t)) [0..<length (label_bitmap t) * 64]"
  "n \<le> length (label_bitmap t) * 64 \<Longrightarrow>
     prefix_ones (build_rank_select t) ! n = ones_before (label_bitmap t) n"
  by (simp_all add: build_rank_select_def rank_fold Let_def del: upt_Suc)

lemma count_zeros_eq:
  "n \<le> length (label_bitmap t) * 64 \<Longrightarrow>
     count_zeros (build_rank_select t) n = n - ones_before (label_bitmap t) n"
  by (simp add: count_zeros_def Let_def)

lemma zeros_mono: "m \<le> n \<Longrightarrow> m - ones_before bm m \<le> n - ones_before bm n"
proof (induction n)
  case (Suc n)
  then show ?case using ones_before_le [of bm n]
    by (cases "m = Suc n") (auto simp: ones_before_Suc)
qed simp

lemma count_zeros_le:
  "count_zeros (build_rank_select t) n \<le>
     bits_len (build_rank_select t) - length (ones_positions (build_rank_select t))"
proof -
  let ?N = "length (label_bitmap t) * 64"
  have "length (ones_positions (build_rank_select t)) = ones_before (label_bitmap t) ?N"
    by (simp add: ones_before_def)
  then show ?thesis
    using zeros_mono [of "min n ?N" ?N "label_bitmap t"]
    by (auto simp: count_zeros_def Let_def min_def split: if_splits)
qed

lemma count_zeros_pos:
  assumes "\<not> bit_at (label_bitmap t) bm" and "bm < length (label_bitmap t) * 64"
  shows "0 < count_zeros (build_rank_select t) (bm + 1)"
  using assms ones_before_le [of "label_bitmap t" bm]
  by (simp add: count_zeros_eq ones_before_Suc)


subsection \<open>What the walk visits\<close>

function visits :: "mrs_trie \<Rightarrow> rank_select \<Rightarrow> nat \<Rightarrow> nat \<Rightarrow> nat \<Rightarrow> bytes
    \<Rightarrow> (nat \<times> bytes) list \<times> walk_error option"
  and visits_children :: "mrs_trie \<Rightarrow> rank_select \<Rightarrow> nat \<Rightarrow> nat \<Rightarrow> nat \<Rightarrow> bytes
    \<Rightarrow> (nat \<times> bytes) list \<times> walk_error option"
  where
    "visits t rs levels node bm cur =
       (if levels = 0 then ([], Some Depth_limit)
        else if bm \<ge> bits_len rs then ([], Some Bad_bitmap_index)
        else (case visits_children t rs (levels - 1) node bm cur of
           (l, e) \<Rightarrow> ((node, cur) # l, e)))"
  | "visits_children t rs levels node bm cur =
       (if bit_at (label_bitmap t) bm then ([], None)
        else if bm < node \<or> bm - node \<ge> length (labels t) then ([], Some Bad_label_index)
        else (let child = count_zeros rs (bm + 1)
              in case visits t rs levels child (next_bm rs child)
                        (cur @ [labels t ! (bm - node)]) of
                   (l, Some e) \<Rightarrow> (l, Some e)
                 | (l, None) \<Rightarrow>
                    (case visits_children t rs levels node (bm + 1) cur of (l', e) \<Rightarrow> (l @ l', e))))"
  by pat_completeness auto
termination
  by (relation "measures
      [case_sum (\<lambda>(t, rs, levels, rest). 2 * levels)
         (\<lambda>(t, rs, levels, rest). 2 * levels + 1),
       case_sum (\<lambda>_. 0) (\<lambda>(t, rs, levels, node, bm, rest). node + length (labels t) - bm)]")
    auto

declare visits.simps [simp del] visits_children.simps [simp del]

lemma walk_visits:
  "walk t rs (\<lambda>s n c. (f s n c, True)) levels node bm cur s =
     (foldl (\<lambda>s (n, c). f s n c) s (fst (visits t rs levels node bm cur)),
      snd (visits t rs levels node bm cur))"
  "walk_children t rs (\<lambda>s n c. (f s n c, True)) levels node bm cur s =
     (foldl (\<lambda>s (n, c). f s n c) s (fst (visits_children t rs levels node bm cur)),
      snd (visits_children t rs levels node bm cur))"
proof (induction t rs levels node bm cur and t rs levels node bm cur arbitrary: s and s
    rule: visits_visits_children.induct)
  case (1 t rs levels node bm cur)
  then show ?case
    by (simp add: walk.simps [of t rs _ levels] visits.simps [of t rs levels] split: prod.splits)
next
  case (2 t rs levels node bm cur)
  then show ?case
    by (simp add: walk_children.simps [of t rs _ levels node bm]
        visits_children.simps [of t rs levels node bm] Let_def split: prod.splits option.splits)
qed

fun follow :: "mrs_trie \<Rightarrow> rank_select \<Rightarrow> nat \<times> nat option \<Rightarrow> bytes \<Rightarrow> (nat \<times> nat option) option" where
  "follow t rs st [] = Some st"
| "follow t rs st (c # cs) =
     (case find_child_label t rs st c of None \<Rightarrow> None | Some st' \<Rightarrow> follow t rs st' cs)"

lemma follow_append:
  "follow t rs st (xs @ ys) =
     (case follow t rs st xs of None \<Rightarrow> None | Some st' \<Rightarrow> follow t rs st' ys)"
  by (induction xs arbitrary: st) (auto split: option.splits)

definition follow_ext ::
    "mrs_trie \<Rightarrow> rank_select \<Rightarrow> nat \<Rightarrow> nat \<Rightarrow> bytes \<Rightarrow> (nat \<times> bytes) set" where
  "follow_ext t rs node bm cur =
     {(n, cs). \<exists>c q b. cs = cur @ c # q \<and> follow t rs (node, Some bm) (c # q) = Some (n, b)}"

definition follow_all ::
    "mrs_trie \<Rightarrow> rank_select \<Rightarrow> nat \<Rightarrow> nat \<Rightarrow> bytes \<Rightarrow> (nat \<times> bytes) set" where
  "follow_all t rs node bm cur =
     {(n, cs). \<exists>q b. cs = cur @ q \<and> follow t rs (node, Some bm) q = Some (n, b)}"

lemma follow_all_insert:
  "follow_all t rs node bm cur = insert (node, cur) (follow_ext t rs node bm cur)"
proof -
  have "(n, cs) \<in> follow_all t rs node bm cur \<longleftrightarrow>
      (n, cs) = (node, cur) \<or> (n, cs) \<in> follow_ext t rs node bm cur" for n cs
  proof
    assume "(n, cs) \<in> follow_all t rs node bm cur"
    then obtain q b where "cs = cur @ q" "follow t rs (node, Some bm) q = Some (n, b)"
      by (auto simp: follow_all_def)
    then show "(n, cs) = (node, cur) \<or> (n, cs) \<in> follow_ext t rs node bm cur"
      by (cases q) (auto simp: follow_ext_def)
  next
    assume "(n, cs) = (node, cur) \<or> (n, cs) \<in> follow_ext t rs node bm cur"
    then show "(n, cs) \<in> follow_all t rs node bm cur"
      unfolding follow_all_def follow_ext_def
      by (auto intro: exI [of _ "[]"])
  qed
  then show ?thesis by auto
qed

lemma find_child_shift:
  assumes "bm < bits_len rs" and "\<not> bit_at (label_bitmap t) bm" and "node \<le> bm"
    and "bm - node < length (labels t)" and "labels t ! (bm - node) \<noteq> c"
  shows "find_child t rs node bm c = find_child t rs node (bm + 1) c"
  using assms by (simp add: find_child.simps [of t rs node bm])

lemma find_child_here:
  assumes "bm < bits_len rs" and "\<not> bit_at (label_bitmap t) bm" and "node \<le> bm"
    and "bm - node < length (labels t)"
  shows "find_child t rs node bm (labels t ! (bm - node)) =
    Some (count_zeros rs (bm + 1), node_bm_start rs (count_zeros rs (bm + 1)))"
  using assms by (simp add: find_child.simps [of t rs node bm] Let_def)


lemma follow_ext_step:
  assumes "bm < bits_len rs" and "\<not> bit_at (label_bitmap t) bm" and "node \<le> bm"
    and "bm - node < length (labels t)"
    and start: "node_bm_start rs (count_zeros rs (bm + 1)) = Some nbm"
    and none: "find_child t rs node (bm + 1) (labels t ! (bm - node)) = None"
  shows "follow_ext t rs node bm cur =
    follow_all t rs (count_zeros rs (bm + 1)) nbm (cur @ [labels t ! (bm - node)])
    \<union> follow_ext t rs node (bm + 1) cur"
proof -
  let ?l = "labels t ! (bm - node)" and ?child = "count_zeros rs (bm + 1)"
  have here: "follow t rs (node, Some bm) (?l # q) = follow t rs (?child, Some nbm) q" for q
    using find_child_here [OF assms(1-4)] start by (simp add: find_child_label_def)
  have other: "follow t rs (node, Some bm) (c # q) = follow t rs (node, Some (bm + 1)) (c # q)"
    if "c \<noteq> ?l" for c q
    using find_child_shift [OF assms(1-4)] that by (auto simp: find_child_label_def)
  have blocked: "follow t rs (node, Some (bm + 1)) (?l # q) = None" for q
    using none by (simp add: find_child_label_def)
  have "(n, cs) \<in> follow_ext t rs node bm cur \<longleftrightarrow>
      (n, cs) \<in> follow_all t rs ?child nbm (cur @ [?l]) \<or> (n, cs) \<in> follow_ext t rs node (bm + 1) cur"
    for n cs
  proof
    assume "(n, cs) \<in> follow_ext t rs node bm cur"
    then obtain c q b where q: "cs = cur @ c # q" "follow t rs (node, Some bm) (c # q) = Some (n, b)"
      by (auto simp: follow_ext_def)
    show "(n, cs) \<in> follow_all t rs ?child nbm (cur @ [?l]) \<or> (n, cs) \<in> follow_ext t rs node (bm + 1) cur"
    proof (cases "c = ?l")
      case True
      then have "cs = (cur @ [?l]) @ q" "follow t rs (?child, Some nbm) q = Some (n, b)"
        using q here [of q] by simp_all
      then have "(n, cs) \<in> follow_all t rs ?child nbm (cur @ [?l])"
        unfolding follow_all_def by blast
      then show ?thesis ..
    next
      case False
      then have "(n, cs) \<in> follow_ext t rs node (bm + 1) cur"
        using q other [OF False, of q] by (simp only: follow_ext_def) blast
      then show ?thesis ..
    qed
  next
    assume "(n, cs) \<in> follow_all t rs ?child nbm (cur @ [?l]) \<or> (n, cs) \<in> follow_ext t rs node (bm + 1) cur"
    then consider q b where "cs = cur @ ?l # q" "follow t rs (?child, Some nbm) q = Some (n, b)"
      | c q b where "cs = cur @ c # q" "follow t rs (node, Some (bm + 1)) (c # q) = Some (n, b)"
      by (auto simp: follow_all_def follow_ext_def simp del: follow.simps)
    then show "(n, cs) \<in> follow_ext t rs node bm cur"
    proof cases
      case 1
      then have "follow t rs (node, Some bm) (?l # q) = Some (n, b)" using here by simp
      then show ?thesis using 1(1) unfolding follow_ext_def by blast
    next
      case 2
      then have "c \<noteq> ?l" using blocked by auto
      then have "follow t rs (node, Some bm) (c # q) = Some (n, b)" using other 2 by metis
      then show ?thesis using 2(1) unfolding follow_ext_def by blast
    qed
  qed
  then show ?thesis by auto
qed

lemma node_start_of_visit:
  assumes "snd (visits t rs levels child (next_bm rs child) cur) = None"
    and "\<not> bit_at (label_bitmap t) 0" and "0 < child"
  shows "node_bm_start rs child = Some (next_bm rs child)"
proof (cases "select_one rs (child - 1)")
  case None
  then have "next_bm rs child = 0" by (simp add: next_bm_def)
  then have "snd (visits t rs levels child (next_bm rs child) cur) \<noteq> None"
    using assms(2,3)
    by (auto simp: visits.simps [of t rs levels]
        visits_children.simps [of t rs "levels - Suc 0" child 0] split: prod.splits)
  then show ?thesis using assms(1) by simp
next
  case (Some p)
  then show ?thesis using assms(3) by (simp add: next_bm_def node_bm_start_def)
qed

lemma visits_follow:
  assumes root: "\<not> bit_at (label_bitmap t) 0"
  shows "snd (visits t rs levels node bm cur) = None \<Longrightarrow> rs = build_rank_select t \<Longrightarrow>
      distinct (map snd (fst (visits t rs levels node bm cur))) \<Longrightarrow>
      set (fst (visits t rs levels node bm cur)) = follow_all t rs node bm cur"
    and "snd (visits_children t rs levels node bm cur) = None \<Longrightarrow> rs = build_rank_select t \<Longrightarrow>
      distinct (map snd (fst (visits_children t rs levels node bm cur))) \<Longrightarrow>
      bm < bits_len rs \<and>
      set (fst (visits_children t rs levels node bm cur)) = follow_ext t rs node bm cur"
  using root
proof (induction t rs levels node bm cur and t rs levels node bm cur
    rule: visits_visits_children.induct)
  case (1 t rs levels node bm cur)
  obtain l where l: "visits_children t rs (levels - 1) node bm cur = (l, None)"
      "levels \<noteq> 0" "bm < bits_len rs"
    using "1.prems"(1) by (auto simp: visits.simps [of t rs levels] split: if_splits prod.splits)
  have v: "fst (visits t rs levels node bm cur) = (node, cur) # l"
    using l by (simp add: visits.simps [of t rs levels])
  have "set l = follow_ext t rs node bm cur"
    using "1.IH" l "1.prems" v by auto
  then show ?case using v by (simp add: follow_all_insert)
next
  case (2 t rs levels node bm cur)
  show ?case
  proof (cases "bit_at (label_bitmap t) bm")
    case True
    have "find_child t rs node bm c = None" for c using True by (simp add: find_child.simps)
    then have "follow_ext t rs node bm cur = {}"
      by (auto simp: follow_ext_def find_child_label_def)
    then show ?thesis using True "2.prems"(2) bit_at_bound
      by (simp add: visits_children.simps [of t _ levels node bm])
  next
    case False
    let ?child = "count_zeros rs (bm + 1)" and ?lab = "labels t ! (bm - node)"
    obtain l l' where ok: "node \<le> bm" "bm - node < length (labels t)"
        and l: "visits t rs levels ?child (next_bm rs ?child) (cur @ [?lab]) = (l, None)"
        and l': "visits_children t rs levels node (bm + 1) cur = (l', None)"
      using "2.prems"(1) False
      by (auto simp: visits_children.simps [of t rs levels node bm] Let_def
          split: if_splits prod.splits option.splits)
    have v: "fst (visits_children t rs levels node bm cur) = l @ l'"
      using ok l l' False by (simp add: visits_children.simps [of t rs levels node bm] Let_def)
    have d: "distinct (map snd l)" "distinct (map snd l')" "snd ` set l \<inter> snd ` set l' = {}"
      using "2.prems"(3) v by auto
    have IH2: "bm + 1 < bits_len rs" "set l' = follow_ext t rs node (bm + 1) cur"
      using "2.IH"(2) [OF False _ refl l [symmetric] refl] ok l' d(2) "2.prems" by auto
    have IH1: "set l = follow_all t rs ?child (next_bm rs ?child) (cur @ [?lab])"
      using "2.IH"(1) [OF False _ refl] ok l d(1) "2.prems" by auto
    have pos: "0 < ?child"
      using count_zeros_pos [OF False] IH2(1) "2.prems"(2) by simp
    have start: "node_bm_start rs ?child = Some (next_bm rs ?child)"
      using node_start_of_visit [OF _ _ pos] l "2.prems"(4) by (metis snd_conv)
    have none: "find_child t rs node (bm + 1) ?lab = None"
    proof (rule ccontr)
      assume "find_child t rs node (bm + 1) ?lab \<noteq> None"
      then obtain n b where "find_child t rs node (bm + 1) ?lab = Some (n, b)" by auto
      then have "follow t rs (node, Some (bm + 1)) [?lab] = Some (n, b)"
        by (simp add: find_child_label_def)
      then have "(n, cur @ [?lab]) \<in> set l'" unfolding IH2(2) follow_ext_def by blast
      moreover have "(?child, cur @ [?lab]) \<in> set l" by (simp add: IH1 follow_all_insert)
      ultimately show False using d(3) by force
    qed
    show ?thesis
      using follow_ext_step [OF _ False ok start none, of cur] IH1 IH2 v by auto
  qed
qed


subsection \<open>The names of a trie\<close>

definition trace_node ::
    "(nat \<times> bytes) list \<Rightarrow> nat \<Rightarrow> bytes \<Rightarrow> (nat \<times> bytes) list \<times> bool" where
  "trace_node s node cur = (s @ [(node, cur)], True)"

text \<open>
  A trie is deterministic when the walk ends without an error and reaches no path twice:
  what an encoder of a set of names produces.
\<close>

definition deterministic_trie :: "mrs_trie \<Rightarrow> bool" where
  "deterministic_trie t \<longleftrightarrow>
     (case walk_mrs_trie t trace_node [] of (l, e) \<Rightarrow> e = None \<and> distinct (map snd l))"

definition root_visits :: "mrs_trie \<Rightarrow> (nat \<times> bytes) list \<times> walk_error option" where
  "root_visits t = visits t (build_rank_select t) 1025 0 0 []"

lemma walk_mrs_trie_visits:
  assumes "\<And>s n c. visit s n c = (f s n c, True)"
  shows "walk_mrs_trie t visit s =
    (foldl (\<lambda>s (n, c). f s n c) s (fst (root_visits t)), snd (root_visits t))"
proof -
  have "visit = (\<lambda>s n c. (f s n c, True))" using assms by (intro ext) simp
  then show ?thesis by (simp add: walk_mrs_trie_def root_visits_def walk_visits)
qed

lemma foldl_snoc: "foldl (\<lambda>s (n, c). s @ [(n, c)]) acc l = acc @ l"
  by (induction l arbitrary: acc) auto

lemma deterministic_trie_iff:
  "deterministic_trie t \<longleftrightarrow> snd (root_visits t) = None \<and> distinct (map snd (fst (root_visits t)))"
  using walk_mrs_trie_visits [of trace_node "\<lambda>s n c. s @ [(n, c)]" t "[]"]
  by (simp add: deterministic_trie_def trace_node_def foldl_snoc split_beta)

lemma root_visits_follow:
  assumes "deterministic_trie t"
  shows "set (fst (root_visits t)) = follow_all t (build_rank_select t) 0 0 []"
proof (cases "bit_at (label_bitmap t) 0")
  case True
  then have "find_child t rs 0 0 c = None" for rs c by (simp add: find_child.simps)
  then have "follow_ext t (build_rank_select t) 0 0 [] = {}"
    by (auto simp: follow_ext_def find_child_label_def)
  moreover have "fst (root_visits t) = [(0, [])]"
    using True bit_at_bound [OF True] unfolding root_visits_def
    by (simp add: visits.simps [of t _ 1025] visits_children.simps [of t _ 1024 0 0])
  ultimately show ?thesis by (simp add: follow_all_insert)
next
  case False
  then show ?thesis
    using visits_follow(1) [OF False] assms by (simp add: deterministic_trie_iff root_visits_def)
qed

lemma trie_domains_eq:
  "trie_domains t =
     (case snd (root_visits t) of
        Some e \<Rightarrow> Inl e
      | None \<Rightarrow> Inr (map (\<lambda>(n, c). rev c)
                     (filter (\<lambda>(n, c). bit_at (leaves t) n) (fst (root_visits t)))))"
proof -
  have "foldl (\<lambda>out (n, c). if bit_at (leaves t) n then out @ [rev c] else out) acc l =
      acc @ map (\<lambda>(n, c). rev c) (filter (\<lambda>(n, c). bit_at (leaves t) n) l)"
    for acc :: "string list" and l
    by (induction l arbitrary: acc) auto
  then show ?thesis
    using walk_mrs_trie_visits [of "collect_domain t"
        "\<lambda>out n c. if bit_at (leaves t) n then out @ [rev c] else out" t "[]"]
    by (simp add: trie_domains_def collect_domain_def split: option.splits)
qed

lemma deterministic_trie_ok: "deterministic_trie t \<Longrightarrow> \<exists>ks. trie_domains t = Inr ks"
  by (simp add: deterministic_trie_iff trie_domains_eq)

lemma deterministic_trie_names:
  assumes "deterministic_trie t" and "trie_domains t = Inr ks"
  shows "distinct ks"
    and "set ks = {rev cs |cs n b. follow t (build_rank_select t) (0, Some 0) cs = Some (n, b)
           \<and> bit_at (leaves t) n}"
proof -
  let ?l = "fst (root_visits t)"
  let ?ks = "map (\<lambda>(n, c). rev c) (filter (\<lambda>(n, c). bit_at (leaves t) n) ?l)"
  have ok: "snd (root_visits t) = None" and d: "distinct (map snd ?l)"
    using assms by (auto simp: deterministic_trie_iff)
  have ks: "ks = ?ks" using ok assms(2) by (simp add: trie_domains_eq)
  have ks_snd: "?ks = map rev (map snd (filter (\<lambda>(n, c). bit_at (leaves t) n) ?l))"
    by (induction ?l) auto
  show "distinct ks"
    unfolding ks ks_snd using d by (subst distinct_map) (auto simp: distinct_map_filter)
  show "set ks = {rev cs |cs n b. follow t (build_rank_select t) (0, Some 0) cs = Some (n, b)
      \<and> bit_at (leaves t) n}"
    unfolding ks using root_visits_follow [OF assms(1)] by (auto simp: follow_all_def image_def)
qed

lemma follow_bm_start:
  "follow t rs (node, node_bm_start rs node) cs = Some (n, b) \<Longrightarrow> b = node_bm_start rs n"
proof (induction cs arbitrary: node)
  case (Cons c cs)
  then obtain st' where st': "find_child_label t rs (node, node_bm_start rs node) c = Some st'"
      and f: "follow t rs st' cs = Some (n, b)"
    by (auto split: option.splits)
  have "find_child t rs p bm c = Some (m, bm') \<Longrightarrow> bm' = node_bm_start rs m" for p bm m bm'
    by (induction t rs p bm c rule: find_child.induct)
      (auto simp: find_child.simps Let_def split: if_splits)
  then have "snd st' = node_bm_start rs (fst st')"
    using st' by (cases st') (auto simp: find_child_label_def split: option.splits)
  then show ?case using Cons.IH [of "fst st'"] f by (cases st') simp
qed simp


subsection \<open>The compacted leaf bits\<close>

lemma length_set_bit_at [simp]: "length (set_bit_at bm i) = length bm"
  by (simp add: set_bit_at_def)

lemma visits_bound:
  "(n, cs) \<in> set (fst (visits t rs levels node bm cur)) \<Longrightarrow> rs = build_rank_select t \<Longrightarrow>
     n = node \<or> n \<le> bits_len rs - length (ones_positions rs)"
  "(n, cs) \<in> set (fst (visits_children t rs levels node bm cur)) \<Longrightarrow> rs = build_rank_select t \<Longrightarrow>
     n \<le> bits_len rs - length (ones_positions rs)"
proof (induction t rs levels node bm cur and t rs levels node bm cur
    rule: visits_visits_children.induct)
  case (1 t rs levels node bm cur)
  show ?case
    using "1.prems"(1) "1.IH" [OF _ _ _ "1.prems"(2)]
    by (auto simp: visits.simps [of t rs levels node bm] simp del: build_rank_select_simps
        split: if_splits prod.splits)
next
  case (2 t rs levels node bm cur)
  let ?child = "count_zeros rs (bm + 1)" and ?cur = "cur @ [labels t ! (bm - node)]"
  have le: "?child \<le> bits_len rs - length (ones_positions rs)"
    using count_zeros_le [of t "bm + 1"] "2.prems"(2) by simp
  have open_node: "\<not> bit_at (label_bitmap t) bm" "\<not> (bm < node \<or> length (labels t) \<le> bm - node)"
    using "2.prems"(1) by (auto simp: visits_children.simps [of t rs levels node bm] split: if_splits)
  have "(n, cs) \<in> set (fst (visits t rs levels ?child (next_bm rs ?child) ?cur)) \<or>
      snd (visits t rs levels ?child (next_bm rs ?child) ?cur) = None \<and>
      (n, cs) \<in> set (fst (visits_children t rs levels node (bm + 1) cur))"
    using "2.prems"(1) open_node
    by (auto simp: visits_children.simps [of t rs levels node bm] Let_def
        split: if_splits prod.splits option.splits)
  then show ?case
  proof (elim disjE conjE)
    assume "(n, cs) \<in> set (fst (visits t rs levels ?child (next_bm rs ?child) ?cur))"
    then show ?case using "2.IH"(1) [OF open_node refl _ "2.prems"(2)] le by auto
  next
    assume ok: "snd (visits t rs levels ?child (next_bm rs ?child) ?cur) = None"
      and mem: "(n, cs) \<in> set (fst (visits_children t rs levels node (bm + 1) cur))"
    obtain l where l: "(l, None) = visits t rs levels ?child (next_bm rs ?child) ?cur"
      using ok by (metis prod.collapse)
    show ?case by (rule "2.IH"(2) [OF open_node refl l refl mem "2.prems"(2)])
  qed
qed

lemma foldl_mark:
  assumes "\<forall>(n, c) \<in> set l. n div 64 < length out"
  shows "bit_at (foldl (\<lambda>out (n, c). if P n then set_bit_at out n else out) out l) i
    \<longleftrightarrow> bit_at out i \<or> (\<exists>c. (i, c) \<in> set l) \<and> P i"
  using assms
proof (induction l arbitrary: out)
  case (Cons x l)
  obtain n c where x: "x = (n, c)" by force
  have n: "n div 64 < length out" using Cons.prems x by auto
  show ?case
    using Cons.IH [of "if P n then set_bit_at out n else out"] Cons.prems x bit_at_set [OF n]
    by auto
qed simp

lemma build_compact_leaves_bit:
  "bit_at (build_compact_leaves t (build_rank_select t)) i \<longleftrightarrow>
     (\<exists>c. (i, c) \<in> set (fst (root_visits t)))
     \<and> (bit_at (leaves t) i \<or> wildcard_leaf t (build_rank_select t) i)"
proof -
  let ?rs = "build_rank_select t"
  let ?z = "bits_len ?rs - length (ones_positions ?rs)"
  let ?out = "replicate ((max 1 (1 + ?z) + 63) div 64) (0 :: 64 word)"
  have "n div 64 < length ?out" if "(n, c) \<in> set (fst (root_visits t))" for n c
  proof -
    have "n = 0 \<or> n \<le> ?z" using visits_bound(1) [of n c t ?rs] that by (simp add: root_visits_def)
    then have "n \<le> ?z" by auto
    then show ?thesis by (simp del: build_rank_select_simps)
  qed
  moreover have "\<not> bit_at ?out i" by (simp add: bit_at_iff)
  ultimately show ?thesis
    using walk_mrs_trie_visits [of "mark_leaf t ?rs"
        "\<lambda>out n c. if bit_at (leaves t) n \<or> wildcard_leaf t ?rs n then set_bit_at out n else out" t ?out]
      foldl_mark [of "fst (root_visits t)" ?out "\<lambda>n. bit_at (leaves t) n \<or> wildcard_leaf t ?rs n" i]
    unfolding build_compact_leaves_def Let_def
    by (auto simp: mark_leaf_def simp del: build_rank_select_simps)
qed

lemma wildcard_leaf_follow:
  "wildcard_leaf t rs n \<longleftrightarrow>
     (\<exists>m b. follow t rs (n, node_bm_start rs n) ''.+.'' = Some (m, b) \<and> bit_at (leaves t) m)"
  by (auto simp: wildcard_leaf_def split: option.splits)

text \<open>
  The names a lookup can answer with: the names of the trie, and every \<open>x\<close> for which
  \<open>.+.x\<close> is a name.
\<close>

definition compact_names :: "string set \<Rightarrow> string set" where
  "compact_names ks = {x. x \<in> ks \<or> ''.+.'' @ x \<in> ks}"

lemma compact_bit_follow:
  assumes det: "deterministic_trie t" and ks: "trie_domains t = Inr ks"
    and f: "follow t (build_rank_select t) (0, Some 0) cs = Some (n, b)"
  shows "bit_at (build_compact_leaves t (build_rank_select t)) n \<longleftrightarrow> rev cs \<in> compact_names (set ks)"
proof -
  let ?rs = "build_rank_select t"
  have vis: "\<exists>c. (n, c) \<in> set (fst (root_visits t))"
    using root_visits_follow [OF det] f by (auto simp: follow_all_def)
  have start: "b = node_bm_start ?rs n"
    using follow_bm_start [of t ?rs 0 cs n b] f by (simp add: node_bm_start_def)
  have key: "rev xs \<in> set ks \<longleftrightarrow>
      (\<exists>m b'. follow t ?rs (0, Some 0) xs = Some (m, b') \<and> bit_at (leaves t) m)" for xs
    unfolding deterministic_trie_names(2) [OF det ks] by (auto simp del: follow.simps)
  have "rev cs \<in> set ks \<longleftrightarrow> bit_at (leaves t) n" using key [of cs] f by auto
  moreover have "''.+.'' @ rev cs \<in> set ks \<longleftrightarrow> wildcard_leaf t ?rs n"
  proof -
    have "follow t ?rs (0, Some 0) (cs @ ''.+.'') = follow t ?rs (n, b) ''.+.''"
      using f by (simp only: follow_append option.case)
    moreover have "rev (cs @ ''.+.'') = ''.+.'' @ rev cs" by simp
    ultimately show ?thesis using key [of "cs @ ''.+.''"] start
      by (simp only: wildcard_leaf_follow)
  qed
  ultimately show ?thesis
    using build_compact_leaves_bit [of t n] vis by (simp add: compact_names_def)
qed

lemma compact_names_follow:
  assumes det: "deterministic_trie t" and ks: "trie_domains t = Inr ks"
    and x: "x \<in> compact_names (set ks)"
  shows "\<exists>n b. follow t (build_rank_select t) (0, Some 0) (rev x) = Some (n, b)"
proof -
  let ?rs = "build_rank_select t"
  have known: "\<exists>n b. follow t ?rs (0, Some 0) (rev y) = Some (n, b)" if "y \<in> set ks" for y
  proof -
    have "y \<in> {rev cs |cs n b. follow t ?rs (0, Some 0) cs = Some (n, b) \<and> bit_at (leaves t) n}"
      using that by (simp only: deterministic_trie_names(2) [OF det ks])
    then obtain cs n b where "y = rev cs" "follow t ?rs (0, Some 0) cs = Some (n, b)" by blast
    then show ?thesis by (metis rev_rev_ident)
  qed
  have "follow t ?rs (0, Some 0) (rev x) \<noteq> None"
  proof (cases "x \<in> set ks")
    case True
    from known [OF this] show ?thesis by (metis option.distinct(1))
  next
    case False
    then have "''.+.'' @ x \<in> set ks" using x by (simp add: compact_names_def)
    from known [OF this] have "follow t ?rs (0, Some 0) (rev (''.+.'' @ x)) \<noteq> None"
      by (metis option.distinct(1))
    moreover have "rev (''.+.'' @ x) = rev x @ ''.+.''" by simp
    ultimately show ?thesis by (metis follow_append option.case(1))
  qed
  then show ?thesis by (metis option.exhaust surj_pair)
qed


subsection \<open>The lookup\<close>

text \<open>Rule \<open>x\<close> covers the host name \<open>d\<close>: \<open>d\<close> itself, or a subdomain of it.\<close>

definition covers :: "string \<Rightarrow> string \<Rightarrow> bool" where
  "covers x d \<longleftrightarrow> x = [] \<or> d = x \<or> has_suffix d (CHR ''.'' # x)"

definition lookup_hit :: "domain_set \<Rightarrow> nat \<times> nat option \<Rightarrow> bytes \<Rightarrow> nat \<Rightarrow> bool" where
  "lookup_hit d st cs k \<longleftrightarrow> 0 < k \<and> k \<le> length cs
     \<and> (\<exists>n b. follow (ds_trie d) (ds_rank d) st (take k cs) = Some (n, b) \<and> bit_at (compact_leaves d) n)
     \<and> (k = length cs \<or> cs ! k = CHR ''.'')"

lemma lookup_hit_Cons:
  "lookup_hit d st (c # cs) (Suc k) \<longleftrightarrow>
     (case find_child_label (ds_trie d) (ds_rank d) st c of
        None \<Rightarrow> False
      | Some st' \<Rightarrow> if k = 0 then bit_at (compact_leaves d) (fst st') \<and> (cs = [] \<or> hd cs = CHR ''.'')
                    else lookup_hit d st' cs k)"
  by (cases k; cases cs) (auto simp: lookup_hit_def split: option.splits)

lemma lookup_hit_0 [simp]: "\<not> lookup_hit d st cs 0"
  by (simp add: lookup_hit_def)

lemma lookup_from_first:
  "case lookup_from d taken st cs of
     None \<Rightarrow> \<forall>k. \<not> lookup_hit d st cs k
   | Some s \<Rightarrow> \<exists>k. lookup_hit d st cs k \<and> s = rev (taken @ take k cs) \<and> (\<forall>j < k. \<not> lookup_hit d st cs j)"
proof (induction d taken st cs rule: lookup_from.induct)
  case (1 d taken st)
  show ?case by (auto simp: lookup_hit_def)
next
  case (2 d taken st c cs)
  have split_k: "(\<forall>k. \<not> lookup_hit d st (c # cs) k) \<longleftrightarrow> (\<forall>k. \<not> lookup_hit d st (c # cs) (Suc k))"
    by (metis lookup_hit_0 not0_implies_Suc)
  show ?case
  proof (cases "find_child_label (ds_trie d) (ds_rank d) st c")
    case None
    then show ?thesis using split_k by (simp add: lookup_hit_Cons)
  next
    case (Some st')
    show ?thesis
    proof (cases "bit_at (compact_leaves d) (fst st') \<and> (cs = [] \<or> hd cs = CHR ''.'')")
      case True
      then have "lookup_hit d st (c # cs) 1"
        using Some lookup_hit_Cons [of d st c cs 0] by simp
      then show ?thesis using True Some by (auto intro!: exI [of _ 1])
    next
      case False
      then have step: "lookup_hit d st (c # cs) (Suc k) \<longleftrightarrow> lookup_hit d st' cs k" for k
        using Some by (simp add: lookup_hit_Cons)
      have IH: "case lookup_from d (taken @ [c]) st' cs of
          None \<Rightarrow> \<forall>k. \<not> lookup_hit d st' cs k
        | Some s \<Rightarrow> \<exists>k. lookup_hit d st' cs k \<and> s = rev ((taken @ [c]) @ take k cs)
            \<and> (\<forall>j < k. \<not> lookup_hit d st' cs j)"
        by (rule 2) (use Some False in auto)
      show ?thesis
      proof (cases "lookup_from d (taken @ [c]) st' cs")
        case None
        then show ?thesis using IH Some False split_k step by simp
      next
        case (Some s)
        then obtain k where "lookup_hit d st' cs k" "s = rev (taken @ take (Suc k) (c # cs))"
            "\<forall>j < k. \<not> lookup_hit d st' cs j"
          using IH by auto
        then have "lookup_hit d st (c # cs) (Suc k)" "\<forall>j < Suc k. \<not> lookup_hit d st (c # cs) j"
          using step less_Suc_eq_0_disj by auto
        then show ?thesis
          using Some False \<open>find_child_label (ds_trie d) (ds_rank d) st c = Some st'\<close>
            \<open>s = rev (taken @ take (Suc k) (c # cs))\<close>
          by (auto intro!: exI [of _ "Suc k"])
      qed
    qed
  qed
qed

lemma covers_rev:
  assumes "x \<noteq> []"
  shows "covers x d \<longleftrightarrow> length x \<le> length d \<and> rev (take (length x) (rev d)) = x
    \<and> (length x = length d \<or> rev d ! length x = CHR ''.'')"
proof
  assume "covers x d"
  then consider "d = x" | t where "d = t @ CHR ''.'' # x"
    using assms by (auto simp: covers_def has_suffix_iff)
  then show "length x \<le> length d \<and> rev (take (length x) (rev d)) = x
      \<and> (length x = length d \<or> rev d ! length x = CHR ''.'')"
    by cases (auto simp: nth_append)
next
  assume r: "length x \<le> length d \<and> rev (take (length x) (rev d)) = x
      \<and> (length x = length d \<or> rev d ! length x = CHR ''.'')"
  show "covers x d"
  proof (cases "length x = length d")
    case True
    then show ?thesis using r by (simp add: covers_def)
  next
    case False
    then have l: "length x < length (rev d)" using r by simp
    have "rev d = take (length x) (rev d) @ rev d ! length x # drop (Suc (length x)) (rev d)"
      by (rule id_take_nth_drop [OF l])
    then have "d = rev (drop (Suc (length x)) (rev d)) @ rev d ! length x # rev (take (length x) (rev d))"
      by (metis append_Cons append_Nil append_assoc rev_append rev_rev_ident rev_singleton_conv)
    then show ?thesis using r False unfolding covers_def has_suffix_iff by metis
  qed
qed

lemma make_domain_set_simps [simp]:
  "ds_trie (make_domain_set nm t) = t" "ds_rank (make_domain_set nm t) = build_rank_select t"
  "compact_leaves (make_domain_set nm t) = build_compact_leaves t (build_rank_select t)"
  by (simp_all add: make_domain_set_def Let_def)

lemma lookup_hit_names:
  assumes det: "deterministic_trie t" and ks: "trie_domains t = Inr ks"
    and k: "0 < k" "k \<le> length d"
  shows "lookup_hit (make_domain_set nm t) (0, Some 0) (rev d) k \<longleftrightarrow>
    rev (take k (rev d)) \<in> compact_names (set ks) \<and> covers (rev (take k (rev d))) d"
proof -
  let ?x = "rev (take k (rev d))" and ?rs = "build_rank_select t"
  have x: "?x \<noteq> []" "length ?x = k" using k by auto
  have "(\<exists>n b. follow t ?rs (0, Some 0) (take k (rev d)) = Some (n, b)
      \<and> bit_at (build_compact_leaves t ?rs) n) \<longleftrightarrow> ?x \<in> compact_names (set ks)"
    using compact_bit_follow [OF det ks, of "take k (rev d)"] compact_names_follow [OF det ks, of ?x]
    by (metis rev_rev_ident)
  then show ?thesis using k covers_rev [OF x(1), of d] x(2) by (simp add: lookup_hit_def)
qed


lemma root_leaf_names:
  assumes "deterministic_trie t" and "trie_domains t = Inr ks"
  shows "bit_at (build_compact_leaves t (build_rank_select t)) 0 \<longleftrightarrow> [] \<in> compact_names (set ks)"
  using compact_bit_follow [OF assms, of "[]" 0 "Some 0"] by simp

lemma compact_leaf_lookup:
  assumes det: "deterministic_trie t" and ks: "trie_domains t = Inr ks"
    and d: "trim_suffix host ''.'' = d" "d \<noteq> []"
  shows "case ds_lookup (make_domain_set nm t) host of
      None \<Rightarrow> \<forall>x \<in> compact_names (set ks). \<not> covers x d
    | Some s \<Rightarrow> s \<in> compact_names (set ks) \<and> covers s d
        \<and> (\<forall>y \<in> compact_names (set ks). covers y d \<longrightarrow> length s \<le> length y)"
proof -
  let ?N = "compact_names (set ks)" and ?ds = "make_domain_set nm t"
  let ?hit = "lookup_hit ?ds (0, Some 0) (rev d)"
  have host: "host \<noteq> []" using d by (auto simp: trim_suffix_def has_suffix_def)
  have hit: "?hit (length x)" if "x \<in> ?N" "covers x d" "x \<noteq> []" for x
    using lookup_hit_names [OF det ks, of "length x" d nm] covers_rev [OF that(3), of d] that by simp
  show ?thesis
  proof (cases "bit_at (build_compact_leaves t (build_rank_select t)) 0")
    case True
    then show ?thesis using root_leaf_names [OF det ks] d host
      by (simp add: ds_lookup_def Let_def covers_def)
  next
    case False
    then have root: "[] \<notin> ?N" using root_leaf_names [OF det ks] by simp
    have eq: "ds_lookup ?ds host = lookup_from ?ds [] (0, Some 0) (rev d)"
      using False d host by (simp add: ds_lookup_def Let_def)
    show ?thesis
    proof (cases "lookup_from ?ds [] (0, Some 0) (rev d)")
      case None
      then have "\<not> ?hit k" for k using lookup_from_first [of ?ds "(0, Some 0)" "rev d" "[]"] by simp
      then show ?thesis using hit root eq None by auto
    next
      case (Some s)
      then obtain k where k: "?hit k" "s = rev (take k (rev d))" "\<forall>j < k. \<not> ?hit j"
        using lookup_from_first [of ?ds "(0, Some 0)" "rev d" "[]"] by auto
      then have "0 < k" "k \<le> length d" by (auto simp: lookup_hit_def)
      then have "s \<in> ?N" "covers s d" "length s = k"
        using lookup_hit_names [OF det ks, of k d nm] k by auto
      moreover have "length s \<le> length y" if "y \<in> ?N" "covers y d" for y
        using hit [of y] k(3) that root \<open>length s = k\<close> by (metis not_le)
      ultimately show ?thesis using eq Some by simp
    qed
  qed
qed

text \<open>
  The trie with the one path \<open>a.+\<close>, for any leaf bits: node 1 is the name \<open>a\<close>, node 3
  the name \<open>+.a\<close>.
\<close>

definition plus_trie :: "64 word list \<Rightarrow> mrs_trie" where
  "plus_trie l = \<lparr>leaves = l, label_bitmap = [0x6A], labels = ''a.+''\<rparr>"

lemma plus_trie_visits:
  "root_visits (plus_trie l) = ([(0, []), (1, ''a''), (2, ''a.''), (3, ''a.+'')], None)"
  by code_simp

lemma plus_trie_det: "deterministic_trie (plus_trie l)"
  by (simp add: deterministic_trie_iff plus_trie_visits)

lemma plus_trie_names: "trie_domains (plus_trie [8]) = Inr [''+.a'']"
  "trie_domains (plus_trie [10]) = Inr [''a'', ''+.a'']"
  unfolding trie_domains_eq plus_trie_visits by code_simp+

text \<open>
  C9: on a trie whose walk ends without error and repeats no path, a lookup answers with the
  shortest name that covers the host (trailing dot dropped), where the names are those the
  materialising walk produces and those it produces under the prefix \<open>.+.\<close>; when none
  covers it, the lookup misses.
\<close>

theorem ds_lookup_correct:
  assumes "deterministic_trie t" and "trie_domains t = Inr ks"
    and "trim_suffix host ''.'' = d" and "d \<noteq> []"
  shows "ds_lookup (make_domain_set nm t) host = Some s \<longleftrightarrow>
      s \<in> compact_names (set ks) \<and> covers s d
        \<and> (\<forall>y \<in> compact_names (set ks). covers y d \<longrightarrow> length s \<le> length y)"
proof
  assume "ds_lookup (make_domain_set nm t) host = Some s"
  then show "s \<in> compact_names (set ks) \<and> covers s d
      \<and> (\<forall>y \<in> compact_names (set ks). covers y d \<longrightarrow> length s \<le> length y)"
    using compact_leaf_lookup [OF assms, of nm] by simp
next
  assume s: "s \<in> compact_names (set ks) \<and> covers s d
      \<and> (\<forall>y \<in> compact_names (set ks). covers y d \<longrightarrow> length s \<le> length y)"
  have same: "x = y" if "covers x d" "covers y d" "length x = length y" for x y
    using covers_rev [of x d] covers_rev [of y d] that by (cases "x = []"; cases "y = []") auto
  show "ds_lookup (make_domain_set nm t) host = Some s"
  proof (cases "ds_lookup (make_domain_set nm t) host")
    case None
    then show ?thesis using compact_leaf_lookup [OF assms, of nm] s by auto
  next
    case (Some s')
    then have s': "s' \<in> compact_names (set ks) \<and> covers s' d
        \<and> (\<forall>y \<in> compact_names (set ks). covers y d \<longrightarrow> length s' \<le> length y)"
      using compact_leaf_lookup [OF assms, of nm] by simp
    then have "s' = s" using s same by (metis le_antisym)
    then show ?thesis using Some by simp
  qed
qed

theorem ds_lookup_correct_witness:
  "ds_lookup (make_domain_set ''ads'' (plus_trie [10])) ''x.a.'' = Some ''a''"
proof -
  have "trim_suffix ''x.a.'' ''.'' = ''x.a''" by code_simp
  from ds_lookup_correct [OF plus_trie_det plus_trie_names(2) this, of "''ads''" "''a''"]
  show ?thesis by (auto simp: compact_names_def covers_def has_suffix_def has_prefix_def)
qed

text \<open>
  C10: when the set holds \<open>x\<close> with every \<open>+.x\<close> and every \<open>.+.x\<close> (what the
  exporter of the format writes), the lookup hits exactly when one of the rules of the
  materialising parser, each name with its \<open>+.\<close> marker dropped, covers the host.
\<close>

theorem ds_lookup_closed:
  assumes "deterministic_trie t" and "trie_domains t = Inr ks"
    and "trim_suffix host ''.'' = d" and "d \<noteq> []"
    and "\<And>x. ''+.'' @ x \<in> set ks \<Longrightarrow> x \<in> set ks"
    and "\<And>x. ''.+.'' @ x \<in> set ks \<Longrightarrow> x \<in> set ks"
  shows "ds_lookup (make_domain_set nm t) host \<noteq> None \<longleftrightarrow>
    (\<exists>k \<in> set ks. covers (trim_prefix k ''+.'') d)"
proof -
  have "compact_names (set ks) = set ks" using assms(6) by (auto simp: compact_names_def)
  moreover have "(\<exists>k \<in> set ks. covers (trim_prefix k ''+.'') d) \<longleftrightarrow> (\<exists>k \<in> set ks. covers k d)"
  proof
    assume "\<exists>k \<in> set ks. covers (trim_prefix k ''+.'') d"
    then obtain k where k: "k \<in> set ks" "covers (trim_prefix k ''+.'') d" by blast
    show "\<exists>k \<in> set ks. covers k d"
    proof (cases "has_prefix k ''+.''")
      case True
      then obtain x where "k = ''+.'' @ x" by (auto simp: has_prefix_iff)
      then show ?thesis using k assms(5) [of x] by (metis trim_prefix_append)
    next
      case False
      then show ?thesis using k by (auto simp: trim_prefix_def)
    qed
  next
    assume "\<exists>k \<in> set ks. covers k d"
    then obtain k where k: "k \<in> set ks" "covers k d" by blast
    have "covers (trim_prefix k ''+.'') d"
    proof (cases "has_prefix k ''+.''")
      case True
      then obtain x where x: "k = ''+.'' @ x" by (auto simp: has_prefix_iff)
      then have "covers x d"
      proof -
        obtain u where "d = u @ ''+.'' @ x"
          using k x by (auto simp: covers_def has_suffix_iff)
        then show ?thesis by (auto simp: covers_def has_suffix_iff)
      qed
      then show ?thesis unfolding x trim_prefix_append .
    next
      case False
      then show ?thesis using k by (simp add: trim_prefix_def)
    qed
    then show "\<exists>k \<in> set ks. covers (trim_prefix k ''+.'') d" using k by blast
  qed
  ultimately show ?thesis
    using compact_leaf_lookup [OF assms(1-4), of nm] by (auto split: option.splits)
qed

theorem ds_lookup_closed_witness:
  "ds_lookup (make_domain_set ''ads'' (plus_trie [10])) ''b'' = None"
proof -
  have "trim_suffix ''b'' ''.'' = ''b''" by code_simp
  from ds_lookup_closed [OF plus_trie_det plus_trie_names(2) this, of "''ads''"]
  show ?thesis by (simp add: covers_def has_suffix_def has_prefix_def trim_prefix_def)
qed

text \<open>
  Without that closure the lookup and the materialising parser disagree. A set with the one
  name \<open>+.a\<close> makes the parser emit the suffix rule \<open>a\<close>, yet the lookup of \<open>a\<close> misses: the
  leaf is two edges below the node of \<open>a\<close> and the collapse looks three edges down.
\<close>

theorem plus_entry_not_collapsed:
  "trie_domains (plus_trie [8]) = Inr [''+.a'']
   \<and> ds_lookup (make_domain_set nm (plus_trie [8])) ''a'' = None"
proof
  show "trie_domains (plus_trie [8]) = Inr [''+.a'']" by (rule plus_trie_names)
  have "trim_suffix ''a'' ''.'' = ''a''" by code_simp
  from compact_leaf_lookup [OF plus_trie_det plus_trie_names(1) this, of nm]
  show "ds_lookup (make_domain_set nm (plus_trie [8])) ''a'' = None"
    by (auto simp: compact_names_def covers_def has_suffix_def has_prefix_def split: option.splits)
qed
end
