(* ===== verification/Go_Text.thy ===== *)
theory Go_Text
  imports Prelude
begin

section \<open>Reading and writing text: lines, base64, keyed duplicates\<close>

text \<open>
  The parts of \<open>bufio\<close>, \<open>encoding/base64\<close> and \<open>sort\<close> several components read their input
  with, and the interface of the duplicate filters: a pass over a list that keeps an element
  when it is wanted and its key is new.
\<close>

subsection \<open>Lines\<close>

definition newline :: char where "newline = CHR 0x0A"
definition return :: char where "return = CHR 0x0D"
definition tab :: char where "tab = CHR 0x09"

definition drop_cr :: "string \<Rightarrow> string" where
  "drop_cr s = (if s \<noteq> [] \<and> last s = return then butlast s else s)"

text \<open>
  \<open>bufio.Scanner\<close> with \<open>ScanLines\<close>: the lines up to the first one that fills the buffer
  without its newline, and whether there was such a line (\<open>sc.Err()\<close>). The buffer holds
  64 KiB when the caller sets no other limit.
\<close>

function scan_within :: "nat \<Rightarrow> bytes \<Rightarrow> string list \<times> bool" where
  "scan_within limit s =
     (if s = [] then ([], False)
      else (let line = takeWhile (\<lambda>c. c \<noteq> newline) s
            in if limit \<le> length line then ([], True)
               else (case scan_within limit (drop (length line + 1) s) of
                   (ls, e) \<Rightarrow> (drop_cr line # ls, e))))"
  by pat_completeness auto
termination by (relation "measure (\<lambda>(limit, s). length s)") auto

declare scan_within.simps [simp del]

definition scan_lines :: "bytes \<Rightarrow> string list \<times> bool" where
  "scan_lines s = scan_within 65536 s"

lemma scan_within_Nil [simp]: "scan_within limit [] = ([], False)"
  by (simp add: scan_within.simps)

lemma scan_within_line:
  assumes "newline \<notin> set l" and "length l < limit"
  shows "scan_within limit (l @ newline # s) =
    (drop_cr l # fst (scan_within limit s), snd (scan_within limit s))"
proof -
  have "takeWhile (\<lambda>c. c \<noteq> newline) (l @ newline # s) = l"
    using assms(1) by (subst takeWhile_append2) auto
  then show ?thesis
    using assms(2) by (subst scan_within.simps) (simp add: split_beta)
qed

lemma scan_within_long:
  assumes "newline \<notin> set l" and "limit \<le> length l" and "0 < limit"
  shows "scan_within limit (l @ s) = ([], True)"
proof -
  have "takeWhile (\<lambda>c. c \<noteq> newline) (l @ s) = l @ takeWhile (\<lambda>c. c \<noteq> newline) s"
    using assms(1) by (intro takeWhile_append2) auto
  moreover have "l @ s \<noteq> []" using assms(2,3) by auto
  ultimately show ?thesis using assms(2) by (subst scan_within.simps) simp
qed

lemma scan_within_last:
  assumes "newline \<notin> set l" and "l \<noteq> []" and "length l < limit"
  shows "scan_within limit l = ([drop_cr l], False)"
proof -
  have l: "takeWhile (\<lambda>c. c \<noteq> newline) l = l" using assms(1) by (auto simp: takeWhile_eq_all_conv)
  show ?thesis using assms(2,3) by (subst scan_within.simps) (simp add: l)
qed

lemma scan_lines_Nil [simp]: "scan_lines [] = ([], False)"
  by (simp add: scan_lines_def)

lemmas scan_lines_line = scan_within_line [where limit = 65536, folded scan_lines_def]
lemmas scan_lines_last = scan_within_last [where limit = 65536, folded scan_lines_def]

lemma scan_lines_long:
  assumes "newline \<notin> set l" and "65536 \<le> length l"
  shows "scan_lines (l @ s) = ([], True)"
  using scan_within_long [OF assms] by (simp add: scan_lines_def)

text \<open>\<open>strings.SplitN(s, sep, 2)\<close>\<close>

definition split2 :: "char \<Rightarrow> string \<Rightarrow> string list" where
  "split2 c s = (case str_index s [c] of None \<Rightarrow> [s] | Some i \<Rightarrow> [take i s, drop (i + 1) s])"

lemma str_index_free: "c \<notin> set s \<Longrightarrow> str_index s [c] = None"
  by (induction s) auto

lemma str_index_append: "c \<notin> set s \<Longrightarrow> str_index (s @ c # t) [c] = Some (length s)"
  by (induction s) auto

lemma split2_append: "c \<notin> set s \<Longrightarrow> split2 c (s @ c # t) = [s, t]"
  by (simp add: split2_def str_index_append)

subsection \<open>Base64\<close>

definition b64_char :: "nat \<Rightarrow> char" where
  "b64_char d =
     (if d < 26 then char_of (65 + d) else if d < 52 then char_of (71 + d)
      else if d < 62 then char_of (d - 4) else if d = 62 then CHR ''+'' else CHR ''/'')"

definition b64_val :: "char \<Rightarrow> nat option" where
  "b64_val c =
     (let n = of_char c :: nat
      in if 65 \<le> n \<and> n \<le> 90 then Some (n - 65)
         else if 97 \<le> n \<and> n \<le> 122 then Some (n - 71)
         else if 48 \<le> n \<and> n \<le> 57 then Some (n + 4)
         else if c = CHR ''+'' then Some 62
         else if c = CHR ''/'' then Some 63 else None)"

fun b64_encode :: "bytes \<Rightarrow> string" where
  "b64_encode [] = []"
| "b64_encode [a] =
     (let n = of_char a * 16
      in [b64_char (n div 64), b64_char (n mod 64), CHR ''='', CHR ''=''])"
| "b64_encode [a, b] =
     (let n = (of_char a * 256 + of_char b) * 4
      in [b64_char (n div 4096), b64_char (n div 64 mod 64), b64_char (n mod 64), CHR ''=''])"
| "b64_encode (a # b # c # rest) =
     (let n = (of_char a * 256 + of_char b) * 256 + of_char c
      in b64_char (n div 262144) # b64_char (n div 4096 mod 64) # b64_char (n div 64 mod 64)
         # b64_char (n mod 64) # b64_encode rest)"

fun b64_groups :: "string \<Rightarrow> bytes option" where
  "b64_groups [] = Some []"
| "b64_groups (w # x # y # z # rest) =
     (if z = CHR ''='' then
        (if rest \<noteq> [] then None
         else if y = CHR ''='' then
           (case (b64_val w, b64_val x) of
              (Some i, Some j) \<Rightarrow> Some [char_of ((i * 64 + j) div 16)]
            | _ \<Rightarrow> None)
         else
           (case (b64_val w, b64_val x, b64_val y) of
              (Some i, Some j, Some k) \<Rightarrow>
                (let n = (i * 64 + j) * 64 + k
                 in Some [char_of (n div 1024), char_of (n div 4 mod 256)])
            | _ \<Rightarrow> None))
      else
        (case (b64_val w, b64_val x, b64_val y, b64_val z) of
           (Some i, Some j, Some k, Some l) \<Rightarrow>
             (let n = ((i * 64 + j) * 64 + k) * 64 + l
              in map_option (\<lambda>bs. char_of (n div 65536) # char_of (n div 256 mod 256)
                    # char_of (n mod 256) # bs) (b64_groups rest))
         | _ \<Rightarrow> None))"
| "b64_groups [w] = None"
| "b64_groups [w, x] = None"
| "b64_groups [w, x, y] = None"

text \<open>\<open>StdEncoding.DecodeString\<close>: line breaks inside the text are skipped.\<close>

definition b64_decode :: "string \<Rightarrow> bytes option" where
  "b64_decode s = b64_groups (filter (\<lambda>c. c \<noteq> newline \<and> c \<noteq> return) s)"

lemma b64_val_char: "d < 64 \<Longrightarrow> b64_val (b64_char d) = Some d"
proof -
  assume d: "d < 64"
  then consider "d < 26" | "26 \<le> d" "d < 52" | "52 \<le> d" "d < 62" | "d = 62" | "d = 63" by linarith
  then show ?thesis
    by cases (auto simp: b64_char_def b64_val_def Let_def)
qed

lemma b64_char_code:
  "(of_char (b64_char d) :: nat) = (if d < 26 then 65 + d else if d < 52 then 71 + d
     else if d < 62 then d - 4 else if d = 62 then 43 else 47)"
  by (auto simp: b64_char_def)

lemma b64_char_plain [simp]:
  "b64_char d \<noteq> CHR ''=''" "b64_char d \<noteq> newline" "b64_char d \<noteq> return" "b64_char d \<noteq> tab"
  "solid (b64_char d)"
proof -
  have code: "(of_char (b64_char d) :: nat) \<notin> {61, 10, 13, 9}" "33 \<le> (of_char (b64_char d) :: nat)"
      "(of_char (b64_char d) :: nat) < 128"
    by (auto simp: b64_char_code)
  then show "b64_char d \<noteq> CHR ''=''" "b64_char d \<noteq> newline" "b64_char d \<noteq> return"
      "b64_char d \<noteq> tab" "solid (b64_char d)"
    by (auto simp: newline_def return_def tab_def solid_def)
qed

lemma of_char_lt: "(of_char c :: nat) < 256"
  by (metis of_char_mod_256 mod_less_divisor zero_less_numeral)

lemma regroup:
  fixes n :: nat
  shows "n div 64 * 64 + n mod 64 = n"
    and "(n div 4096 * 64 + n div 64 mod 64) * 64 + n mod 64 = n"
    and "((n div 262144 * 64 + n div 4096 mod 64) * 64 + n div 64 mod 64) * 64 + n mod 64 = n"
proof -
  have d: "m div (64 * k) = m div k div 64" for m k :: nat
    by (metis div_mult2_eq mult.commute)
  show 1: "m div 64 * 64 + m mod 64 = m" for m :: nat by (rule div_mult_mod_eq)
  show 2: "(m div 4096 * 64 + m div 64 mod 64) * 64 + m mod 64 = m" for m :: nat
    using 1 [of m] 1 [of "m div 64"] d [of m 64] by simp
  show "((n div 262144 * 64 + n div 4096 mod 64) * 64 + n div 64 mod 64) * 64 + n mod 64 = n"
    using 1 [of n] 2 [of "n div 64"] d [of n 4096] d [of n 64] by (simp add: div_mult2_eq [symmetric])
qed

lemma two_bytes:
  fixes a b :: nat
  assumes "a < 256" and "b < 256"
  shows "(a * 256 + b) * 4 div 4096 < 64" "(a * 256 + b) * 4 div 1024 = a"
    "(a * 256 + b) * 4 div 4 mod 256 = b"
  using assms by (intro less_mult_imp_div_less, simp, simp, simp)

lemma three_bytes:
  fixes a b c :: nat
  assumes "a < 256" and "b < 256" and "c < 256"
  shows "((a * 256 + b) * 256 + c) div 262144 < 64" "((a * 256 + b) * 256 + c) div 65536 = a"
    "((a * 256 + b) * 256 + c) div 256 mod 256 = b" "((a * 256 + b) * 256 + c) mod 256 = c"
proof -
  have hi: "((a * 256 + b) * 256 + c) div 256 = a * 256 + b"
    by (simp only: div_mult_self3 zero_neq_numeral [symmetric] not_False_eq_True)
      (use assms(3) in simp)
  have "((a * 256 + b) * 256 + c) div 65536 = ((a * 256 + b) * 256 + c) div 256 div 256"
    by (simp only: div_mult2_eq [symmetric]) simp
  moreover have "(a * 256 + b) div 256 = a" using assms(2) by simp
  ultimately show "((a * 256 + b) * 256 + c) div 65536 = a" by (simp only: hi)
  show "((a * 256 + b) * 256 + c) mod 256 = c" using assms(3) by (simp only: mod_mult_self3) simp
  show "((a * 256 + b) * 256 + c) div 262144 < 64" using assms by (intro less_mult_imp_div_less) simp
  from hi show "((a * 256 + b) * 256 + c) div 256 mod 256 = b" using assms(2) by simp
qed

lemma b64_groups_encode: "b64_groups (b64_encode s) = Some s"
proof (induction s rule: b64_encode.induct)
  case (2 a)
  let ?n = "of_char a * 16 :: nat"
  have "?n div 64 < 64" using of_char_lt [of a] by (intro less_mult_imp_div_less) simp
  moreover have "(?n div 64 * 64 + ?n mod 64) div 16 = of_char a" by (simp only: regroup)
  ultimately show ?case by (simp only: b64_encode.simps Let_def b64_groups.simps b64_val_char
        b64_char_plain mod_less_divisor zero_less_numeral if_True if_False option.case prod.case
        char_of_char simp_thms)
next
  case (3 a b)
  note n = two_bytes [OF of_char_lt [of a] of_char_lt [of b]]
  show ?case by (simp only: n b64_encode.simps Let_def b64_groups.simps b64_val_char
        b64_char_plain mod_less_divisor zero_less_numeral if_True if_False option.case prod.case
        char_of_char simp_thms regroup)
next
  case (4 a b c rest)
  note n = three_bytes [OF of_char_lt [of a] of_char_lt [of b] of_char_lt [of c]]
  show ?case using 4 by (simp only: n b64_encode.simps Let_def b64_groups.simps b64_val_char
        b64_char_plain mod_less_divisor zero_less_numeral if_True if_False option.case prod.case
        char_of_char simp_thms regroup option.map)
qed simp

definition b64_alphabet :: "char \<Rightarrow> bool" where
  "b64_alphabet c \<longleftrightarrow> c \<noteq> newline \<and> c \<noteq> return \<and> c \<noteq> tab \<and> solid c"

lemma b64_encode_alphabet: "list_all b64_alphabet (b64_encode s)"
  by (induction s rule: b64_encode.induct)
    (auto simp: Let_def b64_alphabet_def newline_def [symmetric],
      simp_all add: newline_def return_def tab_def solid_def)

lemma b64_round_trip [simp]: "b64_decode (b64_encode s) = Some s"
proof -
  have "filter (\<lambda>c. c \<noteq> newline \<and> c \<noteq> return) (b64_encode s) = b64_encode s"
    using b64_encode_alphabet [of s] by (intro filter_True) (auto simp: list_all_iff b64_alphabet_def)
  then show ?thesis by (simp add: b64_decode_def b64_groups_encode)
qed

lemma length_b64_encode: "length (b64_encode s) = 4 * ((length s + 2) div 3)"
proof (induction s rule: b64_encode.induct)
  case (4 a b c rest)
  have "(length (a # b # c # rest) + 2) div 3 = (length rest + 2) div 3 + 1" by simp
  then show ?case using 4 by (simp add: Let_def)
qed (simp_all add: Let_def)


subsection \<open>Duplicate filters\<close>

text \<open>
  The interface of the passes that drop duplicates: a set of keys already seen is threaded
  through the list; a wanted element whose key is new is kept and its key recorded.
\<close>

locale keyed_dedup =
  fixes key :: "'a \<Rightarrow> 'k" and keep :: "'a \<Rightarrow> bool"
    and dedup :: "'k set \<Rightarrow> 'a list \<Rightarrow> 'a list"
  assumes dedup_Nil: "dedup seen [] = []"
    and dedup_new: "key x \<notin> seen \<Longrightarrow> keep x \<Longrightarrow>
      dedup seen (x # xs) = x # dedup (insert (key x) seen) xs"
    and dedup_old: "key x \<in> seen \<or> \<not> keep x \<Longrightarrow> dedup seen (x # xs) = dedup seen xs"
begin

lemma keys: "key ` set (dedup seen xs) = key ` {x \<in> set xs. keep x} - seen"
proof (induction xs arbitrary: seen)
  case (Cons x xs)
  show ?case
  proof (cases "key x \<in> seen \<or> \<not> keep x")
    case True
    then show ?thesis using Cons by (auto simp: dedup_old)
  next
    case False
    then show ?thesis using Cons by (auto simp: dedup_new)
  qed
qed (simp add: dedup_Nil)

lemma members: "set (dedup seen xs) \<subseteq> {x \<in> set xs. keep x}"
proof (induction xs arbitrary: seen)
  case (Cons x xs)
  then show ?case
    by (cases "key x \<in> seen \<or> \<not> keep x") (auto simp: dedup_old dedup_new)
qed (simp add: dedup_Nil)

lemma distinct_keys: "distinct (map key (dedup seen xs))"
proof (induction xs arbitrary: seen)
  case (Cons x xs)
  have "key x \<notin> key ` set (dedup (insert (key x) seen) xs)" by (auto simp: keys)
  then show ?case using Cons
    by (cases "key x \<in> seen \<or> \<not> keep x") (auto simp: dedup_old dedup_new)
qed (simp add: dedup_Nil)

lemma append: "dedup seen (xs @ ys) = dedup seen xs @ dedup (seen \<union> key ` {x \<in> set xs. keep x}) ys"
proof (induction xs arbitrary: seen)
  case (Cons x xs)
  show ?case
  proof (cases "key x \<in> seen \<or> \<not> keep x")
    case True
    then have "seen \<union> key ` {y \<in> set (x # xs). keep y} = seen \<union> key ` {y \<in> set xs. keep y}" by auto
    then show ?thesis using Cons True by (simp only: dedup_old append_Cons)
  next
    case False
    then have "seen \<union> key ` {y \<in> set (x # xs). keep y} =
        insert (key x) seen \<union> key ` {y \<in> set xs. keep y}" by auto
    then show ?thesis using Cons False by (simp only: dedup_new append_Cons de_Morgan_disj not_not simp_thms)
  qed
qed (simp add: dedup_Nil)

text \<open>The element kept for a key is the first wanted one that has it.\<close>

lemma first:
  assumes "x \<in> set (dedup seen xs)"
  shows "\<exists>ys zs. xs = ys @ x # zs \<and> key x \<notin> seen \<and> (\<forall>y \<in> set ys. keep y \<longrightarrow> key y \<noteq> key x)"
  using assms
proof (induction xs arbitrary: seen)
  case (Cons a xs)
  show ?case
  proof (cases "key a \<in> seen \<or> \<not> keep a")
    case True
    then obtain ys zs where "xs = ys @ x # zs" "key x \<notin> seen" "\<forall>y \<in> set ys. keep y \<longrightarrow> key y \<noteq> key x"
      using Cons.IH [of seen] Cons.prems unfolding dedup_old [OF True] by blast
    then have "a # xs = (a # ys) @ x # zs \<and> key x \<notin> seen \<and> (\<forall>y \<in> set (a # ys). keep y \<longrightarrow> key y \<noteq> key x)"
      using True by auto
    then show ?thesis by blast
  next
    case False
    then consider "x = a" | "x \<in> set (dedup (insert (key a) seen) xs)"
      using Cons.prems by (auto simp: dedup_new)
    then show ?thesis
    proof cases
      case 1
      then have "a # xs = [] @ x # xs \<and> key x \<notin> seen \<and> (\<forall>y \<in> set []. keep y \<longrightarrow> key y \<noteq> key x)"
        using False by simp
      then show ?thesis by blast
    next
      case 2
      then obtain ys zs where "xs = ys @ x # zs" "key x \<notin> insert (key a) seen"
          "\<forall>y \<in> set ys. keep y \<longrightarrow> key y \<noteq> key x"
        using Cons.IH by blast
      then have "a # xs = (a # ys) @ x # zs \<and> key x \<notin> seen \<and> (\<forall>y \<in> set (a # ys). keep y \<longrightarrow> key y \<noteq> key x)"
        by auto
      then show ?thesis by blast
    qed
  qed
qed (simp add: dedup_Nil)

lemma unchanged:
  assumes "distinct (map key xs)" and "\<forall>x \<in> set xs. keep x \<and> key x \<notin> seen"
  shows "dedup seen xs = xs"
  using assms
proof (induction xs arbitrary: seen)
  case (Cons x xs)
  then have "\<forall>y \<in> set xs. keep y \<and> key y \<notin> insert (key x) seen" by (auto simp: image_iff)
  then have "dedup (insert (key x) seen) xs = xs" using Cons.prems by (intro Cons.IH) auto
  then show ?case using Cons.prems by (simp add: dedup_new)
qed (simp add: dedup_Nil)

lemma idempotent: "dedup {} (dedup {} xs) = dedup {} xs"
  using members [of "{}" xs] by (intro unchanged distinct_keys) auto

end

end
