(* ===== verification/Net_Addr.thy ===== *)
theory Net_Addr
  imports Prelude
begin

unbundle bit_operations_syntax

section \<open>IP addresses and prefixes\<close>

text \<open>
  What the program uses of Go's packages \<open>net\<close> and \<open>net/netip\<close>: addresses, their text
  forms, prefixes and masks. A \<open>netip.Addr\<close> is \<open>V4\<close> of 32 bits or \<open>V6\<close> of 128 bits;
  parsing returns the zone beside it, empty when the text has none.
\<close>

datatype ip_addr = V4 "32 word" | V6 "128 word"

fun bit_len :: "ip_addr \<Rightarrow> nat" where
  "bit_len (V4 a) = 32"
| "bit_len (V6 a) = 128"

fun as16 :: "ip_addr \<Rightarrow> 128 word" where
  "as16 (V4 a) = word_of_nat (0xFFFF * 2 ^ 32 + unat a)"
| "as16 (V6 a) = a"

text \<open>\<open>Is4In6\<close>, \<open>Unmap\<close>, and \<open>To4\<close> of a 16-byte \<open>net.IP\<close>.\<close>

definition is_4in6 :: "128 word \<Rightarrow> bool" where
  "is_4in6 a \<longleftrightarrow> unat a div 2 ^ 32 = 0xFFFF"

definition to4 :: "128 word \<Rightarrow> 32 word option" where
  "to4 a = (if is_4in6 a then Some (ucast a) else None)"

fun unmap :: "ip_addr \<Rightarrow> ip_addr" where
  "unmap (V4 a) = V4 a"
| "unmap (V6 a) = (case to4 a of None \<Rightarrow> V6 a | Some b \<Rightarrow> V4 b)"

lemma unat_bound32: "unat (a :: 32 word) < 2 ^ 32"
  using unsigned_less [of a] by simp

lemma unat_as16_V4: "unat (as16 (V4 a)) = 0xFFFF * 2 ^ 32 + unat a"
  using unat_bound32 [of a] by (simp only: as16.simps, intro of_nat_inverse) simp_all

lemma to4_as16 [simp]: "to4 (as16 (V4 a)) = Some a"
proof -
  have "unat (ucast (as16 (V4 a)) :: 32 word) = unat (as16 (V4 a)) mod 2 ^ 32"
    by (simp only: unsigned_ucast_eq take_bit_eq_mod len_of_numeral_defs) simp
  then have "(ucast (as16 (V4 a)) :: 32 word) = a"
    using unat_bound32 [of a] by (intro word_unat_eq_iff [THEN iffD2]) (simp only: unat_as16_V4 mod_mult_self3 mod_mult_self4 mod_mult_self1 mod_mult_self2 mod_less)
  moreover have "is_4in6 (as16 (V4 a))"
    using unat_bound32 [of a] by (simp only: is_4in6_def unat_as16_V4) simp
  ultimately show ?thesis by (simp only: to4_def if_True)
qed

subsection \<open>Text forms\<close>

text \<open>A dotted octet: one to three digits, at most 255, no leading zero.\<close>

definition octet :: "string \<Rightarrow> nat option" where
  "octet s =
     (if s = [] \<or> (length s > 1 \<and> hd s = CHR ''0'') then None
      else (case digits_val 0 s of None \<Rightarrow> None | Some v \<Rightarrow> if v > 255 then None else Some v))"

definition parse_v4 :: "string \<Rightarrow> 32 word option" where
  "parse_v4 s =
     (case map octet (split_on (CHR ''.'') s) of
        [Some a, Some b, Some c, Some d] \<Rightarrow>
          Some (word_of_nat (((a * 256 + b) * 256 + c) * 256 + d))
      | _ \<Rightarrow> None)"

definition hex_digit :: "char \<Rightarrow> nat option" where
  "hex_digit c =
     (let n = of_char c :: nat
      in if 48 \<le> n \<and> n \<le> 57 then Some (n - 48)
         else if 97 \<le> n \<and> n \<le> 102 then Some (n - 87)
         else if 65 \<le> n \<and> n \<le> 70 then Some (n - 55) else None)"

fun hex_run :: "nat \<Rightarrow> nat \<Rightarrow> string \<Rightarrow> nat \<times> nat \<times> string" where
  "hex_run acc n [] = (acc, n, [])"
| "hex_run acc n (c # cs) =
     (case hex_digit c of None \<Rightarrow> (acc, n, c # cs) | Some d \<Rightarrow> hex_run (16 * acc + d) (n + 1) cs)"

text \<open>
  The groups of an IPv6 text: sixteen-bit values in order, and where the double colon was.
  The number of groups read so far bounds the recursion: at most eight fit.
\<close>

fun parse_groups :: "nat \<Rightarrow> nat list \<Rightarrow> nat option \<Rightarrow> string \<Rightarrow> (nat list \<times> nat option) option" where
  "parse_groups room gs ell s =
     (if room = 0 then (if s = [] then Some (gs, ell) else None)
      else (case hex_run 0 0 s of (acc, n, rest) \<Rightarrow>
        if n = 0 \<or> n > 4 then None
        else if rest \<noteq> [] \<and> hd rest = CHR ''.'' then
          (if (ell = None \<and> length gs \<noteq> 6) \<or> room < 2 then None
           else (case parse_v4 s of
               None \<Rightarrow> None
             | Some a \<Rightarrow> Some (gs @ [unat a div 65536, unat a mod 65536], ell)))
        else if rest = [] then Some (gs @ [acc], ell)
        else if hd rest \<noteq> CHR '':'' \<or> tl rest = [] then None
        else if hd (tl rest) = CHR '':'' then
          (if ell \<noteq> None then None
           else if tl (tl rest) = [] then Some (gs @ [acc], Some (length gs + 1))
           else parse_groups (room - 1) (gs @ [acc]) (Some (length gs + 1)) (tl (tl rest)))
        else parse_groups (room - 1) (gs @ [acc]) ell (tl rest)))"

declare parse_groups.simps [simp del]

definition expand_groups :: "nat list \<times> nat option \<Rightarrow> nat list option" where
  "expand_groups r =
     (case r of
        (gs, None) \<Rightarrow> if length gs = 8 then Some gs else None
      | (gs, Some k) \<Rightarrow>
          if length gs = 8 then None
          else Some (take k gs @ replicate (8 - length gs) 0 @ drop k gs))"

definition groups_word :: "nat list \<Rightarrow> 128 word" where
  "groups_word gs = word_of_nat (foldl (\<lambda>v g. v * 65536 + g) 0 gs)"

definition parse_v6 :: "string \<Rightarrow> 128 word option" where
  "parse_v6 s =
     (if s = ''::'' then Some 0
      else (case (if has_prefix s ''::'' then parse_groups 8 [] (Some 0) (drop 2 s)
                  else parse_groups 8 [] None s) of
          None \<Rightarrow> None
        | Some r \<Rightarrow> map_option groups_word (expand_groups r)))"

text \<open>\<open>netip.ParseAddr\<close>: the address and its zone.\<close>

definition parse_addr_zone :: "string \<Rightarrow> (ip_addr \<times> string) option" where
  "parse_addr_zone s =
     (case find (\<lambda>c. c = CHR ''.'' \<or> c = CHR '':'' \<or> c = CHR ''%'') s of
        None \<Rightarrow> None
      | Some c \<Rightarrow>
          if c = CHR ''.'' then map_option (\<lambda>a. (V4 a, [])) (parse_v4 s)
          else if c = CHR ''%'' then None
          else (case str_index s ''%'' of
              None \<Rightarrow> map_option (\<lambda>a. (V6 a, [])) (parse_v6 s)
            | Some i \<Rightarrow>
                if drop (i + 1) s = [] then None
                else map_option (\<lambda>a. (V6 a, drop (i + 1) s)) (parse_v6 (take i s))))"

text \<open>The callers that reject a zone (\<open>net.ParseIP\<close>, the prefix parsers).\<close>

definition parse_addr :: "string \<Rightarrow> ip_addr option" where
  "parse_addr s =
     (case parse_addr_zone s of None \<Rightarrow> None | Some (a, z) \<Rightarrow> if z = [] then Some a else None)"

definition v4_string :: "32 word \<Rightarrow> string" where
  "v4_string a =
     (let n = unat a
      in join ''.'' [dec_of (n div 2 ^ 24), dec_of (n div 2 ^ 16 mod 256),
           dec_of (n div 2 ^ 8 mod 256), dec_of (n mod 256)])"

definition hex_char :: "nat \<Rightarrow> char" where
  "hex_char d = (if d < 10 then char_of (48 + d) else char_of (87 + d))"

function hex_of :: "nat \<Rightarrow> string" where
  "hex_of n = (if n < 16 then [hex_char n] else hex_of (n div 16) @ [hex_char (n mod 16)])"
  by pat_completeness auto
termination by (relation "measure id") auto

declare hex_of.simps [simp del]

definition word_groups :: "128 word \<Rightarrow> nat list" where
  "word_groups a = map (\<lambda>i. unat a div 2 ^ (112 - 16 * i) mod 65536) [0..<8]"

definition zero_run :: "nat list \<Rightarrow> nat \<Rightarrow> nat" where
  "zero_run gs i = length (takeWhile (\<lambda>g. g = 0) (drop i gs))"

definition longest_zeros :: "nat list \<Rightarrow> nat \<times> nat" where
  "longest_zeros gs =
     foldl (\<lambda>(s, l) i. if 2 \<le> zero_run gs i \<and> l < zero_run gs i then (i, zero_run gs i) else (s, l))
       (0, 0) [0..<length gs]"

definition v6_string :: "128 word \<Rightarrow> string" where
  "v6_string a =
     (let gs = word_groups a;
          (s, l) = longest_zeros gs;
          text_of = (\<lambda>ws. join '':'' (map hex_of ws))
      in if l = 0 then text_of gs
         else text_of (take s gs) @ ''::'' @ text_of (drop (s + l) gs))"

text \<open>\<open>netip.Addr.String\<close>, and \<open>net.IP.String\<close> of a 16-byte address.\<close>

fun addr_string :: "ip_addr \<Rightarrow> string" where
  "addr_string (V4 a) = v4_string a"
| "addr_string (V6 a) =
     (case to4 a of Some b \<Rightarrow> ''::ffff:'' @ v4_string b | None \<Rightarrow> v6_string a)"

definition ip_string :: "128 word \<Rightarrow> string" where
  "ip_string a = (case to4 a of Some b \<Rightarrow> v4_string b | None \<Rightarrow> v6_string a)"

subsection \<open>Prefixes\<close>

type_synonym prefix = "ip_addr \<times> nat"

definition prefix_string :: "prefix \<Rightarrow> string" where
  "prefix_string p = addr_string (fst p) @ ''/'' @ dec_of (snd p)"

definition masked32 :: "nat \<Rightarrow> 32 word \<Rightarrow> 32 word" where
  "masked32 n a = push_bit (32 - n) (drop_bit (32 - n) a)"

definition masked128 :: "nat \<Rightarrow> 128 word \<Rightarrow> 128 word" where
  "masked128 n a = push_bit (128 - n) (drop_bit (128 - n) a)"

text \<open>\<open>netip.Prefix.Contains\<close>: the families must agree.\<close>

fun prefix_contains :: "prefix \<Rightarrow> ip_addr \<Rightarrow> bool" where
  "prefix_contains (V4 a, n) (V4 b) \<longleftrightarrow> masked32 n a = masked32 n b"
| "prefix_contains (V6 a, n) (V6 b) \<longleftrightarrow> masked128 n a = masked128 n b"
| "prefix_contains (V4 a, n) (V6 b) \<longleftrightarrow> False"
| "prefix_contains (V6 a, n) (V4 b) \<longleftrightarrow> False"

text \<open>\<open>netip.ParsePrefix\<close>: the last slash separates the bits, written without a leading zero.\<close>

definition parse_prefix :: "string \<Rightarrow> prefix option" where
  "parse_prefix s =
     (case str_last_index s (CHR ''/'') of
        None \<Rightarrow> None
      | Some i \<Rightarrow>
          (let bits = drop (i + 1) s
           in case parse_addr (take i s) of
                None \<Rightarrow> None
              | Some a \<Rightarrow>
                  if length bits > 1 \<and> (hd bits < CHR ''1'' \<or> hd bits > CHR ''9'') then None
                  else if bits = [] then None
                  else (case digits_val 0 bits of
                      None \<Rightarrow> None
                    | Some n \<Rightarrow> if n > bit_len a then None else Some (a, n))))"

text \<open>
  \<open>net.ParseCIDR\<close>, as the text \<open>IPNet.String\<close> gives of its second result, and whether that
  text is IPv6: the base address masked, its four-byte form when it is a mapped one.
\<close>

definition parse_cidr :: "string \<Rightarrow> (bool \<times> string) option" where
  "parse_cidr s =
     (case str_index s ''/'' of
        None \<Rightarrow> None
      | Some i \<Rightarrow>
          (let bits = drop (i + 1) s
           in case parse_addr (take i s) of
                None \<Rightarrow> None
              | Some a \<Rightarrow>
                  (case (if bits = [] then None else digits_val 0 bits) of
                     None \<Rightarrow> None
                   | Some n \<Rightarrow>
                       if n > bit_len a then None
                       else (case a of
                           V4 b \<Rightarrow> Some (False, v4_string (masked32 n b) @ ''/'' @ dec_of n)
                         | V6 b \<Rightarrow>
                             (case to4 (masked128 n b) of
                                Some c \<Rightarrow> Some (False, v4_string c @ ''/'' @ dec_of (n - 96))
                              | None \<Rightarrow> Some (True, v6_string (masked128 n b) @ ''/'' @ dec_of n))))))"

end
