(* ===== verification/Rule_Text.thy ===== *)
theory Rule_Text
  imports Go_Text Net_Addr
begin

section \<open>Rules and the text rule parser\<close>

text \<open>
  \<open>internal/rules\<close>: the rule model, the normal form of host names, the line parser of the
  text lists (\<open>parse_text.go\<close>), the duplicate filter, the split by capability and the neutral
  rule artifact (\<open>artifact.go\<close>). \<open>lo\<close> and \<open>up\<close> are the case mappings of strings
  that hold a non-ASCII character. The type of a zero \<open>Rule\<close> is \<open>Untyped\<close>.
\<close>

datatype rule_type =
    Untyped | Domain | Domain_Suffix | Domain_Keyword | Ip_Cidr | Ip_Cidr6 | Classical
  | Dst_Port | Logical | Native | Geo_Site | Geo_Ip

fun type_name :: "rule_type \<Rightarrow> string" where
  "type_name Untyped = []"
| "type_name Domain = ''domain''"
| "type_name Domain_Suffix = ''domain_suffix''"
| "type_name Domain_Keyword = ''domain_keyword''"
| "type_name Ip_Cidr = ''ip_cidr''"
| "type_name Ip_Cidr6 = ''ip_cidr6''"
| "type_name Classical = ''classical''"
| "type_name Dst_Port = ''dst_port''"
| "type_name Logical = ''logical''"
| "type_name Native = ''native''"
| "type_name Geo_Site = ''geosite''"
| "type_name Geo_Ip = ''geoip''"

record rule =
  rl_type :: rule_type
  rl_value :: string
  rl_no_resolve :: bool
  rl_source :: string
  rl_line :: nat
  rl_openwrt :: bool
  rl_mihomo :: bool

definition zero_rule :: rule where
  "zero_rule = \<lparr>rl_type = Untyped, rl_value = [], rl_no_resolve = False, rl_source = [],
     rl_line = 0, rl_openwrt = False, rl_mihomo = False\<rparr>"

definition mk_rule :: "rule_type \<Rightarrow> string \<Rightarrow> bool \<Rightarrow> bool \<Rightarrow> rule" where
  "mk_rule ty v openwrt mihomo =
     zero_rule \<lparr>rl_type := ty, rl_value := v, rl_openwrt := openwrt, rl_mihomo := mihomo\<rparr>"

record provider =
  pv_name :: string
  pv_behavior :: string
  pv_format :: string
  pv_section :: string
  pv_action :: string
  pv_rules :: "rule list"
  pv_warnings :: "string list"

subsection \<open>Host names\<close>

definition normalize_domain :: "(string \<Rightarrow> string) \<Rightarrow> string \<Rightarrow> string" where
  "normalize_domain lo v =
     trim_suffix (trim_prefix (trim_prefix (trim_space (to_lower lo v)) ''+.'') ''.'') ''.''"

definition host_char :: "char \<Rightarrow> bool" where
  "host_char c \<longleftrightarrow>
     (CHR ''a'' \<le> c \<and> c \<le> CHR ''z'') \<or> (CHR ''0'' \<le> c \<and> c \<le> CHR ''9'')
     \<or> c = CHR ''.'' \<or> c = CHR ''-'' \<or> c = CHR ''_''"

definition valid_label :: "string \<Rightarrow> bool" where
  "valid_label l \<longleftrightarrow>
     \<not> (l = [] \<or> length l > 63 \<or> has_prefix l ''-'' \<or> has_suffix l ''-'')"

definition valid_host :: "string \<Rightarrow> bool" where
  "valid_host v \<longleftrightarrow>
     \<not> (v = [] \<or> length v > 253 \<or> str_contains v ''*'' \<or> str_contains v ''..'')
     \<and> list_all host_char v \<and> list_all valid_label (split_on (CHR ''.'') v)"

definition is_valid_domain :: "(string \<Rightarrow> string) \<Rightarrow> string \<Rightarrow> bool" where
  "is_valid_domain lo v = valid_host (normalize_domain lo v)"

definition classify_value :: "(string \<Rightarrow> string) \<Rightarrow> string \<Rightarrow> rule" where
  "classify_value lo raw =
     (let v = trim_space raw
      in case parse_cidr v of
           Some (v6, s) \<Rightarrow> mk_rule (if v6 then Ip_Cidr6 else Ip_Cidr) s True True
         | None \<Rightarrow>
             (case parse_addr v of
                Some ip \<Rightarrow>
                  (case to4 (as16 ip) of
                     Some a \<Rightarrow> mk_rule Ip_Cidr (v4_string a @ ''/32'') True True
                   | None \<Rightarrow> mk_rule Ip_Cidr6 (ip_string (as16 ip) @ ''/128'') True True)
              | None \<Rightarrow>
                  (if \<not> is_valid_domain lo v
                   then mk_rule Domain_Suffix (normalize_domain lo v) False False
                   else mk_rule Domain_Suffix (normalize_domain lo v) True True)))"

definition rule_key :: "rule \<Rightarrow> string" where
  "rule_key r = type_name (rl_type r) @ ''|'' @ rl_value r"

fun dedup_rules :: "string set \<Rightarrow> rule list \<Rightarrow> rule list" where
  "dedup_rules seen [] = []"
| "dedup_rules seen (r # rs) =
     (if rule_key r \<notin> seen \<and> rl_value r \<noteq> [] then r # dedup_rules (insert (rule_key r) seen) rs
      else dedup_rules seen rs)"

definition dedup :: "rule list \<Rightarrow> rule list" where
  "dedup rs = dedup_rules {} rs"

subsection \<open>Logical rules\<close>

definition is_native_network :: "(string \<Rightarrow> string) \<Rightarrow> string \<Rightarrow> bool" where
  "is_native_network lo v =
     (let w = to_lower lo (trim_space v) in w = ''tcp'' \<or> w = ''udp'')"

text \<open>
  The scan of \<open>splitLogicalConditions\<close>: the text still to read, the depth of open
  parentheses (negative when there are too many closing ones), the condition being read, if
  any, and the conditions read.
\<close>

fun scan_conditions :: "string \<Rightarrow> int \<Rightarrow> string option \<Rightarrow> string list \<Rightarrow> string list" where
  "scan_conditions [] depth cur out = out"
| "scan_conditions (c # cs) depth cur out =
     (if c = CHR ''('' then
        scan_conditions cs (depth + 1)
          (if depth = 0 then Some [] else map_option (\<lambda>t. t @ [c]) cur) out
      else if c = CHR '')'' then
        (case cur of
           Some t \<Rightarrow>
             if depth = 1 then scan_conditions cs 0 None (out @ [trim_space t])
             else scan_conditions cs (depth - 1) (Some (t @ [c])) out
         | None \<Rightarrow> scan_conditions cs (depth - 1) None out)
      else scan_conditions cs depth (map_option (\<lambda>t. t @ [c]) cur) out)"

definition split_logical_conditions :: "string \<Rightarrow> string list" where
  "split_logical_conditions line =
     (case (str_index line ''('', str_last_index line (CHR '')'')) of
        (Some start, Some stop) \<Rightarrow>
          if stop \<le> start then []
          else scan_conditions (take (stop - (start + 1)) (drop (start + 1) line)) 0 None []
      | _ \<Rightarrow> [])"

definition native_condition :: "(string \<Rightarrow> string) \<Rightarrow> string \<Rightarrow> string option" where
  "native_condition lo cond =
     (case split2 (CHR '','') cond of
        [k, v] \<Rightarrow>
          (let key = to_lower lo (trim_space k); val = trim_space v
           in if key = ''ip-cidr'' then Some (''ip daddr '' @ val)
              else if key = ''ip-cidr6'' then Some (''ip6 daddr '' @ val)
              else if key = ''src-ip-cidr'' then Some (''ip saddr '' @ val)
              else if key = ''src-ip-cidr6'' then Some (''ip6 saddr '' @ val)
              else if key = ''network'' then
                (if \<not> is_native_network lo val then None
                 else Some (''meta l4proto '' @ to_lower lo val))
              else if key = ''dst-port'' then Some (''th dport '' @ val)
              else if key = ''src-port'' then Some (''th sport '' @ val)
              else None)
      | _ \<Rightarrow> None)"

fun native_conditions :: "(string \<Rightarrow> string) \<Rightarrow> string list \<Rightarrow> string list option" where
  "native_conditions lo [] = Some []"
| "native_conditions lo (c # cs) =
     (case native_condition lo c of
        None \<Rightarrow> None
      | Some e \<Rightarrow> map_option (\<lambda>es. e # es) (native_conditions lo cs))"

definition parse_native_and :: "(string \<Rightarrow> string) \<Rightarrow> string \<Rightarrow> string option" where
  "parse_native_and lo line =
     (let conds = split_logical_conditions line
      in if conds = [] then None else map_option (join '' '') (native_conditions lo conds))"

definition parse_logical_rule ::
    "(string \<Rightarrow> string) \<Rightarrow> (string \<Rightarrow> string) \<Rightarrow> string \<Rightarrow> rule option" where
  "parse_logical_rule lo up line =
     (let trimmed = trim_space line; upper = to_upper up trimmed
      in if has_prefix upper ''AND,'' then
           (case parse_native_and lo trimmed of
              Some expr \<Rightarrow> Some (mk_rule Native expr True True)
            | None \<Rightarrow> Some (mk_rule Logical trimmed False True))
         else if has_prefix upper ''OR,'' \<or> has_prefix upper ''NOT,'' then
           Some (mk_rule Logical trimmed False True)
         else None)"

subsection \<open>The line parser\<close>

definition strip_comment :: "string \<Rightarrow> string \<Rightarrow> string" where
  "strip_comment mark line =
     (case str_index line (CHR '' '' # mark) of
        Some i \<Rightarrow> trim_space (take i line)
      | None \<Rightarrow>
          (case str_index line (tab # mark) of
             Some i \<Rightarrow> trim_space (take i line)
           | None \<Rightarrow> line))"

definition line_content :: "string \<Rightarrow> string" where
  "line_content raw =
     (let line = trim_space raw
      in if line = [] \<or> has_prefix line ''#'' \<or> has_prefix line ''//'' then []
         else strip_comment ''//'' (strip_comment ''#'' line))"

definition domain_rule ::
    "(string \<Rightarrow> string) \<Rightarrow> rule_type \<Rightarrow> bool \<Rightarrow> string list \<Rightarrow> rule" where
  "domain_rule lo ty openwrt parts =
     (if length parts > 1 \<and> is_valid_domain lo (parts ! 1)
      then mk_rule ty (normalize_domain lo (parts ! 1)) openwrt True else zero_rule)"

definition value_rule :: "rule_type \<Rightarrow> (string \<Rightarrow> string) \<Rightarrow> bool \<Rightarrow> string list \<Rightarrow> rule" where
  "value_rule ty f openwrt parts =
     (if length parts > 1 then mk_rule ty (f (trim_space (parts ! 1))) openwrt True else zero_rule)"

definition parse_line :: "(string \<Rightarrow> string) \<Rightarrow> (string \<Rightarrow> string) \<Rightarrow> string \<Rightarrow> rule" where
  "parse_line lo up line =
     (let parts = split_on (CHR '','') line;
          kind = to_upper up (hd parts);
          nr = str_contains (to_lower lo line) ''no-resolve''
      in if kind = ''DOMAIN'' then domain_rule lo Domain True parts
         else if kind = ''DOMAIN-SUFFIX'' then domain_rule lo Domain_Suffix True parts
         else if kind = ''DOMAIN-KEYWORD'' then domain_rule lo Domain_Keyword False parts
         else if kind = ''IP-CIDR'' then
           (if length parts > 1 then (value_rule Ip_Cidr id True parts) \<lparr>rl_no_resolve := nr\<rparr>
            else zero_rule)
         else if kind = ''IP-CIDR6'' then
           (if length parts > 1 then (value_rule Ip_Cidr6 id True parts) \<lparr>rl_no_resolve := nr\<rparr>
            else zero_rule)
         else if kind = ''GEOSITE'' then value_rule Geo_Site (to_lower lo) False parts
         else if kind = ''GEOIP'' then value_rule Geo_Ip (to_lower lo) False parts
         else if kind = ''DST-PORT'' then value_rule Native (\<lambda>v. ''th dport '' @ v) True parts
         else if kind = ''SRC-PORT'' then value_rule Native (\<lambda>v. ''th sport '' @ v) True parts
         else if kind = ''NETWORK'' then
           (if length parts > 1 \<and> is_native_network lo (parts ! 1)
            then value_rule Native (\<lambda>v. ''meta l4proto '' @ to_lower lo v) True parts
            else zero_rule)
         else classify_value lo line)"

definition line_rule ::
    "(string \<Rightarrow> string) \<Rightarrow> (string \<Rightarrow> string) \<Rightarrow> string \<Rightarrow> nat \<Rightarrow> string \<Rightarrow> rule option" where
  "line_rule lo up name n raw =
     (let content = line_content raw
      in if content = [] then None
         else (let line = trim_prefix content ''+'';
                   r = (case parse_logical_rule lo up line of
                          Some r \<Rightarrow> r | None \<Rightarrow> parse_line lo up line)
               in Some (r \<lparr>rl_source := name, rl_line := n\<rparr>)))"

fun text_rules ::
    "(string \<Rightarrow> string) \<Rightarrow> (string \<Rightarrow> string) \<Rightarrow> string \<Rightarrow> nat \<Rightarrow> string list \<Rightarrow> rule list" where
  "text_rules lo up name n [] = []"
| "text_rules lo up name n (l # ls) =
     (case line_rule lo up name (n + 1) l of
        None \<Rightarrow> text_rules lo up name (n + 1) ls
      | Some r \<Rightarrow> r # text_rules lo up name (n + 1) ls)"

definition parse_text ::
    "(string \<Rightarrow> string) \<Rightarrow> (string \<Rightarrow> string) \<Rightarrow> string \<Rightarrow> bytes \<Rightarrow> provider" where
  "parse_text lo up name data =
     \<lparr>pv_name = name, pv_behavior = [], pv_format = ''text'', pv_section = [],
      pv_action = ''proxy'', pv_rules = dedup (text_rules lo up name 0 (fst (scan_lines data))),
      pv_warnings = []\<rparr>"

definition split_open_wrt :: "rule list \<Rightarrow> rule list \<times> rule list" where
  "split_open_wrt rs =
     (filter rl_openwrt rs, filter (\<lambda>r. \<not> rl_openwrt r \<and> rl_mihomo r) rs)"

subsection \<open>The neutral rule artifact\<close>

record neutral_rule =
  nr_type :: string
  nr_value :: string

definition rule_to_neutral :: "rule \<Rightarrow> neutral_rule option" where
  "rule_to_neutral r =
     (case rl_type r of
        Domain \<Rightarrow> Some \<lparr>nr_type = ''domain'', nr_value = rl_value r\<rparr>
      | Domain_Suffix \<Rightarrow> Some \<lparr>nr_type = ''domain'', nr_value = rl_value r\<rparr>
      | Ip_Cidr \<Rightarrow> Some \<lparr>nr_type = ''cidr4'', nr_value = rl_value r\<rparr>
      | Ip_Cidr6 \<Rightarrow> Some \<lparr>nr_type = ''cidr6'', nr_value = rl_value r\<rparr>
      | Native \<Rightarrow> Some \<lparr>nr_type = ''native'', nr_value = rl_value r\<rparr>
      | _ \<Rightarrow> None)"

definition artifact_header :: string where
  "artifact_header = ''# purewrt-rule-artifact-v1''"

definition write_artifact_rule :: "neutral_rule \<Rightarrow> bytes" where
  "write_artifact_rule r =
     (if nr_type r = [] \<or> trim_space (nr_value r) = [] then []
      else nr_type r @ [tab] @ b64_encode (nr_value r) @ [newline])"

definition write_artifact :: "neutral_rule list \<Rightarrow> bytes" where
  "write_artifact rs = artifact_header @ [newline] @ concat (map write_artifact_rule rs)"

datatype artifact_error = Bad_version string | Bad_line nat | Bad_value nat | Line_too_long

fun read_lines :: "nat \<Rightarrow> string list \<Rightarrow> neutral_rule list \<Rightarrow> artifact_error + neutral_rule list" where
  "read_lines n [] out = Inr out"
| "read_lines n (raw # ls) out =
     (let line = trim_space raw; n' = n + 1
      in if line = [] then read_lines n' ls out
         else if has_prefix line ''#'' then
           (if n' = 1 \<and> line \<noteq> artifact_header then Inl (Bad_version line)
            else read_lines n' ls out)
         else (case split2 tab line of
             [ty, enc] \<Rightarrow>
               (case b64_decode enc of
                  None \<Rightarrow> Inl (Bad_value n')
                | Some data \<Rightarrow> read_lines n' ls (out @ [\<lparr>nr_type = ty, nr_value = data\<rparr>]))
           | _ \<Rightarrow> Inl (Bad_line n')))"

definition read_artifact :: "bytes \<Rightarrow> artifact_error + neutral_rule list" where
  "read_artifact data =
     (case scan_lines data of
        (ls, too_long) \<Rightarrow>
          andthen (read_lines 0 ls []) (\<lambda>out. if too_long then Inl Line_too_long else Inr out))"

subsection \<open>The duplicate filter\<close>

interpretation rule_dedup: keyed_dedup rule_key "\<lambda>r. rl_value r \<noteq> []" dedup_rules
  by unfold_locales auto

lemma type_name_plain: "CHR ''|'' \<notin> set (type_name ty)"
  by (cases ty) auto

lemma type_name_inj: "type_name a = type_name b \<longleftrightarrow> a = b"
  by (cases a; cases b) auto

lemma rule_key_eq: "rule_key r = rule_key s \<longleftrightarrow> rl_type r = rl_type s \<and> rl_value r = rl_value s"
proof
  assume k: "rule_key r = rule_key s"
  have "split2 (CHR ''|'') (rule_key q) = [type_name (rl_type q), rl_value q]" for q :: rule
    unfolding rule_key_def by (simp add: split2_append type_name_plain)
  then show "rl_type r = rl_type s \<and> rl_value r = rl_value s"
    using k type_name_inj by (metis list.inject)
qed (simp add: rule_key_def)

definition rule_id :: "rule \<Rightarrow> rule_type \<times> string" where
  "rule_id r = (rl_type r, rl_value r)"

text \<open>
  The duplicate filter keeps one rule per type and value, drops the empty values and
  nothing else, keeps the first rule of each kind, and is idempotent.
\<close>

theorem dedup_correct:
  "distinct (map rule_id (dedup rs))
   \<and> rule_id ` set (dedup rs) = {k \<in> rule_id ` set rs. snd k \<noteq> []}
   \<and> (\<forall>r \<in> set (dedup rs). \<exists>before after. rs = before @ r # after \<and> rule_id r \<notin> rule_id ` set before)
   \<and> dedup (dedup rs) = dedup rs"
proof (intro conjI)
  have id: "rule_id r = rule_id s \<longleftrightarrow> rule_key r = rule_key s" for r s
    by (simp add: rule_id_def rule_key_eq)
  have "distinct (map f xs) \<longleftrightarrow> distinct (map g xs)" if "\<And>x y. f x = f y \<longleftrightarrow> g x = g y"
    for f :: "rule \<Rightarrow> 'x" and g :: "rule \<Rightarrow> 'y" and xs
    using that by (induction xs) (auto simp: image_iff)
  from this [of rule_id rule_key, OF id] show "distinct (map rule_id (dedup rs))"
    by (simp add: dedup_def rule_dedup.distinct_keys)
  have mem: "set (dedup rs) \<subseteq> {r \<in> set rs. rl_value r \<noteq> []}"
    unfolding dedup_def by (rule rule_dedup.members)
  have keys: "rule_key ` set (dedup rs) = rule_key ` {r \<in> set rs. rl_value r \<noteq> []}"
    unfolding dedup_def by (simp only: rule_dedup.keys Diff_empty)
  show "rule_id ` set (dedup rs) = {k \<in> rule_id ` set rs. snd k \<noteq> []}"
  proof
    show "rule_id ` set (dedup rs) \<subseteq> {k \<in> rule_id ` set rs. snd k \<noteq> []}"
      using mem by (auto simp: rule_id_def)
    show "{k \<in> rule_id ` set rs. snd k \<noteq> []} \<subseteq> rule_id ` set (dedup rs)"
    proof
      fix k assume "k \<in> {k \<in> rule_id ` set rs. snd k \<noteq> []}"
      then obtain r where r: "r \<in> set rs" "k = rule_id r" "rl_value r \<noteq> []"
        by (auto simp: rule_id_def)
      then have "rule_key r \<in> rule_key ` set (dedup rs)" unfolding keys by blast
      then show "k \<in> rule_id ` set (dedup rs)" using r(2) id by (auto simp: image_iff)
    qed
  qed
  show "\<forall>r \<in> set (dedup rs). \<exists>before after. rs = before @ r # after \<and> rule_id r \<notin> rule_id ` set before"
  proof
    fix r assume r: "r \<in> set (dedup rs)"
    then obtain before after where b: "rs = before @ r # after"
        "\<forall>y \<in> set before. rl_value y \<noteq> [] \<longrightarrow> rule_key y \<noteq> rule_key r"
      using rule_dedup.first [of r "{}" rs] by (auto simp: dedup_def)
    have "rule_id r \<notin> rule_id ` set before"
    proof
      assume "rule_id r \<in> rule_id ` set before"
      then obtain y where y: "y \<in> set before" "rule_id y = rule_id r" by (metis imageE)
      moreover have "rl_value r \<noteq> []" using r mem by auto
      ultimately have "rl_value y \<noteq> []" by (simp add: rule_id_def)
      then show False using b(2) y id by blast
    qed
    then show "\<exists>before after. rs = before @ r # after \<and> rule_id r \<notin> rule_id ` set before"
      using b(1) by blast
  qed
  show "dedup (dedup rs) = dedup rs" unfolding dedup_def by (rule rule_dedup.idempotent)
qed

theorem dedup_correct_witness:
  "rule_id ` set (dedup [mk_rule Domain ''a'' True True, zero_rule, mk_rule Domain ''a'' False True]) =
     {(Domain, ''a'')}
   \<and> (\<exists>before after. [mk_rule Domain ''a'' True True, zero_rule, mk_rule Domain ''a'' False True] =
        before @ mk_rule Domain ''a'' True True # after \<and> (Domain, ''a'') \<notin> rule_id ` set before)"
proof
  let ?r = "mk_rule Domain ''a'' True True"
  let ?rs = "[?r, zero_rule, mk_rule Domain ''a'' False True]"
  note spec = dedup_correct [of ?rs]
  have ids: "{k \<in> rule_id ` set ?rs. snd k \<noteq> []} = {(Domain, ''a'')}"
    by (auto simp: rule_id_def mk_rule_def zero_rule_def)
  show "rule_id ` set (dedup ?rs) = {(Domain, ''a'')}"
    using spec [THEN conjunct2, THEN conjunct1] unfolding ids .
  have mem: "?r \<in> set (dedup ?rs)"
    by (simp add: dedup_def rule_key_def mk_rule_def zero_rule_def)
  have key: "rule_id ?r = (Domain, ''a'')" by (simp add: rule_id_def mk_rule_def)
  show "\<exists>before after. ?rs = before @ ?r # after \<and> (Domain, ''a'') \<notin> rule_id ` set before"
    using bspec [OF spec [THEN conjunct2, THEN conjunct2, THEN conjunct1] mem] unfolding key .
qed

subsection \<open>What a parsed list holds\<close>

lemma text_rules_line:
  "r \<in> set (text_rules lo up name n ls) \<longleftrightarrow>
     (\<exists>i < length ls. line_rule lo up name (n + i + 1) (ls ! i) = Some r)"
proof (induction ls arbitrary: n)
  case (Cons l ls)
  have "(\<exists>i < length (l # ls). line_rule lo up name (n + i + 1) ((l # ls) ! i) = Some r) \<longleftrightarrow>
      line_rule lo up name (n + 1) l = Some r
      \<or> (\<exists>i < length ls. line_rule lo up name (n + 1 + i + 1) (ls ! i) = Some r)"
    by (simp add: Ex_less_Suc2)
  then show ?case using Cons [of "n + 1"] by (auto split: option.splits)
qed simp

definition host_rule_ok :: "rule \<Rightarrow> bool" where
  "host_rule_ok r \<longleftrightarrow>
     (rl_type r \<in> {Domain, Domain_Keyword} \<or> rl_type r = Domain_Suffix \<and> rl_openwrt r)
       \<longrightarrow> valid_host (rl_value r) \<or> rl_value r = []"

lemma mk_rule_sel [simp]:
  "rl_type (mk_rule ty v ow m) = ty" "rl_value (mk_rule ty v ow m) = v"
  "rl_openwrt (mk_rule ty v ow m) = ow" "rl_mihomo (mk_rule ty v ow m) = m"
  by (simp_all add: mk_rule_def)

lemma zero_rule_sel [simp]:
  "rl_type zero_rule = Untyped" "rl_value zero_rule = []" "\<not> rl_openwrt zero_rule"
  by (simp_all add: zero_rule_def)

lemma host_rule_ok_native [simp]:
  "ty \<notin> {Domain, Domain_Keyword, Domain_Suffix} \<Longrightarrow> rl_type r = ty \<Longrightarrow> host_rule_ok r"
  by (simp add: host_rule_ok_def)

lemma classify_value_ok: "host_rule_ok (classify_value lo v)"
  by (auto simp: classify_value_def Let_def host_rule_ok_def is_valid_domain_def split: option.splits)

lemma domain_rule_ok: "host_rule_ok (domain_rule lo ty w parts)"
  by (auto simp: domain_rule_def host_rule_ok_def is_valid_domain_def)

lemma value_rule_ok:
  "ty \<notin> {Domain, Domain_Keyword, Domain_Suffix} \<Longrightarrow> host_rule_ok (value_rule ty f w parts)"
  by (auto simp: value_rule_def host_rule_ok_def)

lemma host_rule_ok_update [simp]:
  "host_rule_ok (r \<lparr>rl_no_resolve := b\<rparr>) \<longleftrightarrow> host_rule_ok r"
  "host_rule_ok (r \<lparr>rl_source := nm, rl_line := n\<rparr>) \<longleftrightarrow> host_rule_ok r"
  by (simp_all add: host_rule_ok_def)

lemma parse_line_ok: "host_rule_ok (parse_line lo up line)"
  unfolding parse_line_def Let_def
  by (auto simp: classify_value_ok domain_rule_ok value_rule_ok host_rule_ok_def [of zero_rule])

lemma parse_logical_ok: "parse_logical_rule lo up line = Some r \<Longrightarrow> host_rule_ok r"
  by (auto simp: parse_logical_rule_def Let_def host_rule_ok_def split: if_splits option.splits)

lemma line_rule_ok:
  assumes "line_rule lo up name n raw = Some r"
  shows "host_rule_ok r \<and> rl_source r = name \<and> rl_line r = n"
  using assms parse_line_ok parse_logical_ok
  by (auto simp: line_rule_def Let_def split: if_splits option.splits)

text \<open>
  Every rule of a parsed text list names its provider and the line it came from, is what
  that line alone parses to, has a value, and, when it is a host rule that the router may
  program, its value is a well-formed host name (letters, digits, dots, dashes, underscores;
  labels of 1 to 63 without a dash at an end; at most 253 bytes).
\<close>

theorem parse_text_rules:
  assumes "r \<in> set (pv_rules (parse_text lo up name data))"
  shows "rl_source r = name
    \<and> (\<exists>i < length (fst (scan_lines data)). rl_line r = i + 1
         \<and> line_rule lo up name (i + 1) (fst (scan_lines data) ! i) = Some r)
    \<and> rl_value r \<noteq> []
    \<and> (rl_type r \<in> {Domain, Domain_Keyword} \<or> rl_type r = Domain_Suffix \<and> rl_openwrt r
         \<longrightarrow> valid_host (rl_value r))"
proof -
  let ?ls = "fst (scan_lines data)"
  have mem: "r \<in> set (text_rules lo up name 0 ?ls)" "rl_value r \<noteq> []"
    using assms rule_dedup.members [of "{}" "text_rules lo up name 0 ?ls"]
    by (auto simp: parse_text_def dedup_def)
  then obtain i where i: "i < length ?ls" "line_rule lo up name (i + 1) (?ls ! i) = Some r"
    using text_rules_line [of r lo up name 0 ?ls] by auto
  then show ?thesis
    using line_rule_ok [OF i(2)] mem(2) by (auto simp: host_rule_ok_def)
qed

definition sample_rule :: rule where
  "sample_rule = \<lparr>rl_type = Domain_Suffix, rl_value = ''ads.example'', rl_no_resolve = False,
     rl_source = ''p'', rl_line = 2, rl_openwrt = True, rl_mihomo = True\<rparr>"

lemma sample_parse:
  "pv_rules (parse_text id id ''p'' (''# x'' @ newline # ''DOMAIN-SUFFIX,Ads.Example.'')) = [sample_rule]"
proof -
  have "scan_lines (''# x'' @ newline # ''DOMAIN-SUFFIX,Ads.Example.'') =
      ([''# x'', ''DOMAIN-SUFFIX,Ads.Example.''], False)"
    using scan_lines_line [of "''# x''" "''DOMAIN-SUFFIX,Ads.Example.''"]
      scan_lines_last [of "''DOMAIN-SUFFIX,Ads.Example.''"]
    by (simp add: newline_def drop_cr_def return_def)
  moreover have "dedup (text_rules id id ''p'' 0 [''# x'', ''DOMAIN-SUFFIX,Ads.Example.'']) = [sample_rule]"
    by code_simp
  ultimately show ?thesis by (simp only: parse_text_def provider.simps fst_conv)
qed

theorem parse_text_rules_witness:
  "valid_host ''ads.example'' \<and> rl_line sample_rule = 2"
  using parse_text_rules [of sample_rule id id "''p''" "''# x'' @ newline # ''DOMAIN-SUFFIX,Ads.Example.''"]
  unfolding sample_parse by (simp add: sample_rule_def)

text \<open>
  A line of 64 KiB or more ends the parse without a trace: the list is parsed as if it
  and everything after it were not there, because the error of the line reader is not looked
  at.
\<close>

theorem parse_text_long_line:
  assumes "\<forall>l \<in> set ls. newline \<notin> set l \<and> length l < 65536"
    and "newline \<notin> set long" and "65536 \<le> length long"
  shows "parse_text lo up name (concat (map (\<lambda>l. l @ [newline]) ls) @ long @ rest) =
    parse_text lo up name (concat (map (\<lambda>l. l @ [newline]) ls))"
proof -
  have "fst (scan_lines (concat (map (\<lambda>l. l @ [newline]) ls) @ long @ rest)) =
      fst (scan_lines (concat (map (\<lambda>l. l @ [newline]) ls)))"
    using assms(1)
  proof (induction ls)
    case Nil
    then show ?case using scan_lines_long [OF assms(2,3), of rest] by simp
  next
    case (Cons l ls)
    then show ?case
      using scan_lines_line [of l "concat (map (\<lambda>l. l @ [newline]) ls) @ long @ rest"]
        scan_lines_line [of l "concat (map (\<lambda>l. l @ [newline]) ls)"] by simp
  qed
  then show ?thesis by (simp add: parse_text_def)
qed

theorem parse_text_long_line_witness:
  "parse_text id id ''p'' (''a.example'' @ newline # replicate 65536 (CHR ''b'') @ newline # ''c.example'') =
   parse_text id id ''p'' (''a.example'' @ [newline])"
  using parse_text_long_line [of "[''a.example'']" "replicate 65536 (CHR ''b'')" id id "''p''" "newline # ''c.example''"]
  by (simp add: newline_def)

subsection \<open>Conditions of a logical rule\<close>

definition paren_free :: "string \<Rightarrow> bool" where
  "paren_free s \<longleftrightarrow> CHR ''('' \<notin> set s \<and> CHR '')'' \<notin> set s"

definition render_conditions :: "string list \<Rightarrow> string" where
  "render_conditions cs = join '','' (map (\<lambda>c. ''('' @ c @ '')'') cs)"

lemma scan_condition:
  "paren_free c \<Longrightarrow>
     scan_conditions (c @ CHR '')'' # rest) 1 (Some t) out =
       scan_conditions rest 0 None (out @ [trim_space (t @ c)])"
  by (induction c arbitrary: t) (auto simp: paren_free_def)

lemma scan_rendered:
  "\<forall>c \<in> set cs. paren_free c \<Longrightarrow>
     scan_conditions (render_conditions cs) 0 None out = out @ map trim_space cs"
  unfolding render_conditions_def
proof (induction cs arbitrary: out rule: induct_list012)
  case (2 c)
  then show ?case using scan_condition [of c "[]" "[]" out] by simp
next
  case (3 c d cs)
  have "scan_conditions (join '','' (map (\<lambda>c. ''('' @ c @ '')'') (c # d # cs))) 0 None out =
      scan_conditions (join '','' (map (\<lambda>c. ''('' @ c @ '')'') (d # cs))) 0 None (out @ [trim_space c])"
    using 3(3) scan_condition [of c "CHR '','' # join '','' (map (\<lambda>c. ''('' @ c @ '')'') (d # cs))" "[]" out]
    by simp
  then show ?case using 3 by simp
qed simp

lemma str_last_index_end: "str_last_index (s @ [c]) c = Some (length s)"
proof -
  have "filter (\<lambda>i. (s @ [c]) ! i = c) [0..<length (s @ [c])] =
      filter (\<lambda>i. (s @ [c]) ! i = c) [0..<length s] @ [length s]"
    by simp
  then show ?thesis by (simp only: str_last_index_def Let_def) simp
qed

text \<open>
  The conditions of a logical rule, written in parentheses and separated by commas
  inside one outer pair, are read back in order and trimmed.
\<close>

theorem split_logical_conditions_correct:
  assumes "paren_free opr" and "\<forall>c \<in> set cs. paren_free c"
  shows "split_logical_conditions (opr @ ''('' @ render_conditions cs @ '')'') = map trim_space cs"
proof -
  let ?line = "opr @ ''('' @ render_conditions cs @ '')''"
  have "str_index ?line ''('' = Some (length opr)"
    using assms(1) str_index_append [of "CHR ''(''" opr "render_conditions cs @ '')''"]
    by (simp add: paren_free_def)
  moreover have "str_last_index ?line (CHR '')'') = Some (length opr + 1 + length (render_conditions cs))"
    using str_last_index_end [of "opr @ ''('' @ render_conditions cs" "CHR '')''"] by simp
  ultimately show ?thesis
    using scan_rendered [OF assms(2), of "[]"] by (simp add: split_logical_conditions_def)
qed

theorem split_logical_conditions_correct_witness:
  "split_logical_conditions ''AND,((IP-CIDR,10.0.0.0/8),( NETWORK,tcp))'' = [''IP-CIDR,10.0.0.0/8'', ''NETWORK,tcp'']"
  using split_logical_conditions_correct [of "''AND,''" "[''IP-CIDR,10.0.0.0/8'', '' NETWORK,tcp'']"]
  by (simp add: paren_free_def render_conditions_def solid_ends_def solid_def)

subsection \<open>The artifact round trip\<close>

definition artifact_rule_ok :: "neutral_rule \<Rightarrow> bool" where
  "artifact_rule_ok r \<longleftrightarrow>
     list_all b64_alphabet (nr_type r) \<and> nr_type r \<noteq> [] \<and> hd (nr_type r) \<noteq> CHR ''#''
     \<and> length (nr_type r) + 1 + 4 * ((length (nr_value r) + 2) div 3) < 65536"

definition kept_rule :: "neutral_rule \<Rightarrow> bool" where
  "kept_rule r \<longleftrightarrow> nr_type r \<noteq> [] \<and> trim_space (nr_value r) \<noteq> []"

definition artifact_line :: "neutral_rule \<Rightarrow> string" where
  "artifact_line r = nr_type r @ tab # b64_encode (nr_value r)"

lemma artifact_line_facts:
  assumes "artifact_rule_ok r" and "kept_rule r"
  shows "newline \<notin> set (artifact_line r)" "length (artifact_line r) < 65536"
    "solid_ends (artifact_line r)" "drop_cr (artifact_line r) = artifact_line r"
    "\<not> has_prefix (artifact_line r) ''#''"
    "split2 tab (artifact_line r) = [nr_type r, b64_encode (nr_value r)]"
proof -
  have ty: "list_all b64_alphabet (nr_type r)" "nr_type r \<noteq> []" "hd (nr_type r) \<noteq> CHR ''#''"
    using assms(1) by (auto simp: artifact_rule_ok_def)
  have enc: "list_all b64_alphabet (b64_encode (nr_value r))" by (rule b64_encode_alphabet)
  have ne: "b64_encode (nr_value r) \<noteq> []"
    using assms(2) length_b64_encode [of "nr_value r"]
    by (cases "nr_value r") (auto simp: kept_rule_def)
  show "newline \<notin> set (artifact_line r)"
    using ty enc by (auto simp: artifact_line_def list_all_iff b64_alphabet_def newline_def tab_def)
  show "length (artifact_line r) < 65536"
    using assms(1) by (simp add: artifact_line_def length_b64_encode artifact_rule_ok_def)
  have ends: "hd (artifact_line r) = hd (nr_type r)" "last (artifact_line r) = last (b64_encode (nr_value r))"
    using ty ne by (auto simp: artifact_line_def)
  then show "solid_ends (artifact_line r)"
    using ty enc ne last_in_set [of "b64_encode (nr_value r)"]
    by (cases "nr_type r") (auto simp: solid_ends_def list_all_iff b64_alphabet_def artifact_line_def)
  have "last (artifact_line r) \<noteq> return"
    using ends enc ne last_in_set by (auto simp: list_all_iff b64_alphabet_def)
  then show "drop_cr (artifact_line r) = artifact_line r" by (simp add: drop_cr_def)
  show "\<not> has_prefix (artifact_line r) ''#''"
    using ty by (cases "nr_type r") (auto simp: artifact_line_def)
  show "split2 tab (artifact_line r) = [nr_type r, b64_encode (nr_value r)]"
    using ty by (auto simp: artifact_line_def list_all_iff b64_alphabet_def intro!: split2_append)
qed

lemma write_artifact_rule_line:
  "write_artifact_rule r = (if kept_rule r then artifact_line r @ [newline] else [])"
  by (auto simp: write_artifact_rule_def kept_rule_def artifact_line_def)

lemma scan_artifact:
  "\<forall>r \<in> set rs. artifact_rule_ok r \<Longrightarrow>
     scan_lines (concat (map write_artifact_rule rs)) = (map artifact_line (filter kept_rule rs), False)"
proof (induction rs)
  case (Cons r rs)
  show ?case
  proof (cases "kept_rule r")
    case True
    then show ?thesis
      using Cons artifact_line_facts [of r]
        scan_lines_line [of "artifact_line r" "concat (map write_artifact_rule rs)"]
      by (simp add: write_artifact_rule_line [of r])
  next
    case False
    then show ?thesis using Cons by (simp add: write_artifact_rule_line)
  qed
qed simp

lemma read_artifact_lines:
  "\<forall>r \<in> set rs. artifact_rule_ok r \<and> kept_rule r \<Longrightarrow>
     read_lines n (map artifact_line rs) out = Inr (out @ rs)"
proof (induction rs arbitrary: n out)
  case (Cons r rs)
  then have r: "artifact_rule_ok r" "kept_rule r" by auto
  have "artifact_line r \<noteq> []" by (simp add: artifact_line_def)
  then show ?case using Cons artifact_line_facts [OF r] by simp
qed simp

text \<open>
  C20: reading a written artifact returns the rules that were written, in order, without
  those the writer skips (no type, or a value of white space).
\<close>

theorem artifact_round_trip:
  assumes "\<forall>r \<in> set rs. artifact_rule_ok r"
  shows "read_artifact (write_artifact rs) = Inr (filter kept_rule rs)"
proof -
  have h: "newline \<notin> set artifact_header" "length artifact_header < 65536"
      "drop_cr artifact_header = artifact_header" "solid_ends artifact_header"
      "has_prefix artifact_header ''#''"
    by (simp_all add: artifact_header_def newline_def drop_cr_def return_def solid_ends_def solid_def)
  have "scan_lines (write_artifact rs) = (artifact_header # map artifact_line (filter kept_rule rs), False)"
    using scan_lines_line [OF h(1,2), of "concat (map write_artifact_rule rs)"] scan_artifact [OF assms] h(3)
    by (simp add: write_artifact_def)
  moreover have "read_lines 0 (artifact_header # map artifact_line (filter kept_rule rs)) [] =
      Inr (filter kept_rule rs)"
    using h(4,5) read_artifact_lines [of "filter kept_rule rs" 1 "[]"] assms
    by (simp add: artifact_header_def)
  ultimately show ?thesis by (simp add: read_artifact_def)
qed

theorem artifact_round_trip_witness:
  "read_artifact (write_artifact [\<lparr>nr_type = ''domain'', nr_value = ''a.b''\<rparr>]) =
     Inr [\<lparr>nr_type = ''domain'', nr_value = ''a.b''\<rparr>]"
  using artifact_round_trip [of "[\<lparr>nr_type = ''domain'', nr_value = ''a.b''\<rparr>]"]
  by (simp add: artifact_rule_ok_def kept_rule_def b64_alphabet_def newline_def return_def tab_def
      solid_def solid_ends_def)

end
