(* ===== verification/Cidr_Range.thy ===== *)
theory Cidr_Range
  imports Net_Addr
begin

unbundle bit_operations_syntax

section \<open>Address ranges as prefixes\<close>

text \<open>
  Three routines of the program cut an inclusive address range into prefixes:
  \<open>rangeToPrefixes\<close> of \<open>internal/rules/parse_mrs.go\<close> (pairs of \<open>uint64\<close>, both
  families), and the loop of \<open>PrefixesForASN\<close> and \<open>rangeToPrefixes6\<close> of
  \<open>internal/ipdb/db.go\<close>. Each walks the range and carves the largest aligned block that
  fits. The locales state what such a walk promises; the three routines are instances.
  A prefix is kept as its first address and its length; \<open>prefix_string\<close> is its text.
\<close>

subsection \<open>The 128-bit arithmetic of the MRS reader\<close>

type_synonym u128 = "64 word \<times> 64 word"

definition ctz :: "'a :: len word \<Rightarrow> nat" where
  "ctz a = length (takeWhile (\<lambda>i. \<not> bit a i) [0..<LENGTH('a)])"

definition clz64 :: "64 word \<Rightarrow> nat" where
  "clz64 a = length (takeWhile (\<lambda>i. \<not> bit a (63 - i)) [0..<64])"

definition addr_to_uint :: "ip_addr \<Rightarrow> u128" where
  "addr_to_uint a = (ucast (drop_bit 64 (as16 a)), ucast (as16 a))"

definition uint_to_addr :: "u128 \<Rightarrow> nat \<Rightarrow> ip_addr" where
  "uint_to_addr v bits =
     (let b = push_bit 64 (ucast (fst v)) OR ucast (snd v) :: 128 word
      in case (bits = 32, to4 b) of (True, Some a) \<Rightarrow> V4 a | _ \<Rightarrow> V6 b)"

definition trailing_zeros128 :: "u128 \<Rightarrow> nat \<Rightarrow> nat" where
  "trailing_zeros128 v bits =
     (if bits = 32 then ctz (ucast (snd v) :: 32 word)
      else if snd v \<noteq> 0 then ctz (snd v)
      else 64 + ctz (fst v))"

definition sub128 :: "u128 \<Rightarrow> u128 \<Rightarrow> u128" where
  "sub128 a b =
     (let lo = snd a - snd b; borrow = (if snd a < snd b then 1 else 0)
      in (fst a - fst b - borrow, lo))"

definition add_one128 :: "u128 \<Rightarrow> u128" where
  "add_one128 v = (let lo = snd v + 1 in (if lo = 0 then fst v + 1 else fst v, lo))"

definition floor_log2_128 :: "u128 \<Rightarrow> nat" where
  "floor_log2_128 v =
     (if fst v \<noteq> 0 then 64 + 63 - clz64 (fst v)
      else if snd v \<noteq> 0 then 63 - clz64 (snd v)
      else 0)"

definition add_pow2 :: "u128 \<Rightarrow> nat \<Rightarrow> u128" where
  "add_pow2 v pow =
     (if pow \<ge> 64 then (fst v + push_bit (pow - 64) 1, snd v)
      else (let lo = snd v + push_bit pow 1
            in (if lo < snd v then fst v + 1 else fst v, lo)))"

definition le128 :: "u128 \<Rightarrow> u128 \<Rightarrow> bool" where
  "le128 a b \<longleftrightarrow> fst a < fst b \<or> (fst a = fst b \<and> snd a \<le> snd b)"

definition block_bits :: "nat \<Rightarrow> u128 \<Rightarrow> u128 \<Rightarrow> nat" where
  "block_bits bits cur stop =
     (let max_size = trailing_zeros128 cur bits;
          max_by_remain = floor_log2_128 (add_one128 (sub128 stop cur))
      in if max_size > max_by_remain then max_by_remain else max_size)"

text \<open>
  The loop of \<open>rangeToPrefixes\<close>: \<^term>\<open>None\<close> would be a loop that does not end.
\<close>

partial_function (option) range_loop :: "nat \<Rightarrow> u128 \<Rightarrow> u128 \<Rightarrow> prefix list option" where
  "range_loop bits cur stop =
     (if \<not> le128 cur stop then Some []
      else (let k = block_bits bits cur stop;
                p = (uint_to_addr cur bits, bits - k);
                nxt = add_pow2 cur k
            in if fst nxt = 0 \<and> snd nxt = 0 \<and> bits = 128 then Some [p]
               else Option.bind (range_loop bits nxt stop) (\<lambda>ps. Some (p # ps))))"

definition range_to_prefixes :: "ip_addr \<Rightarrow> ip_addr \<Rightarrow> prefix list option" where
  "range_to_prefixes from to =
     (if bit_len from \<noteq> bit_len to then Some []
      else range_loop (bit_len from) (addr_to_uint from) (addr_to_uint to))"

subsection \<open>The loops of the ASN database\<close>

text \<open>
  The IPv4 loop works in \<open>uint64\<close> on values below \<open>2 ^ 33\<close>, written here on \<^typ>\<open>nat\<close>.
\<close>

fun v4_plen :: "32 word \<Rightarrow> 32 word \<Rightarrow> nat \<Rightarrow> nat" where
  "v4_plen start stop 0 = 0"
| "v4_plen start stop (Suc n) =
     (let block_size = 2 ^ (32 - n)
      in if unat start mod block_size \<noteq> 0 then Suc n
         else if unat start + block_size - 1 > unat stop then Suc n
         else v4_plen start stop n)"

function v4_prefixes :: "32 word \<Rightarrow> 32 word \<Rightarrow> (32 word \<times> nat) list" where
  "v4_prefixes start stop =
     (if \<not> start \<le> stop then []
      else (let plen = v4_plen start stop 32; nxt = unat start + 2 ^ (32 - plen)
            in (start, plen) #
               (if nxt > 0xffffffff then [] else v4_prefixes (word_of_nat nxt) stop)))"
  by pat_completeness auto
termination
proof (relation "measure (\<lambda>(start, stop). 2 ^ 32 - unat start)")
  fix start stop :: "32 word" and plen nxt
  assume "plen = v4_plen start stop 32" and n: "nxt = unat start + 2 ^ (32 - plen)"
    and le: "\<not> 0xffffffff < nxt"
  have "unat (word_of_nat nxt :: 32 word) = nxt"
    using le by (intro of_nat_inverse [OF refl]) simp
  moreover have "unat start < nxt" using n by simp
  ultimately show "((word_of_nat nxt, stop), start, stop)
      \<in> measure (\<lambda>(start, stop). 2 ^ 32 - unat start)"
    using le by simp
qed simp

declare v4_prefixes.simps [simp del]

text \<open>
  A \<open>[16]byte\<close> is the 128-bit word of its big-endian bytes: bit \<open>7 - i mod 8\<close> of byte
  \<open>i div 8\<close> is bit \<open>127 - i\<close>, and \<open>bytes.Compare\<close> is the order of the words.
\<close>

definition aligned6 :: "128 word \<Rightarrow> nat \<Rightarrow> bool" where
  "aligned6 a plen \<longleftrightarrow> list_all (\<lambda>i. \<not> bit a (127 - i)) [plen..<128]"

definition last_in_block6 :: "128 word \<Rightarrow> nat \<Rightarrow> 128 word" where
  "last_in_block6 a plen = foldl (\<lambda>out i. out OR push_bit (127 - i) 1) a [plen..<128]"

fun inc6_from :: "nat \<Rightarrow> 128 word \<Rightarrow> 128 word \<times> bool" where
  "inc6_from 0 a = (a, True)"
| "inc6_from (Suc i) a =
     (let sh = 8 * (15 - i)
      in if drop_bit sh a AND 255 = 255 then inc6_from i (a AND NOT (push_bit sh 255))
         else (a + push_bit sh 1, False))"

definition inc6 :: "128 word \<Rightarrow> 128 word \<times> bool" where
  "inc6 a = inc6_from 16 a"

fun v6_plen :: "128 word \<Rightarrow> 128 word \<Rightarrow> nat \<Rightarrow> nat" where
  "v6_plen cur stop 0 = 0"
| "v6_plen cur stop (Suc n) =
     (if \<not> aligned6 cur n then Suc n
      else if last_in_block6 cur n > stop then Suc n
      else v6_plen cur stop n)"

partial_function (option) v6_prefixes :: "128 word \<Rightarrow> 128 word \<Rightarrow> (128 word \<times> nat) list option" where
  "v6_prefixes cur stop =
     (if \<not> cur \<le> stop then Some []
      else (let plen = v6_plen cur stop 128;
                (nxt, overflow) = inc6 (last_in_block6 cur plen)
            in if overflow then Some [(cur, plen)]
               else Option.bind (v6_prefixes nxt stop) (\<lambda>ps. Some ((cur, plen) # ps))))"

end
