(* ===== verification/Cidr_Cover.thy ===== *)
theory Cidr_Cover
  imports Cidr_Range
begin

unbundle bit_operations_syntax

section \<open>The prefixes of a range cover it\<close>

text \<open>
  The contract of a range walk as a locale, its extension for the greedy walk, and the three
  routines of \<open>Cidr_Range\<close> as instances: each returns, its prefixes are proper, disjoint and
  in order, and cover exactly the range; the greedy ones agree with the reference cover.
\<close>

subsection \<open>The interface of a range walk\<close>

lemma step_less: "(v :: nat) \<le> w \<Longrightarrow> w + 1 - (v + 2 ^ s) < w + 1 - v"
  by (rule diff_less_mono2) simp_all

text \<open>
  A walk over values: \<open>val\<close> reads a cursor as a number below \<open>top\<close>, \<open>size\<close> chooses the
  host bits of the next block, \<open>nxt\<close> moves past it or reports the end of the space.
\<close>

locale range_walk =
  fixes top :: nat and val :: "'a \<Rightarrow> nat" and good :: "'a \<Rightarrow> 'a \<Rightarrow> bool"
    and size :: "'a \<Rightarrow> 'a \<Rightarrow> nat" and nxt :: "'a \<Rightarrow> nat \<Rightarrow> 'a option"
    and emit :: "'a \<times> nat \<Rightarrow> 'p" and split :: "'a \<Rightarrow> 'a \<Rightarrow> 'p list option"
  assumes val_bound: "good a b \<Longrightarrow> val b < top"
    and split_empty: "good a b \<Longrightarrow> val b < val a \<Longrightarrow> split a b = Some []"
    and split_step: "good a b \<Longrightarrow> val a \<le> val b \<Longrightarrow> split a b =
      (case nxt a (size a b) of None \<Rightarrow> Some [emit (a, size a b)]
       | Some a' \<Rightarrow> map_option (\<lambda>ps. emit (a, size a b) # ps) (split a' b))"
    and nxt_some: "good a b \<Longrightarrow> val a \<le> val b \<Longrightarrow> nxt a (size a b) = Some a' \<Longrightarrow>
      good a' b \<and> val a' = val a + 2 ^ size a b"
    and nxt_none: "good a b \<Longrightarrow> val a \<le> val b \<Longrightarrow> nxt a (size a b) = None \<Longrightarrow>
      top \<le> val a + 2 ^ size a b"
    and size_aligned: "good a b \<Longrightarrow> val a \<le> val b \<Longrightarrow> 2 ^ size a b dvd val a"
    and size_fits: "good a b \<Longrightarrow> val a \<le> val b \<Longrightarrow> val a + 2 ^ size a b \<le> val b + 1"
begin

definition block :: "'a \<times> nat \<Rightarrow> nat set" where
  "block p = {val (fst p) ..< val (fst p) + 2 ^ snd p}"

lemma split_correct:
  assumes "good a b"
  shows "\<exists>ks. split a b = Some (map emit ks)
    \<and> (\<Union>p \<in> set ks. block p) = {val a .. val b}
    \<and> (\<forall>p \<in> set ks. good (fst p) b \<and> 2 ^ snd p dvd val (fst p) \<and> val (fst p) + 2 ^ snd p \<le> val b + 1)
    \<and> sorted_wrt (\<lambda>p q. val (fst p) + 2 ^ snd p \<le> val (fst q)) ks"
  using assms
proof (induction "val b + 1 - val a" arbitrary: a rule: less_induct)
  case less
  show ?case
  proof (cases "val b < val a")
    case True
    then show ?thesis using less.prems split_empty by (intro exI [of _ "[]"]) auto
  next
    case False
    then have le: "val a \<le> val b" by simp
    note good = less.prems
    note fits = size_fits [OF good le] and al = size_aligned [OF good le]
    show ?thesis
    proof (cases "nxt a (size a b)")
      case None
      then have "val a + 2 ^ size a b = val b + 1"
        using nxt_none [OF good le] fits val_bound [OF good] by simp
      then have "block (a, size a b) = {val a .. val b}" by (auto simp: block_def)
      then show ?thesis using split_step [OF good le] None good al fits
        by (intro exI [of _ "[(a, size a b)]"]) simp
    next
      case (Some a')
      then have a': "good a' b" "val a' = val a + 2 ^ size a b" using nxt_some [OF good le] by auto
      then obtain ks where ks: "split a' b = Some (map emit ks)"
          "(\<Union>p \<in> set ks. block p) = {val a + 2 ^ size a b .. val b}"
          "\<forall>p \<in> set ks. good (fst p) b \<and> 2 ^ snd p dvd val (fst p) \<and> val (fst p) + 2 ^ snd p \<le> val b + 1"
          "sorted_wrt (\<lambda>p q. val (fst p) + 2 ^ snd p \<le> val (fst q)) ks"
        using less.hyps [OF _ a'(1)] step_less [OF le, of "size a b"] unfolding a'(2) by blast
      have cover: "(\<Union>p \<in> set ((a, size a b) # ks). block p) = {val a .. val b}"
        using ks(2) a' fits by (auto simp: block_def)
      have after: "val a + 2 ^ size a b \<le> val (fst q)" if "q \<in> set ks" for q
      proof -
        have "val (fst q) \<in> block q" by (simp add: block_def)
        then have "val (fst q) \<in> {val a + 2 ^ size a b .. val b}" using ks(2) that by blast
        then show ?thesis by simp
      qed
      have "split a b = Some (map emit ((a, size a b) # ks))"
        using split_step [OF good le] Some ks(1) by simp
      then show ?thesis using cover ks after good al fits
        by (intro exI [of _ "(a, size a b) # ks"]) auto
    qed
  qed
qed

end

text \<open>A walk that takes the largest block: its result is determined by the range alone.\<close>

locale greedy_walk = range_walk +
  assumes size_largest: "good a b \<Longrightarrow> val a \<le> val b \<Longrightarrow>
    2 ^ k dvd val a \<Longrightarrow> val a + 2 ^ k \<le> val b + 1 \<Longrightarrow> k \<le> size a b"

definition largest_block :: "nat \<Rightarrow> nat \<Rightarrow> nat" where
  "largest_block lo hi = (GREATEST k. 2 ^ k dvd lo \<and> lo + 2 ^ k \<le> hi + 1)"

function greedy_cover :: "nat \<Rightarrow> nat \<Rightarrow> (nat \<times> nat) list" where
  "greedy_cover lo hi =
     (if hi < lo then [] else (lo, largest_block lo hi) # greedy_cover (lo + 2 ^ largest_block lo hi) hi)"
  by pat_completeness auto
termination by (relation "measure (\<lambda>(lo, hi). hi + 1 - lo)") (simp_all add: step_less del: add_Suc_right One_nat_def)

declare greedy_cover.simps [simp del]

context greedy_walk begin

lemma size_eq:
  assumes "good a b" and "val a \<le> val b"
  shows "largest_block (val a) (val b) = size a b"
  unfolding largest_block_def
proof (rule Greatest_equality)
  show "2 ^ size a b dvd val a \<and> val a + 2 ^ size a b \<le> val b + 1"
    using size_aligned [OF assms] size_fits [OF assms] by simp
  show "k \<le> size a b" if "2 ^ k dvd val a \<and> val a + 2 ^ k \<le> val b + 1" for k
    using that size_largest [OF assms] by simp
qed

lemma split_greedy:
  assumes "good a b"
  shows "\<exists>ks. split a b = Some (map emit ks)
    \<and> map (\<lambda>p. (val (fst p), snd p)) ks = greedy_cover (val a) (val b)
    \<and> (\<forall>p \<in> set ks. good (fst p) b \<and> val (fst p) \<le> val b)"
  using assms
proof (induction "val b + 1 - val a" arbitrary: a rule: less_induct)
  case less
  show ?case
  proof (cases "val b < val a")
    case True
    then show ?thesis using less.prems split_empty
      by (intro exI [of _ "[]"]) (simp add: greedy_cover.simps)
  next
    case False
    then have le: "val a \<le> val b" by simp
    note good = less.prems
    show ?thesis
    proof (cases "nxt a (size a b)")
      case None
      then have "val a + 2 ^ size a b = val b + 1"
        using nxt_none [OF good le] size_fits [OF good le] val_bound [OF good] by simp
      then show ?thesis
        using split_step [OF good le] None le size_eq [OF good le] good
        by (intro exI [of _ "[(a, size a b)]"])
          (simp add: greedy_cover.simps [of "val a"] greedy_cover.simps [of "Suc (val b)"])
    next
      case (Some a')
      then have a': "good a' b" "val a' = val a + 2 ^ size a b" using nxt_some [OF good le] by auto
      then obtain ks where "split a' b = Some (map emit ks)"
          "map (\<lambda>p. (val (fst p), snd p)) ks = greedy_cover (val a') (val b)"
          "\<forall>p \<in> set ks. good (fst p) b \<and> val (fst p) \<le> val b"
        using less.hyps [of a'] step_less [OF le, of "size a b"] by auto
      then show ?thesis
        using split_step [OF good le] Some le size_eq [OF good le] a' good
        by (intro exI [of _ "(a, size a b) # ks"]) (auto simp: greedy_cover.simps [of "val a"])
    qed
  qed
qed

end

subsection \<open>Words as numbers\<close>

lemma takeWhile_upt_ge:
  "k \<le> length (takeWhile P [0..<n]) \<longleftrightarrow> k \<le> n \<and> (\<forall>i < k. P i)"
proof (induction n)
  case (Suc n)
  show ?case
  proof (cases "\<forall>i < n. P i")
    case True
    then have "takeWhile P [0..<Suc n] = [0..<n] @ takeWhile P [n]"
      by (simp add: takeWhile_append)
    then show ?thesis using True by (cases "k = Suc n") (auto simp: less_Suc_eq le_Suc_eq)
  next
    case False
    then obtain i where "i < n" "\<not> P i" by blast
    then have eq: "takeWhile P [0..<Suc n] = takeWhile P [0..<n]"
      by (simp add: takeWhile_append1 [of i])
    have "\<not> (\<forall>i < Suc n. P i)" using False less_Suc_eq by blast
    then show ?thesis using Suc eq by (metis le_SucE le_SucI)
  qed
qed auto

lemma dvd_unat_iff: "2 ^ k dvd unat a \<longleftrightarrow> (\<forall>i < k. \<not> bit a i)"
proof -
  have "2 ^ k dvd unat a \<longleftrightarrow> take_bit k (unat a) = 0" by (simp add: take_bit_eq_0_iff)
  also have "\<dots> \<longleftrightarrow> (\<forall>i. \<not> bit (take_bit k (unat a)) i)" by (auto simp: bit_eq_iff)
  also have "\<dots> \<longleftrightarrow> (\<forall>i < k. \<not> bit a i)"
    by (auto simp: bit_take_bit_iff bit_unsigned_iff dest: bit_imp_le_length)
  finally show ?thesis .
qed

lemma ctz_ge: "k \<le> ctz (a :: 'a :: len word) \<longleftrightarrow> k \<le> LENGTH('a) \<and> 2 ^ k dvd unat a"
  by (simp add: ctz_def takeWhile_upt_ge dvd_unat_iff)

lemma unat_less_iff_bits: "unat (a :: 'a :: len word) < 2 ^ k \<longleftrightarrow> (\<forall>i \<ge> k. \<not> bit a i)"
proof -
  have "unat a < 2 ^ k \<longleftrightarrow> take_bit k (unat a) = unat a"
    by (simp add: take_bit_nat_eq_self_iff)
  also have "\<dots> \<longleftrightarrow> (\<forall>i \<ge> k. \<not> bit (unat a) i)"
    unfolding bit_eq_iff bit_take_bit_iff by (meson bit_imp_possible_bit not_le)
  also have "\<dots> \<longleftrightarrow> (\<forall>i \<ge> k. \<not> bit a i)"
    by (auto simp: bit_unsigned_iff dest: bit_imp_le_length)
  finally show ?thesis .
qed

lemma clz64_log:
  assumes "a \<noteq> 0"
  shows "clz64 a \<le> 63" "2 ^ (63 - clz64 a) \<le> unat a" "unat a < 2 ^ (64 - clz64 a)"
proof -
  have up: "k \<le> clz64 a \<longleftrightarrow> k \<le> 64 \<and> (\<forall>i < k. \<not> bit a (63 - i))" for k
    unfolding clz64_def takeWhile_upt_ge ..
  have high: "\<forall>j \<ge> 64. \<not> bit a j" by (auto dest: bit_imp_le_length)
  have shift: "(\<forall>i < k. \<not> bit a (63 - i)) \<longleftrightarrow> (\<forall>j \<ge> 64 - k. \<not> bit a j)" if "k \<le> 64" for k
  proof
    assume l: "\<forall>i < k. \<not> bit a (63 - i)"
    show "\<forall>j \<ge> 64 - k. \<not> bit a j"
    proof (intro allI impI)
      fix j assume j: "64 - k \<le> j"
      show "\<not> bit a j"
      proof (cases "j \<ge> 64")
        case False
        then have "63 - j < k" "63 - (63 - j) = j" using j that by auto
        then show ?thesis using l by metis
      qed (use high in blast)
    qed
  qed (use that in auto)
  have bnd: "k \<le> clz64 a \<longleftrightarrow> k \<le> 64 \<and> unat a < 2 ^ (64 - k)" for k
    using up [of k] shift [of k] unat_less_iff_bits [of a "64 - k"] by blast
  show le: "clz64 a \<le> 63"
  proof (rule ccontr)
    assume "\<not> clz64 a \<le> 63"
    then have "unat a < 2 ^ 0" using bnd [of 64] by simp
    then show False using assms by (simp add: unat_eq_0)
  qed
  show "unat a < 2 ^ (64 - clz64 a)" using bnd [of "clz64 a"] by simp
  have "\<not> unat a < 2 ^ (64 - (clz64 a + 1))" using bnd [of "clz64 a + 1"] le by auto
  then show "2 ^ (63 - clz64 a) \<le> unat a" by (simp add: not_less)
qed

subsection \<open>The pair arithmetic\<close>

definition val128 :: "u128 \<Rightarrow> nat" where
  "val128 v = unat (fst v) * 2 ^ 64 + unat (snd v)"

lemma unat64_less: "unat (a :: 64 word) < 2 ^ 64"
  using unsigned_less [of a] by simp

lemma pair_le:
  fixes l l' :: nat
  assumes "l < m" and "l' < m"
  shows "h * m + l \<le> h' * m + l' \<longleftrightarrow> h < h' \<or> h = h' \<and> l \<le> l'"
proof -
  have less: "h * m + l < h' * m + l'" if "h < h'" "l < m" for h h' l l' :: nat
  proof -
    have "h * m + l < (h + 1) * m" using that(2) by simp
    also have "\<dots> \<le> h' * m" using that(1) by (intro mult_le_mono1) simp
    finally show ?thesis by simp
  qed
  from less [of h h' l l'] less [of h' h l' l] assms show ?thesis
    by (cases h h' rule: linorder_cases) auto
qed

lemma val128_less: "val128 v < 2 ^ 128"
proof -
  have "unat (fst v) * 2 ^ 64 + unat (snd v) \<le> (2 ^ 64 - 1) * 2 ^ 64 + (2 ^ 64 - 1)"
    using unat64_less [of "fst v"] unat64_less [of "snd v"] by (intro add_mono mult_le_mono) simp_all
  then show ?thesis by (simp add: val128_def)
qed

lemma le128_iff: "le128 a b \<longleftrightarrow> val128 a \<le> val128 b"
  using pair_le [OF unat64_less [of "snd a"] unat64_less [of "snd b"], of "unat (fst a)" "unat (fst b)"]
  by (auto simp: le128_def val128_def word_less_nat_alt word_le_nat_alt word_unat_eq_iff)

lemma val128_sub:
  assumes "val128 b \<le> val128 a"
  shows "val128 (sub128 a b) = val128 a - val128 b"
proof -
  have le: "unat (fst b) < unat (fst a) \<or> unat (fst b) = unat (fst a) \<and> unat (snd b) \<le> unat (snd a)"
    using assms pair_le [OF unat64_less [of "snd b"] unat64_less [of "snd a"], of "unat (fst b)" "unat (fst a)"]
    by (simp add: val128_def)
  show ?thesis
  proof (cases "snd a < snd b")
    case True
    then have l: "unat (snd a - snd b) = unat (snd a) + 2 ^ 64 - unat (snd b)"
      by (simp add: unat_sub_if' word_less_nat_alt)
    have h: "unat (fst b) < unat (fst a)" using le True by (auto simp: word_less_nat_alt)
    then have "unat (fst a - fst b - 1) = unat (fst a) - unat (fst b) - 1"
      by (simp add: unat_sub_if' word_less_nat_alt)
    then show ?thesis
      using l h True unat64_less [of "snd b"]
      by (simp add: sub128_def Let_def val128_def diff_mult_distrib) 
  next
    case False
    then have l: "unat (snd a - snd b) = unat (snd a) - unat (snd b)"
      by (simp add: unat_sub_if' word_less_nat_alt)
    have "unat (fst a - fst b) = unat (fst a) - unat (fst b)"
      using le by (auto simp: unat_sub_if')
    then show ?thesis
      using l le False
      by (auto simp: sub128_def Let_def val128_def diff_mult_distrib word_less_nat_alt)
  qed
qed

lemma unat_add64:
  "unat (a + b :: 64 word) = (if unat a + unat b < 2 ^ 64 then unat a + unat b else unat a + unat b - 2 ^ 64)"
  using unat_plus_if' [of a b] by simp

lemma val128_add_one: "val128 (add_one128 v) = (if val128 v + 1 = 2 ^ 128 then 0 else val128 v + 1)"
proof -
  have z: "a + 1 = 0 \<longleftrightarrow> unat a + 1 = 2 ^ 64" "unat (a + 1) = (if unat a + 1 = 2 ^ 64 then 0 else unat a + 1)"
    for a :: "64 word"
    using unat64_less [of a] unat_add64 [of a 1] by (auto simp: word_unat_eq_iff)
  show ?thesis
    using unat64_less [of "fst v"] unat64_less [of "snd v"]
    by (auto simp: add_one128_def Let_def val128_def z)
qed

lemma unat_push_bit1: "k < 64 \<Longrightarrow> unat (push_bit k 1 :: 64 word) = 2 ^ k"
proof -
  assume k: "k < 64"
  have "(push_bit k 1 :: 64 word) = word_of_nat (2 ^ k)" by simp
  moreover have "(2 :: nat) ^ k < 2 ^ 64" using k by (intro power_strict_increasing) simp_all
  ultimately show ?thesis by (intro of_nat_inverse) simp_all
qed

lemma val128_add_pow2:
  assumes "pow < 128" and "val128 v + 2 ^ pow < 2 ^ 128"
  shows "val128 (add_pow2 v pow) = val128 v + 2 ^ pow"
proof (cases "pow \<ge> 64")
  case True
  have p: "(2 :: nat) ^ pow = 2 ^ (pow - 64) * 2 ^ 64"
    using True by (metis le_add_diff_inverse2 power_add)
  have "(unat (fst v) + 2 ^ (pow - 64)) * 2 ^ 64 < 2 ^ 64 * 2 ^ 64"
    using assms(2) p by (simp add: val128_def distrib_right)
  then have "unat (fst v) + 2 ^ (pow - 64) < 2 ^ 64" by (simp only: mult_less_cancel2)
  then have "unat (fst v + push_bit (pow - 64) 1) = unat (fst v) + 2 ^ (pow - 64)"
    using True assms(1) by (simp only: unat_add64 unat_push_bit1) simp
  then show ?thesis using True p by (simp add: add_pow2_def val128_def distrib_right)
next
  case False
  then have b: "unat (push_bit pow 1 :: 64 word) = 2 ^ pow" by (intro unat_push_bit1) simp
  have small: "(2 :: nat) ^ pow < 2 ^ 64" using False by (intro power_strict_increasing) simp_all
  let ?lo = "snd v + push_bit pow 1"
  show ?thesis
  proof (cases "unat (snd v) + 2 ^ pow < 2 ^ 64")
    case True
    then have "unat ?lo = unat (snd v) + 2 ^ pow" by (simp only: unat_add64 b) simp
    then show ?thesis using False by (simp add: add_pow2_def Let_def val128_def word_less_nat_alt)
  next
    case carry: False
    then have lo: "unat ?lo = unat (snd v) + 2 ^ pow - 2 ^ 64" by (simp only: unat_add64 b) simp
    then have "?lo < snd v" using small carry by (simp add: word_less_nat_alt)
    moreover have "unat (fst v) + 1 < 2 ^ 64"
    proof (rule ccontr)
      assume "\<not> unat (fst v) + 1 < 2 ^ 64"
      then have "2 ^ 64 * 2 ^ 64 \<le> (unat (fst v) + 1) * 2 ^ 64" by (intro mult_le_mono1) simp
      then show False using assms(2) carry by (simp add: val128_def)
    qed
    then have "unat (fst v + 1) = unat (fst v) + 1" by (simp add: unat_add64)
    ultimately show ?thesis using False lo carry by (simp add: add_pow2_def Let_def val128_def)
  qed
qed

lemma val128_add_pow2_wrap:
  assumes "pow < 128" and "val128 v + 2 ^ pow = 2 ^ 128"
  shows "val128 (add_pow2 v pow) = 0"
proof (cases "pow \<ge> 64")
  case True
  have p: "(2 :: nat) ^ pow = 2 ^ (pow - 64) * 2 ^ 64"
    using True by (metis le_add_diff_inverse2 power_add)
  have eq: "(unat (fst v) + 2 ^ (pow - 64)) * 2 ^ 64 + unat (snd v) = 2 ^ 64 * 2 ^ 64"
    using assms(2) p by (simp add: val128_def distrib_right)
  then have "unat (snd v) mod 2 ^ 64 = 0" by (metis mod_mult_self2_is_0 mod_mult_self3)
  then have lo: "unat (snd v) = 0" using unat64_less [of "snd v"] by simp
  then have "unat (fst v) + 2 ^ (pow - 64) = 2 ^ 64" using eq by simp
  then have "unat (fst v + push_bit (pow - 64) 1) = 0"
    using True assms(1) by (simp only: unat_add64 unat_push_bit1) simp
  then show ?thesis using True lo by (simp add: add_pow2_def val128_def)
next
  case False
  then have b: "unat (push_bit pow 1 :: 64 word) = 2 ^ pow" by (intro unat_push_bit1) simp
  have small: "(2 :: nat) ^ pow < 2 ^ 64" using False by (intro power_strict_increasing) simp_all
  have hi: "unat (fst v) = 2 ^ 64 - 1"
  proof (rule ccontr)
    assume "unat (fst v) \<noteq> 2 ^ 64 - 1"
    then have "unat (fst v) * 2 ^ 64 \<le> (2 ^ 64 - 2) * 2 ^ 64"
      using unat64_less [of "fst v"] by (intro mult_le_mono1) simp
    then show False using assms(2) small unat64_less [of "snd v"] by (simp add: val128_def)
  qed
  then have lo: "unat (snd v) + 2 ^ pow = 2 ^ 64" using assms(2) by (simp add: val128_def)
  have "snd v + push_bit pow 1 = 0"
    by (intro word_unat_eq_iff [THEN iffD2]) (simp only: unat_add64 b lo, simp)
  moreover have "0 < snd v" using lo small by (simp add: word_less_nat_alt)
  moreover have "fst v + 1 = 0"
    by (intro word_unat_eq_iff [THEN iffD2]) (simp add: unat_add64 hi)
  ultimately show ?thesis using False by (simp add: add_pow2_def Let_def val128_def)
qed

lemma floor_log2_128_bounds:
  assumes "val128 v \<noteq> 0"
  shows "2 ^ floor_log2_128 v \<le> val128 v" "val128 v < 2 ^ (floor_log2_128 v + 1)"
proof -
  have "2 ^ floor_log2_128 v \<le> val128 v \<and> val128 v < 2 ^ (floor_log2_128 v + 1)"
  proof (cases "fst v = 0")
    case True
    then have "snd v \<noteq> 0" using assms by (auto simp: val128_def)
    note c = clz64_log [OF this]
    have "(2 :: nat) ^ (63 - clz64 (snd v) + 1) = 2 ^ (64 - clz64 (snd v))"
      using c(1) by (intro arg_cong [where f = "power 2"]) simp
    then show ?thesis using True \<open>snd v \<noteq> 0\<close> c
      by (simp add: floor_log2_128_def val128_def)
  next
    case False
    note c = clz64_log [OF False]
    have e: "floor_log2_128 v = (63 - clz64 (fst v)) + 64" using False c(1) by (simp add: floor_log2_128_def)
    have "2 ^ (63 - clz64 (fst v)) * 2 ^ 64 \<le> unat (fst v) * 2 ^ 64" using c(2) by (rule mult_le_mono1)
    moreover have "(unat (fst v) + 1) * 2 ^ 64 \<le> 2 ^ (64 - clz64 (fst v)) * 2 ^ 64"
      using c(3) by (intro mult_le_mono1) simp
    moreover have "floor_log2_128 v + 1 = (64 - clz64 (fst v)) + 64" using e c(1) by simp
    then have "(2 :: nat) ^ (floor_log2_128 v + 1) = 2 ^ (64 - clz64 (fst v)) * 2 ^ 64"
      by (simp only: power_add)
    ultimately show ?thesis using unat64_less [of "snd v"]
      by (simp add: val128_def e power_add)
  qed
  then show "2 ^ floor_log2_128 v \<le> val128 v" "val128 v < 2 ^ (floor_log2_128 v + 1)" by auto
qed

lemma trailing_zeros128_ge:
  "k \<le> trailing_zeros128 v 128 \<longleftrightarrow> k \<le> 128 \<and> 2 ^ k dvd val128 v"
proof (cases "snd v = 0")
  case True
  have "2 ^ k dvd unat (fst v) * 2 ^ 64 \<longleftrightarrow> k \<le> 64 \<or> 2 ^ (k - 64) dvd unat (fst v)"
  proof (cases "k \<le> 64")
    case True
    then have "(2 :: nat) ^ k dvd 2 ^ 64" by (rule le_imp_power_dvd)
    then show ?thesis using True by (simp only: dvd_mult simp_thms)
  next
    case False
    then have "(2 :: nat) ^ k = 2 ^ (k - 64) * 2 ^ 64" by (metis le_add_diff_inverse2 nat_le_linear power_add)
    then show ?thesis using False by simp
  qed
  then show ?thesis using True ctz_ge [of "k - 64" "fst v"]
    by (auto simp: trailing_zeros128_def val128_def)
next
  case False
  then have nz: "unat (snd v) \<noteq> 0" by (simp add: unat_eq_0)
  have "2 ^ k dvd val128 v \<longleftrightarrow> k \<le> 64 \<and> 2 ^ k dvd unat (snd v)"
  proof (cases "k \<le> 64")
    case True
    then have "(2 :: nat) ^ k dvd unat (fst v) * 2 ^ 64" by (intro dvd_mult le_imp_power_dvd)
    then show ?thesis using True by (simp only: val128_def dvd_add_right_iff simp_thms)
  next
    case k: False
    have "\<not> 2 ^ k dvd val128 v"
    proof
      assume "2 ^ k dvd val128 v"
      then have "2 ^ 64 dvd val128 v" using k by (meson dvd_trans le_imp_power_dvd nat_le_linear)
      then have "2 ^ 64 dvd unat (snd v)" by (simp only: val128_def dvd_add_right_iff dvd_triv_right)
      then show False using nz unat64_less [of "snd v"] by (meson dvd_imp_le neq0_conv not_le)
    qed
    then show ?thesis using k by simp
  qed
  then show ?thesis using False ctz_ge [of k "snd v"] by (auto simp: trailing_zeros128_def)
qed

subsection \<open>The MRS range walk\<close>

lemma remaining_val:
  assumes "val128 a \<le> val128 b" and "\<not> (val128 a = 0 \<and> val128 b = 2 ^ 128 - 1)"
  shows "val128 (add_one128 (sub128 b a)) = val128 b - val128 a + 1"
  using assms val128_less [of b] val128_sub [OF assms(1)] by (auto simp: val128_add_one)

lemma remaining_full:
  assumes "val128 a = 0" and "val128 b = 2 ^ 128 - 1"
  shows "val128 (add_one128 (sub128 b a)) = 0"
  using assms val128_sub [of a b] by (auto simp: val128_add_one)

lemma block_bits_min:
  "block_bits bits a b = min (trailing_zeros128 a bits) (floor_log2_128 (add_one128 (sub128 b a)))"
  by (auto simp: block_bits_def Let_def min_def)

lemma block_bits_fits:
  assumes le: "val128 a \<le> val128 b"
  shows "val128 a + 2 ^ block_bits bits a b \<le> val128 b + 1"
proof (cases "val128 a = 0 \<and> val128 b = 2 ^ 128 - 1")
  case True
  then have "floor_log2_128 (add_one128 (sub128 b a)) = 0"
    using remaining_full [of a b] by (auto simp: val128_def floor_log2_128_def unat_eq_0)
  then show ?thesis using True by (simp add: block_bits_min)
next
  case False
  let ?r = "add_one128 (sub128 b a)"
  have r: "val128 ?r = val128 b - val128 a + 1" using remaining_val [OF le False] .
  have "2 ^ block_bits bits a b \<le> (2 :: nat) ^ floor_log2_128 ?r"
    by (intro power_increasing) (simp_all add: block_bits_min)
  also have "\<dots> \<le> val128 ?r" using floor_log2_128_bounds(1) [of ?r] r by simp
  finally show ?thesis using r le by simp
qed

lemma block_bits_largest:
  assumes "val128 a \<le> val128 b" and "\<not> (val128 a = 0 \<and> val128 b = 2 ^ 128 - 1)"
    and "k \<le> trailing_zeros128 a bits" and "val128 a + 2 ^ k \<le> val128 b + 1"
  shows "k \<le> block_bits bits a b"
proof -
  let ?r = "add_one128 (sub128 b a)"
  have r: "val128 ?r = val128 b - val128 a + 1" using remaining_val [OF assms(1,2)] .
  have "(2 :: nat) ^ k \<le> val128 ?r" using r assms(1,4) by simp
  also have "\<dots> < 2 ^ (floor_log2_128 ?r + 1)" using floor_log2_128_bounds(2) [of ?r] r by simp
  finally have "k < floor_log2_128 ?r + 1" by (rule power_less_imp_less_exp [rotated]) simp
  then show ?thesis using assms(3) by (simp add: block_bits_min)
qed

definition next_cursor :: "nat \<Rightarrow> u128 \<Rightarrow> nat \<Rightarrow> u128 option" where
  "next_cursor bits cur k =
     (let n = add_pow2 cur k in if fst n = 0 \<and> snd n = 0 \<and> bits = 128 then None else Some n)"

definition emit_block :: "nat \<Rightarrow> u128 \<times> nat \<Rightarrow> prefix" where
  "emit_block bits p = (uint_to_addr (fst p) bits, bits - snd p)"

lemma range_loop_step:
  "val128 b < val128 a \<Longrightarrow> range_loop bits a b = Some []"
  "val128 a \<le> val128 b \<Longrightarrow> range_loop bits a b =
     (case next_cursor bits a (block_bits bits a b) of
        None \<Rightarrow> Some [emit_block bits (a, block_bits bits a b)]
      | Some a' \<Rightarrow> map_option (\<lambda>ps. emit_block bits (a, block_bits bits a b) # ps) (range_loop bits a' b))"
proof -
  show "range_loop bits a b = Some []" if "val128 b < val128 a"
    using that by (simp add: range_loop.simps [of bits a b] le128_iff)
  have bind: "Option.bind m (\<lambda>ps. Some (p # ps)) = map_option (\<lambda>ps. p # ps) m"
    for m and p :: prefix by (cases m) simp_all
  show "range_loop bits a b =
     (case next_cursor bits a (block_bits bits a b) of
        None \<Rightarrow> Some [emit_block bits (a, block_bits bits a b)]
      | Some a' \<Rightarrow> map_option (\<lambda>ps. emit_block bits (a, block_bits bits a b) # ps) (range_loop bits a' b))"
    if "val128 a \<le> val128 b"
    using that unfolding range_loop.simps [of bits a b] next_cursor_def emit_block_def bind Let_def
    by (cases "fst (add_pow2 a (block_bits bits a b)) = 0 \<and> snd (add_pow2 a (block_bits bits a b)) = 0
        \<and> bits = 128") (auto simp: le128_iff)
qed

lemma val128_zero: "fst v = 0 \<and> snd v = 0 \<longleftrightarrow> val128 v = 0"
  by (simp add: val128_def unat_eq_0)

lemma next_cursor_128:
  assumes "val128 a + 2 ^ k \<le> 2 ^ 128" and "k < 128"
  shows "next_cursor 128 a k = Some a' \<Longrightarrow> val128 a' = val128 a + 2 ^ k"
    and "next_cursor 128 a k = None \<Longrightarrow> 2 ^ 128 \<le> val128 a + 2 ^ k"
proof -
  have some: "next_cursor 128 a k = Some (add_pow2 a k)" "val128 (add_pow2 a k) = val128 a + 2 ^ k"
    if "val128 a + 2 ^ k < 2 ^ 128"
  proof -
    show v: "val128 (add_pow2 a k) = val128 a + 2 ^ k" by (rule val128_add_pow2 [OF assms(2) that])
    then have "\<not> (fst (add_pow2 a k) = 0 \<and> snd (add_pow2 a k) = 0)" by (simp add: val128_zero)
    then show "next_cursor 128 a k = Some (add_pow2 a k)" by (auto simp: next_cursor_def Let_def)
  qed
  have none: "next_cursor 128 a k = None" if "val128 a + 2 ^ k = 2 ^ 128"
  proof -
    have "val128 (add_pow2 a k) = 0" using val128_add_pow2_wrap [OF assms(2)] that by simp
    then show ?thesis using val128_zero [of "add_pow2 a k"] by (simp add: next_cursor_def Let_def)
  qed
  show "val128 a' = val128 a + 2 ^ k" if "next_cursor 128 a k = Some a'"
    using some none that assms(1) by (cases "val128 a + 2 ^ k < 2 ^ 128") auto
  show "2 ^ 128 \<le> val128 a + 2 ^ k" if "next_cursor 128 a k = None"
    using some(1) that by (cases "val128 a + 2 ^ k < 2 ^ 128") auto
qed

lemma block_bits_less: "block_bits bits a b < 128"
  by (auto simp: block_bits_min floor_log2_128_def min_def)

lemma block_bits_128: "2 ^ block_bits 128 a b dvd val128 a"
  using trailing_zeros128_ge [of "block_bits 128 a b" a] by (simp add: block_bits_min)

interpretation mrs6: range_walk "2 ^ 128" val128 "\<lambda>a b. True" "block_bits 128" "next_cursor 128"
  "emit_block 128" "range_loop 128"
proof
  fix a b a' :: u128
  assume le: "val128 a \<le> val128 b"
  have f: "val128 a + 2 ^ block_bits 128 a b \<le> 2 ^ 128"
    using block_bits_fits [OF le, of 128] val128_less [of b] by simp
  show "True \<and> val128 a' = val128 a + 2 ^ block_bits 128 a b"
    if "next_cursor 128 a (block_bits 128 a b) = Some a'"
    using next_cursor_128(1) [OF f block_bits_less that] by simp
  show "2 ^ 128 \<le> val128 a + 2 ^ block_bits 128 a b"
    if "next_cursor 128 a (block_bits 128 a b) = None"
    using next_cursor_128(2) [OF f block_bits_less that] .
qed (use val128_less range_loop_step block_bits_fits block_bits_128 in auto)

interpretation mrs6_partial: greedy_walk "2 ^ 128" val128
  "\<lambda>a b. \<not> (val128 a = 0 \<and> val128 b = 2 ^ 128 - 1)" "block_bits 128" "next_cursor 128"
  "emit_block 128" "range_loop 128"
proof
  fix a b a' :: u128 and k
  assume g: "\<not> (val128 a = 0 \<and> val128 b = 2 ^ 128 - 1)" and le: "val128 a \<le> val128 b"
  show "\<not> (val128 a' = 0 \<and> val128 b = 2 ^ 128 - 1) \<and> val128 a' = val128 a + 2 ^ block_bits 128 a b"
    if "next_cursor 128 a (block_bits 128 a b) = Some a'"
    using mrs6.nxt_some [OF _ le that] by simp
  show "k \<le> block_bits 128 a b" if "2 ^ k dvd val128 a" "val128 a + 2 ^ k \<le> val128 b + 1"
  proof -
    have "(2 :: nat) ^ k \<le> 2 ^ 128" using that(2) val128_less [of b] by simp
    then have "k \<le> 128" by (rule power_le_imp_le_exp [rotated]) simp
    then show ?thesis using block_bits_largest [OF le g, of k 128] that trailing_zeros128_ge [of k a] by simp
  qed
qed (use val128_less range_loop_step block_bits_fits block_bits_128 mrs6.nxt_none in auto)

definition v4_base :: nat where "v4_base = 0xFFFF * 2 ^ 32"

definition v4_val :: "u128 \<Rightarrow> nat" where "v4_val v = val128 v - v4_base"

definition v4_good :: "u128 \<Rightarrow> u128 \<Rightarrow> bool" where
  "v4_good a b \<longleftrightarrow> v4_base \<le> val128 a \<and> v4_base \<le> val128 b \<and> val128 b < v4_base + 2 ^ 32"

lemma val128_small: "val128 v < 2 ^ 64 \<Longrightarrow> fst v = 0 \<and> unat (snd v) = val128 v"
  by (simp add: val128_def word_unat_eq_iff)

lemma trailing_zeros_v4:
  assumes "v4_base \<le> val128 a" and "val128 a < v4_base + 2 ^ 32"
  shows "k \<le> trailing_zeros128 a 32 \<longleftrightarrow> k \<le> 32 \<and> 2 ^ k dvd v4_val a"
proof -
  have "unat (snd a) = val128 a" using val128_small [of a] assms(2) by (simp add: v4_base_def)
  moreover have "unat (ucast (snd a) :: 32 word) = unat (snd a) mod 2 ^ 32"
    by (simp add: unsigned_ucast_eq take_bit_eq_mod)
  moreover have "val128 a mod 2 ^ 32 = v4_val a"
  proof -
    have "val128 a = v4_val a + 0xFFFF * 2 ^ 32" using assms(1) by (simp add: v4_val_def v4_base_def)
    moreover have "v4_val a < 2 ^ 32" using assms by (auto simp: v4_val_def)
    ultimately show ?thesis by (simp only: mod_mult_self1 mod_mult_self2 mod_mult_self3 mod_less)
  qed
  ultimately have "unat (ucast (snd a) :: 32 word) = v4_val a" by simp
  then show ?thesis using ctz_ge [of k "ucast (snd a) :: 32 word"] by (simp add: trailing_zeros128_def)
qed

lemma val128_addr: "val128 (addr_to_uint x) = unat (as16 x)"
proof -
  let ?w = "as16 x"
  have "unat ?w < 2 ^ 128" using unsigned_less [of ?w] by simp
  then have hi: "unat ?w div 2 ^ 64 < 2 ^ 64" by (simp add: less_mult_imp_div_less)
  have "unat (ucast (drop_bit 64 ?w) :: 64 word) = unat ?w div 2 ^ 64 mod 2 ^ 64"
    by (simp only: unsigned_ucast_eq take_bit_eq_mod unat_drop_bit_eq) (simp add: drop_bit_eq_div)
  moreover have "unat (ucast ?w :: 64 word) = unat ?w mod 2 ^ 64"
    by (simp only: unsigned_ucast_eq take_bit_eq_mod) simp
  ultimately show ?thesis using hi
    by (simp only: val128_def addr_to_uint_def fst_conv snd_conv mod_less div_mult_mod_eq)
qed

lemma val128_v4: "val128 (addr_to_uint (V4 x)) = v4_base + unat x"
  by (simp only: val128_addr unat_as16_V4 v4_base_def)

lemma val128_v6: "val128 (addr_to_uint (V6 x)) = unat x"
  by (simp add: val128_addr)

lemma pair_word:
  "unat (push_bit 64 (ucast (fst v)) OR ucast (snd v) :: 128 word) = val128 v"
proof -
  have no: "push_bit 64 (ucast (fst v)) AND ucast (snd v) = (0 :: 128 word)"
    by (rule bit_word_eqI) (auto simp: bit_push_bit_iff bit_and_iff bit_ucast_iff dest: bit_imp_le_length)
  have "(push_bit 64 (ucast (fst v)) OR ucast (snd v) :: 128 word) = push_bit 64 (ucast (fst v)) + ucast (snd v)"
    using no by (simp add: disjunctive_add_eq_or)
  also have "\<dots> = word_of_nat (val128 v)" by (simp add: val128_def push_bit_eq_mult)
  finally show ?thesis using val128_less [of v] by (simp add: of_nat_inverse)
qed

lemma pair_word_eq:
  "(push_bit 64 (ucast (fst v)) OR ucast (snd v) :: 128 word) = word_of_nat (val128 v)"
proof (rule word_unat_eq_iff [THEN iffD2])
  have "unat (word_of_nat (val128 v) :: 128 word) = val128 v"
    using val128_less [of v] by (intro of_nat_inverse [OF refl]) simp
  then show "unat (push_bit 64 (ucast (fst v)) OR ucast (snd v) :: 128 word) =
      unat (word_of_nat (val128 v) :: 128 word)"
    by (simp only: pair_word)
qed

lemma uint_to_addr_v6: "uint_to_addr v 128 = V6 (word_of_nat (val128 v))"
  by (simp add: uint_to_addr_def pair_word_eq Let_def)

lemma uint_to_addr_v4:
  assumes "v4_base \<le> val128 v" and "val128 v < v4_base + 2 ^ 32"
  shows "uint_to_addr v 32 = V4 (word_of_nat (v4_val v))"
proof -
  have v: "v4_val v < 2 ^ 32" "val128 v = 0xFFFF * 2 ^ 32 + v4_val v"
    using assms by (auto simp: v4_val_def v4_base_def)
  have u: "unat (word_of_nat (v4_val v) :: 32 word) = v4_val v"
    using v(1) by (intro of_nat_inverse [OF refl]) simp
  have "(word_of_nat (val128 v) :: 128 word) = as16 (V4 (word_of_nat (v4_val v)))"
    by (simp only: as16.simps u v(2))
  then have "to4 (word_of_nat (val128 v)) = Some (word_of_nat (v4_val v))" by (simp only: to4_as16)
  then show ?thesis by (simp add: uint_to_addr_def Let_def pair_word_eq)
qed

lemma next_cursor_32: "next_cursor 32 a k = Some (add_pow2 a k)"
  by (simp add: next_cursor_def Let_def)

lemma v4_step:
  assumes g: "v4_good a b" and le: "v4_val a \<le> v4_val b"
  shows "val128 a \<le> val128 b"
    and "val128 (add_pow2 a (block_bits 32 a b)) = val128 a + 2 ^ block_bits 32 a b"
    and "2 ^ block_bits 32 a b dvd v4_val a"
    and "v4_val a + 2 ^ block_bits 32 a b \<le> v4_val b + 1"
proof -
  show le': "val128 a \<le> val128 b" using g le by (auto simp: v4_good_def v4_val_def)
  note f = block_bits_fits [OF le', of 32]
  have "val128 a + 2 ^ block_bits 32 a b < 2 ^ 128"
    using f g by (auto simp: v4_good_def v4_base_def)
  then show "val128 (add_pow2 a (block_bits 32 a b)) = val128 a + 2 ^ block_bits 32 a b"
    by (rule val128_add_pow2 [OF block_bits_less])
  have "val128 a < v4_base + 2 ^ 32" using g le' by (auto simp: v4_good_def)
  then show "2 ^ block_bits 32 a b dvd v4_val a"
    using trailing_zeros_v4 [of a "block_bits 32 a b"] g by (auto simp: v4_good_def block_bits_min)
  show "v4_val a + 2 ^ block_bits 32 a b \<le> v4_val b + 1"
    using f g by (auto simp: v4_good_def v4_val_def)
qed

interpretation mrs4: greedy_walk "2 ^ 32" v4_val v4_good "block_bits 32" "next_cursor 32"
  "emit_block 32" "range_loop 32"
proof
  fix a b a' :: u128 and k
  assume g: "v4_good a b"
  show "v4_val b < 2 ^ 32" using g by (auto simp: v4_good_def v4_val_def)
  show "range_loop 32 a b = Some []" if "v4_val b < v4_val a"
    using that g by (intro range_loop_step(1)) (auto simp: v4_val_def v4_good_def)
  assume le: "v4_val a \<le> v4_val b"
  note step = v4_step [OF g le]
  show "range_loop 32 a b =
      (case next_cursor 32 a (block_bits 32 a b) of
         None \<Rightarrow> Some [emit_block 32 (a, block_bits 32 a b)]
       | Some a' \<Rightarrow> map_option (\<lambda>ps. emit_block 32 (a, block_bits 32 a b) # ps) (range_loop 32 a' b))"
    by (rule range_loop_step(2) [OF step(1)])
  show "v4_good a' b \<and> v4_val a' = v4_val a + 2 ^ block_bits 32 a b"
    if "next_cursor 32 a (block_bits 32 a b) = Some a'"
    using that g step(2) by (auto simp: next_cursor_32 v4_good_def v4_val_def)
  show "2 ^ 32 \<le> v4_val a + 2 ^ block_bits 32 a b"
    if "next_cursor 32 a (block_bits 32 a b) = None"
    using that by (simp add: next_cursor_32)
  show "2 ^ block_bits 32 a b dvd v4_val a" by (rule step(3))
  show "v4_val a + 2 ^ block_bits 32 a b \<le> v4_val b + 1" by (rule step(4))
  show "k \<le> block_bits 32 a b" if k: "2 ^ k dvd v4_val a" "v4_val a + 2 ^ k \<le> v4_val b + 1"
  proof -
    have "(2 :: nat) ^ k \<le> 2 ^ 32" using k(2) g by (auto simp: v4_good_def v4_val_def)
    then have "k \<le> 32" by (rule power_le_imp_le_exp [rotated]) simp
    moreover have "val128 a < v4_base + 2 ^ 32" using g step(1) by (auto simp: v4_good_def)
    ultimately have "k \<le> trailing_zeros128 a 32"
      using trailing_zeros_v4 [of a k] g k(1) by (simp add: v4_good_def)
    moreover have "val128 a + 2 ^ k \<le> val128 b + 1" using k(2) g by (auto simp: v4_good_def v4_val_def)
    moreover have "\<not> (val128 a = 0 \<and> val128 b = 2 ^ 128 - 1)"
      using g by (auto simp: v4_good_def v4_base_def)
    ultimately show ?thesis using block_bits_largest [OF step(1)] by blast
  qed
qed

subsection \<open>The ASN database walks\<close>

text \<open>Both inner loops look for the shortest prefix length whose block is aligned and fits.\<close>

lemma dvd_power_mono: "n \<le> m \<Longrightarrow> (2 :: nat) ^ m dvd x \<Longrightarrow> 2 ^ n dvd x"
  by (meson dvd_trans le_imp_power_dvd)

locale shortest_length =
  fixes w x y :: nat and len_of :: "nat \<Rightarrow> nat"
  assumes len_0: "len_of 0 = 0"
    and len_Suc: "n < w \<Longrightarrow> len_of (Suc n) =
      (if 2 ^ (w - n) dvd x \<and> x + 2 ^ (w - n) \<le> y + 1 then len_of n else Suc n)"
begin

lemma len_bound: "n \<le> w \<Longrightarrow> len_of n \<le> n"
  by (induction n) (auto simp: len_0 len_Suc)

lemma len_ok: "n \<le> w \<Longrightarrow> 2 ^ (w - n) dvd x \<Longrightarrow> x + 2 ^ (w - n) \<le> y + 1 \<Longrightarrow>
    2 ^ (w - len_of n) dvd x \<and> x + 2 ^ (w - len_of n) \<le> y + 1"
proof (induction n)
  case (Suc n)
  show ?case
  proof (cases "2 ^ (w - n) dvd x \<and> x + 2 ^ (w - n) \<le> y + 1")
    case True
    then have "len_of (Suc n) = len_of n" using Suc.prems(1) len_Suc [of n] by simp
    then show ?thesis using Suc.IH True Suc.prems(1) by simp
  next
    case False
    then have "len_of (Suc n) = Suc n" using Suc.prems(1) len_Suc [of n] by auto
    then show ?thesis using Suc.prems by simp
  qed
qed (simp add: len_0)

lemma len_least: "n \<le> w \<Longrightarrow> k \<le> w \<Longrightarrow> 2 ^ k dvd x \<Longrightarrow> x + 2 ^ k \<le> y + 1 \<Longrightarrow>
    w - n \<le> k \<Longrightarrow> k \<le> w - len_of n"
proof (induction n)
  case (Suc n)
  have n: "n < w" using Suc.prems(1) by simp
  show ?case
  proof (cases "2 ^ (w - n) dvd x \<and> x + 2 ^ (w - n) \<le> y + 1")
    case True
    then have eq: "len_of (Suc n) = len_of n" using n len_Suc [of n] by simp
    show ?thesis
    proof (cases "w - n \<le> k")
      case True
      then show ?thesis unfolding eq using Suc.IH n Suc.prems(2-4) by simp
    next
      case False
      have "len_of n \<le> n" using n len_bound by simp
      then show ?thesis unfolding eq using False by linarith
    qed
  next
    case False
    then have eq: "len_of (Suc n) = Suc n" using n len_Suc [of n] by auto
    have "\<not> w - n \<le> k"
    proof
      assume le: "w - n \<le> k"
      then have "(2 :: nat) ^ (w - n) \<le> 2 ^ k" by (intro power_increasing) simp_all
      then have "x + 2 ^ (w - n) \<le> y + 1" using Suc.prems(4) by linarith
      then show False using False dvd_power_mono [OF le Suc.prems(3)] by blast
    qed
    then show ?thesis unfolding eq by linarith
  qed
qed (simp add: len_0)

lemma size:
  assumes "x \<le> y"
  shows "2 ^ (w - len_of w) dvd x" and "x + 2 ^ (w - len_of w) \<le> y + 1"
    and "k \<le> w \<Longrightarrow> 2 ^ k dvd x \<Longrightarrow> x + 2 ^ k \<le> y + 1 \<Longrightarrow> k \<le> w - len_of w"
  using len_ok [of w] len_least [of w k] assms by auto

end

lemma v4_plen_step:
  "n < 32 \<Longrightarrow> v4_plen a b (Suc n) =
     (if 2 ^ (32 - n) dvd unat a \<and> unat a + 2 ^ (32 - n) \<le> unat b + 1 then v4_plen a b n else Suc n)"
  using one_le_power [of "2 :: nat" "32 - n"]
  by (auto simp: Let_def dvd_eq_mod_eq_0 simp del: one_le_power one_le_numeral)

interpretation v4_len: shortest_length 32 "unat a" "unat b" "v4_plen a b" for a b :: "32 word"
  by unfold_locales (rule v4_plen.simps(1), erule v4_plen_step)

definition v4_size :: "32 word \<Rightarrow> 32 word \<Rightarrow> nat" where
  "v4_size a b = 32 - v4_plen a b 32"

definition v4_next :: "32 word \<Rightarrow> nat \<Rightarrow> 32 word option" where
  "v4_next a k = (if unat a + 2 ^ k > 0xffffffff then None else Some (word_of_nat (unat a + 2 ^ k)))"

definition cut_length :: "nat \<Rightarrow> 'a \<times> nat \<Rightarrow> 'a \<times> nat" where
  "cut_length w p = (fst p, w - snd p)"

lemma power_le_2: "(2 :: nat) ^ k \<le> 2 ^ w \<Longrightarrow> k \<le> w"
  by simp

interpretation asn4: greedy_walk "2 ^ 32" unat "\<lambda>a b. True" v4_size v4_next "cut_length 32"
  "\<lambda>a b. Some (v4_prefixes a b)"
proof
  fix a b a' :: "32 word" and k
  show "unat b < 2 ^ 32" by (rule unat_bound32)
  show "Some (v4_prefixes a b) = Some []" if "unat b < unat a"
    using that by (simp add: v4_prefixes.simps word_le_nat_alt)
  assume le: "unat a \<le> unat b"
  note size = v4_len.size [OF le, folded v4_size_def]
  have len: "v4_plen a b 32 \<le> 32" by (rule v4_len.len_bound) simp
  show "Some (v4_prefixes a b) =
      (case v4_next a (v4_size a b) of
         None \<Rightarrow> Some [cut_length 32 (a, v4_size a b)]
       | Some a' \<Rightarrow> map_option (\<lambda>ps. cut_length 32 (a, v4_size a b) # ps) (Some (v4_prefixes a' b)))"
    using le len by (simp add: v4_prefixes.simps [of a b] word_le_nat_alt Let_def v4_next_def v4_size_def
        cut_length_def)
  show "True \<and> unat a' = unat a + 2 ^ v4_size a b" if "v4_next a (v4_size a b) = Some a'"
  proof -
    have "unat a + 2 ^ v4_size a b < 2 ^ LENGTH(32)" "a' = word_of_nat (unat a + 2 ^ v4_size a b)"
      using that by (auto simp: v4_next_def split: if_splits)
    then show ?thesis by (simp only: of_nat_inverse [OF refl] simp_thms)
  qed
  show "2 ^ 32 \<le> unat a + 2 ^ v4_size a b" if "v4_next a (v4_size a b) = None"
    using that by (auto simp: v4_next_def split: if_splits)
  show "2 ^ v4_size a b dvd unat a" by (rule size(1))
  show "unat a + 2 ^ v4_size a b \<le> unat b + 1" by (rule size(2))
  show "k \<le> v4_size a b" if "2 ^ k dvd unat a" "unat a + 2 ^ k \<le> unat b + 1"
  proof -
    have "(2 :: nat) ^ k \<le> 2 ^ 32" using that(2) unat_bound32 [of b] by simp
    then show ?thesis using size(3) that power_le_2 by blast
  qed
qed

lemma aligned6_iff: "n \<le> 128 \<Longrightarrow> aligned6 a n \<longleftrightarrow> 2 ^ (128 - n) dvd unat a"
proof -
  assume n: "n \<le> 128"
  have "(\<forall>i \<in> {n ..< 128}. \<not> bit a (127 - i)) \<longleftrightarrow> (\<forall>j < 128 - n. \<not> bit a j)"
  proof
    assume l: "\<forall>i \<in> {n ..< 128}. \<not> bit a (127 - i)"
    show "\<forall>j < 128 - n. \<not> bit a j"
    proof (intro allI impI)
      fix j assume "j < 128 - n"
      then have "127 - j \<in> {n ..< 128}" "127 - (127 - j) = j" by auto
      then show "\<not> bit a j" using l by metis
    qed
  qed (use n in auto)
  then show ?thesis by (simp add: aligned6_def list_all_iff dvd_unat_iff)
qed

lemma bit_last_in_block6:
  "n \<le> 128 \<Longrightarrow> bit (last_in_block6 a n) j \<longleftrightarrow> bit a j \<or> j < 128 - n"
proof -
  assume n: "n \<le> 128"
  have f: "bit (foldl (\<lambda>out i. out OR push_bit (127 - i) 1) a xs) j \<longleftrightarrow>
      bit a j \<or> (\<exists>i \<in> set xs. j = 127 - i)" for xs and a :: "128 word"
    by (induction xs arbitrary: a) (auto simp: bit_or_iff bit_push_bit_iff bit_exp_iff push_bit_eq_mult
        simp del: push_bit_of_1 dest: bit_imp_le_length)
  have "(\<exists>i \<in> set [n..<128]. j = 127 - i) \<longleftrightarrow> j < 128 - n"
  proof
    assume "j < 128 - n"
    then have "127 - j \<in> set [n..<128]" "j = 127 - (127 - j)" by auto
    then show "\<exists>i \<in> set [n..<128]. j = 127 - i" by blast
  qed (use n in auto)
  then show ?thesis unfolding last_in_block6_def f by blast
qed

lemma unat_of_nat32: "n < 2 ^ 32 \<Longrightarrow> unat (word_of_nat n :: 32 word) = n"
  by (intro of_nat_inverse [OF refl]) simp

lemma unat_of_nat128: "n < 2 ^ 128 \<Longrightarrow> unat (word_of_nat n :: 128 word) = n"
  by (intro of_nat_inverse [OF refl]) simp

lemma unat_or_disjoint:
  "a AND b = 0 \<Longrightarrow> unat (a OR b) = unat a + unat (b :: 'a :: len word)"
proof -
  assume "a AND b = 0"
  then have "unat a AND unat b = 0" by (simp add: unsigned_and_eq [symmetric])
  then show ?thesis by (simp add: unsigned_or_eq disjunctive_add_eq_or)
qed

lemma aligned_room:
  fixes x :: nat
  assumes "2 ^ k dvd x" and "x < 2 ^ w" and "k \<le> w"
  shows "x + 2 ^ k \<le> 2 ^ w"
proof -
  obtain q where q: "x = 2 ^ k * q" using assms(1) by blast
  have w: "(2 :: nat) ^ w = 2 ^ k * 2 ^ (w - k)" using assms(3) by (simp add: power_add [symmetric])
  then have "q < 2 ^ (w - k)" using assms(2) q by simp
  then have "2 ^ k * (q + 1) \<le> 2 ^ k * 2 ^ (w - k)" by (intro mult_le_mono2) simp
  then show ?thesis using q w by (simp add: distrib_left)
qed

lemma unat_last_in_block6:
  assumes n: "n \<le> 128" and al: "2 ^ (128 - n) dvd unat a"
  shows "unat (last_in_block6 a n) = unat a + 2 ^ (128 - n) - 1"
proof -
  have low: "\<forall>i < 128 - n. \<not> bit a i" using al by (simp add: dvd_unat_iff)
  have "last_in_block6 a n = a OR mask (128 - n)"
    using n by (intro bit_word_eqI) (auto simp: bit_last_in_block6 bit_or_iff bit_mask_iff)
  moreover have "a AND mask (128 - n) = 0"
    using low by (intro bit_word_eqI) (auto simp: bit_and_iff bit_mask_iff)
  moreover have "unat (mask (128 - n) :: 128 word) = 2 ^ (128 - n) - 1"
  proof -
    have "(mask (128 - n) :: 128 word) = word_of_nat (2 ^ (128 - n) - 1)"
      by (simp add: mask_eq_exp_minus_1 of_nat_diff)
    moreover have "(2 :: nat) ^ (128 - n) - 1 < 2 ^ LENGTH(128)"
    proof -
      have "(2 :: nat) ^ (128 - n) \<le> 2 ^ 128" by (intro power_increasing) simp_all
      moreover have "(0 :: nat) < 2 ^ (128 - n)" by simp
      ultimately show ?thesis unfolding len_of_numeral_defs by simp
    qed
    ultimately show ?thesis by (simp only: of_nat_inverse [OF refl])
  qed
  ultimately show ?thesis by (simp add: unat_or_disjoint)
qed

lemma unat_128: "unat (a :: 128 word) < 2 ^ 128"
  using unsigned_less [of a] by simp

lemma inc6_from_eq:
  "i \<le> 16 \<Longrightarrow> 2 ^ (8 * (16 - i)) dvd unat a \<Longrightarrow>
     inc6_from i a = (if unat a + 2 ^ (8 * (16 - i)) < 2 ^ 128
       then (word_of_nat (unat a + 2 ^ (8 * (16 - i))), False) else (0, True))"
proof (induction i arbitrary: a)
  case 0
  then have "2 ^ 128 dvd unat a" by simp
  then have "unat a = 0" using unat_128 [of a] by (meson dvd_imp_le not_le neq0_conv)
  then show ?case by (simp add: unat_eq_0)
next
  case (Suc i)
  let ?sh = "8 * (15 - i)"
  have sh: "8 * (16 - Suc i) = ?sh" "8 * (16 - i) = ?sh + 8" "?sh \<le> 120" using Suc.prems(1) by auto
  let ?m = "push_bit ?sh 255 :: 128 word"
  have m: "bit ?m j \<longleftrightarrow> ?sh \<le> j \<and> j < ?sh + 8" for j
  proof -
    have e: "(255 :: 128 word) = mask 8" by (simp add: mask_eq_exp_minus_1)
    show ?thesis unfolding e using sh(3) by (auto simp: bit_push_bit_iff bit_mask_iff)
  qed
  have full: "drop_bit ?sh a AND 255 = 255 \<longleftrightarrow> (\<forall>j. ?sh \<le> j \<and> j < ?sh + 8 \<longrightarrow> bit a j)"
  proof -
    have e: "(255 :: 128 word) = mask 8" by (simp add: mask_eq_exp_minus_1)
    have "drop_bit ?sh a AND 255 = 255 \<longleftrightarrow> (\<forall>n < 8. bit a (?sh + n))"
    proof
      assume eq: "drop_bit ?sh a AND 255 = 255"
      show "\<forall>n < 8. bit a (?sh + n)"
      proof (intro allI impI)
        fix n :: nat assume "n < 8"
        then have "bit (drop_bit ?sh a AND 255) n" unfolding eq unfolding e by (simp add: bit_mask_iff)
        then show "bit a (?sh + n)" by (simp add: bit_and_iff bit_drop_bit_eq)
      qed
    next
      assume "\<forall>n < 8. bit a (?sh + n)"
      then show "drop_bit ?sh a AND 255 = 255"
        unfolding e by (intro bit_word_eqI) (auto simp: bit_and_iff bit_mask_iff bit_drop_bit_eq)
    qed
    also have "\<dots> \<longleftrightarrow> (\<forall>j. ?sh \<le> j \<and> j < ?sh + 8 \<longrightarrow> bit a j)"
    proof (intro iffI allI impI)
      fix j assume l: "\<forall>n < 8. bit a (?sh + n)" and j: "?sh \<le> j \<and> j < ?sh + 8"
      have "j - ?sh < 8" using j by linarith
      then have "bit a (?sh + (j - ?sh))" using l by blast
      moreover have "?sh + (j - ?sh) = j" using j by linarith
      ultimately show "bit a j" by simp
    qed simp
    finally show ?thesis .
  qed
  show ?case
  proof (cases "drop_bit ?sh a AND 255 = 255")
    case True
    let ?a = "a AND NOT ?m"
    have sum: "a = ?a OR ?m" "?a AND ?m = 0"
      using True full m by (auto intro!: bit_word_eqI simp: bit_or_iff bit_and_iff bit_not_iff)
    have um: "unat ?m = 255 * 2 ^ ?sh"
    proof -
      have "?m = word_of_nat (255 * 2 ^ ?sh)" by (simp add: push_bit_eq_mult)
      moreover have "255 * 2 ^ ?sh < (2 :: nat) ^ 128"
      proof -
        have "(2 :: nat) ^ ?sh \<le> 2 ^ 120" using sh(3) by (intro power_increasing) simp_all
        then show ?thesis by simp
      qed
      ultimately show ?thesis by (simp only: unat_of_nat128)
    qed
    have ua: "unat a = unat ?a + 255 * 2 ^ ?sh" using sum unat_or_disjoint [OF sum(2)] um by metis
    have "2 ^ (?sh + 8) dvd unat ?a"
      unfolding dvd_unat_iff
    proof (intro allI impI)
      fix j assume "j < ?sh + 8"
      moreover have "\<not> bit a j" if "j < ?sh" using Suc.prems(2) that unfolding sh(1) dvd_unat_iff by blast
      ultimately show "\<not> bit ?a j" using m [of j] by (cases "j < ?sh") (auto simp: bit_and_iff bit_not_iff)
    qed
    then have "2 ^ (8 * (16 - i)) dvd unat ?a" by (simp only: sh(2))
    then have IH: "inc6_from i ?a = (if unat ?a + 2 ^ (?sh + 8) < 2 ^ 128
        then (word_of_nat (unat ?a + 2 ^ (?sh + 8)), False) else (0, True))"
      using Suc.IH [of ?a] Suc.prems(1) sh(2) by simp
    have "unat ?a + 2 ^ (?sh + 8) = unat a + 2 ^ ?sh" using ua by (simp add: power_add)
    then show ?thesis using True IH sh(1) by (simp add: Let_def)
  next
    case False
    have "unat a + 2 ^ ?sh \<noteq> 2 ^ 128"
    proof
      assume top: "unat a + 2 ^ ?sh = 2 ^ 128"
      have "bit a j" if j: "?sh \<le> j" "j < ?sh + 8" for j
      proof -
        have j': "j < 128" using j sh(3) by simp
        have e: "unat (push_bit j 1 :: 128 word) = 2 ^ j"
        proof -
          have "(2 :: nat) ^ j < 2 ^ 128" using j' by (intro power_strict_increasing) simp_all
          then have "unat (word_of_nat (2 ^ j) :: 128 word) = 2 ^ j" by (rule unat_of_nat128)
          then show ?thesis by simp
        qed
        show ?thesis
        proof (rule ccontr)
          assume "\<not> bit a j"
          then have "a AND push_bit j 1 = 0"
            by (intro bit_word_eqI) (auto simp: bit_and_iff bit_push_bit_iff bit_exp_iff)
          then have "unat (a OR push_bit j 1) = unat a + 2 ^ j" using e by (simp add: unat_or_disjoint)
          moreover have "(2 :: nat) ^ ?sh \<le> 2 ^ j" using j by (intro power_increasing) simp_all
          ultimately have "2 ^ 128 \<le> unat (a OR push_bit j 1)" using top by linarith
          then show False using unat_128 [of "a OR push_bit j 1"] by simp
        qed
      qed
      then show False using False full by blast
    qed
    moreover have "unat a + 2 ^ ?sh \<le> 2 ^ 128"
      using aligned_room [of ?sh "unat a" 128] Suc.prems(2) sh unat_128 [of a] by simp
    ultimately show ?thesis using False sh(1) by (simp add: Let_def)
  qed
qed

lemma inc6_eq: "inc6 a = (if unat a + 1 < 2 ^ 128 then (word_of_nat (unat a + 1), False) else (0, True))"
  using inc6_from_eq [of 16 a] by (simp add: inc6_def)

lemma v6_plen_step:
  "n < 128 \<Longrightarrow> v6_plen a b (Suc n) =
     (if 2 ^ (128 - n) dvd unat a \<and> unat a + 2 ^ (128 - n) \<le> unat b + 1 then v6_plen a b n else Suc n)"
proof -
  assume n: "n < 128"
  show ?thesis
  proof (cases "2 ^ (128 - n) dvd unat a")
    case True
    have "last_in_block6 a n > b \<longleftrightarrow> \<not> unat a + 2 ^ (128 - n) \<le> unat b + 1"
      using unat_last_in_block6 [of n a] n True one_le_power [of "2 :: nat" "128 - n"]
      by (auto simp: word_less_nat_alt simp del: one_le_power one_le_numeral)
    then show ?thesis using n True by (simp add: aligned6_iff)
  next
    case False
    then show ?thesis using n by (simp add: aligned6_iff)
  qed
qed

interpretation v6_len: shortest_length 128 "unat a" "unat b" "v6_plen a b" for a b :: "128 word"
  by unfold_locales (rule v6_plen.simps(1), erule v6_plen_step)

definition v6_size :: "128 word \<Rightarrow> 128 word \<Rightarrow> nat" where
  "v6_size a b = 128 - v6_plen a b 128"

definition v6_next :: "128 word \<Rightarrow> nat \<Rightarrow> 128 word option" where
  "v6_next a k = (if unat a + 2 ^ k < 2 ^ 128 then Some (word_of_nat (unat a + 2 ^ k)) else None)"

lemma v6_inc_next:
  assumes le: "unat a \<le> unat b"
  shows "inc6 (last_in_block6 a (v6_plen a b 128)) =
    (case v6_next a (v6_size a b) of None \<Rightarrow> (0, True) | Some c \<Rightarrow> (c, False))"
proof -
  let ?n = "v6_plen a b 128"
  have n: "?n \<le> 128" by (rule v6_len.len_bound) simp
  have "unat (last_in_block6 a ?n) = unat a + 2 ^ (128 - ?n) - 1"
    by (rule unat_last_in_block6 [OF n v6_len.size(1) [OF le]])
  then have "unat (last_in_block6 a ?n) + 1 = unat a + 2 ^ v6_size a b"
    using one_le_power [of "2 :: nat" "128 - ?n"] by (simp add: v6_size_def)
  then show ?thesis by (simp add: inc6_eq v6_next_def)
qed

interpretation asn6: greedy_walk "2 ^ 128" unat "\<lambda>a b. True" v6_size v6_next "cut_length 128" v6_prefixes
proof
  fix a b a' :: "128 word" and k
  show "unat b < 2 ^ 128" by (rule unat_128)
  show "v6_prefixes a b = Some []" if "unat b < unat a"
    using that by (simp add: v6_prefixes.simps [of a b] word_le_nat_alt)
  assume le: "unat a \<le> unat b"
  note size = v6_len.size [OF le, folded v6_size_def]
  have len: "v6_plen a b 128 \<le> 128" by (rule v6_len.len_bound) simp
  have bind: "Option.bind m (\<lambda>ps. Some (p # ps)) = map_option (\<lambda>ps. p # ps) m"
    for m and p :: "128 word \<times> nat" by (cases m) simp_all
  have emit: "cut_length 128 (a, v6_size a b) = (a, v6_plen a b 128)"
    using len by (simp add: cut_length_def v6_size_def)
  show "v6_prefixes a b =
      (case v6_next a (v6_size a b) of
         None \<Rightarrow> Some [cut_length 128 (a, v6_size a b)]
       | Some a' \<Rightarrow> map_option (\<lambda>ps. cut_length 128 (a, v6_size a b) # ps) (v6_prefixes a' b))"
    unfolding v6_prefixes.simps [of a b] bind emit Let_def v6_inc_next [OF le]
    using le by (simp add: word_le_nat_alt split: option.splits)
  show "True \<and> unat a' = unat a + 2 ^ v6_size a b" if "v6_next a (v6_size a b) = Some a'"
  proof -
    have "unat a + 2 ^ v6_size a b < 2 ^ LENGTH(128)" "a' = word_of_nat (unat a + 2 ^ v6_size a b)"
      using that by (auto simp: v6_next_def split: if_splits)
    then show ?thesis by (simp only: of_nat_inverse [OF refl] simp_thms)
  qed
  show "2 ^ 128 \<le> unat a + 2 ^ v6_size a b" if "v6_next a (v6_size a b) = None"
    using that by (auto simp: v6_next_def split: if_splits)
  show "2 ^ v6_size a b dvd unat a" by (rule size(1))
  show "unat a + 2 ^ v6_size a b \<le> unat b + 1" by (rule size(2))
  show "k \<le> v6_size a b" if "2 ^ k dvd unat a" "unat a + 2 ^ k \<le> unat b + 1"
  proof -
    have "(2 :: nat) ^ k \<le> 2 ^ 128" using that(2) unat_128 [of b] by simp
    then show ?thesis using size(3) that power_le_2 by blast
  qed
qed

subsection \<open>The covers\<close>

fun addr_val :: "ip_addr \<Rightarrow> nat" where
  "addr_val (V4 a) = unat a"
| "addr_val (V6 a) = unat a"

definition prefix_range :: "prefix \<Rightarrow> nat set" where
  "prefix_range p = {addr_val (fst p) ..< addr_val (fst p) + 2 ^ (bit_len (fst p) - snd p)}"

definition proper_prefix :: "nat \<Rightarrow> prefix \<Rightarrow> bool" where
  "proper_prefix w p \<longleftrightarrow>
     bit_len (fst p) = w \<and> snd p \<le> w \<and> 2 ^ (w - snd p) dvd addr_val (fst p)"

text \<open>A list of prefixes cuts a range: proper prefixes, in order, disjoint, covering it exactly.\<close>

definition cuts_range :: "nat \<Rightarrow> nat \<Rightarrow> nat \<Rightarrow> prefix list \<Rightarrow> bool" where
  "cuts_range w lo hi ps \<longleftrightarrow>
     (\<Union>p \<in> set ps. prefix_range p) = {lo .. hi} \<and> list_all (proper_prefix w) ps
     \<and> sorted_wrt (\<lambda>p q. addr_val (fst p) + 2 ^ (w - snd p) \<le> addr_val (fst q)) ps"

lemma cuts_rangeI:
  assumes cover: "(\<Union>p \<in> set ks. {val (fst p) ..< val (fst p) + 2 ^ snd p}) = {lo .. hi}"
    and al: "\<forall>p \<in> set ks. 2 ^ snd p dvd val (fst p) \<and> val (fst p) + 2 ^ snd p \<le> hi + 1"
    and srt: "sorted_wrt (\<lambda>p q. val (fst p) + 2 ^ snd p \<le> val (fst q)) ks"
    and hi: "hi < 2 ^ w"
    and emit: "\<And>p. p \<in> set ks \<Longrightarrow> snd p \<le> w \<Longrightarrow>
      addr_val (fst (emit p)) = val (fst p) \<and> bit_len (fst (emit p)) = w \<and> snd (emit p) = w - snd p"
  shows "cuts_range w lo hi (map emit ks)"
proof -
  have k: "snd p \<le> w" if "p \<in> set ks" for p
  proof -
    have "(2 :: nat) ^ snd p \<le> hi + 1" using al that by (meson add_leD2)
    then have "(2 :: nat) ^ snd p \<le> 2 ^ w" using hi by linarith
    then show ?thesis by (rule power_le_2)
  qed
  have e: "addr_val (fst (emit p)) = val (fst p)" "bit_len (fst (emit p)) = w" "w - snd (emit p) = snd p"
      "snd (emit p) \<le> w" if "p \<in> set ks" for p
    using emit [OF that k [OF that]] k [OF that] by auto
  have "sorted_wrt (\<lambda>p q. addr_val (fst (emit p)) + 2 ^ (w - snd (emit p)) \<le> addr_val (fst (emit q))) ks"
    using srt by (rule sorted_wrt_mono_rel [rotated]) (simp add: e)
  then show ?thesis
    using cover al by (auto simp: cuts_range_def prefix_range_def e list_all_iff proper_prefix_def sorted_wrt_map)
qed

lemma emit_v4:
  assumes "v4_good a b" and "val128 a < v4_base + 2 ^ 32"
  shows "emit_block 32 (a, k) = (V4 (word_of_nat (v4_val a)), 32 - k)"
  using uint_to_addr_v4 [of a] assms by (simp add: emit_block_def v4_good_def)

lemma emit_v6: "emit_block 128 (a, k) = (V6 (word_of_nat (val128 a)), 128 - k)"
  by (simp add: emit_block_def uint_to_addr_v6)

lemma v4_good_addr: "v4_good (addr_to_uint (V4 a)) (addr_to_uint (V4 b))"
  using unat_bound32 [of b] by (simp add: v4_good_def val128_v4)

lemma v4_val_addr: "v4_val (addr_to_uint (V4 a)) = unat a"
  by (simp add: v4_val_def val128_v4)

lemma range_to_prefixes_v4:
  "\<exists>ps. range_to_prefixes (V4 a) (V4 b) = Some ps \<and> cuts_range 32 (unat a) (unat b) ps"
proof -
  let ?a = "addr_to_uint (V4 a)" and ?b = "addr_to_uint (V4 b)"
  obtain ks where ks: "range_loop 32 ?a ?b = Some (map (emit_block 32) ks)"
      "(\<Union>p \<in> set ks. mrs4.block p) = {unat a .. unat b}"
      "\<forall>p \<in> set ks. v4_good (fst p) ?b \<and> 2 ^ snd p dvd v4_val (fst p) \<and> v4_val (fst p) + 2 ^ snd p \<le> unat b + 1"
      "sorted_wrt (\<lambda>p q. v4_val (fst p) + 2 ^ snd p \<le> v4_val (fst q)) ks"
    using mrs4.split_correct [OF v4_good_addr [of a b]] unfolding v4_val_addr by blast
  have "cuts_range 32 (unat a) (unat b) (map (emit_block 32) ks)"
  proof (rule cuts_rangeI [where val = v4_val])
    fix p assume p: "p \<in> set ks" "snd p \<le> 32"
    have "v4_val (fst p) + 2 ^ snd p \<le> unat b + 1" using ks(3) p by blast
    moreover have "(0 :: nat) < 2 ^ snd p" by simp
    ultimately have lt: "v4_val (fst p) < 2 ^ 32" using unat_bound32 [of b] by linarith
    have g: "v4_good (fst p) ?b" using ks(3) p by blast
    then have "val128 (fst p) < v4_base + 2 ^ 32" using lt by (auto simp: v4_val_def v4_good_def)
    then show "addr_val (fst (emit_block 32 p)) = v4_val (fst p) \<and> bit_len (fst (emit_block 32 p)) = 32
        \<and> snd (emit_block 32 p) = 32 - snd p"
      using emit_v4 [OF g, of "snd p"] unat_of_nat32 [OF lt] by (cases p) simp
  next
    show "(\<Union>p \<in> set ks. {v4_val (fst p) ..< v4_val (fst p) + 2 ^ snd p}) = {unat a .. unat b}"
      using ks(2) by (simp add: mrs4.block_def)
  qed (use ks(3,4) unat_bound32 [of b] in auto)
  then show ?thesis using ks(1) by (simp add: range_to_prefixes_def del: as16.simps)
qed

lemma range_to_prefixes_v6:
  "\<exists>ps. range_to_prefixes (V6 a) (V6 b) = Some ps \<and> cuts_range 128 (unat a) (unat b) ps"
proof -
  let ?a = "addr_to_uint (V6 a)" and ?b = "addr_to_uint (V6 b)"
  obtain ks where ks: "range_loop 128 ?a ?b = Some (map (emit_block 128) ks)"
      "(\<Union>p \<in> set ks. mrs6.block p) = {unat a .. unat b}"
      "\<forall>p \<in> set ks. 2 ^ snd p dvd val128 (fst p) \<and> val128 (fst p) + 2 ^ snd p \<le> unat b + 1"
      "sorted_wrt (\<lambda>p q. val128 (fst p) + 2 ^ snd p \<le> val128 (fst q)) ks"
    using mrs6.split_correct [OF TrueI, of ?a ?b] unfolding val128_v6 by blast
  have "cuts_range 128 (unat a) (unat b) (map (emit_block 128) ks)"
  proof (rule cuts_rangeI [where val = val128])
    fix p assume "p \<in> set ks"
    show "addr_val (fst (emit_block 128 p)) = val128 (fst p) \<and> bit_len (fst (emit_block 128 p)) = 128
        \<and> snd (emit_block 128 p) = 128 - snd p"
      using emit_v6 [of "fst p" "snd p"] unat_of_nat128 [OF val128_less [of "fst p"]] by (cases p) simp
  next
    show "(\<Union>p \<in> set ks. {val128 (fst p) ..< val128 (fst p) + 2 ^ snd p}) = {unat a .. unat b}"
      using ks(2) by (simp add: mrs6.block_def)
  qed (use ks(3,4) unat_128 [of b] in auto)
  then show ?thesis using ks(1) by (simp add: range_to_prefixes_def)
qed

text \<open>
  C15: the MRS range walk returns for every pair of addresses of one family, and what it
  returns is a list of proper prefixes of that family, disjoint and in ascending order, that
  together hold exactly the addresses of the range.
\<close>

theorem range_to_prefixes_correct:
  assumes "bit_len from = bit_len to"
  shows "\<exists>ps. range_to_prefixes from to = Some ps
    \<and> cuts_range (bit_len from) (addr_val from) (addr_val to) ps"
proof (cases "from")
  case (V4 a)
  then obtain b where "to = V4 b" using assms by (cases "to") auto
  then show ?thesis using V4 range_to_prefixes_v4 [of a b] by simp
next
  case (V6 a)
  then obtain b where "to = V6 b" using assms by (cases "to") auto
  then show ?thesis using V6 range_to_prefixes_v6 [of a b] by simp
qed

lemma v4_prefixes_cut:
  "cuts_range 32 (unat a) (unat b) (map (\<lambda>(x, n). (V4 x, n)) (v4_prefixes a b))"
proof -
  obtain ks where ks: "v4_prefixes a b = map (cut_length 32) ks"
      "(\<Union>p \<in> set ks. asn4.block p) = {unat a .. unat b}"
      "\<forall>p \<in> set ks. 2 ^ snd p dvd unat (fst p) \<and> unat (fst p) + 2 ^ snd p \<le> unat b + 1"
      "sorted_wrt (\<lambda>p q. unat (fst p) + 2 ^ snd p \<le> unat (fst q)) ks"
    using asn4.split_correct [OF TrueI, of a b] by auto
  have "cuts_range 32 (unat a) (unat b) (map (\<lambda>p. (V4 (fst p), 32 - snd p)) ks)"
    using ks(2-4) unat_bound32 [of b]
    by (intro cuts_rangeI [where val = unat]) (auto simp: asn4.block_def)
  then show ?thesis by (simp add: ks(1) cut_length_def comp_def)
qed

lemma v6_prefixes_cut:
  "\<exists>ps. v6_prefixes c d = Some ps \<and> cuts_range 128 (unat c) (unat d) (map (\<lambda>(x, n). (V6 x, n)) ps)"
proof -
  obtain js where js: "v6_prefixes c d = Some (map (cut_length 128) js)"
      "(\<Union>p \<in> set js. asn6.block p) = {unat c .. unat d}"
      "\<forall>p \<in> set js. 2 ^ snd p dvd unat (fst p) \<and> unat (fst p) + 2 ^ snd p \<le> unat d + 1"
      "sorted_wrt (\<lambda>p q. unat (fst p) + 2 ^ snd p \<le> unat (fst q)) js"
    using asn6.split_correct [OF TrueI, of c d] by auto
  have "cuts_range 128 (unat c) (unat d) (map (\<lambda>p. (V6 (fst p), 128 - snd p)) js)"
    using js(2-4) unat_128 [of d]
    by (intro cuts_rangeI [where val = unat]) (auto simp: asn6.block_def)
  then show ?thesis by (simp add: js(1) cut_length_def comp_def)
qed

text \<open>What a list of prefixes contains is the range that it cuts.\<close>

lemma drop_push_drop: "drop_bit k (push_bit k (drop_bit k a)) = drop_bit k (a :: 'a :: len word)"
  by (rule bit_word_eqI) (auto simp: bit_simps dest: bit_imp_le_length)

lemma same_block:
  fixes a b :: "'a :: len word"
  assumes "2 ^ k dvd unat a"
  shows "push_bit k (drop_bit k a) = push_bit k (drop_bit k b) \<longleftrightarrow> unat a \<le> unat b \<and> unat b < unat a + 2 ^ k"
proof -
  obtain q where q: "unat a = 2 ^ k * q" using assms by blast
  have "push_bit k (drop_bit k a) = push_bit k (drop_bit k b) \<longleftrightarrow> drop_bit k a = drop_bit k b"
    by (metis drop_push_drop)
  also have "\<dots> \<longleftrightarrow> unat a div 2 ^ k = unat b div 2 ^ k"
    unfolding word_unat_eq_iff unat_drop_bit_eq by (simp only: drop_bit_eq_div)
  also have "\<dots> \<longleftrightarrow> unat a \<le> unat b \<and> unat b < unat a + 2 ^ k"
  proof
    assume "unat a div 2 ^ k = unat b div 2 ^ k"
    then have "unat b div 2 ^ k = q" using q by simp
    moreover have "unat b = 2 ^ k * (unat b div 2 ^ k) + unat b mod 2 ^ k" by simp
    moreover have "unat b mod 2 ^ k < 2 ^ k" by simp
    ultimately show "unat a \<le> unat b \<and> unat b < unat a + 2 ^ k" using q by (metis le_add1 nat_add_left_cancel_less)
  next
    assume le: "unat a \<le> unat b \<and> unat b < unat a + 2 ^ k"
    then have "unat b div 2 ^ k = q" using q
      by (intro div_nat_eqI) (simp_all add: mult.commute)
    then show "unat a div 2 ^ k = unat b div 2 ^ k" using q by simp
  qed
  finally show ?thesis .
qed

lemma prefix_contains_range:
  "proper_prefix 32 p \<Longrightarrow> prefix_contains p (V4 a) \<longleftrightarrow> unat a \<in> prefix_range p"
  "proper_prefix 128 p \<Longrightarrow> prefix_contains p (V6 c) \<longleftrightarrow> unat c \<in> prefix_range p"
proof -
  assume p: "proper_prefix 32 p"
  then obtain x n where [simp]: "p = (V4 x, n)" by (cases p; cases "fst p") (auto simp: proper_prefix_def)
  show "prefix_contains p (V4 a) \<longleftrightarrow> unat a \<in> prefix_range p"
    using p by (simp add: proper_prefix_def prefix_range_def masked32_def same_block)
next
  assume p: "proper_prefix 128 p"
  then obtain x n where [simp]: "p = (V6 x, n)" by (cases p; cases "fst p") (auto simp: proper_prefix_def)
  show "prefix_contains p (V6 c) \<longleftrightarrow> unat c \<in> prefix_range p"
    using p by (simp add: proper_prefix_def prefix_range_def masked128_def same_block)
qed

lemma proper_prefix_family:
  "proper_prefix 32 p \<Longrightarrow> \<not> prefix_contains p (V6 c)" "proper_prefix 128 p \<Longrightarrow> \<not> prefix_contains p (V4 a)"
  by (cases p; cases "fst p"; simp add: proper_prefix_def)+

lemma cuts_range_contains:
  "cuts_range 32 lo hi ps \<Longrightarrow> (\<exists>p \<in> set ps. prefix_contains p (V4 a)) \<longleftrightarrow> lo \<le> unat a \<and> unat a \<le> hi"
  "cuts_range 128 lo hi ps \<Longrightarrow> (\<exists>p \<in> set ps. prefix_contains p (V6 c)) \<longleftrightarrow> lo \<le> unat c \<and> unat c \<le> hi"
proof -
  assume "cuts_range 32 lo hi ps"
  then have "(\<Union>p \<in> set ps. prefix_range p) = {lo .. hi}" "\<And>p. p \<in> set ps \<Longrightarrow> proper_prefix 32 p"
    by (auto simp: cuts_range_def list_all_iff)
  then show "(\<exists>p \<in> set ps. prefix_contains p (V4 a)) \<longleftrightarrow> lo \<le> unat a \<and> unat a \<le> hi"
    using prefix_contains_range(1) by (metis UN_iff atLeastAtMost_iff)
next
  assume "cuts_range 128 lo hi ps"
  then have "(\<Union>p \<in> set ps. prefix_range p) = {lo .. hi}" "\<And>p. p \<in> set ps \<Longrightarrow> proper_prefix 128 p"
    by (auto simp: cuts_range_def list_all_iff)
  then show "(\<exists>p \<in> set ps. prefix_contains p (V6 c)) \<longleftrightarrow> lo \<le> unat c \<and> unat c \<le> hi"
    using prefix_contains_range(2) by (metis UN_iff atLeastAtMost_iff)
qed

text \<open>
  The two walks of the ASN database have the same contract, for IPv4 and for IPv6; the
  IPv6 walk ends on every range.
\<close>

theorem asn_prefixes_correct:
  "cuts_range 32 (unat a) (unat b) (map (\<lambda>(x, n). (V4 x, n)) (v4_prefixes a b))
   \<and> (\<exists>ps. v6_prefixes c d = Some ps \<and> cuts_range 128 (unat c) (unat d) (map (\<lambda>(x, n). (V6 x, n)) ps))"
  using v4_prefixes_cut v6_prefixes_cut by blast

text \<open>Two greedy walks of the same numbers emit the same blocks.\<close>

lemma emitted_eq:
  assumes "map (\<lambda>p. (val (fst p), snd p)) ks = gs"
    and "\<And>p. p \<in> set ks \<Longrightarrow> emit p = out (val (fst p), snd p)"
  shows "map emit ks = map out gs"
proof -
  have "map emit ks = map (\<lambda>p. out (val (fst p), snd p)) ks" using assms(2) by (intro map_cong) auto
  also have "\<dots> = map out gs" unfolding assms(1) [symmetric] by simp
  finally show ?thesis .
qed

lemma range_to_prefixes_v4_greedy:
  "range_to_prefixes (V4 a) (V4 b) =
     Some (map (\<lambda>p. (V4 (word_of_nat (fst p)), 32 - snd p)) (greedy_cover (unat a) (unat b)))"
proof -
  let ?a = "addr_to_uint (V4 a)" and ?b = "addr_to_uint (V4 b)"
  obtain ks where ks: "range_loop 32 ?a ?b = Some (map (emit_block 32) ks)"
      "map (\<lambda>p. (v4_val (fst p), snd p)) ks = greedy_cover (unat a) (unat b)"
      "\<forall>p \<in> set ks. v4_good (fst p) ?b \<and> v4_val (fst p) \<le> unat b"
    using mrs4.split_greedy [OF v4_good_addr [of a b]] unfolding v4_val_addr by blast
  have "map (emit_block 32) ks =
      map (\<lambda>p. (V4 (word_of_nat (fst p)), 32 - snd p)) (greedy_cover (unat a) (unat b))"
  proof (rule emitted_eq [OF ks(2)])
    fix p assume "p \<in> set ks"
    then have g: "v4_good (fst p) ?b" and "v4_val (fst p) \<le> unat b" using ks(3) by auto
    then have "val128 (fst p) < v4_base + 2 ^ 32"
      using unat_bound32 [of b] by (auto simp: v4_val_def v4_good_def)
    then show "emit_block 32 p = (V4 (word_of_nat (fst (v4_val (fst p), snd p))), 32 - snd (v4_val (fst p), snd p))"
      using emit_v4 [OF g, of "snd p"] by (cases p) simp
  qed
  then show ?thesis using ks(1) by (simp add: range_to_prefixes_def del: as16.simps)
qed

lemma range_to_prefixes_v6_greedy:
  assumes "\<not> (c = 0 \<and> d = - 1)"
  shows "range_to_prefixes (V6 c) (V6 d) =
     Some (map (\<lambda>p. (V6 (word_of_nat (fst p)), 128 - snd p)) (greedy_cover (unat c) (unat d)))"
proof -
  let ?c = "addr_to_uint (V6 c)" and ?d = "addr_to_uint (V6 d)"
  have "\<not> (val128 ?c = 0 \<and> val128 ?d = 2 ^ 128 - 1)"
  proof -
    have "unat (- 1 :: 128 word) = 2 ^ 128 - 1"
      by (simp add: unsigned_minus_1_eq_mask mask_eq_exp_minus_1)
    then show ?thesis unfolding val128_v6 using assms by (auto simp: word_unat_eq_iff)
  qed
  from mrs6_partial.split_greedy [OF this]
  obtain ks where ks: "range_loop 128 ?c ?d = Some (map (emit_block 128) ks)"
      "map (\<lambda>p. (val128 (fst p), snd p)) ks = greedy_cover (unat c) (unat d)"
    unfolding val128_v6 by blast
  have "map (emit_block 128) ks =
      map (\<lambda>p. (V6 (word_of_nat (fst p)), 128 - snd p)) (greedy_cover (unat c) (unat d))"
    by (rule emitted_eq [OF ks(2)]) (metis emit_v6 fst_conv prod.collapse snd_conv)
  then show ?thesis using ks(1) by (simp add: range_to_prefixes_def)
qed

lemma asn_greedy:
  "map (\<lambda>(x, n). (V4 x, n)) (v4_prefixes a b) =
     map (\<lambda>p. (V4 (word_of_nat (fst p)), 32 - snd p)) (greedy_cover (unat a) (unat b))"
  "map_option (map (\<lambda>(x, n). (V6 x, n))) (v6_prefixes c d) =
     Some (map (\<lambda>p. (V6 (word_of_nat (fst p)), 128 - snd p)) (greedy_cover (unat c) (unat d)))"
proof -
  obtain ks where ks: "v4_prefixes a b = map (cut_length 32) ks"
      "map (\<lambda>p. (unat (fst p), snd p)) ks = greedy_cover (unat a) (unat b)"
    using asn4.split_greedy [OF TrueI, of a b] by auto
  have "map (\<lambda>p. (V4 (fst p), 32 - snd p)) ks =
      map (\<lambda>p. (V4 (word_of_nat (fst p)), 32 - snd p)) (greedy_cover (unat a) (unat b))"
    by (rule emitted_eq [OF ks(2)]) simp
  then show "map (\<lambda>(x, n). (V4 x, n)) (v4_prefixes a b) =
      map (\<lambda>p. (V4 (word_of_nat (fst p)), 32 - snd p)) (greedy_cover (unat a) (unat b))"
    by (simp add: ks(1) cut_length_def comp_def)
  obtain js where js: "v6_prefixes c d = Some (map (cut_length 128) js)"
      "map (\<lambda>p. (unat (fst p), snd p)) js = greedy_cover (unat c) (unat d)"
    using asn6.split_greedy [OF TrueI, of c d] by auto
  have "map (\<lambda>p. (V6 (fst p), 128 - snd p)) js =
      map (\<lambda>p. (V6 (word_of_nat (fst p)), 128 - snd p)) (greedy_cover (unat c) (unat d))"
    by (rule emitted_eq [OF js(2)]) simp
  then show "map_option (map (\<lambda>(x, n). (V6 x, n))) (v6_prefixes c d) =
      Some (map (\<lambda>p. (V6 (word_of_nat (fst p)), 128 - snd p)) (greedy_cover (unat c) (unat d)))"
    by (simp add: js(1) cut_length_def comp_def)
qed

text \<open>
  The MRS reader and the ASN database cut a range into the same prefixes, on every IPv4
  range and on every IPv6 range but the whole space.
\<close>

theorem splitters_agree:
  "range_to_prefixes (V4 a) (V4 b) = Some (map (\<lambda>(x, n). (V4 x, n)) (v4_prefixes a b))
   \<and> (c \<noteq> 0 \<or> d \<noteq> - 1 \<longrightarrow>
        range_to_prefixes (V6 c) (V6 d) = map_option (map (\<lambda>(x, n). (V6 x, n))) (v6_prefixes c d))"
  using range_to_prefixes_v4_greedy [of a b] range_to_prefixes_v6_greedy [of c d] asn_greedy(1) [of a b] asn_greedy(2) [of c d]
  by auto

lemma greedy_full: "greedy_cover 0 (2 ^ 128 - 1) = [(0, 128)]"
proof -
  have "largest_block 0 (2 ^ 128 - 1) = 128"
    unfolding largest_block_def
  proof (rule Greatest_equality)
    fix k assume "2 ^ k dvd (0 :: nat) \<and> 0 + 2 ^ k \<le> 2 ^ 128 - 1 + (1 :: nat)"
    then have "(2 :: nat) ^ k \<le> 2 ^ 128" by simp
    then show "k \<le> 128" by (rule power_le_2)
  qed simp
  then show ?thesis by (simp add: greedy_cover.simps)
qed

text \<open>
  On the whole IPv6 space the MRS walk computes a remaining size of 2 ^ 128, which wraps
  to zero, and so starts with a single address where the other walk returns the one prefix
  of length 0.
\<close>

theorem full_range_not_minimal:
  "v6_prefixes 0 (- 1) = Some [(0, 0)]
   \<and> (\<exists>p ps. range_to_prefixes (V6 0) (V6 (- 1)) = Some ((V6 0, 128) # p # ps))"
proof
  have top: "unat (- 1 :: 128 word) = 2 ^ 128 - 1"
    by (simp add: unsigned_minus_1_eq_mask mask_eq_exp_minus_1)
  have "map_option (map (\<lambda>(x, n). (V6 x, n))) (v6_prefixes 0 (- 1)) = Some [(V6 0, 0)]"
    unfolding asn_greedy(2) top using greedy_full by simp
  then show "v6_prefixes 0 (- 1) = Some [(0, 0)]" by (cases "v6_prefixes 0 (- 1)") auto
  let ?a = "addr_to_uint (V6 0)" and ?b = "addr_to_uint (V6 (- 1))"
  have v: "val128 ?a = 0" "val128 ?b = 2 ^ 128 - 1" unfolding val128_v6 top by simp_all
  have "floor_log2_128 (add_one128 (sub128 ?b ?a)) = 0"
    using remaining_full [OF v] val128_zero [of "add_one128 (sub128 ?b ?a)"]
    by (simp add: floor_log2_128_def)
  then have k: "block_bits 128 ?a ?b = 0" by (simp add: block_bits_min)
  have n: "val128 (add_pow2 ?a 0) = 1" using val128_add_pow2 [of 0 ?a] v by simp
  then have nxt: "next_cursor 128 ?a 0 = Some (add_pow2 ?a 0)"
    using val128_zero [of "add_pow2 ?a 0"] by (auto simp: next_cursor_def Let_def)
  obtain ks where ks: "range_loop 128 (add_pow2 ?a 0) ?b = Some (map (emit_block 128) ks)"
      "(\<Union>p \<in> set ks. mrs6.block p) = {1 .. 2 ^ 128 - 1}"
    using mrs6.split_correct [OF TrueI, of "add_pow2 ?a 0" ?b] unfolding n v by blast
  have "ks \<noteq> []" using ks(2) by auto
  then obtain q qs where "ks = q # qs" by (meson list.exhaust)
  then show "\<exists>p ps. range_to_prefixes (V6 0) (V6 (- 1)) = Some ((V6 0, 128) # p # ps)"
    using range_loop_step(2) [of ?a ?b 128] nxt k v ks(1)
    by (simp add: range_to_prefixes_def emit_v6)
qed

theorem range_to_prefixes_correct_witness:
  "\<exists>ps. range_to_prefixes (V4 0x0A000001) (V4 0x0A0000FF) = Some ps
     \<and> cuts_range 32 0x0A000001 0x0A0000FF ps"
  using range_to_prefixes_correct [of "V4 0x0A000001" "V4 0x0A0000FF"] by simp

theorem splitters_agree_witness:
  "range_to_prefixes (V6 1) (V6 5) = map_option (map (\<lambda>(x, n). (V6 x, n))) (v6_prefixes 1 5)"
  using splitters_agree [of 0 0 1 5] by simp

end
