(* ===== verification/Mrs_Format.thy ===== *)
theory Mrs_Format
  imports Mrs_Lookup Rule_Text Cidr_Cover
begin

section \<open>The MRS container\<close>

text \<open>
  The rest of \<open>internal/rules/parse_mrs.go\<close> and the constructor of \<open>domainset.go\<close>: the
  compressed envelope, the header, the bounded readers of the trie and of the address ranges,
  and the three ways a payload is consumed: parsed into rules, streamed to callbacks, or kept
  as a domain set.

  A \<open>bytes.Reader\<close> is the list of bytes still unread. A declared length is an \<open>int64\<close>, the
  signed value of 64 big-endian bits. The zstd decoder and the gzip reader (with the limit
  reader around it) are parameters. Callbacks work on an explicit state and may fail.
\<close>

datatype mrs_error =
    Short_read | Bad_magic | Bad_extra_length | Unsupported_behavior | Bad_mrs_version
  | Bad_slice_length | Bad_labels_length | Bad_cidr_length | Trie_error walk_error | Empty_decoded
  | Decoder_error string | Payload_too_big | Unsupported_encoding | Not_native | Bad_count
  | Not_domain_behavior | Callback_error

definition mrs_magic :: bytes where "mrs_magic = ''MRS'' @ [CHR 0x01]"

definition max_mrs_payload :: nat where "max_mrs_payload = 134217728"

subsection \<open>Readers\<close>

definition read_u64 :: "bytes \<Rightarrow> mrs_error + 64 word \<times> bytes" where
  "read_u64 r = (if length r < 8 then Inl Short_read else Inr (word_of_nat (be_nat (take 8 r)), drop 8 r))"

definition read_i64 :: "bytes \<Rightarrow> mrs_error + int \<times> bytes" where
  "read_i64 r = andthen (read_u64 r) (\<lambda>(w, r). Inr (sint w, r))"

definition read_byte :: "bytes \<Rightarrow> mrs_error + char \<times> bytes" where
  "read_byte r = (case r of [] \<Rightarrow> Inl Short_read | c # cs \<Rightarrow> Inr (c, cs))"

fun read_words :: "nat \<Rightarrow> bytes \<Rightarrow> mrs_error + 64 word list \<times> bytes" where
  "read_words 0 r = Inr ([], r)"
| "read_words (Suc n) r =
     andthen (read_u64 r) (\<lambda>(w, r). andthen (read_words n r) (\<lambda>(ws, r). Inr (w # ws, r)))"

definition read_uint64_slice :: "bytes \<Rightarrow> mrs_error + 64 word list \<times> bytes" where
  "read_uint64_slice r =
     andthen (read_i64 r) (\<lambda>(len, r).
       if len < 0 \<or> int (length r) div 8 < len then Inl Bad_slice_length else read_words (nat len) r)"

definition read_version :: "bytes \<Rightarrow> mrs_error + bytes" where
  "read_version r =
     andthen (read_byte r) (\<lambda>(v, r). if v \<noteq> CHR 0x01 then Inl Bad_mrs_version else Inr r)"

definition read_trie_raw :: "bytes \<Rightarrow> mrs_error + mrs_trie \<times> bytes" where
  "read_trie_raw r =
     andthen (read_version r) (\<lambda>r.
     andthen (read_uint64_slice r) (\<lambda>(lv, r).
     andthen (read_uint64_slice r) (\<lambda>(bm, r).
     andthen (read_i64 r) (\<lambda>(len, r).
       if len < 0 \<or> int (length r) < len then Inl Bad_labels_length
       else Inr (\<lparr>leaves = lv, label_bitmap = bm, labels = take (nat len) r\<rparr>, drop (nat len) r)))))"

text \<open>One range: two addresses of 16 bytes. A count that fits leaves enough input for all of them.\<close>

definition range_texts :: "128 word \<Rightarrow> 128 word \<Rightarrow> string list" where
  "range_texts a b =
     (case range_to_prefixes (unmap (V6 a)) (unmap (V6 b)) of None \<Rightarrow> [] | Some ps \<Rightarrow> map prefix_string ps)"

definition read_addr16 :: "bytes \<Rightarrow> mrs_error + 128 word \<times> bytes" where
  "read_addr16 r = (if length r < 16 then Inl Short_read else Inr (word_of_nat (be_nat (take 16 r)), drop 16 r))"

definition read_range :: "bytes \<Rightarrow> mrs_error + string list \<times> bytes" where
  "read_range r =
     andthen (read_addr16 r) (\<lambda>(a, r). andthen (read_addr16 r) (\<lambda>(b, r). Inr (range_texts a b, r)))"

fun read_ranges :: "nat \<Rightarrow> bytes \<Rightarrow> string list \<Rightarrow> mrs_error + string list" where
  "read_ranges 0 r out = Inr out"
| "read_ranges (Suc n) r out = andthen (read_range r) (\<lambda>(cs, r). read_ranges n r (out @ cs))"

definition read_cidr_count :: "bytes \<Rightarrow> mrs_error + nat \<times> bytes" where
  "read_cidr_count r =
     andthen (read_version r) (\<lambda>r.
     andthen (read_i64 r) (\<lambda>(len, r).
       if len < 0 \<or> int (length r) div 32 < len then Inl Bad_cidr_length else Inr (nat len, r)))"

definition read_mrs_cidrs :: "bytes \<Rightarrow> mrs_error + string list" where
  "read_mrs_cidrs r = andthen (read_cidr_count r) (\<lambda>(n, r). read_ranges n r [])"

definition read_mrs_domains :: "bool \<Rightarrow> bytes \<Rightarrow> mrs_error + string list" where
  "read_mrs_domains sort_domains r =
     andthen (read_trie_raw r) (\<lambda>(t, r).
       case trie_domains t of
         Inl e \<Rightarrow> Inl (Trie_error e)
       | Inr out \<Rightarrow> Inr (if sort_domains then sort out else out))"

subsection \<open>The header\<close>

definition skip_extra :: "bytes \<Rightarrow> mrs_error + bytes" where
  "skip_extra r =
     andthen (read_i64 r) (\<lambda>(extra, r).
       if extra < 0 \<or> int (length r) < extra then Inl Bad_extra_length else Inr (drop (nat extra) r))"

definition read_native_header :: "bytes \<Rightarrow> mrs_error + char \<times> int \<times> bytes" where
  "read_native_header data =
     (if length data < 4 then Inl Short_read
      else if take 4 data \<noteq> mrs_magic then Inl Bad_magic
      else andthen (read_byte (drop 4 data)) (\<lambda>(behavior, r).
           andthen (read_i64 r) (\<lambda>(count, r).
           andthen (skip_extra r) (\<lambda>r. Inr (behavior, count, r)))))"

definition decode_mrs_payload ::
    "(bytes \<Rightarrow> string + bytes) \<Rightarrow> (nat \<Rightarrow> bytes \<Rightarrow> string + bytes) \<Rightarrow> bytes \<Rightarrow> mrs_error + bytes \<times> string" where
  "decode_mrs_payload zstd gunzip data =
     (if take 4 data = [CHR 0x28, CHR 0xB5, CHR 0x2F, CHR 0xFD] then
        (case zstd data of Inl e \<Rightarrow> Inl (Decoder_error e)
         | Inr p \<Rightarrow> if length p > max_mrs_payload then Inl Payload_too_big else Inr (p, ''zstd''))
      else if take 2 data = [CHR 0x1F, CHR 0x8B] then
        (case gunzip (max_mrs_payload + 1) data of Inl e \<Rightarrow> Inl (Decoder_error e)
         | Inr p \<Rightarrow> if length p > max_mrs_payload then Inl Payload_too_big else Inr (p, ''gzip''))
      else Inr (data, []))"

subsection \<open>Parsing into rules\<close>

definition number_rules :: "(string \<Rightarrow> rule_type) \<Rightarrow> (string \<Rightarrow> string) \<Rightarrow> string \<Rightarrow> string list \<Rightarrow> rule list" where
  "number_rules ty f name vs =
     map (\<lambda>(i, v). (mk_rule (ty v) (f v) True True) \<lparr>rl_source := name, rl_line := i + 1\<rparr>)
       (zip [0..<length vs] vs)"

definition mrs_provider :: "string \<Rightarrow> string \<Rightarrow> rule list \<Rightarrow> provider" where
  "mrs_provider name behavior rs =
     \<lparr>pv_name = name, pv_behavior = behavior, pv_format = ''mrs'', pv_section = [],
      pv_action = ''proxy'', pv_rules = rs, pv_warnings = []\<rparr>"

definition parse_native_mrs :: "string \<Rightarrow> bytes \<Rightarrow> bool \<Rightarrow> mrs_error + provider" where
  "parse_native_mrs name data sort_domains =
     andthen (read_native_header data) (\<lambda>(behavior, count, r).
     andthen
       (if behavior = CHR 0x00 then
          andthen (read_mrs_domains sort_domains r) (\<lambda>ds.
            Inr (mrs_provider name ''domain''
              (number_rules (\<lambda>_. Domain_Suffix) (\<lambda>d. trim_prefix d ''+.'') name ds)))
        else if behavior = CHR 0x01 then
          andthen (read_mrs_cidrs r) (\<lambda>cs.
            Inr (mrs_provider name ''ipcidr''
              (number_rules (\<lambda>c. if CHR '':'' \<in> set c then Ip_Cidr6 else Ip_Cidr) id name cs)))
        else Inl Unsupported_behavior)
       (\<lambda>p. if pv_rules p = [] \<and> 0 < count then Inl Empty_decoded else Inr p))"

definition parse_mrs_with_options ::
    "(bytes \<Rightarrow> string + bytes) \<Rightarrow> (nat \<Rightarrow> bytes \<Rightarrow> string + bytes) \<Rightarrow> (string \<Rightarrow> string) \<Rightarrow> (string \<Rightarrow> string)
     \<Rightarrow> string \<Rightarrow> bytes \<Rightarrow> bool \<Rightarrow> mrs_error + provider" where
  "parse_mrs_with_options zstd gunzip lo up name data sort_domains =
     andthen (decode_mrs_payload zstd gunzip data) (\<lambda>(payload, _).
       if length payload \<ge> 4 \<and> take 4 payload = mrs_magic then parse_native_mrs name payload sort_domains
       else if CHR ''.'' \<notin> set payload \<and> CHR ''/'' \<notin> set payload then Inl Unsupported_encoding
       else Inr ((parse_text lo up name payload) \<lparr>pv_format := ''mrs''\<rparr>))"

definition parse_mrs ::
    "(bytes \<Rightarrow> string + bytes) \<Rightarrow> (nat \<Rightarrow> bytes \<Rightarrow> string + bytes) \<Rightarrow> (string \<Rightarrow> string) \<Rightarrow> (string \<Rightarrow> string)
     \<Rightarrow> string \<Rightarrow> bytes \<Rightarrow> mrs_error + provider" where
  "parse_mrs zstd gunzip lo up name data = parse_mrs_with_options zstd gunzip lo up name data True"

record mrs_info =
  mi_native :: bool
  mi_compressed :: string
  mi_behavior :: string
  mi_count :: int

definition analyze_mrs ::
    "(bytes \<Rightarrow> string + bytes) \<Rightarrow> (nat \<Rightarrow> bytes \<Rightarrow> string + bytes) \<Rightarrow> bytes \<Rightarrow> mrs_error + mrs_info" where
  "analyze_mrs zstd gunzip data =
     andthen (decode_mrs_payload zstd gunzip data) (\<lambda>(payload, compressed).
       if length payload < 4 \<or> take 4 payload \<noteq> mrs_magic then Inl Not_native
       else andthen (read_byte (drop 4 payload)) (\<lambda>(behavior, r).
            andthen (read_i64 r) (\<lambda>(count, r).
              if count < 0 then Inl Bad_count
              else if behavior = CHR 0x00 then
                Inr \<lparr>mi_native = True, mi_compressed = compressed, mi_behavior = ''domain'', mi_count = count\<rparr>
              else if behavior = CHR 0x01 then
                Inr \<lparr>mi_native = True, mi_compressed = compressed, mi_behavior = ''ipcidr'', mi_count = count\<rparr>
              else Inl Unsupported_behavior)))"

definition parse_mrs_domain_set ::
    "(bytes \<Rightarrow> string + bytes) \<Rightarrow> (nat \<Rightarrow> bytes \<Rightarrow> string + bytes) \<Rightarrow> string \<Rightarrow> bytes
     \<Rightarrow> mrs_error + domain_set" where
  "parse_mrs_domain_set zstd gunzip name data =
     andthen (decode_mrs_payload zstd gunzip data) (\<lambda>(payload, _).
       if length payload < 4 \<or> take 4 payload \<noteq> mrs_magic then Inl Not_native
       else andthen (read_byte (drop 4 payload)) (\<lambda>(behavior, r).
            if behavior \<noteq> CHR 0x00 then Inl Not_domain_behavior
            else andthen (read_i64 r) (\<lambda>(count, r).
                 andthen (skip_extra r) (\<lambda>r.
                 andthen (read_trie_raw r) (\<lambda>(t, r). Inr (make_domain_set name t))))))"

subsection \<open>Streaming\<close>

text \<open>A callback returns its new state and whether it failed. A missing callback is \<^term>\<open>None\<close>.\<close>

type_synonym 's emit = "bytes \<Rightarrow> 's \<Rightarrow> 's \<times> bool"

definition stream_visit ::
    "mrs_trie \<Rightarrow> 's emit option \<Rightarrow> 's \<times> bool \<Rightarrow> nat \<Rightarrow> bytes \<Rightarrow> ('s \<times> bool) \<times> bool" where
  "stream_visit t emit st node cur =
     (if snd st then (st, False)
      else case emit of
        None \<Rightarrow> (st, True)
      | Some f \<Rightarrow>
          (if \<not> bit_at (leaves t) node then (st, True)
           else (case f (trim_prefix (rev cur) ''+.'') (fst st) of
               (s', failed) \<Rightarrow> ((s', failed), \<not> failed))))"

definition stream_mrs_domains :: "'s emit option \<Rightarrow> bytes \<Rightarrow> 's \<Rightarrow> 's \<times> mrs_error option" where
  "stream_mrs_domains emit r s =
     (case read_trie_raw r of
        Inl e \<Rightarrow> (s, Some e)
      | Inr (t, r') \<Rightarrow>
          (case walk_mrs_trie t (stream_visit t emit) (s, False) of
             ((s', failed), Some e) \<Rightarrow> (s', Some (Trie_error e))
           | ((s', failed), None) \<Rightarrow> (s', if failed then Some Callback_error else None)))"

fun emit_all :: "'s emit \<Rightarrow> bytes list \<Rightarrow> 's \<Rightarrow> 's \<times> bool" where
  "emit_all f [] s = (s, False)"
| "emit_all f (x # xs) s =
     (case f x s of (s', failed) \<Rightarrow> if failed then (s', True) else emit_all f xs s')"

fun stream_ranges :: "'s emit option \<Rightarrow> nat \<Rightarrow> bytes \<Rightarrow> 's \<Rightarrow> 's \<times> mrs_error option" where
  "stream_ranges emit 0 r s = (s, None)"
| "stream_ranges emit (Suc n) r s =
     (case read_range r of
        Inl e \<Rightarrow> (s, Some e)
      | Inr (cs, r') \<Rightarrow>
          (case emit of
             None \<Rightarrow> stream_ranges emit n r' s
           | Some f \<Rightarrow>
               (case emit_all f cs s of
                  (s', failed) \<Rightarrow> if failed then (s', Some Callback_error) else stream_ranges emit n r' s')))"

definition stream_mrs_cidrs :: "'s emit option \<Rightarrow> bytes \<Rightarrow> 's \<Rightarrow> 's \<times> mrs_error option" where
  "stream_mrs_cidrs emit r s =
     (case read_cidr_count r of Inl e \<Rightarrow> (s, Some e) | Inr (n, r') \<Rightarrow> stream_ranges emit n r' s)"

definition stream_native_mrs ::
    "'s emit option \<Rightarrow> 's emit option \<Rightarrow> bytes \<Rightarrow> 's \<Rightarrow> 's \<times> mrs_error option" where
  "stream_native_mrs dom_h cidr_h data s =
     (case read_native_header data of
        Inl e \<Rightarrow> (s, Some e)
      | Inr (behavior, count, r) \<Rightarrow>
          if behavior = CHR 0x00 then stream_mrs_domains dom_h r s
          else if behavior = CHR 0x01 then stream_mrs_cidrs cidr_h r s
          else (s, Some Unsupported_behavior))"

definition handle_rule :: "'s emit option \<Rightarrow> 's emit option \<Rightarrow> rule \<Rightarrow> 's \<Rightarrow> 's \<times> bool" where
  "handle_rule dom_h cidr_h x s =
     (if rl_type x \<in> {Domain, Domain_Suffix} then (case dom_h of None \<Rightarrow> (s, False) | Some f \<Rightarrow> f (rl_value x) s)
      else if rl_type x \<in> {Ip_Cidr, Ip_Cidr6} then (case cidr_h of None \<Rightarrow> (s, False) | Some f \<Rightarrow> f (rl_value x) s)
      else (s, False))"

fun handle_rules :: "'s emit option \<Rightarrow> 's emit option \<Rightarrow> rule list \<Rightarrow> 's \<Rightarrow> 's \<times> mrs_error option" where
  "handle_rules dom_h cidr_h [] s = (s, None)"
| "handle_rules dom_h cidr_h (x # xs) s =
     (case handle_rule dom_h cidr_h x s of
        (s', failed) \<Rightarrow> if failed then (s', Some Callback_error) else handle_rules dom_h cidr_h xs s')"

definition stream_mrs ::
    "(bytes \<Rightarrow> string + bytes) \<Rightarrow> (nat \<Rightarrow> bytes \<Rightarrow> string + bytes) \<Rightarrow> (string \<Rightarrow> string) \<Rightarrow> (string \<Rightarrow> string)
     \<Rightarrow> 's emit option \<Rightarrow> 's emit option \<Rightarrow> bytes \<Rightarrow> 's \<Rightarrow> 's \<times> mrs_error option" where
  "stream_mrs zstd gunzip lo up dom_h cidr_h data s =
     (case decode_mrs_payload zstd gunzip data of
        Inl e \<Rightarrow> (s, Some e)
      | Inr (payload, _) \<Rightarrow>
          if length payload \<ge> 4 \<and> take 4 payload = mrs_magic then stream_native_mrs dom_h cidr_h payload s
          else handle_rules dom_h cidr_h (pv_rules (parse_text lo up ''mrs'' payload)) s)"

end
