(* ===== verification/Mrs_Stream.thy ===== *)
theory Mrs_Stream
  imports Mrs_Format
begin

section \<open>Parsing, streaming and reading back MRS files\<close>

text \<open>
  Streaming a native payload hands the callbacks exactly the values the parser returns, in the
  same order and up to the first failure (over the walk lemmas \<open>walk_stopping\<close>); the trie that
  is read takes no more room than the input; and what an exporter writes is read back.
\<close>

subsection \<open>Streaming agrees with parsing\<close>

fun run_visits :: "('s \<Rightarrow> nat \<Rightarrow> bytes \<Rightarrow> 's \<times> bool) \<Rightarrow> (nat \<times> bytes) list \<Rightarrow> 's \<Rightarrow> 's \<times> bool" where
  "run_visits g [] s = (s, False)"
| "run_visits g ((n, c) # l) s = (case g s n c of (s', failed) \<Rightarrow> if failed then (s', True) else run_visits g l s')"

lemma run_visits_append:
  "run_visits g (l @ l') s =
     (case run_visits g l s of (s', failed) \<Rightarrow> if failed then (s', True) else run_visits g l' s')"
  by (induction g l s rule: run_visits.induct) (auto split: prod.splits)

definition stopping :: "('s \<Rightarrow> nat \<Rightarrow> bytes \<Rightarrow> 's \<times> bool) \<Rightarrow> 's \<times> bool \<Rightarrow> nat \<Rightarrow> bytes \<Rightarrow> ('s \<times> bool) \<times> bool" where
  "stopping g st n c = (if snd st then (st, False) else (g (fst st) n c, \<not> snd (g (fst st) n c)))"

text \<open>After a failure the walk goes on, but changes nothing and meets no error a full walk would not.\<close>

lemma walk_stopped_state:
  "visit = stopping g \<Longrightarrow> snd st \<Longrightarrow> fst (walk t rs visit levels node bm cur st) = st"
  "visit = stopping g \<Longrightarrow> snd st \<Longrightarrow> fst (walk_children t rs visit levels node bm cur st) = st"
proof (induction t rs visit levels node bm cur st and t rs visit levels node bm cur st
    rule: walk_walk_children.induct)
  case (1 t rs visit levels node bm cur s)
  then show ?case
    by (auto simp: walk.simps [of t rs _ levels] stopping_def split: prod.splits)
next
  case (2 t rs visit levels node bm cur s)
  then show ?case
    by (auto simp: walk_children.simps [of t rs _ levels node bm] Let_def split: prod.splits option.splits)
qed

lemma walk_stopped_clean:
  "snd (visits t rs levels node bm cur) = None \<Longrightarrow>
     walk t rs (stopping g) levels node bm cur (s, True) = ((s, True), None)"
  "snd (visits_children t rs levels node bm cur) = None \<Longrightarrow>
     walk_children t rs (stopping g) levels node bm cur (s, True) = ((s, True), None)"
proof (induction t rs levels node bm cur and t rs levels node bm cur rule: visits_visits_children.induct)
  case (1 t rs levels node bm cur)
  then show ?case
    by (auto simp: walk.simps [of t rs _ levels] visits.simps [of t rs levels] stopping_def
        split: prod.splits if_splits)
next
  case (2 t rs levels node bm cur)
  then show ?case
    by (auto simp: walk_children.simps [of t rs _ levels node bm] visits_children.simps [of t rs levels node bm]
        Let_def split: prod.splits if_splits option.splits)
qed

text \<open>A clean walk hands the visited nodes to the callback, up to the first failure.\<close>

lemma walk_stopping:
  "snd (visits t rs levels node bm cur) = None \<Longrightarrow>
     walk t rs (stopping g) levels node bm cur (s, False) = (run_visits g (fst (visits t rs levels node bm cur)) s, None)"
  "snd (visits_children t rs levels node bm cur) = None \<Longrightarrow>
     walk_children t rs (stopping g) levels node bm cur (s, False) =
       (run_visits g (fst (visits_children t rs levels node bm cur)) s, None)"
proof (induction t rs levels node bm cur and t rs levels node bm cur arbitrary: s and s
    rule: visits_visits_children.induct)
  case (1 t rs levels node bm cur)
  then show ?case
    by (auto simp: walk.simps [of t rs _ levels] visits.simps [of t rs levels] stopping_def
        split: prod.splits if_splits)
next
  case (2 t rs levels node bm cur)
  show ?case
  proof (cases "bit_at (label_bitmap t) bm")
    case True
    then show ?thesis by (simp add: walk_children.simps [of t rs _ levels node bm] visits_children.simps [of t rs levels node bm])
  next
    case False
    let ?c = "count_zeros rs (bm + 1)" and ?cur = "cur @ [labels t ! (bm - node)]"
    obtain l where v: "visits t rs levels ?c (next_bm rs ?c) ?cur = (l, None)"
      and ok: "\<not> (bm < node \<or> bm - node \<ge> length (labels t))"
      and rest: "snd (visits_children t rs levels node (bm + 1) cur) = None"
      and all: "fst (visits_children t rs levels node bm cur) = l @ fst (visits_children t rs levels node (bm + 1) cur)"
      using 2(3) False by (auto simp: visits_children.simps [of t rs levels node bm] Let_def
          split: prod.splits if_splits option.splits)
    have first: "walk t rs (stopping g) levels ?c (next_bm rs ?c) ?cur (s, False) = (run_visits g l s, None)"
      using 2(1) [OF False ok refl, of s] v by simp
    have children: "walk_children t rs (stopping g) levels node bm cur (s, False) =
        walk_children t rs (stopping g) levels node (bm + 1) cur (run_visits g l s)"
      using False ok first by (simp add: walk_children.simps [of t rs _ levels node bm] Let_def)
    obtain s' failed where r: "run_visits g l s = (s', failed)" using surj_pair by metis
    show ?thesis
    proof (cases failed)
      case True
      then show ?thesis using children r all walk_stopped_clean(2) [OF rest] by (simp add: run_visits_append)
    next
      case fine: False
      have "walk_children t rs (stopping g) levels node (bm + 1) cur (s', False) =
          (run_visits g (fst (visits_children t rs levels node (bm + 1) cur)) s', None)"
        using 2(2) [OF False ok refl v [symmetric] refl rest] .
      then show ?thesis using children r all fine by (simp add: run_visits_append)
    qed
  qed
qed

lemma emit_all_append:
  "emit_all f (xs @ ys) s = (case emit_all f xs s of (s', failed) \<Rightarrow> if failed then (s', True) else emit_all f ys s')"
  by (induction f xs s rule: emit_all.induct) (auto split: prod.splits)

definition leaf_visit :: "mrs_trie \<Rightarrow> 's emit \<Rightarrow> 's \<Rightarrow> nat \<Rightarrow> bytes \<Rightarrow> 's \<times> bool" where
  "leaf_visit t f s n c = (if bit_at (leaves t) n then f (trim_prefix (rev c) ''+.'') s else (s, False))"

lemma stream_visit_stopping: "stream_visit t (Some f) = stopping (leaf_visit t f)"
  by (intro ext) (auto simp: stream_visit_def stopping_def leaf_visit_def split: prod.splits)

lemma run_visits_emit:
  "run_visits (leaf_visit t f) l s =
     emit_all f (map (\<lambda>d. trim_prefix d ''+.'')
       (map (\<lambda>(n, c). rev c) (filter (\<lambda>(n, c). bit_at (leaves t) n) l))) s"
  by (induction l arbitrary: s) (auto simp: leaf_visit_def split: prod.splits)

definition stream_result :: "'s \<times> bool \<Rightarrow> 's \<times> mrs_error option" where
  "stream_result r = (fst r, if snd r then Some Callback_error else None)"

lemma stream_domains_eq:
  assumes "read_mrs_domains False r = Inr ds"
  shows "stream_mrs_domains (Some f) r s = stream_result (emit_all f (map (\<lambda>d. trim_prefix d ''+.'') ds) s)"
proof -
  obtain t r' where t: "read_trie_raw r = Inr (t, r')" and d: "trie_domains t = Inr ds"
  proof -
    obtain t r' where t: "read_trie_raw r = Inr (t, r')"
      using assms by (auto simp: read_mrs_domains_def andthen_eq_Inr)
    then have "trie_domains t = Inr ds"
      using assms by (cases "trie_domains t") (auto simp: read_mrs_domains_def)
    then show ?thesis using that t by blast
  qed
  have clean: "snd (visits t (build_rank_select t) 1025 0 0 []) = None"
    and ds: "ds = map (\<lambda>(n, c). rev c) (filter (\<lambda>(n, c). bit_at (leaves t) n) (fst (root_visits t)))"
    using d unfolding trie_domains_eq root_visits_def by (auto split: option.splits)
  have "walk_mrs_trie t (stream_visit t (Some f)) (s, False) =
      (emit_all f (map (\<lambda>d. trim_prefix d ''+.'') ds) s, None)"
    unfolding walk_mrs_trie_def stream_visit_stopping walk_stopping(1) [OF clean]
    by (simp only: run_visits_emit ds root_visits_def)
  then show ?thesis using t by (simp add: stream_mrs_domains_def stream_result_def split: prod.splits)
qed

lemma read_ranges_acc: "read_ranges n r out = andthen (read_ranges n r []) (\<lambda>cs. Inr (out @ cs))"
proof (induction n arbitrary: r out)
  case (Suc n)
  show ?case
  proof (cases "read_range r")
    case (Inr x)
    obtain cs r' where x: "x = (cs, r')" by (cases x)
    show ?thesis
      using Suc.IH [of r' "out @ cs"] Suc.IH [of r' cs] Inr x by (simp add: andthen_assoc)
  qed simp
qed simp

lemma stream_ranges_eq:
  "read_ranges n r [] = Inr cs \<Longrightarrow> stream_ranges (Some f) n r s = stream_result (emit_all f cs s)"
proof (induction n arbitrary: r cs s)
  case 0
  then show ?case by (simp add: stream_result_def)
next
  case (Suc n)
  obtain c1 r' where c1: "read_range r = Inr (c1, r')" and "read_ranges n r' ([] @ c1) = Inr cs"
    using Suc.prems by (auto simp: andthen_eq_Inr)
  then obtain c2 where c2: "read_ranges n r' [] = Inr c2" "cs = c1 @ c2"
    using read_ranges_acc [of n r' "[] @ c1"]
    by (cases "read_ranges n r' []") simp_all
  show ?case
    using Suc.IH [OF c2(1)] c1 c2(2) by (auto simp: emit_all_append stream_result_def split: prod.splits)
qed

lemma stream_cidrs_eq:
  "read_mrs_cidrs r = Inr cs \<Longrightarrow> stream_mrs_cidrs (Some f) r s = stream_result (emit_all f cs s)"
  by (auto simp: read_mrs_cidrs_def stream_mrs_cidrs_def andthen_eq_Inr stream_ranges_eq)

lemma number_rules_values: "map rl_value (number_rules ty g name vs) = map g vs"
  by (auto simp: number_rules_def mk_rule_def comp_def case_prod_beta' intro!: nth_equalityI)

text \<open>
  Streaming a native MRS payload calls the callbacks with exactly the values of the
  rules the unsorted parser returns, in order, stops at the first callback that fails, and
  reports an error just then.
\<close>

theorem stream_agrees_with_parse:
  assumes "parse_native_mrs name data False = Inr p"
  shows "stream_native_mrs (Some f) (Some f) data s = stream_result (emit_all f (map rl_value (pv_rules p)) s)"
proof -
  obtain b count r where h: "read_native_header data = Inr (b, count, r)"
    using assms by (auto simp: parse_native_mrs_def andthen_eq_Inr)
  show ?thesis
  proof (cases "b = CHR 0x00")
    case True
    then obtain ds where "read_mrs_domains False r = Inr ds"
        "map rl_value (pv_rules p) = map (\<lambda>d. trim_prefix d ''+.'') ds"
      using assms h by (auto simp: parse_native_mrs_def andthen_eq_Inr mrs_provider_def number_rules_values
          split: if_splits)
    then show ?thesis using h True by (simp add: stream_native_mrs_def stream_domains_eq)
  next
    case False
    then obtain cs where "b = CHR 0x01" "read_mrs_cidrs r = Inr cs" "map rl_value (pv_rules p) = cs"
      using assms h by (auto simp: parse_native_mrs_def andthen_eq_Inr mrs_provider_def number_rules_values
          split: if_splits)
    then show ?thesis using h by (simp add: stream_native_mrs_def stream_cidrs_eq)
  qed
qed

subsection \<open>Declared lengths are bounded by the input\<close>

lemma read_u64_length: "read_u64 r = Inr (w, r') \<Longrightarrow> length r = length r' + 8"
  by (auto simp: read_u64_def split: if_splits)

lemma read_i64_length: "read_i64 r = Inr (v, r') \<Longrightarrow> length r = length r' + 8"
  by (auto simp: read_i64_def andthen_eq_Inr dest: read_u64_length)

lemma read_words_length: "read_words n r = Inr (ws, r') \<Longrightarrow> length ws = n \<and> length r = length r' + 8 * n"
proof (induction n arbitrary: r ws)
  case (Suc n)
  then obtain w r1 ws' where "read_u64 r = Inr (w, r1)" "read_words n r1 = Inr (ws', r')" "ws = w # ws'"
    by (auto simp: andthen_eq_Inr)
  then show ?case using Suc.IH [of r1 ws'] read_u64_length [of r w r1] by simp
qed simp

lemma read_slice_length:
  "read_uint64_slice r = Inr (ws, r') \<Longrightarrow> length r = length r' + 8 + 8 * length ws"
  by (auto simp: read_uint64_slice_def andthen_eq_Inr split: if_splits dest!: read_i64_length read_words_length)

text \<open>
  The trie read from a payload takes exactly its share of the input: no declared length
  makes the reader allocate more than the bytes that are there.
\<close>

theorem trie_fits_input:
  assumes "read_trie_raw r = Inr (t, r')"
  shows "length r = length r' + 25 + 8 * length (leaves t) + 8 * length (label_bitmap t) + length (labels t)"
  using assms
  by (auto simp: read_trie_raw_def read_version_def read_byte_def andthen_eq_Inr split: if_splits list.splits
      dest!: read_slice_length read_i64_length)

text \<open>A slice whose declared count fits is read completely: the element loop cannot run short.\<close>

lemma read_words_ok: "8 * n \<le> length r \<Longrightarrow> \<exists>ws r'. read_words n r = Inr (ws, r')"
proof (induction n arbitrary: r)
  case (Suc n)
  then obtain w r1 where w: "read_u64 r = Inr (w, r1)" by (auto simp: read_u64_def)
  then have "8 * n \<le> length r1" using Suc.prems read_u64_length [OF w] by simp
  then show ?case using Suc.IH [of r1] w by (auto simp: andthen_eq_Inr)
qed auto

lemma slice_fits_or_refused:
  "read_i64 r = Inr (v, r') \<Longrightarrow>
   (\<exists>ws r''. read_uint64_slice r = Inr (ws, r'')) \<longleftrightarrow> 0 \<le> v \<and> 8 * v \<le> int (length r')"
proof -
  assume r: "read_i64 r = Inr (v, r')"
  have "int (length r') div 8 < v \<longleftrightarrow> int (length r') < 8 * v" by auto
  moreover have "0 \<le> v \<Longrightarrow> 8 * v \<le> int (length r') \<Longrightarrow> \<exists>ws r''. read_words (nat v) r' = Inr (ws, r'')"
    by (intro read_words_ok) linarith
  ultimately show ?thesis using r by (auto simp: read_uint64_slice_def not_less)
qed

subsection \<open>Reading back what an exporter writes\<close>

fun put_be :: "nat \<Rightarrow> nat \<Rightarrow> bytes" where
  "put_be 0 n = []"
| "put_be (Suc k) n = put_be k (n div 256) @ [char_of (n mod 256)]"

lemma length_put_be [simp]: "length (put_be k n) = k"
  by (induction k arbitrary: n) auto

lemma be_nat_append: "be_nat (s @ [c]) = 256 * be_nat s + of_char c"
  by (simp add: be_nat_def)

lemma be_nat_put_be: "n < 256 ^ k \<Longrightarrow> be_nat (put_be k n) = n"
proof (induction k arbitrary: n)
  case (Suc k)
  then have "n div 256 < 256 ^ k" by (simp add: less_mult_imp_div_less mult.commute)
  then have "be_nat (put_be k (n div 256)) = n div 256" by (rule Suc.IH)
  then show ?case by (simp add: be_nat_append)
qed (simp add: be_nat_def)

definition put_u64 :: "64 word \<Rightarrow> bytes" where
  "put_u64 w = put_be 8 (unat w)"

lemma read_put_u64 [simp]: "read_u64 (put_u64 w @ r) = Inr (w, r)"
proof -
  have "unat w < 2 ^ 64" using unsigned_less [of w] by simp
  then have "unat w < 256 ^ 8" by simp
  then have "be_nat (put_be 8 (unat w)) = unat w" by (rule be_nat_put_be)
  then show ?thesis by (simp add: read_u64_def put_u64_def)
qed

lemma length_put_u64 [simp]: "length (put_u64 w) = 8"
  by (simp add: put_u64_def)

definition put_i64 :: "nat \<Rightarrow> bytes" where
  "put_i64 n = put_u64 (word_of_nat n)"

lemma read_put_i64 [simp]: "n < 2 ^ 63 \<Longrightarrow> read_i64 (put_i64 n @ r) = Inr (int n, r)"
proof -
  assume n: "n < (2 :: nat) ^ 63"
  have "unat (word_of_nat n :: 64 word) = n" using n by (intro of_nat_inverse [OF refl]) simp
  then have "sint (word_of_nat n :: 64 word) = int n"
    using n by (simp only: sint_uint uint_nat) (simp add: signed_take_bit_int_eq_self)
  then show ?thesis by (simp add: read_i64_def put_i64_def)
qed

lemma length_put_i64 [simp]: "length (put_i64 n) = 8"
  by (simp add: put_i64_def)

definition put_words :: "64 word list \<Rightarrow> bytes" where
  "put_words ws = concat (map put_u64 ws)"

lemma put_words_simps [simp]: "put_words [] = []" "put_words (w # ws) = put_u64 w @ put_words ws"
  by (simp_all add: put_words_def)

lemma length_put_words [simp]: "length (put_words ws) = 8 * length ws"
  by (induction ws) auto

lemma read_put_words [simp]: "read_words (length ws) (put_words ws @ r) = Inr (ws, r)"
  by (induction ws) auto

definition put_slice :: "64 word list \<Rightarrow> bytes" where
  "put_slice ws = put_i64 (length ws) @ put_words ws"

lemma read_put_slice [simp]:
  "length ws < 2 ^ 63 \<Longrightarrow> read_uint64_slice (put_slice ws @ r) = Inr (ws, r)"
  by (simp add: read_uint64_slice_def put_slice_def)

definition put_trie :: "mrs_trie \<Rightarrow> bytes" where
  "put_trie t = CHR 0x01 # put_slice (leaves t) @ put_slice (label_bitmap t)
     @ put_i64 (length (labels t)) @ labels t"

definition small_trie :: "mrs_trie \<Rightarrow> bool" where
  "small_trie t \<longleftrightarrow> length (leaves t) < 2 ^ 60 \<and> length (label_bitmap t) < 2 ^ 60 \<and> length (labels t) < 2 ^ 60"

lemma read_put_trie: "small_trie t \<Longrightarrow> read_trie_raw (put_trie t @ r) = Inr (t, r)"
  by (simp add: read_trie_raw_def put_trie_def read_version_def read_byte_def small_trie_def)

definition put_domain_file :: "nat \<Rightarrow> bytes \<Rightarrow> mrs_trie \<Rightarrow> bytes" where
  "put_domain_file count extra t =
     mrs_magic @ CHR 0x00 # put_i64 count @ put_i64 (length extra) @ extra @ put_trie t"

lemma put_domain_file_magic:
  "take 4 (put_domain_file count extra t) = mrs_magic"
  "drop 4 (put_domain_file count extra t) =
     CHR 0x00 # put_i64 count @ put_i64 (length extra) @ extra @ put_trie t"
  "4 \<le> length (put_domain_file count extra t)"
  by (simp_all add: put_domain_file_def mrs_magic_def)

lemma read_put_header:
  assumes "count < 2 ^ 63" and "length extra < 2 ^ 63"
  shows "read_native_header (put_domain_file count extra t) = Inr (CHR 0x00, int count, put_trie t)"
  using assms put_domain_file_magic [of count extra t]
  by (simp add: read_native_header_def read_byte_def skip_extra_def)

lemma decode_domain_file: "decode_mrs_payload zstd gunzip (put_domain_file count extra t) =
    Inr (put_domain_file count extra t, [])"
  by (simp add: decode_mrs_payload_def put_domain_file_def mrs_magic_def)

text \<open>
  C11: A domain file written from a trie is parsed into the numbered suffix rules of the
  names of the trie, sorted if asked, and opened as the domain set of the same trie; the
  extra block and the count do not matter.
\<close>

theorem domain_file_round_trip:
  assumes "small_trie t" and "length extra < 2 ^ 63" and "trie_domains t = Inr ds" and "length ds < 2 ^ 63"
  shows "parse_mrs_with_options zstd gunzip lo up name (put_domain_file (length ds) extra t) so =
      Inr (mrs_provider name ''domain'' (number_rules (\<lambda>_. Domain_Suffix) (\<lambda>d. trim_prefix d ''+.'') name
        (if so then sort ds else ds)))
    \<and> parse_mrs_domain_set zstd gunzip name (put_domain_file (length ds) extra t) = Inr (make_domain_set name t)"
proof
  note raw = read_put_trie [OF assms(1), of "[]", simplified]
  have empty: "pv_rules (mrs_provider name ''domain'' (number_rules ty g name vs)) = [] \<longleftrightarrow> vs = []" for ty g vs
    by (simp add: mrs_provider_def number_rules_def)
  have "sort ds = [] \<longleftrightarrow> ds = []" by (metis length_0_conv length_sort)
  then show "parse_mrs_with_options zstd gunzip lo up name (put_domain_file (length ds) extra t) so =
      Inr (mrs_provider name ''domain'' (number_rules (\<lambda>_. Domain_Suffix) (\<lambda>d. trim_prefix d ''+.'') name
        (if so then sort ds else ds)))"
    using put_domain_file_magic [of "length ds" extra t] read_put_header [OF assms(4,2), of t] raw assms(3) empty
    by (simp add: parse_mrs_with_options_def decode_domain_file parse_native_mrs_def read_mrs_domains_def)
  show "parse_mrs_domain_set zstd gunzip name (put_domain_file (length ds) extra t) = Inr (make_domain_set name t)"
    using put_domain_file_magic [of "length ds" extra t] raw assms(2,4)
    by (simp add: parse_mrs_domain_set_def decode_domain_file read_byte_def skip_extra_def)
qed

lemma plus_trie_small: "small_trie (plus_trie [10])"
  by (simp add: small_trie_def plus_trie_def)

theorem domain_file_round_trip_witness:
  "\<exists>p. parse_mrs_with_options Inr (\<lambda>_. Inr) id id ''p'' (put_domain_file 2 ''x'' (plus_trie [10])) True = Inr p
     \<and> map rl_value (pv_rules p) = [''a'', ''a'']"
proof -
  have "sort [''a'', ''+.a''] = [''+.a'', ''a'']" by code_simp
  moreover have "trim_prefix ''+.a'' ''+.'' = ''a''" "trim_prefix ''a'' ''+.'' = ''a''" by code_simp+
  moreover have "length [''a'', ''+.a''] = 2" by simp
  ultimately show ?thesis
    using domain_file_round_trip [OF plus_trie_small _ plus_trie_names(2), of "''x''" Inr "\<lambda>_. Inr" id id "''p''" True]
    unfolding \<open>length [''a'', ''+.a''] = 2\<close>
    by (simp add: number_rules_values mrs_provider_def)
qed

theorem stream_agrees_with_parse_witness:
  "\<exists>p. parse_native_mrs ''p'' (put_domain_file 2 [] (plus_trie [10])) False = Inr p
     \<and> stream_native_mrs (Some (\<lambda>b s. (s @ [b], False))) (Some (\<lambda>b s. (s @ [b], False)))
         (put_domain_file 2 [] (plus_trie [10])) [] = ([''a'', ''a''], None)"
proof -
  have h: "read_native_header (put_domain_file 2 [] (plus_trie [10])) = Inr (CHR 0x00, 2, put_trie (plus_trie [10]))"
    using read_put_header [of 2 "[]" "plus_trie [10]"] by simp
  then obtain p where p: "parse_native_mrs ''p'' (put_domain_file 2 [] (plus_trie [10])) False = Inr p"
      "map rl_value (pv_rules p) = map (\<lambda>d. trim_prefix d ''+.'') [''a'', ''+.a'']"
    using read_put_trie [OF plus_trie_small, of "[]"] plus_trie_names(2)
    by (simp add: parse_native_mrs_def read_mrs_domains_def mrs_provider_def number_rules_values)
      (simp add: number_rules_def)
  moreover have "trim_prefix ''+.a'' ''+.'' = ''a''" "trim_prefix ''a'' ''+.'' = ''a''" by code_simp+
  ultimately show ?thesis
    using stream_agrees_with_parse [OF p(1), of "\<lambda>b s. (s @ [b], False)" "[]"]
    by (simp add: stream_result_def)
qed

theorem trie_fits_input_witness:
  "length (put_trie (plus_trie [10])) = 25 + 8 * 1 + 8 * 1 + 3"
  using trie_fits_input [OF read_put_trie [OF plus_trie_small, of "[]"]] by (simp add: plus_trie_def)

end
