(* ===== verification/Guard_State.thy ===== *)
theory Guard_State
  imports Complex_Main Prelude Go_Sort
begin

section \<open>The state of the proxy guard\<close>

text \<open>
  \<open>internal/proxyguard/state.go\<close> and the pure functions of
  \<open>internal/manager/proxy_guard.go\<close>: the record kept per node and per group, the latency
  window, the ranking of nodes, the choice of last resorts and the routing signature.

  A map from names to pointers is an association list; a missing key and a nil pointer are
  both \<^term>\<open>None\<close> of \<^const>\<open>map_of\<close>, as everywhere in the code. The order of the list
  stands for the order in which Go's \<open>range\<close> meets the keys. A \<open>time.Time\<close> is the
  number of nanoseconds, \<^term>\<open>None\<close> the zero time; rates are \<^typ>\<open>rat\<close> instead of
  \<open>float64\<close>.
\<close>

type_synonym time = int

datatype health = Healthy | Suspect | Quarantined

record node =
  nd_name :: string
  nd_provider :: string
  nd_kind :: string
  nd_health :: health
  nd_reason :: string
  nd_latencies :: "int list"
  nd_last_delay :: int
  nd_jitter :: int
  nd_last_down :: rat
  nd_last_probe :: "time option"
  nd_bad_streak :: nat
  nd_recovery_streak :: nat
  nd_quarantined_at :: "time option"
  nd_retry_after :: "time option"
  nd_last_seen :: "time option"

record group =
  gr_members :: "string list"
  gr_last_resorts :: "string list"

record guard_state =
  gs_last_run :: "time option"
  gs_nodes :: "(string \<times> node) list"
  gs_groups :: "(string \<times> group) list"

definition new_guard_state :: guard_state where
  "new_guard_state = \<lparr>gs_last_run = None, gs_nodes = [], gs_groups = []\<rparr>"

definition new_node :: "string \<Rightarrow> node" where
  "new_node name =
     \<lparr>nd_name = name, nd_provider = [], nd_kind = [], nd_health = Healthy, nd_reason = [],
      nd_latencies = [], nd_last_delay = 0, nd_jitter = 0, nd_last_down = 0, nd_last_probe = None,
      nd_bad_streak = 0, nd_recovery_streak = 0, nd_quarantined_at = None, nd_retry_after = None,
      nd_last_seen = None\<rparr>"

definition second :: time where "second = 1000000000"
definition minute :: time where "minute = 60 * second"
definition hour :: time where "hour = 60 * minute"

definition quarantined :: "(string \<times> node) list \<Rightarrow> string \<Rightarrow> bool" where
  "quarantined ns name \<longleftrightarrow> (case map_of ns name of None \<Rightarrow> False | Some n \<Rightarrow> nd_health n = Quarantined)"

subsection \<open>Latency samples\<close>

definition last_n :: "nat \<Rightarrow> 'a list \<Rightarrow> 'a list" where
  "last_n k xs = drop (length xs - k) xs"

definition latency_unstable :: "int list \<Rightarrow> int \<Rightarrow> bool" where
  "latency_unstable samples max_jitter =
     (if length samples < 5 then False
      else (let window = last_n 5 samples;
                failures = length (filter (\<lambda>d. d \<le> 0) window);
                good = sort (filter (\<lambda>d. 0 < d) window)
            in if 2 \<le> failures then True
               else if length good < 3 then False
               else (let lo = hd good; hi = last good; median = good ! (length good div 2)
                     in max_jitter \<le> hi - lo \<and> 2 * median \<le> hi)))"

definition latency_jitter :: "int list \<Rightarrow> int" where
  "latency_jitter samples =
     (let good = sort (filter (\<lambda>d. 0 < d) samples)
      in if length good < 2 then 0 else last good - hd good)"

subsection \<open>Ranking\<close>

text \<open>\<open>int64((kbps + 500) / 1000)\<close>, of a positive rate.\<close>

definition guard_speed_tier :: "rat \<Rightarrow> int" where
  "guard_speed_tier kbps = (if kbps \<le> 0 then 0 else \<lfloor>(kbps + 500) / 1000\<rfloor>)"

definition max_int :: int where "max_int = 2 ^ 63 - 1"

definition guard_latency_rank :: "node \<Rightarrow> int \<times> int" where
  "guard_latency_rank n =
     (if nd_last_delay n \<le> 0 then (max_int, max_int)
      else (let samples = last_n 5 (nd_latencies n);
                failures = length (filter (\<lambda>d. d \<le> 0) samples)
            in if 2 \<le> failures then (max_int, max_int) else (nd_jitter n, nd_last_delay n)))"

definition guard_node_better :: "node \<Rightarrow> node \<Rightarrow> bool" where
  "guard_node_better a b =
     (let ta = guard_speed_tier (nd_last_down a); tb = guard_speed_tier (nd_last_down b);
          (ja, da) = guard_latency_rank a; (jb, db) = guard_latency_rank b
      in if ta \<noteq> tb then tb < ta
         else if ja \<noteq> jb then ja < jb
         else if da \<noteq> db then da < db
         else nd_last_down b < nd_last_down a)"

text \<open>The same on the pointers the map gives: a nil is never better, and worse than any node.\<close>

definition better_opt :: "node option \<Rightarrow> node option \<Rightarrow> bool" where
  "better_opt a b =
     (case a of None \<Rightarrow> False
      | Some x \<Rightarrow> (case b of None \<Rightarrow> True | Some y \<Rightarrow> guard_node_better x y))"

definition resort_less :: "(string \<times> node) list \<Rightarrow> string \<Rightarrow> string \<Rightarrow> bool" where
  "resort_less ns x y =
     (if better_opt (map_of ns x) (map_of ns y) then True
      else if better_opt (map_of ns y) (map_of ns x) then False
      else x < y)"

subsection \<open>Last resorts\<close>

definition group_last_resorts :: "(string \<times> node) list \<Rightarrow> int \<Rightarrow> group \<Rightarrow> group" where
  "group_last_resorts ns min_members g =
     (let bad = filter (quarantined ns) (gr_members g);
          available = int (length (filter (\<lambda>m. \<not> quarantined ns m) (gr_members g)));
          needed = min min_members (int (length (gr_members g))) - available
      in if needed \<le> 0 then g \<lparr>gr_last_resorts := []\<rparr>
         else (let k = min (nat needed) (length bad)
               in g \<lparr>gr_last_resorts := take k (sort_by (resort_less ns) bad)\<rparr>))"

definition recompute_last_resorts :: "int \<Rightarrow> guard_state \<Rightarrow> guard_state" where
  "recompute_last_resorts min_members s =
     (let floor = (if min_members < 1 then 3 else min_members)
      in s \<lparr>gs_groups := map (\<lambda>(k, g). (k, group_last_resorts (gs_nodes s) floor g)) (gs_groups s)\<rparr>)"

subsection \<open>The routing signature and the overlay\<close>

text \<open>The value that is marshalled: quarantined names, and the last resorts per group.\<close>

definition routing_signature :: "guard_state \<Rightarrow> string list \<times> (string \<times> string list) list" where
  "routing_signature s =
     (sort (map fst (filter (\<lambda>(k, n). nd_health n = Quarantined) (gs_nodes s))),
      sort_by (\<lambda>a b. fst a < fst b)
        (map (\<lambda>(k, g). (k, sort (gr_last_resorts g)))
          (filter (\<lambda>(k, g). gr_last_resorts g \<noteq> []) (gs_groups s))))"

text \<open>
  \<open>applyProxyGuardOverlay\<close> (\<open>internal/generator/mihomo_guard.go\<close>): the members of a managed
  group it takes out, and the explicit members that stay.
\<close>

definition overlay_excluded :: "guard_state \<Rightarrow> string \<Rightarrow> string list" where
  "overlay_excluded s name =
     (case map_of (gs_groups s) name of
        None \<Rightarrow> []
      | Some g \<Rightarrow>
          filter (\<lambda>m. m \<notin> set (gr_last_resorts g) \<and> quarantined (gs_nodes s) m) (gr_members g))"

definition overlay_proxies :: "guard_state \<Rightarrow> string \<Rightarrow> string list \<Rightarrow> string list" where
  "overlay_proxies s name proxies = filter (\<lambda>p. p \<notin> set (overlay_excluded s name)) proxies"

end
