(* ===== verification/Guard_Tick.thy ===== *)
theory Guard_Tick
  imports Guard_State
begin

section \<open>One run of the proxy guard\<close>

text \<open>
  \<open>ProxyGuardRun\<close> of \<open>internal/manager/proxy_guard.go\<close>, phase by phase in the order of the
  code. The outside world of a run is a record: the proxies and the delay sweep the mihomo
  controller reports, the chains of the open connections, and the result of the \<open>k\<close>-th
  download of the run through a node. The closures \<open>probe\<close> and \<open>urgentProbe\<close> become
  functions on the state of the run. \<open>cand\<close> is the hash that names the candidate group.
\<close>

record proxy =
  px_all :: "string list"
  px_now :: string
  px_type :: string
  px_provider :: string
  px_delay :: int
  px_history :: "int list"

record probe_result =
  pr_ok :: bool
  pr_kbps :: rat
  pr_bytes :: int
  pr_error :: string

record guard_config =
  gc_enabled :: bool
  gc_groups :: "string list"
  gc_min_members :: int
  gc_min_down :: int
  gc_max_jitter :: int
  gc_active_interval :: int
  gc_fleet_interval :: int
  gc_quarantine :: int

record guard_env =
  ge_now :: time
  ge_proxies :: "(string \<times> proxy) list"
  ge_delays :: "(string \<times> int) list option"
  ge_chains :: "string list list option"
  ge_download :: "nat \<Rightarrow> string \<Rightarrow> probe_result"

subsection \<open>Groups, nodes, latencies\<close>

definition candidate_prefix :: string where
  "candidate_prefix = ''PureWRTGuardCandidate_''"

definition guard_eligible_member :: "(string \<times> proxy) list \<Rightarrow> string \<Rightarrow> bool" where
  "guard_eligible_member proxies name =
     (if name \<in> {''DIRECT'', ''REJECT'', ''REJECT-DROP'', ''PASS'', ''COMPATIBLE'', ''GLOBAL''} then False
      else if has_prefix name candidate_prefix then False
      else (case map_of proxies name of None \<Rightarrow> True | Some p \<Rightarrow> px_all p = []))"

fun guard_groups ::
    "(string \<Rightarrow> string) \<Rightarrow> (string \<times> proxy) list \<Rightarrow> (string \<times> group) list \<Rightarrow> string list
     \<Rightarrow> (string \<times> group) list" where
  "guard_groups cand proxies old [] = []"
| "guard_groups cand proxies old (name # names) =
     (case map_of proxies (cand name) of
        None \<Rightarrow> guard_groups cand proxies old names
      | Some shadow \<Rightarrow>
          (name, \<lparr>gr_members = filter (guard_eligible_member proxies) (px_all shadow),
                  gr_last_resorts = (case map_of old name of None \<Rightarrow> [] | Some g \<Rightarrow> gr_last_resorts g)\<rparr>)
          # guard_groups cand proxies old names)"

definition group_members :: "(string \<times> group) list \<Rightarrow> string list" where
  "group_members groups = remdups (concat (map (\<lambda>(k, g). gr_members g) groups))"

definition update_guard_groups ::
    "(string \<Rightarrow> string) \<Rightarrow> guard_config \<Rightarrow> (string \<times> proxy) list \<Rightarrow> guard_state
     \<Rightarrow> guard_state \<times> string list" where
  "update_guard_groups cand c proxies s =
     (let groups = guard_groups cand proxies (gs_groups s) (gc_groups c)
      in (s \<lparr>gs_groups := groups\<rparr>, group_members groups))"

definition guard_node_kind :: "(string \<Rightarrow> string) \<Rightarrow> string \<Rightarrow> string \<Rightarrow> string" where
  "guard_node_kind lo name ty =
     (if has_prefix name ''vpn_'' then ''vpn''
      else if has_prefix name ''friend_'' then ''friend''
      else if ty \<noteq> [] then to_lower lo ty else ''proxy'')"

definition put_node :: "string \<Rightarrow> node \<Rightarrow> (string \<times> node) list \<Rightarrow> (string \<times> node) list" where
  "put_node name n ns =
     (if map_of ns name = None then ns @ [(name, n)]
      else map (\<lambda>(k, x). if k = name then (k, n) else (k, x)) ns)"

definition seen_node ::
    "(string \<Rightarrow> string) \<Rightarrow> (string \<times> proxy) list \<Rightarrow> time \<Rightarrow> string \<Rightarrow> node option \<Rightarrow> node" where
  "seen_node lo proxies now name old =
     (let n = (case old of None \<Rightarrow> new_node name | Some n \<Rightarrow> n);
          (ty, prov) = (case map_of proxies name of None \<Rightarrow> ([], []) | Some p \<Rightarrow> (px_type p, px_provider p))
      in n \<lparr>nd_provider := prov, nd_kind := guard_node_kind lo name ty, nd_last_seen := Some now\<rparr>)"

definition update_guard_nodes ::
    "(string \<Rightarrow> string) \<Rightarrow> (string \<times> proxy) list \<Rightarrow> string list \<Rightarrow> time
     \<Rightarrow> (string \<times> node) list \<Rightarrow> (string \<times> node) list" where
  "update_guard_nodes lo proxies members now ns =
     foldl (\<lambda>ns name. put_node name (seen_node lo proxies now name (map_of ns name)) ns)
       (filter (\<lambda>(k, n). k \<in> set members) ns) members"

definition proxy_delay_for :: "(string \<times> proxy) list \<Rightarrow> string \<Rightarrow> int" where
  "proxy_delay_for proxies name =
     (case map_of proxies name of
        None \<Rightarrow> 0
      | Some p \<Rightarrow> if 0 < px_delay p then px_delay p
                  else if px_history p \<noteq> [] then last (px_history p) else 0)"

definition probed_before :: "time \<Rightarrow> time \<Rightarrow> node \<Rightarrow> bool" where
  "probed_before now d n \<longleftrightarrow> (case nd_last_probe n of None \<Rightarrow> True | Some t \<Rightarrow> d < now - t)"

definition latency_reason :: "node \<Rightarrow> string" where
  "latency_reason n = ''unstable latency (jitter '' @ itoa (nd_jitter n) @ '' ms)''"

definition latency_step :: "int \<Rightarrow> time \<Rightarrow> int \<Rightarrow> node \<Rightarrow> node" where
  "latency_step max_jitter now delay n =
     (let window = last_n 5 (nd_latencies n @ [delay]);
          m = n \<lparr>nd_last_delay := delay, nd_latencies := window, nd_jitter := latency_jitter window\<rparr>
      in if nd_health m = Quarantined then m
         else if latency_unstable window max_jitter then
           m \<lparr>nd_bad_streak := nd_bad_streak m + 1, nd_health := Suspect,
              nd_reason := latency_reason m\<rparr>
         else if length window \<ge> 5 \<and> probed_before now minute m then
           m \<lparr>nd_bad_streak := 0, nd_health := Healthy, nd_reason := []\<rparr>
         else m)"

definition update_guard_latency ::
    "(string \<times> proxy) list \<Rightarrow> string list \<Rightarrow> (string \<times> int) list \<Rightarrow> int \<Rightarrow> time
     \<Rightarrow> (string \<times> node) list \<Rightarrow> (string \<times> node) list" where
  "update_guard_latency proxies members delays max_jitter now ns =
     map (\<lambda>(k, n).
       if k \<in> set members then
         (k, latency_step max_jitter now
               (case map_of delays k of Some d \<Rightarrow> d | None \<Rightarrow> proxy_delay_for proxies k) n)
       else (k, n)) ns"

definition guard_active_nodes ::
    "(string \<times> proxy) list \<Rightarrow> (string \<times> group) list \<Rightarrow> string list list option \<Rightarrow> string list" where
  "guard_active_nodes proxies groups conns =
     sort (remdups
       (concat (map (\<lambda>(k, g).
          (case map_of proxies k of
             Some p \<Rightarrow> if px_now p \<in> set (gr_members g) then [px_now p] else []
           | None \<Rightarrow> [])
          @ (case conns of
               None \<Rightarrow> []
             | Some cs \<Rightarrow> concat (map (\<lambda>ch. filter (\<lambda>m. m \<in> set ch) (gr_members g)) cs))) groups)))"

subsection \<open>Probes\<close>

record transition =
  tr_node :: string
  tr_from :: health
  tr_to :: health
  tr_reason :: string

text \<open>The state of a run: the guard state, the report's counters, the probed set, the urgent limit.\<close>

record run =
  rn_nodes :: "(string \<times> node) list"
  rn_groups :: "(string \<times> group) list"
  rn_probes :: nat
  rn_bytes :: int
  rn_probed :: "string list"
  rn_limit :: nat
  rn_transitions :: "transition list"

definition max_probes :: nat where "max_probes = 3"

definition rolling_due :: "time \<Rightarrow> time \<Rightarrow> string list \<Rightarrow> string \<times> node \<Rightarrow> bool" where
  "rolling_due now interval already kn \<longleftrightarrow>
     \<not> (nd_health (snd kn) = Quarantined \<or> fst kn \<in> set already)
     \<and> (case nd_last_probe (snd kn) of None \<Rightarrow> True | Some t \<Rightarrow> \<not> now - t < interval)"

definition rolling_less :: "string \<times> node \<Rightarrow> string \<times> node \<Rightarrow> bool" where
  "rolling_less a b =
     (case (nd_last_probe (snd a), nd_last_probe (snd b)) of
        (None, Some _) \<Rightarrow> True
      | (Some _, None) \<Rightarrow> False
      | (Some t, Some u) \<Rightarrow> if t \<noteq> u then t < u else fst a < fst b
      | (None, None) \<Rightarrow> fst a < fst b)"

definition rolling_probe_candidates ::
    "(string \<times> node) list \<Rightarrow> time \<Rightarrow> time \<Rightarrow> string list \<Rightarrow> string list" where
  "rolling_probe_candidates ns now interval already =
     map fst (sort_by rolling_less (filter (rolling_due now interval already) ns))"

definition fleet_interval :: "guard_config \<Rightarrow> time" where
  "fleet_interval c =
     (let d = gc_fleet_interval c * second in if d < 5 * minute then 6 * hour else d)"

definition active_interval :: "guard_config \<Rightarrow> time" where
  "active_interval c =
     (let d = gc_active_interval c * second in if d < minute then 30 * minute else d)"

definition probe :: "guard_env \<Rightarrow> string \<Rightarrow> run \<Rightarrow> probe_result option \<times> run" where
  "probe e name r =
     (if rn_probes r \<ge> max_probes then (None, r)
      else (let res = ge_download e (rn_probes r) name
            in (Some res, r \<lparr>rn_probed := name # rn_probed r, rn_probes := rn_probes r + 1,
                             rn_bytes := rn_bytes r + pr_bytes res\<rparr>)))"

definition urgent_probe ::
    "guard_config \<Rightarrow> guard_env \<Rightarrow> string \<Rightarrow> run \<Rightarrow> probe_result option \<times> run" where
  "urgent_probe c e name r =
     (let r' = (if rn_limit r < max_probes
                   \<and> rolling_probe_candidates (rn_nodes r) (ge_now e) (fleet_interval c) (rn_probed r) = []
                then r \<lparr>rn_limit := max_probes\<rparr> else r)
      in if rn_probes r' \<ge> rn_limit r' then (None, r') else probe e name r')"

text \<open>\<open>%.0f\<close>: the nearest integer, ties to even.\<close>

definition round_even :: "rat \<Rightarrow> int" where
  "round_even x =
     (let f = \<lfloor>x\<rfloor>; d = x - of_int f
      in if d < 1 / 2 then f else if 1 / 2 < d then f + 1 else if even f then f else f + 1)"

definition passes :: "guard_config \<Rightarrow> probe_result \<Rightarrow> bool" where
  "passes c res \<longleftrightarrow> pr_ok res \<and> of_int (gc_min_down c) \<le> pr_kbps res"

definition speed_reason :: "guard_config \<Rightarrow> probe_result \<Rightarrow> string" where
  "speed_reason c res =
     (if \<not> pr_ok res then
        ''download probe failed'' @ (if pr_error res \<noteq> [] then '': '' @ pr_error res else [])
      else ''download '' @ itoa (round_even (pr_kbps res)) @ '' kbps below ''
           @ itoa (gc_min_down c) @ '' kbps'')"

definition apply_speed_result :: "guard_config \<Rightarrow> time \<Rightarrow> probe_result \<Rightarrow> node \<Rightarrow> node" where
  "apply_speed_result c now res n =
     (let m = n \<lparr>nd_last_probe := Some now, nd_last_down := pr_kbps res\<rparr>
      in if \<not> passes c res then
           m \<lparr>nd_bad_streak := nd_bad_streak m + 1, nd_health := Suspect,
              nd_reason := speed_reason c res\<rparr>
         else if \<not> latency_unstable (nd_latencies m) (gc_max_jitter c) then
           m \<lparr>nd_bad_streak := 0, nd_health := Healthy, nd_reason := []\<rparr>
         else m)"

definition set_node :: "string \<Rightarrow> node \<Rightarrow> run \<Rightarrow> run" where
  "set_node name n r = r \<lparr>rn_nodes := put_node name n (rn_nodes r)\<rparr>"

subsection \<open>The phases\<close>

definition recovery_due :: "time \<Rightarrow> (string \<times> node) list \<Rightarrow> string \<Rightarrow> bool" where
  "recovery_due now ns name \<longleftrightarrow>
     (case map_of ns name of
        None \<Rightarrow> False
      | Some n \<Rightarrow> nd_health n = Quarantined
          \<and> \<not> (case nd_retry_after n of None \<Rightarrow> False | Some t \<Rightarrow> now < t))"

definition recover_node ::
    "guard_config \<Rightarrow> time \<Rightarrow> probe_result \<Rightarrow> node \<Rightarrow> node \<times> bool" where
  "recover_node c now res n0 =
     (let n = n0 \<lparr>nd_last_probe := Some now, nd_last_down := pr_kbps res\<rparr>;
          later = Some (now + gc_quarantine c * second)
      in if passes c res \<and> \<not> latency_unstable (nd_latencies n) (gc_max_jitter c) then
           (if nd_recovery_streak n + 1 \<ge> 2 then
              (n \<lparr>nd_health := Healthy, nd_reason := [], nd_bad_streak := 0,
                  nd_recovery_streak := 0, nd_retry_after := None\<rparr>, True)
            else (n \<lparr>nd_recovery_streak := nd_recovery_streak n + 1, nd_retry_after := later\<rparr>, False))
         else (n \<lparr>nd_recovery_streak := 0, nd_retry_after := later\<rparr>, False))"

definition sorted_node_names :: "(string \<times> node) list \<Rightarrow> string list" where
  "sorted_node_names ns = sort (map fst ns)"

definition recovery_phase :: "guard_config \<Rightarrow> guard_env \<Rightarrow> run \<Rightarrow> run" where
  "recovery_phase c e r =
     (case find (recovery_due (ge_now e) (rn_nodes r)) (sorted_node_names (rn_nodes r)) of
        None \<Rightarrow> r
      | Some name \<Rightarrow>
          (case urgent_probe c e name r of
             (None, r') \<Rightarrow> r'
           | (Some res, r') \<Rightarrow>
               (case map_of (rn_nodes r') name of
                  None \<Rightarrow> r'
                | Some n \<Rightarrow>
                    (case recover_node c (ge_now e) res n of
                       (n', recovered) \<Rightarrow>
                         (let r'' = set_node name n' r'
                          in if recovered then
                               r'' \<lparr>rn_transitions := rn_transitions r'' @
                                 [\<lparr>tr_node = name, tr_from = Quarantined, tr_to = Healthy,
                                   tr_reason = ''two clean recovery probes''\<rparr>]\<rparr>
                             else r'')))))"

definition active_skips :: "guard_config \<Rightarrow> guard_env \<Rightarrow> run \<Rightarrow> string \<Rightarrow> bool" where
  "active_skips c e r name \<longleftrightarrow>
     (case map_of (rn_nodes r) name of
        None \<Rightarrow> True
      | Some n \<Rightarrow>
          nd_health n = Quarantined
          \<or> (nd_bad_streak n = 0
             \<and> (case nd_last_probe n of None \<Rightarrow> False | Some t \<Rightarrow> ge_now e - t < active_interval c))
          \<or> name \<in> set (rn_probed r))"

fun active_phase :: "guard_config \<Rightarrow> guard_env \<Rightarrow> string list \<Rightarrow> run \<Rightarrow> run" where
  "active_phase c e [] r = r"
| "active_phase c e (name # names) r =
     (if active_skips c e r name then active_phase c e names r
      else (case urgent_probe c e name r of
          (None, r') \<Rightarrow> r'
        | (Some res, r') \<Rightarrow>
            (case map_of (rn_nodes r') name of
               None \<Rightarrow> active_phase c e names r'
             | Some n \<Rightarrow>
                 active_phase c e names
                   (set_node name (apply_speed_result c (ge_now e) res n) r'))))"

definition recently_passing :: "guard_config \<Rightarrow> time \<Rightarrow> (string \<times> node) list \<Rightarrow> string \<Rightarrow> bool" where
  "recently_passing c now ns name \<longleftrightarrow>
     (case map_of ns name of
        None \<Rightarrow> False
      | Some n \<Rightarrow> nd_health n \<noteq> Quarantined
          \<and> (case nd_last_probe n of None \<Rightarrow> False | Some t \<Rightarrow> now - t \<le> hour)
          \<and> of_int (gc_min_down c) \<le> nd_last_down n)"

definition alternatives :: "(string \<times> group) list \<Rightarrow> string \<Rightarrow> string list" where
  "alternatives groups bad =
     concat (map (\<lambda>(k, g). if bad \<in> set (gr_members g) then filter (\<lambda>m. m \<noteq> bad) (gr_members g) else [])
       groups)"

definition passing_alternative :: "guard_config \<Rightarrow> time \<Rightarrow> run \<Rightarrow> string \<Rightarrow> string option" where
  "passing_alternative c now r bad =
     find (recently_passing c now (rn_nodes r)) (alternatives (rn_groups r) bad)"

definition delay_less :: "(string \<times> node) list \<Rightarrow> string \<Rightarrow> string \<Rightarrow> bool" where
  "delay_less ns x y =
     (let d = (\<lambda>m. case map_of ns m of None \<Rightarrow> 0 | Some n \<Rightarrow> nd_last_delay n);
          w = (\<lambda>v. if v = 0 then 2 ^ 30 else v)
      in w (d x) < (w (d y) :: int))"

definition probe_candidates :: "run \<Rightarrow> string \<Rightarrow> string list" where
  "probe_candidates r bad =
     sort_by (delay_less (rn_nodes r))
       (remdups (filter (\<lambda>m. case map_of (rn_nodes r) m of None \<Rightarrow> False | Some n \<Rightarrow> nd_health n \<noteq> Quarantined)
          (alternatives (rn_groups r) bad)))"

fun probe_alternatives ::
    "guard_config \<Rightarrow> guard_env \<Rightarrow> string list \<Rightarrow> run \<Rightarrow> string option \<times> run" where
  "probe_alternatives c e [] r = (None, r)"
| "probe_alternatives c e (name # names) r =
     (case urgent_probe c e name r of
        (None, r') \<Rightarrow> (None, r')
      | (Some res, r') \<Rightarrow>
          (case map_of (rn_nodes r') name of
             None \<Rightarrow> probe_alternatives c e names r'
           | Some n \<Rightarrow>
               (let r'' = set_node name (apply_speed_result c (ge_now e) res n) r'
                in if passes c res then (Some name, r'') else probe_alternatives c e names r'')))"

definition probe_alternative :: "guard_config \<Rightarrow> guard_env \<Rightarrow> run \<Rightarrow> string \<Rightarrow> string option \<times> run" where
  "probe_alternative c e r bad = probe_alternatives c e (probe_candidates r bad) r"

definition find_alternative :: "guard_config \<Rightarrow> guard_env \<Rightarrow> run \<Rightarrow> string \<Rightarrow> string option \<times> run" where
  "find_alternative c e r bad =
     (case passing_alternative c (ge_now e) r bad of
        Some a \<Rightarrow> (Some a, r)
      | None \<Rightarrow> probe_alternative c e r bad)"

definition quarantine_node :: "guard_config \<Rightarrow> time \<Rightarrow> node \<Rightarrow> node" where
  "quarantine_node c now n =
     n \<lparr>nd_health := Quarantined, nd_quarantined_at := Some now,
        nd_retry_after := Some (now + gc_quarantine c * second), nd_recovery_streak := 0\<rparr>"

definition confirm_skips :: "run \<Rightarrow> string \<Rightarrow> bool" where
  "confirm_skips r name \<longleftrightarrow>
     (case map_of (rn_nodes r) name of
        None \<Rightarrow> True | Some n \<Rightarrow> nd_health n = Quarantined \<or> nd_bad_streak n < 2)"

definition confirm_node :: "guard_config \<Rightarrow> guard_env \<Rightarrow> string \<Rightarrow> run \<Rightarrow> run" where
  "confirm_node c e name r =
     (if confirm_skips r name then r
      else (case find_alternative c e r name of
          (None, r') \<Rightarrow> r'
        | (Some a, r') \<Rightarrow>
            (case map_of (rn_nodes r') name of
               None \<Rightarrow> r'
             | Some n \<Rightarrow>
                 (set_node name (quarantine_node c (ge_now e) n) r')
                   \<lparr>rn_transitions := rn_transitions r' @
                      [\<lparr>tr_node = name, tr_from = nd_health n, tr_to = Quarantined,
                        tr_reason = nd_reason n\<rparr>]\<rparr>)))"

definition confirm_phase :: "guard_config \<Rightarrow> guard_env \<Rightarrow> run \<Rightarrow> run" where
  "confirm_phase c e r = foldl (\<lambda>r name. confirm_node c e name r) r (sorted_node_names (rn_nodes r))"

fun rolling_phase :: "guard_config \<Rightarrow> guard_env \<Rightarrow> string list \<Rightarrow> run \<Rightarrow> run" where
  "rolling_phase c e [] r = r"
| "rolling_phase c e (name # names) r =
     (case probe e name r of
        (None, r') \<Rightarrow> r'
      | (Some res, r') \<Rightarrow>
          (case map_of (rn_nodes r') name of
             None \<Rightarrow> rolling_phase c e names r'
           | Some n \<Rightarrow>
               rolling_phase c e names
                 (set_node name (apply_speed_result c (ge_now e) res n) r')))"

subsection \<open>The run\<close>

definition start_run :: "guard_config \<Rightarrow> guard_env \<Rightarrow> guard_state \<Rightarrow> run" where
  "start_run c e s =
     \<lparr>rn_nodes = gs_nodes s, rn_groups = gs_groups s, rn_probes = 0, rn_bytes = 0, rn_probed = [],
      rn_limit = (if rolling_probe_candidates (gs_nodes s) (ge_now e) (fleet_interval c) [] \<noteq> []
                  then max_probes - 1 else max_probes),
      rn_transitions = []\<rparr>"

definition refresh_state ::
    "(string \<Rightarrow> string) \<Rightarrow> (string \<Rightarrow> string) \<Rightarrow> guard_config \<Rightarrow> guard_env \<Rightarrow> guard_state \<Rightarrow> guard_state" where
  "refresh_state lo cand c e s =
     (let (s1, members) = update_guard_groups cand c (ge_proxies e) s;
          nodes = update_guard_nodes lo (ge_proxies e) members (ge_now e) (gs_nodes s1)
      in s1 \<lparr>gs_nodes := (case ge_delays e of
            None \<Rightarrow> nodes
          | Some d \<Rightarrow>
              update_guard_latency (ge_proxies e) members d (gc_max_jitter c) (ge_now e) nodes)\<rparr>)"

definition probe_phases :: "guard_config \<Rightarrow> guard_env \<Rightarrow> run \<Rightarrow> run" where
  "probe_phases c e r0 =
     (let active = guard_active_nodes (ge_proxies e) (rn_groups r0) (ge_chains e);
          r1 = recovery_phase c e r0;
          r2 = active_phase c e active r1;
          r3 = confirm_phase c e r2
      in rolling_phase c e
           (rolling_probe_candidates (rn_nodes r3) (ge_now e) (fleet_interval c) (rn_probed r3)) r3)"

definition guard_tick ::
    "(string \<Rightarrow> string) \<Rightarrow> (string \<Rightarrow> string) \<Rightarrow> guard_config \<Rightarrow> guard_env \<Rightarrow> guard_state
     \<Rightarrow> guard_state \<times> run" where
  "guard_tick lo cand c e s =
     (let s1 = refresh_state lo cand c e s;
          r = probe_phases c e (start_run c e s1);
          s2 = s1 \<lparr>gs_nodes := rn_nodes r, gs_last_run := Some (ge_now e)\<rparr>
      in (recompute_last_resorts (gc_min_members c) s2, r))"

text \<open>
  \<open>ProxyGuardRun\<close> around the tick: the switch, the probe lock, the prior state (absent, corrupt
  or loaded), the controller, and what is written back. The result is the report's verdict; the
  other components are the state handed to the live configuration and the state saved.
\<close>

datatype lock_result = Lock_held | Lock_busy | Lock_failed

datatype prior_state = Absent | Corrupt | Loaded guard_state

datatype guard_error = Lock_error | Controller_error | Apply_error | Save_error

datatype verdict = Disabled | Skipped | Dry_run | Completed

record outcome =
  oc_result :: "guard_error + verdict"
  oc_applied :: "guard_state option"
  oc_saved :: "guard_state option"

definition idle :: "guard_error + verdict \<Rightarrow> outcome" where
  "idle res = \<lparr>oc_result = res, oc_applied = None, oc_saved = None\<rparr>"

definition proxy_guard_run ::
    "(string \<Rightarrow> string) \<Rightarrow> (string \<Rightarrow> string) \<Rightarrow> guard_config \<Rightarrow> bool \<Rightarrow> lock_result \<Rightarrow> prior_state
     \<Rightarrow> guard_env option \<Rightarrow> (guard_state \<Rightarrow> bool) \<Rightarrow> (guard_state \<Rightarrow> bool) \<Rightarrow> outcome" where
  "proxy_guard_run lo cand c dry lock prior env apply_ok save_ok =
     (if \<not> gc_enabled c then idle (Inr Disabled)
      else case lock of
        Lock_busy \<Rightarrow> idle (Inr Skipped)
      | Lock_failed \<Rightarrow> idle (Inl Lock_error)
      | Lock_held \<Rightarrow>
          (let s = (case prior of Loaded s \<Rightarrow> s | _ \<Rightarrow> new_guard_state);
               force = (case prior of Loaded _ \<Rightarrow> False | _ \<Rightarrow> True)
           in case env of
                None \<Rightarrow> idle (Inl Controller_error)
              | Some e \<Rightarrow>
                  (let s' = fst (guard_tick lo cand c e s)
                   in if dry then idle (Inr Dry_run)
                      else if force \<or> routing_signature s \<noteq> routing_signature s' then
                        (if \<not> apply_ok s' then idle (Inl Apply_error)
                         else if \<not> save_ok s' then
                           \<lparr>oc_result = Inl Save_error, oc_applied = Some s', oc_saved = None\<rparr>
                         else \<lparr>oc_result = Inr Completed, oc_applied = Some s', oc_saved = Some s'\<rparr>)
                      else if \<not> save_ok s' then idle (Inl Save_error)
                      else \<lparr>oc_result = Inr Completed, oc_applied = None, oc_saved = Some s'\<rparr>)))"

end
