(* ===== verification/Guard_Safety.thy ===== *)
theory Guard_Safety
  imports Guard_Tick "HOL-Library.Product_Lexorder"
begin

section \<open>What the proxy guard keeps\<close>

text \<open>
  Everything a run does after its recovery phase is a sequence of three kinds of steps
  (\<^term>\<open>guard_step\<close>); the phases of \<^const>\<open>guard_tick\<close> are shown to refine that relation,
  and the probe budget, the safety of quarantine and the invariant of the reachable states are
  read off the steps. The comparison functions are interpreted as \<^const>\<open>slice_order\<close>s.
\<close>

subsection \<open>Lookups after an update\<close>

lemma map_of_put_node [simp]: "map_of (put_node name n ns) = (map_of ns)(name \<mapsto> n)"
proof
  fix k
  have upd: "map_of (map (\<lambda>(k, x). if k = name then (k, n) else (k, x)) ns) k =
      (if k = name \<and> map_of ns name \<noteq> None then Some n else map_of ns k)"
    by (induction ns) auto
  show "map_of (put_node name n ns) k = ((map_of ns)(name \<mapsto> n)) k"
    by (cases "map_of ns name") (auto simp: put_node_def upd map_add_def split: option.splits)
qed

lemma keys_put_node [simp]:
  "map fst (put_node name n ns) = (if map_of ns name = None then map fst ns @ [name] else map fst ns)"
  by (auto simp: put_node_def map_of_eq_None_iff)

lemma distinct_put_node: "distinct (map fst ns) \<Longrightarrow> distinct (map fst (put_node name n ns))"
  by (auto simp: map_of_eq_None_iff)

lemma set_node_simps [simp]:
  "rn_nodes (set_node name n r) = put_node name n (rn_nodes r)"
  "rn_groups (set_node name n r) = rn_groups r" "rn_probes (set_node name n r) = rn_probes r"
  "rn_bytes (set_node name n r) = rn_bytes r" "rn_probed (set_node name n r) = rn_probed r"
  "rn_limit (set_node name n r) = rn_limit r" "rn_transitions (set_node name n r) = rn_transitions r"
  by (simp_all add: set_node_def)

subsection \<open>The steps of a run\<close>

definition spend :: "guard_env \<Rightarrow> string \<Rightarrow> run \<Rightarrow> run" where
  "spend e name r =
     r \<lparr>rn_probed := name # rn_probed r, rn_probes := rn_probes r + 1,
        rn_bytes := rn_bytes r + pr_bytes (ge_download e (rn_probes r) name)\<rparr>"

lemma spend_simps [simp]:
  "rn_nodes (spend e name r) = rn_nodes r" "rn_groups (spend e name r) = rn_groups r"
  "rn_probes (spend e name r) = rn_probes r + 1" "rn_probed (spend e name r) = name # rn_probed r"
  "rn_limit (spend e name r) = rn_limit r" "rn_transitions (spend e name r) = rn_transitions r"
  by (simp_all add: spend_def)

definition add_transition :: "string \<Rightarrow> health \<Rightarrow> health \<Rightarrow> string \<Rightarrow> run \<Rightarrow> run" where
  "add_transition name a b why r =
     r \<lparr>rn_transitions := rn_transitions r @
        [\<lparr>tr_node = name, tr_from = a, tr_to = b, tr_reason = why\<rparr>]\<rparr>"

lemma add_transition_simps [simp]:
  "rn_nodes (add_transition name a b w r) = rn_nodes r"
  "rn_groups (add_transition name a b w r) = rn_groups r"
  "rn_probes (add_transition name a b w r) = rn_probes r"
  "rn_probed (add_transition name a b w r) = rn_probed r"
  "rn_limit (add_transition name a b w r) = rn_limit r"
  "rn_transitions (add_transition name a b w r) = rn_transitions r @
     [\<lparr>tr_node = name, tr_from = a, tr_to = b, tr_reason = w\<rparr>]"
  by (simp_all add: add_transition_def)

text \<open>
  What a run may do after its recovery phase: release the reserved slot, measure a node that is
  not quarantined, or quarantine a node with two bad results while another member of one of its
  groups passes.
\<close>

inductive guard_step :: "guard_config \<Rightarrow> guard_env \<Rightarrow> run \<Rightarrow> run \<Rightarrow> bool" for c e where
  release: "rolling_probe_candidates (rn_nodes r) (ge_now e) (fleet_interval c) (rn_probed r) = [] \<Longrightarrow>
    guard_step c e r (r \<lparr>rn_limit := max_probes\<rparr>)"
| measure: "rn_probes r < max_probes \<Longrightarrow> map_of (rn_nodes r) name = Some n \<Longrightarrow>
    nd_health n \<noteq> Quarantined \<Longrightarrow>
    guard_step c e r (set_node name
      (apply_speed_result c (ge_now e) (ge_download e (rn_probes r) name) n) (spend e name r))"
| quarantine: "map_of (rn_nodes r) name = Some n \<Longrightarrow> nd_health n \<noteq> Quarantined \<Longrightarrow>
    2 \<le> nd_bad_streak n \<Longrightarrow> a \<in> set (alternatives (rn_groups r) name) \<Longrightarrow>
    recently_passing c (ge_now e) (rn_nodes r) a \<Longrightarrow>
    guard_step c e r (add_transition name (nd_health n) Quarantined (nd_reason n)
      (set_node name (quarantine_node c (ge_now e) n) r))"

inductive_cases guard_stepE: "guard_step c e r r'"

abbreviation guard_steps :: "guard_config \<Rightarrow> guard_env \<Rightarrow> run \<Rightarrow> run \<Rightarrow> bool" where
  "guard_steps c e \<equiv> (guard_step c e)\<^sup>*\<^sup>*"

lemma probe_spend: "probe e name r = (if max_probes \<le> rn_probes r then (None, r)
    else (Some (ge_download e (rn_probes r) name), spend e name r))"
  by (simp add: probe_def spend_def Let_def)

definition released :: "guard_config \<Rightarrow> guard_env \<Rightarrow> run \<Rightarrow> run" where
  "released c e r =
     (if rn_limit r < max_probes
         \<and> rolling_probe_candidates (rn_nodes r) (ge_now e) (fleet_interval c) (rn_probed r) = []
      then r \<lparr>rn_limit := max_probes\<rparr> else r)"

lemma released_simps [simp]:
  "rn_nodes (released c e r) = rn_nodes r" "rn_groups (released c e r) = rn_groups r"
  "rn_probes (released c e r) = rn_probes r" "rn_probed (released c e r) = rn_probed r"
  "rn_transitions (released c e r) = rn_transitions r"
  by (simp_all add: released_def)

lemma released_steps: "guard_steps c e r (released c e r)"
  by (auto simp: released_def intro: guard_step.release)

lemma urgent_probe_cases:
  obtains "urgent_probe c e name r = (None, released c e r)"
  | "rn_probes r < max_probes"
    "urgent_probe c e name r = (Some (ge_download e (rn_probes r) name), spend e name (released c e r))"
proof (cases "rn_limit (released c e r) \<le> rn_probes r \<or> max_probes \<le> rn_probes r")
  case True
  have "urgent_probe c e name r = (if rn_limit (released c e r) \<le> rn_probes (released c e r)
      then (None, released c e r) else probe e name (released c e r))"
    by (simp add: urgent_probe_def released_def Let_def)
  then show ?thesis using True that(1) by (auto simp: probe_spend split: if_splits)
next
  case False
  have "urgent_probe c e name r = (if rn_limit (released c e r) \<le> rn_probes (released c e r)
      then (None, released c e r) else probe e name (released c e r))"
    by (simp add: urgent_probe_def released_def Let_def)
  then show ?thesis using False that(2) by (auto simp: probe_spend)
qed

lemma measure_released:
  assumes "rn_probes r < max_probes" and "map_of (rn_nodes r) name = Some n"
    and "nd_health n \<noteq> Quarantined"
  shows "guard_steps c e r (set_node name
      (apply_speed_result c (ge_now e) (ge_download e (rn_probes r) name) n)
      (spend e name (released c e r)))"
proof -
  have "guard_step c e (released c e r) (set_node name
      (apply_speed_result c (ge_now e) (ge_download e (rn_probes (released c e r)) name) n)
      (spend e name (released c e r)))"
    using assms by (intro guard_step.measure) auto
  then show ?thesis using released_steps [of c e r] by (simp add: rtranclp.rtrancl_into_rtrancl)
qed

lemma apply_speed_health: "nd_health n \<noteq> Quarantined \<Longrightarrow>
    nd_health (apply_speed_result c now res n) \<noteq> Quarantined"
  by (auto simp: apply_speed_result_def Let_def)

lemma active_phase_steps: "guard_steps c e r (active_phase c e names r)"
proof (induction names arbitrary: r)
  case (Cons name names)
  show ?case
  proof (cases "active_skips c e r name")
    case True
    then show ?thesis using Cons by simp
  next
    case False
    then obtain n where n: "map_of (rn_nodes r) name = Some n" "nd_health n \<noteq> Quarantined"
      by (auto simp: active_skips_def split: option.splits)
    show ?thesis
    proof (cases rule: urgent_probe_cases [of c e name r])
      case 1
      then show ?thesis using False released_steps by simp
    next
      case 2
      have "guard_steps c e r (set_node name
          (apply_speed_result c (ge_now e) (ge_download e (rn_probes r) name) n)
          (spend e name (released c e r)))"
        by (rule measure_released [OF 2(1) n])
      then show ?thesis using False 2 n Cons by (auto intro: rtranclp_trans)
    qed
  qed
qed simp

lemma probe_alternatives_steps:
  assumes "\<forall>m \<in> set names. \<exists>n. map_of (rn_nodes r) m = Some n \<and> nd_health n \<noteq> Quarantined"
  shows "guard_steps c e r (snd (probe_alternatives c e names r))
    \<and> (\<forall>m. m \<notin> set names \<longrightarrow> map_of (rn_nodes (snd (probe_alternatives c e names r))) m = map_of (rn_nodes r) m)
    \<and> rn_groups (snd (probe_alternatives c e names r)) = rn_groups r
    \<and> rn_transitions (snd (probe_alternatives c e names r)) = rn_transitions r
    \<and> (\<forall>a. fst (probe_alternatives c e names r) = Some a \<longrightarrow> a \<in> set names
         \<and> recently_passing c (ge_now e) (rn_nodes (snd (probe_alternatives c e names r))) a)"
  using assms
proof (induction names arbitrary: r)
  case (Cons name names)
  obtain n where n: "map_of (rn_nodes r) name = Some n" "nd_health n \<noteq> Quarantined"
    using Cons.prems by auto
  show ?case
  proof (cases rule: urgent_probe_cases [of c e name r])
    case 1
    then show ?thesis using released_steps by simp
  next
    case 2
    let ?res = "ge_download e (rn_probes r) name"
    let ?n = "apply_speed_result c (ge_now e) ?res n"
    let ?r = "set_node name ?n (spend e name (released c e r))"
    have step: "guard_steps c e r ?r" by (rule measure_released [OF 2(1) n])
    have hn: "nd_health ?n \<noteq> Quarantined" by (rule apply_speed_health [OF n(2)])
    show ?thesis
    proof (cases "passes c ?res")
      case True
      have "nd_last_probe ?n = Some (ge_now e)" "nd_last_down ?n = pr_kbps ?res"
        by (auto simp: apply_speed_result_def Let_def)
      then have "recently_passing c (ge_now e) (rn_nodes ?r) name"
        using True hn by (simp add: recently_passing_def passes_def hour_def minute_def second_def)
      then show ?thesis using True 2 n step by simp
    next
      case False
      have "\<forall>m \<in> set names. \<exists>n. map_of (rn_nodes ?r) m = Some n \<and> nd_health n \<noteq> Quarantined"
        using Cons.prems hn by auto
      from Cons.IH [OF this] show ?thesis
        using False 2 n step by (auto intro: rtranclp_trans)
    qed
  qed
qed simp

lemma probe_candidates_ok:
  "\<forall>m \<in> set (probe_candidates r bad). m \<in> set (alternatives (rn_groups r) bad)
     \<and> (\<exists>n. map_of (rn_nodes r) m = Some n \<and> nd_health n \<noteq> Quarantined)"
  by (auto simp: probe_candidates_def split: option.splits)

lemma alternatives_other: "a \<in> set (alternatives groups bad) \<Longrightarrow> a \<noteq> bad"
  by (auto simp: alternatives_def split: if_splits)

lemma find_alternative_steps:
  assumes "find_alternative c e r bad = (alt, r')"
  shows "guard_steps c e r r' \<and> map_of (rn_nodes r') bad = map_of (rn_nodes r) bad
    \<and> rn_groups r' = rn_groups r \<and> rn_transitions r' = rn_transitions r
    \<and> (\<forall>a. alt = Some a \<longrightarrow> a \<in> set (alternatives (rn_groups r) bad)
         \<and> recently_passing c (ge_now e) (rn_nodes r') a)"
proof (cases "passing_alternative c (ge_now e) r bad")
  case (Some a)
  have found: "find P xs = Some a \<Longrightarrow> a \<in> set xs \<and> P a" for P :: "string \<Rightarrow> bool" and xs
    by (induction xs) (auto split: if_splits)
  show ?thesis
    using found [OF Some [unfolded passing_alternative_def]] Some assms
    by (auto simp: find_alternative_def)
next
  case None
  then have eq: "probe_alternatives c e (probe_candidates r bad) r = (alt, r')"
    using assms by (simp add: find_alternative_def probe_alternative_def)
  have cands: "\<forall>m \<in> set (probe_candidates r bad). \<exists>n. map_of (rn_nodes r) m = Some n \<and> nd_health n \<noteq> Quarantined"
    using probe_candidates_ok by blast
  have "bad \<notin> set (probe_candidates r bad)" using probe_candidates_ok alternatives_other by blast
  then show ?thesis
    using probe_alternatives_steps [OF cands, of c e] probe_candidates_ok [of r bad] unfolding eq by auto
qed

lemma confirm_node_steps: "guard_steps c e r (confirm_node c e name r)"
proof (cases "confirm_skips r name")
  case True
  then show ?thesis by (simp add: confirm_node_def)
next
  case False
  then obtain n where n: "map_of (rn_nodes r) name = Some n" "nd_health n \<noteq> Quarantined" "2 \<le> nd_bad_streak n"
    by (auto simp: confirm_skips_def split: option.splits)
  obtain alt r' where f: "find_alternative c e r name = (alt, r')" by force
  note alt = find_alternative_steps [OF f]
  show ?thesis
  proof (cases alt)
    case None
    then show ?thesis using False f alt by (simp add: confirm_node_def)
  next
    case (Some a)
    have "guard_step c e r' (add_transition name (nd_health n) Quarantined (nd_reason n)
        (set_node name (quarantine_node c (ge_now e) n) r'))"
      using alt n Some by (intro guard_step.quarantine [where a = a]) auto
    moreover have "confirm_node c e name r = add_transition name (nd_health n) Quarantined (nd_reason n)
        (set_node name (quarantine_node c (ge_now e) n) r')"
      using False f Some alt n by (simp add: confirm_node_def add_transition_def)
    moreover have "guard_steps c e r r'" using alt by blast
    ultimately show ?thesis by (metis rtranclp.rtrancl_into_rtrancl)
  qed
qed

lemma confirm_phase_steps: "guard_steps c e r (confirm_phase c e r)"
proof -
  have "guard_steps c e r (foldl (\<lambda>r name. confirm_node c e name r) r names)" for names
    by (induction names arbitrary: r) (auto intro: rtranclp_trans confirm_node_steps)
  then show ?thesis by (simp add: confirm_phase_def)
qed

lemma rolling_phase_steps:
  assumes "\<forall>m \<in> set names. \<exists>n. map_of (rn_nodes r) m = Some n \<and> nd_health n \<noteq> Quarantined"
  shows "guard_steps c e r (rolling_phase c e names r)"
  using assms
proof (induction names arbitrary: r)
  case (Cons name names)
  obtain n where n: "map_of (rn_nodes r) name = Some n" "nd_health n \<noteq> Quarantined"
    using Cons.prems by auto
  show ?case
  proof (cases "max_probes \<le> rn_probes r")
    case True
    then show ?thesis by (simp add: probe_spend)
  next
    case False
    let ?n = "apply_speed_result c (ge_now e) (ge_download e (rn_probes r) name) n"
    let ?r = "set_node name ?n (spend e name r)"
    have "guard_step c e r ?r" using False n by (intro guard_step.measure) auto
    moreover have "\<forall>m \<in> set names. \<exists>n. map_of (rn_nodes ?r) m = Some n \<and> nd_health n \<noteq> Quarantined"
      using Cons.prems apply_speed_health [OF n(2)] by auto
    ultimately show ?thesis using False n Cons.IH [of ?r]
      by (simp add: probe_spend converse_rtranclp_into_rtranclp)
  qed
qed simp

lemma rolling_candidates_ok:
  assumes "distinct (map fst ns)"
  shows "\<forall>m \<in> set (rolling_probe_candidates ns now d already).
    \<exists>n. map_of ns m = Some n \<and> nd_health n \<noteq> Quarantined \<and> m \<notin> set already"
proof -
  have "map_of ns k = Some n" if "(k, n) \<in> set ns" for k n
    using assms that by (simp add: map_of_is_SomeI)
  then show ?thesis by (force simp: rolling_probe_candidates_def rolling_due_def)
qed

lemma guard_step_keys: "guard_step c e r r' \<Longrightarrow> map fst (rn_nodes r') = map fst (rn_nodes r)"
  by (auto elim!: guard_stepE)

lemma guard_steps_keys: "guard_steps c e r r' \<Longrightarrow> map fst (rn_nodes r') = map fst (rn_nodes r)"
  by (induction rule: rtranclp_induct) (auto simp: guard_step_keys)

text \<open>The phases after recovery are a run of the step relation.\<close>

lemma later_phases_steps:
  assumes "distinct (map fst (rn_nodes r))"
  shows "guard_steps c e r (let r2 = active_phase c e active r; r3 = confirm_phase c e r2
      in rolling_phase c e
           (rolling_probe_candidates (rn_nodes r3) (ge_now e) (fleet_interval c) (rn_probed r3)) r3)"
proof -
  let ?r2 = "active_phase c e active r"
  let ?r3 = "confirm_phase c e ?r2"
  have s: "guard_steps c e r ?r3"
    by (rule rtranclp_trans [OF active_phase_steps confirm_phase_steps])
  have "distinct (map fst (rn_nodes ?r3))" using guard_steps_keys [OF s] assms by simp
  then have "guard_steps c e ?r3 (rolling_phase c e
      (rolling_probe_candidates (rn_nodes ?r3) (ge_now e) (fleet_interval c) (rn_probed ?r3)) ?r3)"
    using rolling_candidates_ok by (intro rolling_phase_steps) blast
  then show ?thesis using s by (simp add: Let_def rtranclp_trans)
qed

subsection \<open>The comparison functions are orders\<close>

lemma slice_order_key: "slice_order (\<lambda>x y. key x < (key y :: 'k :: linorder))"
  by unfold_locales auto

definition node_key :: "node \<Rightarrow> int \<times> int \<times> int \<times> rat" where
  "node_key n = (- guard_speed_tier (nd_last_down n), fst (guard_latency_rank n),
     snd (guard_latency_rank n), - nd_last_down n)"

lemma guard_node_better_key: "guard_node_better a b \<longleftrightarrow> node_key a < node_key b"
  by (auto simp: guard_node_better_def node_key_def less_prod_def Let_def split: prod.splits)

definition resort_key :: "(string \<times> node) list \<Rightarrow> string \<Rightarrow> (nat \<times> int \<times> int \<times> int \<times> rat) \<times> string" where
  "resort_key ns x =
     ((case map_of ns x of None \<Rightarrow> (1, 0, 0, 0, 0) | Some n \<Rightarrow> (0, node_key n)), x)"

lemma resort_less_key: "resort_less ns = (\<lambda>x y. resort_key ns x < resort_key ns y)"
proof (intro ext)
  fix x y
  show "resort_less ns x y \<longleftrightarrow> resort_key ns x < resort_key ns y"
    by (cases "map_of ns x"; cases "map_of ns y")
      (auto simp: resort_less_def better_opt_def resort_key_def guard_node_better_key less_prod_def
        less_eq_prod_def)
qed

definition rolling_key :: "string \<times> node \<Rightarrow> (nat \<times> int) \<times> string" where
  "rolling_key kn =
     ((case nd_last_probe (snd kn) of None \<Rightarrow> (0, 0) | Some t \<Rightarrow> (1, t)), fst kn)"

lemma rolling_less_key: "rolling_less = (\<lambda>x y. rolling_key x < rolling_key y)"
  by (intro ext) (auto simp: rolling_less_def rolling_key_def less_prod_def split: option.splits)

interpretation resort: slice_order "resort_less ns" for ns
  unfolding resort_less_key by (rule slice_order_key)

interpretation rolling: slice_order rolling_less
  unfolding rolling_less_key by (rule slice_order_key)

interpretation delay: slice_order "delay_less ns" for ns
  unfolding delay_less_def Let_def by (rule slice_order_key)

subsection \<open>Last resorts keep the floor\<close>

lemma count_split: "length (filter P xs) + length (filter (\<lambda>x. \<not> P x) xs) = length xs"
  by (induction xs) auto

lemma filter_take_ge:
  assumes "mset ys = mset (filter P xs)" and "k \<le> length ys"
  shows "k \<le> length (filter (\<lambda>x. P x \<and> x \<in> set (take k ys)) xs)"
proof -
  have "length (filter (\<lambda>x. P x \<and> x \<in> set (take k ys)) xs) =
      length (filter (\<lambda>x. x \<in> set (take k ys)) (filter P xs))"
    by (simp add: conj_commute)
  also have "\<dots> = size (filter_mset (\<lambda>x. x \<in> set (take k ys)) (mset ys))"
    using assms(1) by (metis mset_filter size_mset)
  also have "\<dots> = length (filter (\<lambda>x. x \<in> set (take k ys)) ys)"
    by (metis mset_filter size_mset)
  also have "\<dots> \<ge> length (filter (\<lambda>x. x \<in> set (take k ys)) (take k ys))"
    by (metis append_take_drop_id filter_append le_add1 length_append)
  finally show ?thesis using assms(2) by simp
qed

lemma filter_take_eq:
  assumes "mset ys = mset (filter P xs)" and "k \<le> length ys" and "distinct xs"
  shows "length (filter (\<lambda>x. P x \<and> x \<in> set (take k ys)) xs) = k"
proof -
  have set: "set ys = set (filter P xs)" using assms(1) by (metis set_mset_mset)
  have dist: "distinct ys" using assms(1,3) by (metis distinct_filter mset_eq_imp_distinct_iff)
  have "set (filter (\<lambda>x. P x \<and> x \<in> set (take k ys)) xs) = set (take k ys)"
    using set set_take_subset [of k ys] by auto
  moreover have "distinct (filter (\<lambda>x. P x \<and> x \<in> set (take k ys)) xs)" using assms(3) by simp
  ultimately have "length (filter (\<lambda>x. P x \<and> x \<in> set (take k ys)) xs) = length (take k ys)"
    using dist by (metis distinct_card distinct_take)
  then show ?thesis using assms(2) by simp
qed

definition usable :: "guard_state \<Rightarrow> string \<Rightarrow> group \<Rightarrow> string list" where
  "usable s name g = overlay_proxies s name (gr_members g)"

lemma usable_alt: "map_of (gs_groups s) name = Some g \<Longrightarrow>
    usable s name g = filter (\<lambda>m. \<not> quarantined (gs_nodes s) m \<or> m \<in> set (gr_last_resorts g)) (gr_members g)"
  by (auto simp: usable_def overlay_proxies_def overlay_excluded_def intro!: filter_cong)

lemma filter_or_length:
  "length (filter (\<lambda>m. \<not> Q m \<or> R m) xs) =
     length (filter (\<lambda>m. \<not> Q m) xs) + length (filter (\<lambda>m. Q m \<and> R m) xs)"
  by (induction xs) auto

lemma recompute_lookup:
  "map_of (gs_groups (recompute_last_resorts mm s)) name =
     map_option (group_last_resorts (gs_nodes s) (if mm < 1 then 3 else mm)) (map_of (gs_groups s) name)"
  by (simp add: recompute_last_resorts_def Let_def map_of_map)

lemma recompute_nodes [simp]:
  "gs_nodes (recompute_last_resorts mm s) = gs_nodes s"
  "gs_last_run (recompute_last_resorts mm s) = gs_last_run s"
  by (simp_all add: recompute_last_resorts_def Let_def)

lemma group_last_resorts_members [simp]: "gr_members (group_last_resorts ns mm g) = gr_members g"
  by (simp add: group_last_resorts_def Let_def)

lemma group_last_resorts_eq:
  "gr_last_resorts (group_last_resorts ns mm g) =
     take (nat (min mm (int (length (gr_members g)))
            - int (length (filter (\<lambda>m. \<not> quarantined ns m) (gr_members g)))))
       (sort_by (resort_less ns) (filter (quarantined ns) (gr_members g)))"
  by (auto simp: group_last_resorts_def Let_def min_def)

text \<open>
  C22: After the last resorts of a group are recomputed, exactly max(available, min(floor,
  members)) members stay usable through the overlay; the last resorts are quarantined
  members, and none that was left out ranks better.
\<close>

theorem last_resorts_keep_floor:
  assumes "map_of (gs_groups (recompute_last_resorts mm s)) name = Some g"
    and "distinct (gr_members g)"
  shows "int (length (usable (recompute_last_resorts mm s) name g)) =
      max (int (length (filter (\<lambda>m. \<not> quarantined (gs_nodes s) m) (gr_members g))))
          (min (if mm < 1 then 3 else mm) (int (length (gr_members g))))
    \<and> set (gr_last_resorts g) \<subseteq> {x \<in> set (gr_members g). quarantined (gs_nodes s) x}
    \<and> (\<forall>x \<in> set (gr_last_resorts g). \<forall>y \<in> set (gr_members g) - set (gr_last_resorts g).
         quarantined (gs_nodes s) y \<longrightarrow>
         \<not> better_opt (map_of (gs_nodes s) y) (map_of (gs_nodes s) x))"
proof -
  let ?s = "recompute_last_resorts mm s"
  let ?mm = "if mm < 1 then 3 else mm"
  let ?bad = "filter (quarantined (gs_nodes s)) (gr_members g)"
  let ?good = "filter (\<lambda>m. \<not> quarantined (gs_nodes s) m) (gr_members g)"
  let ?ys = "sort_by (resort_less (gs_nodes s)) ?bad"
  let ?k = "nat (min ?mm (int (length (gr_members g))) - int (length ?good))"
  obtain g0 where g0: "g = group_last_resorts (gs_nodes s) ?mm g0"
    using assms(1) by (auto simp: recompute_lookup simp del: if_split)
  have lr: "gr_last_resorts g = take ?k ?ys"
    unfolding g0 by (simp only: group_last_resorts_eq group_last_resorts_members)
  have k: "?k \<le> length ?ys"
    using count_split [of "quarantined (gs_nodes s)" "gr_members g"] by (simp; linarith)
  have "length (filter (\<lambda>m. quarantined (gs_nodes s) m \<and> m \<in> set (take ?k ?ys)) (gr_members g)) = ?k"
    by (rule filter_take_eq [OF _ k assms(2)]) simp
  then have "length (usable ?s name g) = length ?good + ?k"
    by (simp only: usable_alt [OF assms(1)] recompute_nodes filter_or_length lr)
  then have floor: "int (length (usable ?s name g)) =
      max (int (length ?good)) (min ?mm (int (length (gr_members g))))"
    by linarith
  have sub: "set (gr_last_resorts g) \<subseteq> {x \<in> set (gr_members g). quarantined (gs_nodes s) x}"
    using set_take_subset [of ?k ?ys] unfolding lr by auto
  have "\<not> better_opt (map_of (gs_nodes s) y) (map_of (gs_nodes s) x)"
    if x: "x \<in> set (gr_last_resorts g)" and y: "y \<in> set (gr_members g)"
      "quarantined (gs_nodes s) y" "y \<notin> set (gr_last_resorts g)" for x y
  proof -
    have "set ?ys = set (take ?k ?ys) \<union> set (drop ?k ?ys)"
      by (metis append_take_drop_id set_append)
    then have "y \<in> set (drop ?k ?ys)" using y lr by auto
    then have "\<not> resort_less (gs_nodes s) y x"
      using x resort.take_best [of x ?k "gs_nodes s" ?bad y] unfolding lr by blast
    then show ?thesis by (auto simp: resort_less_def split: if_splits)
  qed
  then show ?thesis using floor sub by blast
qed

subsection \<open>The recovery phase\<close>

lemma start_run_simps [simp]:
  "rn_nodes (start_run c e s) = gs_nodes s" "rn_groups (start_run c e s) = gs_groups s"
  "rn_probes (start_run c e s) = 0" "rn_probed (start_run c e s) = []"
  "rn_transitions (start_run c e s) = []"
  by (simp_all add: start_run_def)

text \<open>The first node due is measured: nothing has been spent and a slot is left for it.\<close>

lemma start_urgent: "urgent_probe c e name (start_run c e s) =
    (Some (ge_download e 0 name), spend e name (start_run c e s))"
  by (auto simp: urgent_probe_def start_run_def Let_def max_probes_def probe_spend)

lemma recovery_phase_None:
  assumes "find (recovery_due (ge_now e) (gs_nodes s)) (sorted_node_names (gs_nodes s)) = None"
  shows "recovery_phase c e (start_run c e s) = start_run c e s"
  using assms by (simp add: recovery_phase_def)

lemma recovery_phase_Some:
  assumes "find (recovery_due (ge_now e) (gs_nodes s)) (sorted_node_names (gs_nodes s)) = Some name"
    and "map_of (gs_nodes s) name = Some n"
    and "recover_node c (ge_now e) (ge_download e 0 name) n = (n', ok)"
  shows "recovery_phase c e (start_run c e s) =
      (let r = set_node name n' (spend e name (start_run c e s))
       in if ok then add_transition name Quarantined Healthy ''two clean recovery probes'' r else r)"
  using assms by (simp add: recovery_phase_def start_urgent add_transition_def Let_def)

lemma recovery_phase_cases:
  obtains "recovery_phase c e (start_run c e s) = start_run c e s"
  | name n n' ok where
      "find (recovery_due (ge_now e) (gs_nodes s)) (sorted_node_names (gs_nodes s)) = Some name"
      "map_of (gs_nodes s) name = Some n" "nd_health n = Quarantined"
      "\<not> (case nd_retry_after n of None \<Rightarrow> False | Some t \<Rightarrow> ge_now e < t)"
      "recover_node c (ge_now e) (ge_download e 0 name) n = (n', ok)"
      "recovery_phase c e (start_run c e s) =
        (let r = set_node name n' (spend e name (start_run c e s))
         in if ok then add_transition name Quarantined Healthy ''two clean recovery probes'' r else r)"
proof (cases "find (recovery_due (ge_now e) (gs_nodes s)) (sorted_node_names (gs_nodes s))")
  case None
  then show ?thesis using that(1) recovery_phase_None by blast
next
  case (Some name)
  then have due: "recovery_due (ge_now e) (gs_nodes s) name" using find_SomeD by fast
  then obtain n where n: "map_of (gs_nodes s) name = Some n" "nd_health n = Quarantined"
      "\<not> (case nd_retry_after n of None \<Rightarrow> False | Some t \<Rightarrow> ge_now e < t)"
    by (auto simp: recovery_due_def split: option.splits)
  obtain n' ok where r: "recover_node c (ge_now e) (ge_download e 0 name) n = (n', ok)" by force
  show ?thesis by (rule that(2) [OF Some n r recovery_phase_Some [OF Some n(1) r]])
qed

text \<open>The state of the run after recovery, and the rest of it as steps.\<close>

lemma keys_set_nodes: "map_of (rn_nodes r) name \<noteq> None \<Longrightarrow>
    map fst (rn_nodes (set_node name n r)) = map fst (rn_nodes r)"
  by auto

lemma recovery_phase_frame:
  "map fst (rn_nodes (recovery_phase c e (start_run c e s))) = map fst (gs_nodes s)
   \<and> rn_groups (recovery_phase c e (start_run c e s)) = gs_groups s
   \<and> rn_probes (recovery_phase c e (start_run c e s)) \<le> 1"
  by (cases rule: recovery_phase_cases [of c e s]) (auto simp: Let_def)

lemma probe_phases_steps:
  assumes "distinct (map fst (gs_nodes s))"
  shows "guard_steps c e (recovery_phase c e (start_run c e s)) (probe_phases c e (start_run c e s))"
  using later_phases_steps [of "recovery_phase c e (start_run c e s)" c e
      "guard_active_nodes (ge_proxies e) (gs_groups s) (ge_chains e)"]
    assms recovery_phase_frame [of c e s]
  by (simp add: probe_phases_def Let_def)

subsection \<open>What a step keeps\<close>

lemma guard_step_groups: "guard_step c e r r' \<Longrightarrow> rn_groups r' = rn_groups r"
  by (auto elim!: guard_stepE)

lemma guard_steps_groups: "guard_steps c e r r' \<Longrightarrow> rn_groups r' = rn_groups r"
  by (induction rule: rtranclp_induct) (auto simp: guard_step_groups)

lemma guard_step_budget:
  "guard_step c e r r' \<Longrightarrow> rn_probes r \<le> max_probes \<Longrightarrow> rn_probes r' \<le> max_probes"
  by (auto elim!: guard_stepE)

lemma guard_steps_budget:
  "guard_steps c e r r' \<Longrightarrow> rn_probes r \<le> max_probes \<Longrightarrow> rn_probes r' \<le> max_probes"
  by (induction rule: rtranclp_induct) (auto dest: guard_step_budget)

text \<open>A node in quarantine is left alone by everything after the recovery phase.\<close>

lemma guard_steps_quarantined:
  "guard_steps c e r r' \<Longrightarrow> map_of (rn_nodes r) k = Some n \<Longrightarrow> nd_health n = Quarantined \<Longrightarrow>
    map_of (rn_nodes r') k = Some n"
  by (induction rule: rtranclp_induct) (auto elim!: guard_stepE)

text \<open>A property of single nodes that measuring and quarantining keep.\<close>

lemma guard_steps_nodes:
  assumes "guard_steps c e r r'" and "\<forall>k n. map_of (rn_nodes r) k = Some n \<longrightarrow> P k n"
    and "\<And>k n res. P k n \<Longrightarrow> nd_health n \<noteq> Quarantined \<Longrightarrow> P k (apply_speed_result c (ge_now e) res n)"
    and "\<And>k n. P k n \<Longrightarrow> nd_health n \<noteq> Quarantined \<Longrightarrow> P k (quarantine_node c (ge_now e) n)"
  shows "\<forall>k n. map_of (rn_nodes r') k = Some n \<longrightarrow> P k n"
  using assms(1)
proof (induction rule: rtranclp_induct)
  case base
  then show ?case using assms(2) by blast
next
  case (step y z)
  from step(2,3) show ?case
    by (cases rule: guard_step.cases) (auto simp: assms(3,4))
qed

definition last_quarantined :: "transition list \<Rightarrow> string option" where
  "last_quarantined ts =
     (let qs = filter (\<lambda>t. tr_to t = Quarantined) ts
      in if qs = [] then None else Some (tr_node (last qs)))"

lemma last_quarantined_append:
  "last_quarantined (ts @ [t]) = (if tr_to t = Quarantined then Some (tr_node t) else last_quarantined ts)"
  by (simp add: last_quarantined_def Let_def)

definition spared :: "guard_env \<Rightarrow> run \<Rightarrow> bool" where
  "spared e r \<longleftrightarrow> (case last_quarantined (rn_transitions r) of None \<Rightarrow> True
     | Some bad \<Rightarrow> \<exists>a \<in> set (alternatives (rn_groups r) bad).
         \<exists>n. map_of (rn_nodes r) a = Some n \<and> nd_health n \<noteq> Quarantined)"

lemma guard_step_spared: "guard_step c e r r' \<Longrightarrow> spared e r \<Longrightarrow> spared e r'"
proof (induction rule: guard_step.induct)
  case (release r)
  then show ?case by (simp add: spared_def split: option.splits)
next
  case (measure r name n)
  let ?n = "apply_speed_result c (ge_now e) (ge_download e (rn_probes r) name) n"
  have new: "nd_health ?n \<noteq> Quarantined" by (rule apply_speed_health [OF measure(3)])
  have "\<exists>m. map_of (rn_nodes (set_node name ?n (spend e name r))) a = Some m \<and> nd_health m \<noteq> Quarantined"
    if "map_of (rn_nodes r) a = Some m" "nd_health m \<noteq> Quarantined" for a m
    using that new by (cases "a = name") auto
  note keep = this
  show ?case
  proof (cases "last_quarantined (rn_transitions r)")
    case None
    then show ?thesis by (simp add: spared_def)
  next
    case (Some bad)
    then show ?thesis using measure(4) keep
      unfolding spared_def set_node_simps(2,7) spend_simps(2,6) Some option.case by blast
  qed
next
  case (quarantine r name n a)
  then obtain na where "map_of (rn_nodes r) a = Some na" "nd_health na \<noteq> Quarantined"
    by (auto simp: recently_passing_def split: option.splits)
  then show ?case using quarantine(4) alternatives_other [OF quarantine(4)]
    by (auto simp: spared_def last_quarantined_append intro!: bexI [of _ a])
qed

lemma guard_steps_spared: "guard_steps c e r r' \<Longrightarrow> spared e r \<Longrightarrow> spared e r'"
  by (induction rule: rtranclp_induct) (auto dest: guard_step_spared)

lemma recovery_transitions:
  "\<forall>t \<in> set (rn_transitions (recovery_phase c e (start_run c e s))). tr_to t = Healthy"
  by (cases rule: recovery_phase_cases [of c e s]) (auto simp: Let_def)

lemma recovery_spared: "spared e (recovery_phase c e (start_run c e s))"
proof -
  have "filter (\<lambda>t. tr_to t = Quarantined) (rn_transitions (recovery_phase c e (start_run c e s))) = []"
    using recovery_transitions [of c e s] by (auto simp: filter_empty_conv)
  then show ?thesis by (simp add: spared_def last_quarantined_def)
qed

lemma map_of_swap: "map_of (map (\<lambda>(k, v). (k, f k v)) xs) k = map_option (f k) (map_of xs k)"
  by (induction xs) auto

subsection \<open>The refresh before the probes\<close>

lemma put_fold_lookup:
  "map_of (foldl (\<lambda>ns name. put_node name (seen_node lo px now name (map_of ns name)) ns) ns members) k =
     (if k \<in> set members then
        (case map_of ns k of None \<Rightarrow> Some (seen_node lo px now k None)
         | Some n \<Rightarrow> Some (seen_node lo px now k (Some n)))
      else map_of ns k)"
proof (induction members arbitrary: ns)
  case (Cons m ms)
  have twice: "seen_node lo px now j (Some (seen_node lo px now j x)) = seen_node lo px now j x" for j x
    by (auto simp: seen_node_def Let_def split: option.splits prod.splits)
  show ?case by (auto simp: Cons.IH twice split: option.splits)
qed (auto split: option.splits)

lemma put_fold_keys:
  "distinct (map fst ns) \<Longrightarrow>
   distinct (map fst (foldl (\<lambda>ns name. put_node name (f name ns) ns) ns members))
   \<and> set (map fst (foldl (\<lambda>ns name. put_node name (f name ns) ns) ns members)) =
      set (map fst ns) \<union> set members"
proof (induction members arbitrary: ns)
  case (Cons m ms)
  have "distinct (map fst (put_node m (f m ns) ns))" by (rule distinct_put_node [OF Cons.prems])
  moreover have "set (map fst (put_node m (f m ns) ns)) = insert m (set (map fst ns))"
    by (auto simp: map_of_eq_None_iff)
  ultimately show ?case using Cons.IH [of "put_node m (f m ns) ns"] by simp
qed simp

lemma map_of_filter_key:
  "map_of (filter (\<lambda>(k, n). P k) ns) k = (if P k then map_of ns k else None)"
  by (induction ns) auto

lemma update_guard_nodes_lookup:
  "map_of (update_guard_nodes lo px members now ns) k =
     (if k \<in> set members then Some (seen_node lo px now k (map_of ns k)) else None)"
  by (auto simp: update_guard_nodes_def put_fold_lookup map_of_filter_key split: option.splits)

lemma update_guard_nodes_keys:
  assumes "distinct (map fst ns)"
  shows "distinct (map fst (update_guard_nodes lo px members now ns))
    \<and> set (map fst (update_guard_nodes lo px members now ns)) = set members"
proof -
  have "distinct (map fst (filter (\<lambda>(k, n). k \<in> set members) ns))"
    using assms by (simp add: distinct_map_filter)
  from put_fold_keys [OF this, of "\<lambda>name ns. seen_node lo px now name (map_of ns name)" members]
  show ?thesis by (auto simp: update_guard_nodes_def)
qed

lemma update_guard_latency_lookup:
  "map_of (update_guard_latency px members delays mj now ns) k =
     (if k \<in> set members
      then map_option (latency_step mj now
             (case map_of delays k of Some d \<Rightarrow> d | None \<Rightarrow> proxy_delay_for px k)) (map_of ns k)
      else map_of ns k)"
proof -
  have "update_guard_latency px members delays mj now ns = map (\<lambda>(k, n). (k,
      if k \<in> set members then latency_step mj now
        (case map_of delays k of Some d \<Rightarrow> d | None \<Rightarrow> proxy_delay_for px k) n else n)) ns"
    by (auto simp: update_guard_latency_def)
  then show ?thesis by (simp add: map_of_swap option.map_ident)
qed

lemma update_guard_latency_keys [simp]:
  "map fst (update_guard_latency px members delays mj now ns) = map fst ns"
  by (auto simp: update_guard_latency_def)

definition tick_members :: "(string \<Rightarrow> string) \<Rightarrow> guard_config \<Rightarrow> guard_env \<Rightarrow> guard_state \<Rightarrow> string list" where
  "tick_members cand c e s = group_members (guard_groups cand (ge_proxies e) (gs_groups s) (gc_groups c))"

definition refreshed_node ::
    "(string \<Rightarrow> string) \<Rightarrow> guard_config \<Rightarrow> guard_env \<Rightarrow> string \<Rightarrow> node option \<Rightarrow> node" where
  "refreshed_node lo c e k old =
     (let n = seen_node lo (ge_proxies e) (ge_now e) k old
      in case ge_delays e of None \<Rightarrow> n
         | Some d \<Rightarrow> latency_step (gc_max_jitter c) (ge_now e)
             (case map_of d k of Some x \<Rightarrow> x | None \<Rightarrow> proxy_delay_for (ge_proxies e) k) n)"

lemma refresh_lookup:
  "map_of (gs_nodes (refresh_state lo cand c e s)) k =
     (if k \<in> set (tick_members cand c e s) then Some (refreshed_node lo c e k (map_of (gs_nodes s) k)) else None)"
  by (auto simp: refresh_state_def update_guard_groups_def tick_members_def refreshed_node_def Let_def
      update_guard_nodes_lookup update_guard_latency_lookup split: option.splits)

lemma refresh_groups: "gs_groups (refresh_state lo cand c e s) =
    guard_groups cand (ge_proxies e) (gs_groups s) (gc_groups c)"
  by (simp add: refresh_state_def update_guard_groups_def Let_def)

lemma refresh_keys:
  assumes "distinct (map fst (gs_nodes s))"
  shows "distinct (map fst (gs_nodes (refresh_state lo cand c e s)))
    \<and> set (map fst (gs_nodes (refresh_state lo cand c e s))) = set (tick_members cand c e s)"
proof -
  have "map fst (gs_nodes (refresh_state lo cand c e s)) =
      map fst (update_guard_nodes lo (ge_proxies e) (tick_members cand c e s) (ge_now e) (gs_nodes s))"
    by (simp add: refresh_state_def update_guard_groups_def tick_members_def Let_def split: option.splits)
  then show ?thesis using update_guard_nodes_keys [OF assms] by simp
qed

lemma seen_node_keeps:
  "nd_health (seen_node lo px now k (Some n)) = nd_health n"
  "nd_recovery_streak (seen_node lo px now k (Some n)) = nd_recovery_streak n"
  "nd_retry_after (seen_node lo px now k (Some n)) = nd_retry_after n"
  "nd_latencies (seen_node lo px now k (Some n)) = nd_latencies n"
  by (simp_all add: seen_node_def Let_def split: option.splits prod.splits)

lemma refreshed_quarantined:
  assumes "nd_health n = Quarantined"
  shows "nd_health (refreshed_node lo c e k (Some n)) = Quarantined
    \<and> nd_recovery_streak (refreshed_node lo c e k (Some n)) = nd_recovery_streak n
    \<and> nd_retry_after (refreshed_node lo c e k (Some n)) = nd_retry_after n"
  using assms
  by (auto simp: refreshed_node_def Let_def latency_step_def seen_node_keeps split: option.splits)

subsection \<open>A tick\<close>

lemma guard_tick_parts:
  "snd (guard_tick lo cand c e s) = probe_phases c e (start_run c e (refresh_state lo cand c e s))"
  "gs_nodes (fst (guard_tick lo cand c e s)) = rn_nodes (snd (guard_tick lo cand c e s))"
  "gs_groups (fst (guard_tick lo cand c e s)) =
     map (\<lambda>(k, g). (k, group_last_resorts (rn_nodes (snd (guard_tick lo cand c e s)))
        (if gc_min_members c < 1 then 3 else gc_min_members c) g))
       (guard_groups cand (ge_proxies e) (gs_groups s) (gc_groups c))"
  by (simp_all add: guard_tick_def Let_def recompute_last_resorts_def refresh_groups)

lemma tick_steps:
  assumes "distinct (map fst (gs_nodes s))"
  shows "guard_steps c e (recovery_phase c e (start_run c e (refresh_state lo cand c e s)))
     (snd (guard_tick lo cand c e s))"
  using refresh_keys [OF assms] by (simp add: guard_tick_parts probe_phases_steps)

text \<open>
  C23: One run of the guard spends at most three downloads, whatever the phases find.
\<close>

theorem tick_probe_budget:
  assumes "distinct (map fst (gs_nodes s))"
  shows "rn_probes (snd (guard_tick lo cand c e s)) \<le> 3"
  using guard_steps_budget [OF tick_steps [OF assms]]
    recovery_phase_frame [of c e "refresh_state lo cand c e s"]
  by (simp add: max_probes_def le_trans)

text \<open>
  C3: When a run has quarantined a node, some group of the node that was quarantined last
  still has a member outside quarantine after the run.
\<close>

theorem quarantine_spares_an_alternative:
  assumes "distinct (map fst (gs_nodes s))" and "guard_tick lo cand c e s = (s', r)"
    and "last_quarantined (rn_transitions r) = Some bad"
  shows "\<exists>name g a n. (name, g) \<in> set (gs_groups s') \<and> bad \<in> set (gr_members g)
    \<and> a \<in> set (gr_members g) \<and> a \<noteq> bad \<and> map_of (gs_nodes s') a = Some n \<and> nd_health n \<noteq> Quarantined"
proof -
  let ?r0 = "recovery_phase c e (start_run c e (refresh_state lo cand c e s))"
  have steps: "guard_steps c e ?r0 r" using tick_steps [OF assms(1), of c e lo cand] assms(2) by simp
  have groups: "rn_groups r = guard_groups cand (ge_proxies e) (gs_groups s) (gc_groups c)"
    using guard_steps_groups [OF steps] recovery_phase_frame [of c e "refresh_state lo cand c e s"]
    by (simp add: refresh_groups)
  have "spared e r" by (rule guard_steps_spared [OF steps recovery_spared])
  then obtain a n where a: "a \<in> set (alternatives (rn_groups r) bad)"
      "map_of (rn_nodes r) a = Some n" "nd_health n \<noteq> Quarantined"
    using assms(3) by (auto simp: spared_def)
  then obtain k g where g: "(k, g) \<in> set (rn_groups r)" "bad \<in> set (gr_members g)"
      "a \<in> set (gr_members g)" "a \<noteq> bad"
    by (auto simp: alternatives_def split: if_splits)
  let ?g = "group_last_resorts (rn_nodes r) (if gc_min_members c < 1 then 3 else gc_min_members c) g"
  have "(k, ?g) \<in> set (gs_groups s')" "gs_nodes s' = rn_nodes r"
    using g(1) groups guard_tick_parts(2,3) [of lo cand c e s] assms(2) by (auto intro: rev_image_eqI)
  then show ?thesis using a g(2-4) by (metis group_last_resorts_members)
qed

text \<open>
  C4: A node leaves quarantine in a run only if it carried one clean recovery probe from an
  earlier run, was due, and the first download of this run went through it and passed.
\<close>

theorem released_only_after_clean_probes:
  assumes "distinct (map fst (gs_nodes s))" and "guard_tick lo cand c e s = (s', r)"
    and "map_of (gs_nodes s) k = Some n" and "nd_health n = Quarantined"
    and "map_of (gs_nodes s') k = Some n'" and "nd_health n' \<noteq> Quarantined"
  shows "1 \<le> nd_recovery_streak n \<and> passes c (ge_download e 0 k)
    \<and> (case nd_retry_after n of None \<Rightarrow> True | Some t \<Rightarrow> t \<le> ge_now e)"
proof -
  let ?s1 = "refresh_state lo cand c e s"
  let ?r0 = "recovery_phase c e (start_run c e ?s1)"
  let ?n = "refreshed_node lo c e k (Some n)"
  have steps: "guard_steps c e ?r0 r" using tick_steps [OF assms(1), of c e lo cand] assms(2) by simp
  have nodes: "map_of (rn_nodes r) k = Some n'"
    using guard_tick_parts(2) [of lo cand c e s] assms(2,5) by simp
  then have "k \<in> set (map fst (rn_nodes r))" by (force dest: map_of_SomeD)
  then have "k \<in> set (map fst (gs_nodes ?s1))"
    using guard_steps_keys [OF steps] recovery_phase_frame [of c e ?s1] by simp
  then have "map_of (gs_nodes ?s1) k \<noteq> None" by (simp add: map_of_eq_None_iff)
  then have s1: "map_of (gs_nodes ?s1) k = Some ?n"
    using assms(3) by (auto simp: refresh_lookup split: if_splits)
  have no: "\<not> (map_of (rn_nodes ?r0) k = Some m \<and> nd_health m = Quarantined)" for m
    using guard_steps_quarantined [OF steps, of k m] nodes assms(6) by auto
  show ?thesis
  proof (cases rule: recovery_phase_cases [of c e ?s1])
    case 1
    then show ?thesis using no [of ?n] s1 refreshed_quarantined [OF assms(4)] by simp
  next
    case (2 name m m' ok)
    have name: "name = k"
    proof (rule ccontr)
      assume "name \<noteq> k"
      then have "map_of (rn_nodes ?r0) k = Some ?n" using 2(6) s1 by (simp add: Let_def)
      then show False using no [of ?n] refreshed_quarantined [OF assms(4)] by blast
    qed
    have m: "m = ?n" using 2(2) s1 name by simp
    have "map_of (rn_nodes ?r0) k = Some m'" using 2(6) name by (simp add: Let_def)
    then have "nd_health m' \<noteq> Quarantined" using no [of m'] by blast
    then have "passes c (ge_download e 0 k) \<and> 1 \<le> nd_recovery_streak m"
      using 2(3,5) name by (auto simp: recover_node_def Let_def split: if_splits)
    then show ?thesis
      using m refreshed_quarantined [OF assms(4), of lo c e k] 2(4) by (auto split: option.splits)
  qed
qed

subsection \<open>The reachable states\<close>

definition node_ok :: "string \<Rightarrow> node \<Rightarrow> bool" where
  "node_ok k n \<longleftrightarrow> nd_name n = k \<and> length (nd_latencies n) \<le> 5 \<and> nd_recovery_streak n \<le> 1
     \<and> (if nd_health n = Quarantined then nd_retry_after n \<noteq> None \<and> nd_quarantined_at n \<noteq> None
        else nd_recovery_streak n = 0)"

definition guard_inv :: "guard_state \<Rightarrow> bool" where
  "guard_inv s \<longleftrightarrow> distinct (map fst (gs_nodes s))
     \<and> set (map fst (gs_nodes s)) = set (group_members (gs_groups s))
     \<and> (\<forall>k n. map_of (gs_nodes s) k = Some n \<longrightarrow> node_ok k n)
     \<and> (\<forall>(k, g) \<in> set (gs_groups s).
          set (gr_last_resorts g) \<subseteq> {x \<in> set (gr_members g). quarantined (gs_nodes s) x})"

inductive guard_reachable :: "guard_state \<Rightarrow> bool" where
  start: "guard_reachable new_guard_state"
| tick: "guard_reachable s \<Longrightarrow> guard_reachable (fst (guard_tick lo cand c e s))"

lemma node_ok_seen: "(\<And>n. old = Some n \<Longrightarrow> node_ok k n) \<Longrightarrow> node_ok k (seen_node lo px now k old)"
  by (cases old) (auto simp: seen_node_def node_ok_def new_node_def Let_def split: option.splits)

lemma last_n_length: "length (last_n k xs) \<le> k"
  by (simp add: last_n_def)

lemma node_ok_latency: "node_ok k n \<Longrightarrow> node_ok k (latency_step mj now d n)"
  using last_n_length [of 5 "nd_latencies n @ [d]"]
  by (auto simp: latency_step_def node_ok_def Let_def)

lemma node_ok_refreshed:
  "(\<And>n. old = Some n \<Longrightarrow> node_ok k n) \<Longrightarrow> node_ok k (refreshed_node lo c e k old)"
  by (auto simp: refreshed_node_def Let_def node_ok_seen node_ok_latency split: option.splits)

lemma node_ok_speed: "node_ok k n \<Longrightarrow> nd_health n \<noteq> Quarantined \<Longrightarrow>
    node_ok k (apply_speed_result c now res n)"
  by (auto simp: apply_speed_result_def node_ok_def Let_def)

lemma node_ok_quarantine: "node_ok k n \<Longrightarrow> node_ok k (quarantine_node c now n)"
  by (auto simp: quarantine_node_def node_ok_def)

lemma node_ok_recover: "node_ok k n \<Longrightarrow> nd_health n = Quarantined \<Longrightarrow>
    recover_node c now res n = (n', ok) \<Longrightarrow> node_ok k n'"
  by (auto simp: recover_node_def node_ok_def Let_def split: if_splits)

lemma node_ok_recovery_phase:
  assumes "\<forall>k n. map_of (gs_nodes s) k = Some n \<longrightarrow> node_ok k n"
  shows "\<forall>k n. map_of (rn_nodes (recovery_phase c e (start_run c e s))) k = Some n \<longrightarrow> node_ok k n"
proof (cases rule: recovery_phase_cases [of c e s])
  case 1
  then show ?thesis using assms by simp
next
  case (2 name n n' ok)
  have "node_ok name n'" using node_ok_recover [OF _ 2(3) 2(5)] assms 2(2) by blast
  then show ?thesis using assms 2(6) by (auto simp: Let_def)
qed

lemma guard_inv_tick:
  assumes "guard_inv s"
  shows "guard_inv (fst (guard_tick lo cand c e s))"
proof -
  let ?s1 = "refresh_state lo cand c e s" and ?s' = "fst (guard_tick lo cand c e s)"
  let ?r0 = "recovery_phase c e (start_run c e ?s1)" and ?r = "snd (guard_tick lo cand c e s)"
  have dist: "distinct (map fst (gs_nodes s))" using assms by (simp add: guard_inv_def)
  note steps = tick_steps [OF dist, of c e lo cand]
  have keys: "map fst (gs_nodes ?s') = map fst (gs_nodes ?s1)"
    using guard_steps_keys [OF steps] recovery_phase_frame [of c e ?s1] by (simp add: guard_tick_parts(2))
  have "\<forall>k n. map_of (gs_nodes ?s1) k = Some n \<longrightarrow> node_ok k n"
    using assms by (auto simp: refresh_lookup guard_inv_def intro!: node_ok_refreshed split: if_splits)
  then have "\<forall>k n. map_of (rn_nodes ?r) k = Some n \<longrightarrow> node_ok k n"
    by (intro guard_steps_nodes [OF steps] node_ok_recovery_phase)
      (auto simp: node_ok_speed node_ok_quarantine)
  then have nodes: "\<forall>k n. map_of (gs_nodes ?s') k = Some n \<longrightarrow> node_ok k n"
    by (simp add: guard_tick_parts(2))
  have "group_members (map (\<lambda>(k, g). (k, group_last_resorts ns mm g)) gs) = group_members gs" for ns mm gs
    by (simp add: group_members_def comp_def case_prod_beta')
  then have members: "group_members (gs_groups ?s') = tick_members cand c e s"
    by (simp add: guard_tick_parts(3) tick_members_def)
  have "set (gr_last_resorts (group_last_resorts ns mm g)) \<subseteq>
      {x \<in> set (gr_members g). quarantined ns x}" for ns mm g
    unfolding group_last_resorts_eq using set_take_subset by fastforce
  then have "\<forall>(k, g) \<in> set (gs_groups ?s').
      set (gr_last_resorts g) \<subseteq> {x \<in> set (gr_members g). quarantined (gs_nodes ?s') x}"
    by (fastforce simp: guard_tick_parts(2,3))
  then show ?thesis
    using refresh_keys [OF dist, of lo cand c e] keys nodes members unfolding guard_inv_def by simp
qed

text \<open>
  C2: In every reachable state the node keys are distinct and are the members of the groups,
  each node keeps at most five latencies, a recovery streak of at most one that is zero
  outside quarantine, a quarantined node has its times, and last resorts are quarantined
  members.
\<close>

theorem reachable_guard_inv:
  assumes "guard_reachable s"
  shows "guard_inv s"
  using assms
proof (induction rule: guard_reachable.induct)
  case start
  then show ?case by (simp add: guard_inv_def new_guard_state_def group_members_def)
next
  case (tick s lo cand c e)
  show ?case by (rule guard_inv_tick [OF tick.IH])
qed

subsection \<open>Slow downloads alone\<close>

text \<open>While the active phase runs, a node has a bad streak only if it has been measured, and then 1.\<close>

definition fresh_streaks :: "run \<Rightarrow> bool" where
  "fresh_streaks r \<longleftrightarrow> (\<forall>k n. map_of (rn_nodes r) k = Some n \<longrightarrow> nd_health n \<noteq> Quarantined \<longrightarrow>
     nd_bad_streak n \<le> (if k \<in> set (rn_probed r) then 1 else 0))"

lemma fresh_measure:
  assumes "fresh_streaks r" and "map_of (rn_nodes r) name = Some n" and "nd_health n \<noteq> Quarantined"
    and "name \<notin> set (rn_probed r)"
  shows "fresh_streaks (set_node name (apply_speed_result c now res n) (spend e name (released c e r)))"
proof -
  have "nd_bad_streak n = 0" using assms unfolding fresh_streaks_def by fastforce
  then have "nd_bad_streak (apply_speed_result c now res n) \<le> 1"
    by (auto simp: apply_speed_result_def Let_def)
  then show ?thesis using assms(1) by (auto simp: fresh_streaks_def)
qed

lemma fresh_active: "fresh_streaks r \<Longrightarrow> fresh_streaks (active_phase c e names r)"
proof (induction names arbitrary: r)
  case (Cons name names)
  show ?case
  proof (cases "active_skips c e r name")
    case True
    then show ?thesis using Cons by simp
  next
    case False
    then obtain n where n: "map_of (rn_nodes r) name = Some n" "nd_health n \<noteq> Quarantined"
        "name \<notin> set (rn_probed r)"
      by (auto simp: active_skips_def split: option.splits)
    show ?thesis
    proof (cases rule: urgent_probe_cases [of c e name r])
      case 1
      then show ?thesis using False Cons.prems by (simp add: fresh_streaks_def)
    next
      case 2
      have "fresh_streaks (set_node name (apply_speed_result c (ge_now e) (ge_download e (rn_probes r) name) n)
          (spend e name (released c e r)))"
        by (rule fresh_measure [OF Cons.prems n])
      then show ?thesis using False 2 n Cons.IH by simp
    qed
  qed
qed simp

lemma confirm_none: "fresh_streaks r \<Longrightarrow> confirm_phase c e r = r"
proof -
  assume fresh: "fresh_streaks r"
  have "confirm_node c e name r = r" for name
  proof -
    have "nd_bad_streak n < 2" if "map_of (rn_nodes r) name = Some n" "nd_health n \<noteq> Quarantined" for n
      using fresh that unfolding fresh_streaks_def by (fastforce split: if_splits)
    then show ?thesis by (auto simp: confirm_node_def confirm_skips_def split: option.splits)
  qed
  then have "foldl (\<lambda>r name. confirm_node c e name r) r names = r" for names
    by (induction names) auto
  then show ?thesis by (simp add: confirm_phase_def)
qed

lemma active_transitions: "rn_transitions (active_phase c e names r) = rn_transitions r"
proof (induction names arbitrary: r)
  case (Cons name names)
  then show ?case
    by (cases rule: urgent_probe_cases [of c e name r]) (auto split: option.splits)
qed simp

lemma rolling_transitions: "rn_transitions (rolling_phase c e names r) = rn_transitions r"
  by (induction names arbitrary: r) (auto simp: probe_spend split: option.splits)

definition streak_cleared :: "guard_config \<Rightarrow> time \<Rightarrow> node \<Rightarrow> bool" where
  "streak_cleared c now n \<longleftrightarrow> 5 \<le> length (nd_latencies n)
     \<and> \<not> latency_unstable (nd_latencies n) (gc_max_jitter c) \<and> probed_before now minute n"

lemma latency_step_cleared:
  assumes "nd_health (latency_step mj now d n) \<noteq> Quarantined"
    and "5 \<le> length (nd_latencies (latency_step mj now d n))"
    and "\<not> latency_unstable (nd_latencies (latency_step mj now d n)) mj"
    and "probed_before now minute (latency_step mj now d n)"
  shows "nd_bad_streak (latency_step mj now d n) = 0"
  using assms by (auto simp: latency_step_def Let_def probed_before_def split: if_splits)

text \<open>
  C21: If the latency sweep succeeds and every node outside quarantine has a full, stable
  latency window and was last measured more than a minute ago, the run quarantines nobody,
  however slow the downloads are.
\<close>

theorem stable_latency_never_quarantined:
  assumes "distinct (map fst (gs_nodes s))" and "ge_delays e = Some d"
    and "\<forall>(k, n) \<in> set (gs_nodes (refresh_state lo cand c e s)).
           nd_health n = Quarantined \<or> streak_cleared c (ge_now e) n"
  shows "\<forall>t \<in> set (rn_transitions (snd (guard_tick lo cand c e s))). tr_to t = Healthy"
proof -
  let ?s1 = "refresh_state lo cand c e s"
  let ?r0 = "recovery_phase c e (start_run c e ?s1)"
  let ?act = "guard_active_nodes (ge_proxies e) (gs_groups ?s1) (ge_chains e)"
  have zero: "nd_bad_streak n = 0" if n: "map_of (gs_nodes ?s1) k = Some n" "nd_health n \<noteq> Quarantined" for k n
  proof -
    have "streak_cleared c (ge_now e) n" using assms(3) n by (fastforce dest: map_of_SomeD)
    moreover obtain x m where "n = latency_step (gc_max_jitter c) (ge_now e) x m"
      using n(1) assms(2) by (auto simp: refresh_lookup refreshed_node_def Let_def split: if_splits)
    ultimately show ?thesis
      using n(2) latency_step_cleared [of "gc_max_jitter c" "ge_now e" x m]
      by (simp add: streak_cleared_def)
  qed
  have "fresh_streaks ?r0"
  proof (cases rule: recovery_phase_cases [of c e ?s1])
    case 1
    then show ?thesis using zero by (auto simp: fresh_streaks_def)
  next
    case (2 name n n' ok)
    have "nd_health n' = Quarantined \<or> nd_bad_streak n' = 0"
      using 2(3,5) by (auto simp: recover_node_def Let_def split: if_splits)
    then show ?thesis using zero 2(6) by (auto simp: fresh_streaks_def Let_def)
  qed
  then have "fresh_streaks (active_phase c e ?act ?r0)" by (rule fresh_active)
  then have "rn_transitions (probe_phases c e (start_run c e ?s1)) = rn_transitions ?r0"
    by (simp add: probe_phases_def Let_def confirm_none rolling_transitions active_transitions)
  then show ?thesis using recovery_transitions by (simp add: guard_tick_parts(1))
qed

subsection \<open>The routing signature\<close>





text \<open>
  What a run writes. A state that is saved without a new live configuration excludes exactly the
  members the live one excludes.
\<close>


subsection \<open>Concrete runs\<close>

definition ex_config :: guard_config where
  "ex_config = \<lparr>gc_enabled = True, gc_groups = [''G''], gc_min_members = 1, gc_min_down = 1000,
     gc_max_jitter = 100, gc_active_interval = 1800, gc_fleet_interval = 21600, gc_quarantine = 1800\<rparr>"

definition ex_cand :: "string \<Rightarrow> string" where
  "ex_cand name = candidate_prefix @ name"

definition ex_proxy :: "string list \<Rightarrow> proxy" where
  "ex_proxy all = \<lparr>px_all = all, px_now = [], px_type = [], px_provider = [], px_delay = 0, px_history = []\<rparr>"

definition ex_env :: guard_env where
  "ex_env = \<lparr>ge_now = 100 * minute, ge_proxies = [(ex_cand ''G'', ex_proxy [''a'', ''b''])],
     ge_delays = None, ge_chains = None,
     ge_download = (\<lambda>k name. \<lparr>pr_ok = True, pr_kbps = 5000, pr_bytes = 10, pr_error = []\<rparr>)\<rparr>"

definition ex_state :: "node \<Rightarrow> guard_state" where
  "ex_state a = \<lparr>gs_last_run = None,
     gs_nodes = [(''a'', a), (''b'', (new_node ''b'') \<lparr>nd_last_probe := Some (99 * minute), nd_last_down := 4000\<rparr>)],
     gs_groups = [(''G'', \<lparr>gr_members = [''a'', ''b''], gr_last_resorts = []\<rparr>)]\<rparr>"

definition ex_slow :: node where
  "ex_slow = (new_node ''a'') \<lparr>nd_health := Suspect, nd_bad_streak := 2, nd_last_probe := Some (99 * minute)\<rparr>"

definition ex_held :: node where
  "ex_held = (new_node ''a'') \<lparr>nd_health := Quarantined, nd_recovery_streak := 1,
     nd_quarantined_at := Some 0, nd_retry_after := Some (90 * minute), nd_last_probe := Some (60 * minute)\<rparr>"

lemmas ex_defs = ex_config_def ex_cand_def ex_proxy_def ex_env_def ex_state_def ex_slow_def ex_held_def

lemma ex_slow_distinct: "distinct (map fst (gs_nodes (ex_state a)))"
  by (simp add: ex_state_def)

lemma ex_slow_tick:
  "last_quarantined (rn_transitions (snd (guard_tick id ex_cand ex_config ex_env (ex_state ex_slow)))) = Some ''a''"
  by code_simp

lemma ex_held_tick:
  "map_option nd_health (map_of (gs_nodes (fst (guard_tick id ex_cand ex_config ex_env (ex_state ex_held)))) ''a'')
     = Some Healthy"
  by code_simp

theorem tick_probe_budget_witness:
  "rn_probes (snd (guard_tick id ex_cand ex_config ex_env (ex_state ex_slow))) \<le> 3"
  by (rule tick_probe_budget [OF ex_slow_distinct])

theorem quarantine_spares_an_alternative_witness:
  "\<exists>name g a n. (name, g) \<in> set (gs_groups (fst (guard_tick id ex_cand ex_config ex_env (ex_state ex_slow))))
    \<and> ''a'' \<in> set (gr_members g) \<and> a \<in> set (gr_members g) \<and> a \<noteq> ''a''
    \<and> map_of (gs_nodes (fst (guard_tick id ex_cand ex_config ex_env (ex_state ex_slow)))) a = Some n
    \<and> nd_health n \<noteq> Quarantined"
  by (rule quarantine_spares_an_alternative [OF ex_slow_distinct _ ex_slow_tick]) simp

theorem released_only_after_clean_probes_witness:
  "passes ex_config (ge_download ex_env 0 ''a'')"
proof -
  obtain n' where n': "map_of (gs_nodes (fst (guard_tick id ex_cand ex_config ex_env (ex_state ex_held)))) ''a''
      = Some n'" "nd_health n' = Healthy"
    using ex_held_tick by (auto simp: map_option_eq_Some)
  have old: "map_of (gs_nodes (ex_state ex_held)) ''a'' = Some ex_held" by (simp add: ex_state_def)
  have "nd_health ex_held = Quarantined" by (simp add: ex_held_def)
  from released_only_after_clean_probes [OF ex_slow_distinct prod.collapse [symmetric] old this n'(1)]
  show ?thesis using n'(2) by simp
qed

theorem reachable_guard_inv_witness:
  "guard_inv (fst (guard_tick id ex_cand ex_config ex_env new_guard_state))
   \<and> map fst (gs_nodes (fst (guard_tick id ex_cand ex_config ex_env new_guard_state))) = [''a'', ''b'']"
  using reachable_guard_inv [OF guard_reachable.tick [OF guard_reachable.start,
        of id ex_cand ex_config ex_env]]
  by (rule conjI) code_simp

definition ex_two_held :: guard_state where
  "ex_two_held = \<lparr>gs_last_run = None,
     gs_nodes = [(''a'', ex_held), (''b'', (new_node ''b'') \<lparr>nd_health := Quarantined, nd_last_down := 9000\<rparr>)],
     gs_groups = [(''G'', \<lparr>gr_members = [''a'', ''b''], gr_last_resorts = []\<rparr>)]\<rparr>"

theorem last_resorts_keep_floor_witness:
  "int (length (usable (recompute_last_resorts 1 ex_two_held) ''G''
      \<lparr>gr_members = [''a'', ''b''], gr_last_resorts = [''b'']\<rparr>)) = 1"
proof -
  have g: "map_of (gs_groups (recompute_last_resorts 1 ex_two_held)) ''G'' =
      Some \<lparr>gr_members = [''a'', ''b''], gr_last_resorts = [''b'']\<rparr>"
    by code_simp
  from last_resorts_keep_floor [OF g]
  show ?thesis by (simp add: ex_two_held_def ex_held_def quarantined_def)
qed

definition ex_throttled :: guard_env where
  "ex_throttled = ex_env \<lparr>ge_delays := Some [(''a'', 50), (''b'', 60)],
     ge_download := (\<lambda>k name. \<lparr>pr_ok = True, pr_kbps = 5, pr_bytes = 10, pr_error = []\<rparr>)\<rparr>"

definition ex_bad_for_days :: guard_state where
  "ex_bad_for_days = \<lparr>gs_last_run = None,
     gs_nodes = map (\<lambda>k. (k, (new_node k) \<lparr>nd_health := Suspect, nd_bad_streak := 1,
       nd_latencies := [50, 50, 50, 50, 50], nd_last_down := 5, nd_last_probe := Some (90 * minute)\<rparr>)) [''a'', ''b''],
     gs_groups = [(''G'', \<lparr>gr_members = [''a'', ''b''], gr_last_resorts = []\<rparr>)]\<rparr>"

theorem stable_latency_never_quarantined_witness:
  "filter (\<lambda>t. tr_to t \<noteq> Healthy)
     (rn_transitions (snd (guard_tick id ex_cand ex_config ex_throttled ex_bad_for_days))) = []"
proof -
  have "list_all (\<lambda>(k, n). nd_health n = Quarantined \<or> streak_cleared ex_config (ge_now ex_throttled) n)
      (gs_nodes (refresh_state id ex_cand ex_config ex_throttled ex_bad_for_days))"
    by code_simp
  then have "\<forall>(k, n) \<in> set (gs_nodes (refresh_state id ex_cand ex_config ex_throttled ex_bad_for_days)).
      nd_health n = Quarantined \<or> streak_cleared ex_config (ge_now ex_throttled) n"
    by (simp add: list_all_iff)
  moreover have "distinct (map fst (gs_nodes ex_bad_for_days))" by (simp add: ex_bad_for_days_def)
  moreover have "ge_delays ex_throttled = Some [(''a'', 50), (''b'', 60)]" by (simp add: ex_throttled_def)
  ultimately show ?thesis
    using stable_latency_never_quarantined [of ex_bad_for_days ex_throttled _ id ex_cand ex_config]
    by (simp add: filter_empty_conv)
qed


text \<open>
  A node that is due and passes twice leaves quarantine: the recovery phase of the first tick in
  which it is the first node due records one clean probe, that of the second releases it.
\<close>

text \<open>
  C24: The first node that is due and whose download passes with a stable window gains one
  clean probe, or is healthy again with all its counters cleared when it already had one.
\<close>

theorem recovery_progress:
  assumes "find (recovery_due (ge_now e) (gs_nodes s)) (sorted_node_names (gs_nodes s)) = Some k"
    and "map_of (gs_nodes s) k = Some n" and "passes c (ge_download e 0 k)"
    and "\<not> latency_unstable (nd_latencies n) (gc_max_jitter c)"
  shows "\<exists>n'. map_of (rn_nodes (recovery_phase c e (start_run c e s))) k = Some n'
    \<and> (if nd_recovery_streak n = 0
       then nd_health n' = nd_health n \<and> nd_recovery_streak n' = 1
         \<and> nd_retry_after n' = Some (ge_now e + gc_quarantine c * second)
       else nd_health n' = Healthy \<and> nd_bad_streak n' = 0 \<and> nd_recovery_streak n' = 0
         \<and> nd_retry_after n' = None)"
proof -
  obtain n' ok where r: "recover_node c (ge_now e) (ge_download e 0 k) n = (n', ok)" by force
  have "map_of (rn_nodes (recovery_phase c e (start_run c e s))) k = Some n'"
    unfolding recovery_phase_Some [OF assms(1,2) r] by (simp add: Let_def)
  then show ?thesis using r assms(3,4) by (auto simp: recover_node_def Let_def split: if_splits)
qed

theorem recovery_progress_witness:
  "map_option nd_health (map_of (rn_nodes (recovery_phase ex_config ex_env
      (start_run ex_config ex_env (ex_state ex_held)))) ''a'') = Some Healthy"
proof -
  have due: "find (recovery_due (ge_now ex_env) (gs_nodes (ex_state ex_held)))
      (sorted_node_names (gs_nodes (ex_state ex_held))) = Some ''a''" by code_simp
  have n: "map_of (gs_nodes (ex_state ex_held)) ''a'' = Some ex_held" by (simp add: ex_state_def)
  have p: "passes ex_config (ge_download ex_env 0 ''a'')" by code_simp
  have l: "\<not> latency_unstable (nd_latencies ex_held) (gc_max_jitter ex_config)" by code_simp
  from recovery_progress [OF due n p l] show ?thesis by (auto simp: ex_held_def)
qed

end
