(* ===== verification/Guard_Apply.thy ===== *)
theory Guard_Apply
  imports Guard_Safety
begin

section \<open>Applying a routing decision\<close>

text \<open>
  The rest of \<open>internal/generator/mihomo_guard.go\<close> and of \<open>proxy_guard.go\<close>: the groups the
  guard manages, the exclude filter of a group, the exclusions the user configured, the change
  of the live configuration with its way back, and the reset. Reading and writing YAML, the
  config test and the controller are parameters.
\<close>

subsection \<open>Managed groups\<close>

record guard_section =
  sc_enabled :: bool
  sc_action :: string
  sc_proxy_group :: string
  sc_exclude_filter :: string

definition add_group :: "string list \<Rightarrow> string \<Rightarrow> string list" where
  "add_group out name = (if name \<noteq> [] \<and> name \<notin> set out then out @ [name] else out)"

definition section_group :: "bool \<Rightarrow> guard_section \<Rightarrow> string option" where
  "section_group friends s =
     (if \<not> sc_enabled s \<or> sc_action s \<noteq> ''proxy'' then None
      else Some (if friends then sc_proxy_group s @ ''_local'' else sc_proxy_group s))"

definition managed_groups :: "bool \<Rightarrow> bool \<Rightarrow> guard_section list \<Rightarrow> string list" where
  "managed_groups friends exit_viable secs =
     (let out = foldl (\<lambda>out s. case section_group friends s of None \<Rightarrow> out | Some n \<Rightarrow> add_group out n)
                  (add_group [] ''DNSProxy'') secs;
          out = (if friends then add_group out ''Friends'' else out)
      in if exit_viable then add_group out ''MeshExit'' else out)"

definition user_exclude_name :: "string list \<Rightarrow> guard_section \<Rightarrow> string option" where
  "user_exclude_name managed s =
     (if \<not> sc_enabled s \<or> sc_action s \<noteq> ''proxy'' then None
      else (let name = (if sc_proxy_group s @ ''_local'' \<in> set managed then sc_proxy_group s @ ''_local''
                        else sc_proxy_group s)
            in if name \<in> set managed then Some name else None))"

definition user_excludes ::
    "string list \<Rightarrow> string \<Rightarrow> string \<Rightarrow> guard_section list \<Rightarrow> string \<rightharpoonup> string" where
  "user_excludes managed dns_filter exit_filter secs =
     (let out = (if ''DNSProxy'' \<in> set managed then [''DNSProxy'' \<mapsto> dns_filter] else Map.empty);
          out = foldl (\<lambda>out s. case user_exclude_name managed s of None \<Rightarrow> out
                  | Some n \<Rightarrow> out(n \<mapsto> sc_exclude_filter s)) out secs
      in if ''MeshExit'' \<in> set managed then out(''MeshExit'' \<mapsto> exit_filter) else out)"

subsection \<open>The exclude filter\<close>

definition backtick :: char where "backtick = CHR 0x60"

text \<open>\<open>regexp.QuoteMeta\<close>: a backslash before each of the special characters.\<close>

definition quote_meta :: "string \<Rightarrow> string" where
  "quote_meta s = concat (map (\<lambda>c. if c \<in> set [CHR 0x5C, CHR ''.'', CHR ''+'', CHR ''*'', CHR ''?'', CHR ''('',
      CHR '')'', CHR ''|'', CHR ''['', CHR '']'', CHR ''{'', CHR ''}'', CHR ''^'', CHR ''$'']
    then [CHR 0x5C, c] else [c]) s)"

definition escape_ticks :: "string \<Rightarrow> string" where
  "escape_ticks s = concat (map (\<lambda>c. if c = backtick then CHR 0x5C # ''x60'' else [c]) s)"

definition exact_names_regex :: "string list \<Rightarrow> string" where
  "exact_names_regex names =
     ''^(?:'' @ join ''|'' (sort (map (\<lambda>n. escape_ticks (quote_meta n)) names)) @ '')$''"

definition guard_exclude_filter :: "string \<Rightarrow> string list \<Rightarrow> string" where
  "guard_exclude_filter user excluded =
     (if excluded = [] then user
      else if user = [] then exact_names_regex excluded
      else user @ backtick # exact_names_regex excluded)"

lemma escape_ticks_free: "backtick \<notin> set (escape_ticks s)"
  by (auto simp: escape_ticks_def backtick_def)

lemma join_free: "c \<notin> set sep \<Longrightarrow> \<forall>s \<in> set ss. c \<notin> set s \<Longrightarrow> c \<notin> set (join sep ss)"
  by (induction sep ss rule: join.induct) auto

lemma exact_names_free: "backtick \<notin> set (exact_names_regex names)"
proof -
  have "backtick \<notin> set (join ''|'' (sort (map (\<lambda>n. escape_ticks (quote_meta n)) names)))"
    by (rule join_free) (auto simp: escape_ticks_free, simp add: backtick_def)
  then show ?thesis by (simp add: exact_names_regex_def) (simp add: backtick_def)
qed

lemma split_on_snoc: "c \<notin> set t \<Longrightarrow> split_on c (s @ c # t) = split_on c s @ [t]"
  by (induction s) (auto simp: split_on_free split: list.splits)

text \<open>The generated clause tells the names apart: unquoting it gives each name back.\<close>

fun unquote :: "string \<Rightarrow> string" where
  "unquote [] = []"
| "unquote (c # cs) =
     (if c = CHR 0x5C then
        (if has_prefix cs ''x60'' then backtick # unquote (drop 3 cs)
         else case cs of [] \<Rightarrow> [] | d # ds \<Rightarrow> d # unquote ds)
      else c # unquote cs)"

definition special :: "char \<Rightarrow> bool" where
  "special c \<longleftrightarrow> c \<in> set [CHR 0x5C, CHR ''.'', CHR ''+'', CHR ''*'', CHR ''?'', CHR ''('',
      CHR '')'', CHR ''|'', CHR ''['', CHR '']'', CHR ''{'', CHR ''}'', CHR ''^'', CHR ''$'']"

lemma escaped_Cons:
  "escape_ticks (quote_meta (c # s)) =
     (if special c then [CHR 0x5C, c] else if c = backtick then CHR 0x5C # ''x60'' else [c])
     @ escape_ticks (quote_meta s)"
  by (auto simp: quote_meta_def escape_ticks_def special_def backtick_def)

lemma unquote_escaped: "unquote (escape_ticks (quote_meta s)) = s"
proof (induction s)
  case (Cons c s)
  have "special c \<Longrightarrow> c \<noteq> CHR ''x''" "\<not> special c \<Longrightarrow> c \<noteq> CHR 0x5C" by (auto simp: special_def)
  then show ?case using Cons by (simp add: escaped_Cons)
qed (simp add: quote_meta_def escape_ticks_def)

text \<open>
  The guard appends one clause to the user filter of a group, which stays clause by clause
  as it was, and the clause lists exactly the excluded names: unquoting its items gives them
  back.
\<close>

theorem guard_filter_clauses:
  assumes "excluded \<noteq> []" and "user \<noteq> []"
  shows "split_on backtick (guard_exclude_filter user excluded) =
      split_on backtick user @ [exact_names_regex excluded]
    \<and> (\<exists>items. exact_names_regex excluded = ''^(?:'' @ join ''|'' items @ '')$''
         \<and> set (map unquote items) = set excluded)"
proof
  show "split_on backtick (guard_exclude_filter user excluded) =
      split_on backtick user @ [exact_names_regex excluded]"
    using assms by (simp add: guard_exclude_filter_def split_on_snoc exact_names_free)
  let ?items = "sort (map (\<lambda>n. escape_ticks (quote_meta n)) excluded)"
  have "set (map unquote ?items) = set excluded" by (simp add: image_image unquote_escaped)
  then show "\<exists>items. exact_names_regex excluded = ''^(?:'' @ join ''|'' items @ '')$''
      \<and> set (map unquote items) = set excluded"
    by (intro exI [of _ ?items]) (simp add: exact_names_regex_def)
qed

theorem guard_filter_clauses_witness:
  "split_on backtick (guard_exclude_filter ''^ru'' [''a`b'', ''c.d'']) = [''^ru'', exact_names_regex [''a`b'', ''c.d'']]"
  using guard_filter_clauses [of "[''a`b'', ''c.d'']" "''^ru''"] by (simp add: backtick_def)

subsection \<open>The live configuration\<close>

datatype apply_error = Generate_failed | Stage_failed | Validation_failed | Write_failed | Reload_failed

text \<open>
  \<open>applyProxyGuardConfig\<close>: \<open>live\<close> is the live file (\<^term>\<open>None\<close> when it cannot be read). The
  result is the live file afterwards and the error.
\<close>

definition apply_guard_config ::
    "bytes option \<Rightarrow> bool \<Rightarrow> (bytes \<Rightarrow> bool) \<Rightarrow> (bytes \<Rightarrow> bool) \<Rightarrow> (bytes \<Rightarrow> bool) \<Rightarrow> bytes option
     \<Rightarrow> bytes option \<times> apply_error option" where
  "apply_guard_config generated staged valid write reload live =
     (case generated of
        None \<Rightarrow> (live, Some Generate_failed)
      | Some data \<Rightarrow>
          if \<not> staged then (live, Some Stage_failed)
          else if \<not> valid data then (live, Some Validation_failed)
          else if \<not> write data then (live, Some Write_failed)
          else if reload data then (Some data, None)
          else (case live of
              None \<Rightarrow> (Some data, Some Reload_failed)
            | Some old \<Rightarrow> (if write old then Some old else Some data, Some Reload_failed)))"

text \<open>
  A failed change of the live configuration leaves the prior file, unless the reload
  failed and there was no prior file or writing it back failed; success leaves the generated
  file.
\<close>

theorem apply_failure_restores:
  assumes "apply_guard_config generated staged valid write reload live = (live', err)"
  shows "(err = None \<longrightarrow> live' = generated \<and> generated \<noteq> None)
    \<and> (err \<noteq> None \<longrightarrow> live' = live \<or>
         (err = Some Reload_failed \<and> live' = generated \<and> (\<forall>old. live = Some old \<longrightarrow> \<not> write old)))"
  using assms by (auto simp: apply_guard_config_def split: option.splits if_splits)

theorem apply_failure_restores_witness:
  "fst (apply_guard_config (Some ''new'') True (\<lambda>_. True) (\<lambda>_. True) (\<lambda>_. False) (Some ''old'')) = Some ''old''"
proof -
  obtain live' err where r: "apply_guard_config (Some ''new'') True (\<lambda>_. True) (\<lambda>_. True) (\<lambda>_. False) (Some ''old'')
      = (live', err)" by force
  moreover have "err \<noteq> None" using r by (auto simp: apply_guard_config_def)
  ultimately show ?thesis using apply_failure_restores [OF r] by auto
qed

definition proxy_guard_reset :: "bool \<Rightarrow> (guard_state \<Rightarrow> bool) \<Rightarrow> (unit \<Rightarrow> bool) \<Rightarrow> guard_error + guard_state" where
  "proxy_guard_reset enabled apply_ok remove_ok =
     (if enabled \<and> \<not> apply_ok new_guard_state then Inl Apply_error
      else if \<not> remove_ok () then Inl Save_error
      else Inr new_guard_state)"

lemma add_group_distinct: "distinct out \<Longrightarrow> distinct (add_group out n)"
  by (simp add: add_group_def)

lemma managed_fold_distinct:
  "distinct out \<Longrightarrow> distinct (foldl (\<lambda>out s. case g s of None \<Rightarrow> out | Some n \<Rightarrow> add_group out n) out secs)"
  by (induction secs arbitrary: out) (auto simp: add_group_distinct split: option.splits)

lemma managed_groups_distinct: "distinct (managed_groups friends exit_viable secs)"
  by (simp only: managed_groups_def Let_def) (simp add: add_group_distinct managed_fold_distinct)

end
