(* ===== verification/Geo_Db.thy ===== *)
theory Geo_Db
  imports Rule_Text Net_Addr
begin

unbundle bit_operations_syntax

section \<open>v2ray dat files\<close>

text \<open>
  \<open>internal/geodb/v2dat.go\<close>: the protobuf wire reader for \<open>geosite.dat\<close> and \<open>geoip.dat\<close>.
  A buffer is a byte list and an offset a natural number; a \<open>uint64\<close> is a 64-bit word, and the
  conversion \<open>int(n)\<close> and the sum \<open>next + int(n)\<close> are computed at 64 bits and read as signed.
  A file is \<^term>\<open>None\<close> when it does not exist. The message texts of errors are left out.
\<close>

datatype geo_error =
    No_file | File_too_big | Varint_truncated | Varint_overflow | Field_overrun | Fixed_truncated
  | Bad_wire_type | Empty_query | Not_found | Bad_ip_length

definition max_dat_bytes :: nat where "max_dat_bytes = 134217728"

definition read_file :: "bytes option \<Rightarrow> geo_error + bytes" where
  "read_file file = (case file of None \<Rightarrow> Inl No_file
     | Some b \<Rightarrow> if length b > max_dat_bytes then Inl File_too_big else Inr b)"

subsection \<open>The wire format\<close>

function read_varint_from :: "bytes \<Rightarrow> nat \<Rightarrow> 64 word \<Rightarrow> nat \<Rightarrow> geo_error + 64 word \<times> nat" where
  "read_varint_from buf off v shift =
     (if off \<ge> length buf then Inl Varint_truncated
      else (let b = of_char (buf ! off) :: 64 word;
                v' = v OR push_bit shift (b AND 0x7F)
            in if b < 0x80 then Inr (v', off + 1)
               else if shift + 7 > 63 then Inl Varint_overflow
               else read_varint_from buf (off + 1) v' (shift + 7)))"
  by pat_completeness auto
termination by (relation "measure (\<lambda>(buf, off, v, shift). length buf - off)") auto

declare read_varint_from.simps [simp del]

definition read_varint :: "bytes \<Rightarrow> nat \<Rightarrow> geo_error + 64 word \<times> nat" where
  "read_varint buf off = read_varint_from buf off 0 0"

definition read_bytes_field :: "bytes \<Rightarrow> nat \<Rightarrow> geo_error + bytes \<times> nat" where
  "read_bytes_field buf off =
     andthen (read_varint buf off) (\<lambda>(n, next).
       let end = sint (of_nat next + n)
       in if end < int next \<or> int (length buf) < end then Inl Field_overrun
          else Inr (take (nat end - next) (drop next buf), nat end))"

definition skip_field :: "bytes \<Rightarrow> nat \<Rightarrow> 64 word \<Rightarrow> geo_error + nat" where
  "skip_field buf off wire =
     (if wire = 0 then andthen (read_varint buf off) (\<lambda>(v, next). Inr next)
      else if wire = 1 then if off + 8 > length buf then Inl Fixed_truncated else Inr (off + 8)
      else if wire = 2 then
        andthen (read_varint buf off) (\<lambda>(n, next).
          let end = sint (of_nat next + n)
          in if end < int next \<or> int (length buf) < end then Inl Field_overrun else Inr (nat end))
      else if wire = 5 then if off + 4 > length buf then Inl Fixed_truncated else Inr (off + 4)
      else Inl Bad_wire_type)"

lemma read_varint_from_bounds:
  "read_varint_from buf off v shift = Inr (w, next) \<Longrightarrow> off < next \<and> next \<le> length buf"
proof (induction buf off v shift rule: read_varint_from.induct)
  case (1 buf off v shift)
  show ?case
  proof (cases "off < length buf \<and> \<not> of_char (buf ! off) < (0x80 :: 64 word) \<and> shift + 7 \<le> 63")
    case True
    then have "read_varint_from buf (off + 1) (v OR push_bit shift (of_char (buf ! off) AND 0x7F)) (shift + 7)
        = Inr (w, next)"
      using 1(2) by (simp add: read_varint_from.simps [of buf off] Let_def)
    then show ?thesis using 1(1) [OF _ refl refl] True by fastforce
  next
    case False
    then show ?thesis
      using 1(2) by (auto simp: read_varint_from.simps [of buf off] Let_def split: if_splits)
  qed
qed

lemma read_varint_bounds: "read_varint buf off = Inr (w, next) \<Longrightarrow> off < next \<and> next \<le> length buf"
  unfolding read_varint_def by (rule read_varint_from_bounds)

lemma read_bytes_field_bounds:
  "read_bytes_field buf off = Inr (p, next) \<Longrightarrow> off < next \<and> next \<le> length buf
     \<and> length p < next - off"
  by (auto simp: read_bytes_field_def andthen_eq_Inr Let_def dest!: read_varint_bounds split: if_splits)

lemma skip_field_bounds: "skip_field buf off wire = Inr next \<Longrightarrow> off \<le> next \<and> (off \<le> length buf \<longrightarrow> next \<le> length buf)"
  by (auto simp: skip_field_def andthen_eq_Inr Let_def dest!: read_varint_bounds split: if_splits)

subsection \<open>Walking the fields of a message\<close>

text \<open>
  The loops of the file have one shape: read a tag, take the fields the caller wants and skip
  the rest. \<open>want field wire\<close> is the caller's switch: take the field's bytes, take a varint, or
  leave it to \<open>skipField\<close>.
\<close>

datatype 'a taker = Take_bytes "bytes \<Rightarrow> 'a \<Rightarrow> geo_error + 'a" | Take_varint "64 word \<Rightarrow> 'a \<Rightarrow> 'a" | Skip_it

function field_loop ::
    "(64 word \<Rightarrow> 64 word \<Rightarrow> 'a taker) \<Rightarrow> bytes \<Rightarrow> nat \<Rightarrow> 'a \<Rightarrow> geo_error + 'a" where
  "field_loop want buf off acc =
     (if off \<ge> length buf then Inr acc
      else case read_varint buf off of
        Inl e \<Rightarrow> Inl e
      | Inr (tag, next) \<Rightarrow>
          (case want (drop_bit 3 tag) (tag AND 0x07) of
             Take_bytes f \<Rightarrow>
               (case read_bytes_field buf next of
                  Inl e \<Rightarrow> Inl e
                | Inr (payload, after) \<Rightarrow>
                    (case f payload acc of Inl e \<Rightarrow> Inl e | Inr acc' \<Rightarrow> field_loop want buf after acc'))
           | Take_varint f \<Rightarrow>
               (case read_varint buf next of
                  Inl e \<Rightarrow> Inl e
                | Inr (v, after) \<Rightarrow> field_loop want buf after (f v acc))
           | Skip_it \<Rightarrow>
               (case skip_field buf next (tag AND 0x07) of
                  Inl e \<Rightarrow> Inl e
                | Inr after \<Rightarrow> field_loop want buf after acc)))"
  by pat_completeness auto
termination
  by (relation "measure (\<lambda>(want, buf, off, acc). length buf - off)")
    (auto dest!: read_varint_bounds read_bytes_field_bounds skip_field_bounds)

declare field_loop.simps [simp del]

definition scan_entries :: "(bytes \<Rightarrow> 'a \<Rightarrow> geo_error + 'a) \<Rightarrow> bytes \<Rightarrow> 'a \<Rightarrow> geo_error + 'a" where
  "scan_entries cb buf acc =
     field_loop (\<lambda>field wire. if field = 1 \<and> wire = 2 then Take_bytes cb else Skip_it) buf 0 acc"

function entry_name_from :: "bytes \<Rightarrow> nat \<Rightarrow> geo_error + string" where
  "entry_name_from payload off =
     (if off \<ge> length payload then Inr []
      else case read_varint payload off of
        Inl e \<Rightarrow> Inl e
      | Inr (tag, next) \<Rightarrow>
          (if drop_bit 3 tag = 1 \<and> tag AND 0x07 = 2 then
             (case read_bytes_field payload next of Inl e \<Rightarrow> Inl e | Inr (b, _) \<Rightarrow> Inr b)
           else (case skip_field payload next (tag AND 0x07) of
               Inl e \<Rightarrow> Inl e
             | Inr after \<Rightarrow> entry_name_from payload after)))"
  by pat_completeness auto
termination
  by (relation "measure (\<lambda>(payload, off). length payload - off)")
    (auto dest!: read_varint_bounds skip_field_bounds)

declare entry_name_from.simps [simp del]

definition entry_name :: "bytes \<Rightarrow> geo_error + string" where
  "entry_name payload = entry_name_from payload 0"

subsection \<open>Listing and extracting\<close>

text \<open>The set of names is a list without duplicates until it is sorted.\<close>

definition list_entries :: "(string \<Rightarrow> string) \<Rightarrow> bytes option \<Rightarrow> geo_error + string list" where
  "list_entries lo file =
     andthen (read_file file) (\<lambda>buf.
       andthen (scan_entries (\<lambda>payload seen.
           case entry_name payload of
             Inl e \<Rightarrow> Inl e
           | Inr name \<Rightarrow> Inr (if name = [] then seen else List.insert (to_lower lo name) seen)) buf [])
         (\<lambda>seen. Inr (sort seen)))"

definition parse_domain :: "bytes \<Rightarrow> geo_error + rule \<times> bool" where
  "parse_domain payload =
     andthen (field_loop (\<lambda>field wire.
         if field = 1 \<and> wire = 0 then Take_varint (\<lambda>t (dtype, value). (t, value))
         else if field = 2 \<and> wire = 2 then Take_bytes (\<lambda>b (dtype, value). Inr (dtype, b))
         else Skip_it) payload 0 (0, []))
       (\<lambda>(dtype, value).
         if value = [] then Inr (zero_rule, False)
         else if dtype = 0 then Inr (mk_rule Domain_Keyword value True True, False)
         else if dtype = 2 then Inr (mk_rule Domain_Suffix value True True, False)
         else if dtype = 3 then Inr (mk_rule Domain value True True, False)
         else Inr (zero_rule, True))"

definition take_domain :: "bytes \<Rightarrow> rule list \<times> nat \<Rightarrow> geo_error + rule list \<times> nat" where
  "take_domain d acc =
     andthen (parse_domain d) (\<lambda>(r, is_regex).
       Inr (if is_regex then (fst acc, snd acc + 1)
            else if rl_value r \<noteq> [] then (fst acc @ [r], snd acc) else acc))"

definition extract_geosite ::
    "(string \<Rightarrow> string) \<Rightarrow> bytes option \<Rightarrow> string \<Rightarrow> geo_error + rule list \<times> nat" where
  "extract_geosite lo file category =
     andthen (read_file file) (\<lambda>buf.
       let want = to_lower lo (trim_space category)
       in if want = [] then Inl Empty_query
          else andthen (scan_entries (\<lambda>payload (found, acc).
              andthen (entry_name payload) (\<lambda>name.
                if to_lower lo name \<noteq> want then Inr (found, acc)
                else andthen (field_loop (\<lambda>field wire.
                       if field = 2 \<and> wire = 2 then Take_bytes take_domain else Skip_it) payload 0 acc)
                     (\<lambda>acc'. Inr (True, acc')))) buf (False, [], 0))
            (\<lambda>(found, acc). if found then Inr acc else Inl Not_found))"

definition net_ip4 :: "bytes \<Rightarrow> 128 word" where
  "net_ip4 b = as16 (V4 (word_of_nat (foldl (\<lambda>a c. 256 * a + of_char c) 0 b)))"

definition net_ip16 :: "bytes \<Rightarrow> 128 word" where
  "net_ip16 b = word_of_nat (foldl (\<lambda>a c. 256 * a + of_char c) 0 b)"

definition cidr_rule :: "rule_type \<Rightarrow> 128 word \<Rightarrow> 64 word \<Rightarrow> rule" where
  "cidr_rule ty ip prefix =
     (mk_rule ty (ip_string ip @ ''/'' @ dec_of (unat prefix)) True True) \<lparr>rl_no_resolve := True\<rparr>"

definition parse_geo_cidr :: "bytes \<Rightarrow> geo_error + rule" where
  "parse_geo_cidr payload =
     andthen (field_loop (\<lambda>field wire.
         if field = 1 \<and> wire = 2 then Take_bytes (\<lambda>b (ip, prefix). Inr (b, prefix))
         else if field = 2 \<and> wire = 0 then Take_varint (\<lambda>p (ip, prefix). (ip, p))
         else Skip_it) payload 0 ([], 0))
       (\<lambda>(ip, prefix).
         if ip = [] then Inr zero_rule
         else if length ip = 4 then Inr (cidr_rule Ip_Cidr (net_ip4 ip) prefix)
         else if length ip = 16 then Inr (cidr_rule Ip_Cidr6 (net_ip16 ip) prefix)
         else Inl Bad_ip_length)"

definition take_cidr :: "bytes \<Rightarrow> rule list \<Rightarrow> geo_error + rule list" where
  "take_cidr cidr acc =
     andthen (parse_geo_cidr cidr) (\<lambda>r. Inr (if rl_value r \<noteq> [] then acc @ [r] else acc))"

definition extract_geoip ::
    "(string \<Rightarrow> string) \<Rightarrow> bytes option \<Rightarrow> string \<Rightarrow> geo_error + rule list" where
  "extract_geoip lo file country =
     andthen (read_file file) (\<lambda>buf.
       let want = to_lower lo (trim_space country)
       in if want = [] then Inl Empty_query
          else andthen (scan_entries (\<lambda>payload (found, acc).
              andthen (entry_name payload) (\<lambda>name.
                if to_lower lo name \<noteq> want then Inr (found, acc)
                else andthen (field_loop (\<lambda>field wire.
                       if field = 2 \<and> wire = 2 then Take_bytes take_cidr else Skip_it) payload 0 acc)
                     (\<lambda>acc'. Inr (True, acc')))) buf (False, []))
            (\<lambda>(found, acc). if found then Inr acc else Inl Not_found))"

end
