(* ===== verification/Geo_Reader.thy ===== *)
theory Geo_Reader
  imports Geo_Db
begin

section \<open>What the dat reader returns\<close>

text \<open>
  An encoder for the two list formats, the lemma that a walk over encoded records folds over the
  records (\<open>field_loop_items\<close>), the round trips of the public functions of \<open>v2dat.go\<close> that
  follow from it, and the bounds of the reader on any input.
\<close>

subsection \<open>An encoder\<close>

function put_varint :: "nat \<Rightarrow> bytes" where
  "put_varint n = (if n < 128 then [char_of n] else char_of (128 + n mod 128) # put_varint (n div 128))"
  by pat_completeness auto
termination by (relation "measure id") auto

declare put_varint.simps [simp del]

lemma unat_and_7F: "unat (w AND 0x7F :: 64 word) = unat w mod 128"
proof -
  have m: "(0x7F :: 64 word) = mask 7" by (simp add: mask_eq_exp_minus_1)
  have "unat (w AND mask 7) = take_bit 7 (unat w)"
    by (simp only: take_bit_eq_mask [symmetric] unsigned_take_bit_eq)
  then show ?thesis unfolding m by (simp add: take_bit_eq_mod)
qed

lemma word_or_shift:
  assumes "m < 2 ^ s" and "x < 128" and "m + x * 2 ^ s < 2 ^ 64" and "s \<le> 63"
  shows "(word_of_nat m :: 64 word) OR push_bit s (word_of_nat x AND 0x7F) = word_of_nat (m + x * 2 ^ s)"
proof -
  have x: "(word_of_nat x :: 64 word) AND 0x7F = word_of_nat x"
  proof -
    have "unat (word_of_nat x :: 64 word) = x" using assms(2) by (intro of_nat_inverse [OF refl]) simp
    then show ?thesis using assms(2) by (simp add: word_unat_eq_iff unat_and_7F)
  qed
  have disj: "m AND push_bit s x = 0"
  proof (rule bit_eqI)
    fix i
    have "m = take_bit s m" using assms(1) by (simp add: take_bit_nat_eq_self)
    then have "bit m i \<Longrightarrow> i < s" by (metis bit_take_bit_iff)
    then show "bit (m AND push_bit s x) i = bit 0 i"
      by (auto simp: bit_and_iff bit_push_bit_iff)
  qed
  have "(word_of_nat m :: 64 word) OR push_bit s (word_of_nat x) = word_of_nat (m OR push_bit s x)"
    by (simp add: of_nat_or_eq of_nat_push_bit)
  also have "m OR push_bit s x = m + push_bit s x" using disj by (metis disjunctive_add_eq_or)
  finally show ?thesis using x by (simp add: push_bit_eq_mult)
qed

lemma of_char_word: "n < 256 \<Longrightarrow> (of_char (char_of n) :: 64 word) = word_of_nat n"
proof -
  assume n: "n < (256 :: nat)"
  have "(of_char (char_of n) :: nat) = n" using n by simp
  then show ?thesis by (metis of_nat_of_char)
qed

lemma word_lt_128: "n < 256 \<Longrightarrow> (word_of_nat n :: 64 word) < 0x80 \<longleftrightarrow> n < 128"
proof -
  assume n: "n < (256 :: nat)"
  have "unat (word_of_nat n :: 64 word) = n" using n by (intro of_nat_inverse [OF refl]) simp
  then show ?thesis by (simp add: word_less_nat_alt)
qed

lemma and_7F_high: "n < 128 \<Longrightarrow> (word_of_nat (128 + n) :: 64 word) AND 0x7F = word_of_nat n AND 0x7F"
proof -
  assume n: "n < (128 :: nat)"
  have "unat (word_of_nat (128 + n) :: 64 word) = 128 + n" using n by (intro of_nat_inverse [OF refl]) simp
  moreover have "unat (word_of_nat n :: 64 word) = n" using n by (intro of_nat_inverse [OF refl]) simp
  ultimately show ?thesis by (simp only: word_unat_eq_iff unat_and_7F) simp
qed

lemma read_put_from:
  "m < 2 ^ s \<Longrightarrow> m + n * 2 ^ s < 2 ^ 64 \<Longrightarrow> s \<le> 63 \<Longrightarrow>
   read_varint_from (pre @ put_varint n @ post) (length pre) (word_of_nat m) s =
     Inr (word_of_nat (m + n * 2 ^ s), length pre + length (put_varint n))"
proof (induction n arbitrary: pre m s rule: put_varint.induct)
  case (1 n)
  show ?case
  proof (cases "n < 128")
    case True
    have "word_of_nat m OR push_bit s (word_of_nat n AND 0x7F) = (word_of_nat (m + n * 2 ^ s) :: 64 word)"
      by (rule word_or_shift [OF 1(2) True 1(3,4)])
    then show ?thesis using True
      by (simp add: put_varint.simps [of n] read_varint_from.simps [of _ "length pre"] of_char_word word_lt_128
          Let_def del: of_char_of)
  next
    case False
    let ?c = "char_of (128 + n mod 128)"
    let ?m = "m + n mod 128 * 2 ^ s"
    have big: "128 * 2 ^ s \<le> n * 2 ^ s" using False by (intro mult_le_mono1) simp
    have s: "s + 7 \<le> 63"
    proof (rule ccontr)
      assume "\<not> s + 7 \<le> 63"
      then have "(2 :: nat) ^ 57 \<le> 2 ^ s" by (intro power_increasing) auto
      then have "128 * 2 ^ 57 \<le> n * 2 ^ s" using big by (meson le_trans mult_le_mono2)
      moreover have "(128 :: nat) * 2 ^ 57 = 2 ^ 64" by simp
      ultimately show False using 1(3) by linarith
    qed
    have n: "n = n mod 128 + 128 * (n div 128)" by simp
    have e: "?m + n div 128 * 2 ^ (s + 7) = m + n * 2 ^ s"
    proof -
      have "m + a * p + b * (p * 128) = m + (a + 128 * b) * p" for a b p :: nat
        by (simp add: algebra_simps)
      from this [of "n mod 128" "2 ^ s" "n div 128"] show ?thesis
        by (simp only: mod_mult_div_eq power_add) simp
    qed
    have small: "?m < 2 ^ (s + 7)"
    proof -
      have "n mod 128 * 2 ^ s \<le> 127 * 2 ^ s" by (intro mult_le_mono1) simp
      then have "?m < 128 * 2 ^ s" using 1(2) by linarith
      then show ?thesis by (simp add: power_add)
    qed
    have mod: "n mod 128 < 128" by simp
    have step: "(word_of_nat m :: 64 word) OR push_bit s (of_char ?c AND 0x7F) = word_of_nat ?m"
    proof -
      have "?m < 2 ^ 64" using e 1(3) by linarith
      from word_or_shift [OF 1(2) mod this 1(4)] show ?thesis
        using mod by (simp only: of_char_word and_7F_high)
    qed
    have notlt: "\<not> (of_char ?c :: 64 word) < 0x80" using mod by (simp only: of_char_word word_lt_128)
    have put: "put_varint n = ?c # put_varint (n div 128)" using False by (simp add: put_varint.simps [of n])
    have get: "(pre @ put_varint n @ post) ! length pre = ?c" by (simp add: put)
    have "read_varint_from (pre @ put_varint n @ post) (length pre) (word_of_nat m) s =
        read_varint_from (pre @ put_varint n @ post) (length pre + 1) (word_of_nat ?m) (s + 7)"
      using s notlt step get by (subst read_varint_from.simps) (simp add: put Let_def)
    also have "pre @ put_varint n @ post = (pre @ [?c]) @ put_varint (n div 128) @ post" by (simp add: put)
    also have "length pre + 1 = length (pre @ [?c])" by simp
    also have "read_varint_from ((pre @ [?c]) @ put_varint (n div 128) @ post) (length (pre @ [?c])) (word_of_nat ?m) (s + 7)
        = Inr (word_of_nat (?m + n div 128 * 2 ^ (s + 7)), length (pre @ [?c]) + length (put_varint (n div 128)))"
    proof (rule 1(1) [OF False small _ s])
      show "?m + n div 128 * 2 ^ (s + 7) < 2 ^ 64" unfolding e by (rule 1(3))
    qed
    finally show ?thesis by (simp only: e) (simp add: put)
  qed
qed

lemma read_put:
  "n < 2 ^ 64 \<Longrightarrow> read_varint (pre @ put_varint n @ post) (length pre) =
     Inr (word_of_nat n, length pre + length (put_varint n))"
  using read_put_from [of 0 0 n pre post] by (simp add: read_varint_def)

text \<open>The records of a message: a byte field, a varint field, and the two fixed widths.\<close>

datatype item = Bytes_item nat bytes | Uint_item nat nat | Fixed64_item nat bytes | Fixed32_item nat bytes

fun item_ok :: "item \<Rightarrow> bool" where
  "item_ok (Bytes_item f p) \<longleftrightarrow> f < 2 ^ 60"
| "item_ok (Uint_item f n) \<longleftrightarrow> f < 2 ^ 60 \<and> n < 2 ^ 64"
| "item_ok (Fixed64_item f p) \<longleftrightarrow> f < 2 ^ 60 \<and> length p = 8"
| "item_ok (Fixed32_item f p) \<longleftrightarrow> f < 2 ^ 60 \<and> length p = 4"

fun put_item :: "item \<Rightarrow> bytes" where
  "put_item (Bytes_item f p) = put_varint (8 * f + 2) @ put_varint (length p) @ p"
| "put_item (Uint_item f n) = put_varint (8 * f) @ put_varint n"
| "put_item (Fixed64_item f p) = put_varint (8 * f + 1) @ p"
| "put_item (Fixed32_item f p) = put_varint (8 * f + 5) @ p"

definition put_items :: "item list \<Rightarrow> bytes" where
  "put_items is = concat (map put_item is)"

lemma put_items_simps [simp]:
  "put_items [] = []" "put_items (i # is) = put_item i @ put_items is"
  by (simp_all add: put_items_def)

text \<open>What a walk over the records should do.\<close>

fun fold_item :: "(64 word \<Rightarrow> 64 word \<Rightarrow> 'a taker) \<Rightarrow> item \<Rightarrow> 'a \<Rightarrow> geo_error + 'a" where
  "fold_item want (Bytes_item f p) acc =
     (case want (word_of_nat f) 2 of Take_bytes g \<Rightarrow> g p acc | _ \<Rightarrow> Inr acc)"
| "fold_item want (Uint_item f n) acc =
     (case want (word_of_nat f) 0 of Take_varint g \<Rightarrow> Inr (g (word_of_nat n) acc) | _ \<Rightarrow> Inr acc)"
| "fold_item want (Fixed64_item f p) acc = Inr acc"
| "fold_item want (Fixed32_item f p) acc = Inr acc"

fun fold_items :: "(64 word \<Rightarrow> 64 word \<Rightarrow> 'a taker) \<Rightarrow> item list \<Rightarrow> 'a \<Rightarrow> geo_error + 'a" where
  "fold_items want [] acc = Inr acc"
| "fold_items want (i # is) acc = andthen (fold_item want i acc) (fold_items want is)"

text \<open>A switch asks for bytes at wire type 2 and for a varint at wire type 0 only.\<close>

definition well_typed :: "(64 word \<Rightarrow> 64 word \<Rightarrow> 'a taker) \<Rightarrow> bool" where
  "well_typed want \<longleftrightarrow> (\<forall>f w. case want f w of Take_bytes g \<Rightarrow> w = 2 | Take_varint g \<Rightarrow> w = 0 | Skip_it \<Rightarrow> True)"

lemma tag_parts:
  assumes "f < 2 ^ 60" and "w < 8"
  shows "drop_bit 3 (word_of_nat (8 * f + w) :: 64 word) = word_of_nat f"
    and "(word_of_nat (8 * f + w) :: 64 word) AND 0x07 = word_of_nat w"
proof -
  have b: "8 * f + w < 2 ^ 64" using assms by simp
  have u: "unat (word_of_nat (8 * f + w) :: 64 word) = 8 * f + w"
    using b by (intro of_nat_inverse [OF refl]) simp
  have uf: "unat (word_of_nat f :: 64 word) = f" using assms by (intro of_nat_inverse [OF refl]) simp
  have uw: "unat (word_of_nat w :: 64 word) = w" using assms by (intro of_nat_inverse [OF refl]) simp
  have "unat (drop_bit 3 (word_of_nat (8 * f + w) :: 64 word)) = (8 * f + w) div 2 ^ 3"
    using b by (simp only: unsigned_drop_bit_eq u) (simp add: drop_bit_eq_div take_bit_nat_eq_self)
  then show "drop_bit 3 (word_of_nat (8 * f + w) :: 64 word) = word_of_nat f"
    using assms(2) uf by (simp add: word_unat_eq_iff)
  have m: "(0x07 :: 64 word) = mask 3" by (simp add: mask_eq_exp_minus_1)
  have "unat ((word_of_nat (8 * f + w) :: 64 word) AND mask 3) = take_bit 3 (8 * f + w)"
    by (simp only: take_bit_eq_mask [symmetric] unsigned_take_bit_eq u)
  then show "(word_of_nat (8 * f + w) :: 64 word) AND 0x07 = word_of_nat w"
    unfolding m using assms(2) uw by (simp add: word_unat_eq_iff take_bit_eq_mod)
qed

lemma sint_sum:
  assumes "a + n < 2 ^ 63"
  shows "sint (of_nat a + of_nat n :: 64 word) = int (a + n)"
proof -
  have u: "unat (word_of_nat (a + n) :: 64 word) = a + n" using assms by (intro of_nat_inverse [OF refl]) simp
  have "sint (word_of_nat (a + n) :: 64 word) = int (a + n)"
    using assms u by (simp only: sint_uint uint_nat) (simp add: signed_take_bit_int_eq_self)
  then show ?thesis by simp
qed

lemma read_put_bytes:
  assumes "length (pre @ put_varint (length p) @ p @ post) < 2 ^ 63"
  shows "read_bytes_field (pre @ put_varint (length p) @ p @ post) (length pre) =
     Inr (p, length pre + length (put_varint (length p)) + length p)"
proof -
  have n: "length p < 2 ^ 64" using assms by simp
  have "sint (of_nat (length pre + length (put_varint (length p))) + of_nat (length p) :: 64 word) =
      int (length pre + length (put_varint (length p)) + length p)"
    using assms by (intro sint_sum) simp
  then show ?thesis using read_put [OF n, of pre "p @ post"]
    by (simp add: read_bytes_field_def Let_def nat_add_distrib)
qed

lemma skip_put_bytes:
  assumes "length (pre @ put_varint (length p) @ p @ post) < 2 ^ 63"
  shows "skip_field (pre @ put_varint (length p) @ p @ post) (length pre) 2 =
     Inr (length pre + length (put_varint (length p)) + length p)"
proof -
  have n: "length p < 2 ^ 64" using assms by simp
  have "sint (of_nat (length pre + length (put_varint (length p))) + of_nat (length p) :: 64 word) =
      int (length pre + length (put_varint (length p)) + length p)"
    using assms by (intro sint_sum) simp
  then show ?thesis using read_put [OF n, of pre "p @ post"]
    by (simp add: skip_field_def Let_def nat_add_distrib)
qed

lemma put_varint_nonempty [simp]: "put_varint n \<noteq> []"
  by (subst put_varint.simps) simp

lemma put_varint_pos [simp]: "0 < length (put_varint n)"
  by simp

lemma put_item_nonempty [simp]: "put_item i \<noteq> []"
  by (cases i) auto

fun tag_of :: "item \<Rightarrow> nat \<times> nat" where
  "tag_of (Bytes_item f p) = (f, 2)"
| "tag_of (Uint_item f n) = (f, 0)"
| "tag_of (Fixed64_item f p) = (f, 1)"
| "tag_of (Fixed32_item f p) = (f, 5)"

fun body_of :: "item \<Rightarrow> bytes" where
  "body_of (Bytes_item f p) = put_varint (length p) @ p"
| "body_of (Uint_item f n) = put_varint n"
| "body_of (Fixed64_item f p) = p"
| "body_of (Fixed32_item f p) = p"

lemma put_item_parts: "put_item i = put_varint (8 * fst (tag_of i) + snd (tag_of i)) @ body_of i"
  by (cases i) auto

lemma tag_of_ok: "item_ok i \<Longrightarrow> fst (tag_of i) < 2 ^ 60 \<and> snd (tag_of i) < 8"
  by (cases i) auto

text \<open>Reading the tag of the next record.\<close>

lemma read_tag:
  assumes "item_ok i"
  shows "read_varint (pre @ put_item i @ post) (length pre) =
      Inr (word_of_nat (8 * fst (tag_of i) + snd (tag_of i)), length (pre @ put_varint (8 * fst (tag_of i) + snd (tag_of i))))"
    and "drop_bit 3 (word_of_nat (8 * fst (tag_of i) + snd (tag_of i)) :: 64 word) = word_of_nat (fst (tag_of i))"
    and "(word_of_nat (8 * fst (tag_of i) + snd (tag_of i)) :: 64 word) AND 0x07 = word_of_nat (snd (tag_of i))"
proof -
  have b: "8 * fst (tag_of i) + snd (tag_of i) < 2 ^ 64"
    using tag_of_ok [OF assms] by simp
  show "read_varint (pre @ put_item i @ post) (length pre) =
      Inr (word_of_nat (8 * fst (tag_of i) + snd (tag_of i)), length (pre @ put_varint (8 * fst (tag_of i) + snd (tag_of i))))"
    using read_put [OF b, of pre "body_of i @ post"] unfolding put_item_parts by simp
qed (use tag_parts tag_of_ok [OF assms] in blast)+

lemma skip_item:
  assumes "item_ok i" and "length (pre @ put_item i @ post) < 2 ^ 63"
  shows "skip_field (pre @ put_item i @ post) (length (pre @ put_varint (8 * fst (tag_of i) + snd (tag_of i))))
      (word_of_nat (snd (tag_of i))) = Inr (length (pre @ put_item i))"
proof (cases i)
  case (Bytes_item f p)
  then show ?thesis
    using skip_put_bytes [of "pre @ put_varint (8 * f + 2)" p post] assms(2) by simp
next
  case (Uint_item f n)
  then have "n < 2 ^ 64" using assms(1) by simp
  from read_put [OF this, of "pre @ put_varint (8 * f)" post] show ?thesis
    using Uint_item by (simp add: skip_field_def)
qed (use assms(1) in \<open>simp_all add: skip_field_def\<close>)

lemma well_typedD:
  assumes "well_typed want"
  shows "want f w = Take_bytes g \<Longrightarrow> w = 2" and "want f w = Take_varint h \<Longrightarrow> w = 0"
proof -
  have "case want f w of Take_bytes g \<Rightarrow> w = 2 | Take_varint g \<Rightarrow> w = 0 | Skip_it \<Rightarrow> True"
    using assms unfolding well_typed_def by blast
  then show "want f w = Take_bytes g \<Longrightarrow> w = 2" and "want f w = Take_varint h \<Longrightarrow> w = 0"
    by simp_all
qed

lemma field_loop_items:
  assumes "well_typed want"
  shows "\<forall>i \<in> set is. item_ok i \<Longrightarrow> length (pre @ put_items is) < 2 ^ 63 \<Longrightarrow>
    field_loop want (pre @ put_items is) (length pre) acc = fold_items want is acc"
proof (induction "is" arbitrary: pre acc)
  case Nil
  then show ?case by (simp add: field_loop.simps)
next
  case (Cons i "is")
  let ?buf = "pre @ put_item i @ put_items is"
  let ?next = "length (pre @ put_varint (8 * fst (tag_of i) + snd (tag_of i)))"
  have ok: "item_ok i" and len: "length ?buf < 2 ^ 63" using Cons.prems by auto
  note tag = read_tag(1) [OF ok, of pre "put_items is"] read_tag(2,3) [OF ok]
  have rec: "field_loop want ?buf (length (pre @ put_item i)) acc' = fold_items want is acc'" for acc'
    using Cons.IH [of "pre @ put_item i" acc'] Cons.prems by simp
  have nonempty: "\<not> length ?buf \<le> length pre" by simp
  note step = field_loop.simps [of want ?buf "length pre" acc] tag if_not_P [OF nonempty] sum.case prod.case
  have "field_loop want ?buf (length pre) acc = andthen (fold_item want i acc) (fold_items want is)"
  proof (cases "want (word_of_nat (fst (tag_of i))) (word_of_nat (snd (tag_of i)))")
    case Skip_it
    then have "fold_item want i acc = Inr acc" by (cases i) auto
    then show ?thesis by (simp only: step Skip_it taker.case skip_item [OF ok len] rec andthen_Inr)
  next
    case (Take_bytes g)
    then have "(word_of_nat (snd (tag_of i)) :: 64 word) = 2" by (rule well_typedD(1) [OF assms])
    then obtain f p where i: "i = Bytes_item f p" by (cases i) auto
    have read: "read_bytes_field ?buf ?next = Inr (p, length (pre @ put_item i))"
      using read_put_bytes [of "pre @ put_varint (8 * f + 2)" p "put_items is"] len i by simp
    have "field_loop want ?buf (length pre) acc =
        (case g p acc of Inl e \<Rightarrow> Inl e | Inr acc' \<Rightarrow> fold_items want is acc')"
      by (cases "g p acc") (simp_all only: step Take_bytes taker.case read rec)
    then show ?thesis using Take_bytes i by (simp add: andthen_def)
  next
    case (Take_varint g)
    then have "(word_of_nat (snd (tag_of i)) :: 64 word) = 0" by (rule well_typedD(2) [OF assms])
    then obtain f n where i: "i = Uint_item f n" by (cases i) auto
    have read: "read_varint ?buf ?next = Inr (word_of_nat n, length (pre @ put_item i))"
      using read_put [of n "pre @ put_varint (8 * f)" "put_items is"] ok i by simp
    have "field_loop want ?buf (length pre) acc = fold_items want is (g (word_of_nat n) acc)"
      by (simp only: step Take_varint taker.case read rec)
    then show ?thesis using Take_varint i by simp
  qed
  then show ?case by simp
qed

lemma field_loop_put:
  "well_typed want \<Longrightarrow> \<forall>i \<in> set is. item_ok i \<Longrightarrow> length (put_items is) < 2 ^ 63 \<Longrightarrow>
    field_loop want (put_items is) 0 acc = fold_items want is acc"
  using field_loop_items [of want "is" "[]"] by simp

fun items_name :: "item list \<Rightarrow> string" where
  "items_name [] = []"
| "items_name (Bytes_item f p # is) = (if f = 1 then p else items_name is)"
| "items_name (i # is) = items_name is"

lemma word_of_nat_1: "f < 2 ^ 60 \<Longrightarrow> (word_of_nat f :: 64 word) = 1 \<longleftrightarrow> f = 1"
proof -
  assume f: "f < (2 :: nat) ^ 60"
  have "unat (word_of_nat f :: 64 word) = f" using f by (intro of_nat_inverse [OF refl]) simp
  then show ?thesis by (auto simp: word_unat_eq_iff)
qed

lemma entry_name_items:
  "\<forall>i \<in> set is. item_ok i \<Longrightarrow> length (pre @ put_items is) < 2 ^ 63 \<Longrightarrow>
    entry_name_from (pre @ put_items is) (length pre) = Inr (items_name is)"
proof (induction "is" arbitrary: pre)
  case Nil
  then show ?case by (simp add: entry_name_from.simps)
next
  case (Cons i "is")
  let ?buf = "pre @ put_item i @ put_items is"
  let ?next = "length (pre @ put_varint (8 * fst (tag_of i) + snd (tag_of i)))"
  have ok: "item_ok i" and len: "length ?buf < 2 ^ 63" using Cons.prems by auto
  note tag = read_tag(1) [OF ok, of pre "put_items is"] read_tag(2,3) [OF ok]
  have rec: "entry_name_from ?buf (length (pre @ put_item i)) = Inr (items_name is)"
    using Cons.IH [of "pre @ put_item i"] Cons.prems by simp
  have nonempty: "\<not> length ?buf \<le> length pre" by simp
  note step = entry_name_from.simps [of ?buf "length pre"] tag if_not_P [OF nonempty] sum.case prod.case
  show ?case
  proof (cases "\<exists>p. i = Bytes_item 1 p")
    case True
    then obtain p where i: "i = Bytes_item 1 p" by blast
    have "read_bytes_field ?buf ?next = Inr (p, length (pre @ put_item i))"
      using read_put_bytes [of "pre @ put_varint (8 * 1 + 2)" p "put_items is"] len i by simp
    moreover have "(word_of_nat (fst (tag_of i)) :: 64 word) = 1 \<and> (word_of_nat (snd (tag_of i)) :: 64 word) = 2"
      using i by simp
    ultimately have "entry_name_from ?buf (length pre) = Inr p"
      by (simp only: step) simp
    then show ?thesis using i by simp
  next
    case False
    have "\<not> ((word_of_nat (fst (tag_of i)) :: 64 word) = 1 \<and> (word_of_nat (snd (tag_of i)) :: 64 word) = 2)"
      using False ok by (cases i) (auto simp: word_of_nat_1)
    then have "entry_name_from ?buf (length pre) = Inr (items_name is)"
      by (simp only: step if_False skip_item [OF ok len] rec)
    moreover have "items_name (i # is) = items_name is" using False by (cases i) auto
    ultimately show ?thesis by simp
  qed
qed

lemma entry_name_put:
  "\<forall>i \<in> set is. item_ok i \<Longrightarrow> length (put_items is) < 2 ^ 63 \<Longrightarrow>
    entry_name (put_items is) = Inr (items_name is)"
  using entry_name_items [of "is" "[]"] by (simp add: entry_name_def)

subsection \<open>Round trips\<close>

text \<open>
  Reading the base-128 encoding of a 64-bit value anywhere in a buffer returns the value
  and the offset behind it.
\<close>

theorem varint_round_trip:
  assumes "n < 2 ^ 64"
  shows "read_varint (pre @ put_varint n @ post) (length pre) =
    Inr (word_of_nat n, length pre + length (put_varint n))"
  using assms by (rule read_put)

text \<open>A site list: each site has a name and domains of a type, a value and attributes.\<close>

type_synonym site_domain = "nat \<times> string \<times> bytes list"

definition domain_items :: "site_domain \<Rightarrow> item list" where
  "domain_items d = (case d of (t, v, attrs) \<Rightarrow>
     [Uint_item 1 t, Bytes_item 2 v] @ map (Bytes_item 3) attrs)"

definition site_items :: "string \<times> site_domain list \<Rightarrow> item list" where
  "site_items s = Bytes_item 1 (fst s) # map (\<lambda>d. Bytes_item 2 (put_items (domain_items d))) (snd s)"

definition put_sites :: "(string \<times> site_domain list) list \<Rightarrow> bytes" where
  "put_sites ss = put_items (map (\<lambda>s. Bytes_item 1 (put_items (site_items s))) ss)"

definition domain_rules :: "site_domain \<Rightarrow> rule list" where
  "domain_rules d = (case d of (t, v, attrs) \<Rightarrow>
     if v = [] then [] else if t = 0 then [mk_rule Domain_Keyword v True True]
     else if t = 2 then [mk_rule Domain_Suffix v True True]
     else if t = 3 then [mk_rule Domain v True True] else [])"

definition is_regex :: "site_domain \<Rightarrow> bool" where
  "is_regex d = (case d of (t, v, attrs) \<Rightarrow> v \<noteq> [] \<and> t \<notin> {0, 2, 3})"

lemma put_length_member:
  "i \<in> set is \<Longrightarrow> length (put_item i) \<le> length (put_items is)"
  by (induction "is") auto

lemma bytes_item_length: "length p \<le> length (put_item (Bytes_item f p))"
  by simp

lemma word_64_eq: "m < 2 ^ 64 \<Longrightarrow> n < 2 ^ 64 \<Longrightarrow> (word_of_nat m :: 64 word) = word_of_nat n \<longleftrightarrow> m = n"
proof -
  assume a: "m < (2 :: nat) ^ 64" "n < (2 :: nat) ^ 64"
  have "unat (word_of_nat m :: 64 word) = m" "unat (word_of_nat n :: 64 word) = n"
    using a by (intro of_nat_inverse [OF refl]; simp)+
  then show ?thesis by (metis word_unat_eq_iff)
qed

lemma word_64_nums:
  assumes "n < 2 ^ 64"
  shows "(word_of_nat n :: 64 word) = 0 \<longleftrightarrow> n = 0" "(word_of_nat n :: 64 word) = 2 \<longleftrightarrow> n = 2"
    "(word_of_nat n :: 64 word) = 3 \<longleftrightarrow> n = 3"
  using word_64_eq [OF assms, of 0] word_64_eq [OF assms, of 2] word_64_eq [OF assms, of 3] by simp_all

lemma parse_domain_put:
  assumes "fst d < 2 ^ 64" and "length (put_items (domain_items d)) < 2 ^ 63"
  shows "parse_domain (put_items (domain_items d)) =
     Inr (if domain_rules d = [] then zero_rule else hd (domain_rules d), is_regex d)"
proof -
  obtain t v attrs where d: "d = (t, v, attrs)" by (cases d) auto
  let ?want = "\<lambda>field wire :: 64 word.
         if field = (1 :: 64 word) \<and> wire = 0 then Take_varint (\<lambda>t (dtype :: 64 word, value :: string). (t, value))
         else if field = 2 \<and> wire = 2 then Take_bytes (\<lambda>b (dtype, value). Inr (dtype, b))
         else Skip_it"
  have w: "well_typed ?want" by (simp add: well_typed_def)
  have ok: "\<forall>i \<in> set (domain_items d). item_ok i" using assms(1) d by (auto simp: domain_items_def)
  have skip: "fold_items ?want (map (Bytes_item 3) attrs) acc = Inr acc" for acc
    by (induction attrs) auto
  have "field_loop ?want (put_items (domain_items d)) 0 (0, []) = Inr (word_of_nat t, v)"
    unfolding field_loop_put [OF w ok assms(2)] by (simp add: d domain_items_def skip)
  then show ?thesis using assms(1)
    by (simp add: parse_domain_def d domain_rules_def is_regex_def word_64_nums)
qed

lemma take_domain_put:
  assumes "fst d < 2 ^ 64" and "length (put_items (domain_items d)) < 2 ^ 63"
  shows "take_domain (put_items (domain_items d)) acc =
     Inr (fst acc @ domain_rules d, snd acc + (if is_regex d then 1 else 0))"
  unfolding take_domain_def parse_domain_put [OF assms] andthen_Inr prod.case
  by (cases d) (auto simp: domain_rules_def is_regex_def mk_rule_def zero_rule_def)

lemma site_lengths:
  assumes "length (put_items (site_items s)) < 2 ^ 63" and "x \<in> set (snd s)"
  shows "length (put_items (domain_items x)) < 2 ^ 63"
  using put_length_member [of "Bytes_item 2 (put_items (domain_items x))" "site_items s"] assms
    bytes_item_length [of "put_items (domain_items x)" 2]
  by (auto simp: site_items_def)

lemma fold_domains:
  assumes "\<forall>x \<in> set ds. fst x < 2 ^ 64 \<and> length (put_items (domain_items x)) < 2 ^ 63"
  shows "fold_items (\<lambda>field wire. if field = 2 \<and> wire = 2 then Take_bytes take_domain else Skip_it)
      (map (\<lambda>x. Bytes_item 2 (put_items (domain_items x))) ds) acc =
     Inr (fst acc @ concat (map domain_rules ds), snd acc + length (filter is_regex ds))"
  using assms
proof (induction ds arbitrary: acc)
  case (Cons x ds)
  then show ?case by (simp add: take_domain_put)
qed simp

lemma site_walk:
  assumes "\<forall>x \<in> set (snd s). fst x < 2 ^ 64" and "length (put_items (site_items s)) < 2 ^ 63"
  shows "field_loop (\<lambda>field wire. if field = 2 \<and> wire = 2 then Take_bytes take_domain else Skip_it)
      (put_items (site_items s)) 0 acc =
     Inr (fst acc @ concat (map domain_rules (snd s)), snd acc + length (filter is_regex (snd s)))"
    and "entry_name (put_items (site_items s)) = Inr (fst s)"
proof -
  let ?want = "\<lambda>field wire :: 64 word. if field = (2 :: 64 word) \<and> wire = 2 then Take_bytes take_domain else Skip_it"
  have w: "well_typed ?want" by (simp add: well_typed_def)
  have ok: "\<forall>i \<in> set (site_items s). item_ok i" by (auto simp: site_items_def)
  have "\<forall>x \<in> set (snd s). fst x < 2 ^ 64 \<and> length (put_items (domain_items x)) < 2 ^ 63"
    using assms site_lengths by blast
  then show "field_loop ?want (put_items (site_items s)) 0 acc =
     Inr (fst acc @ concat (map domain_rules (snd s)), snd acc + length (filter is_regex (snd s)))"
    unfolding field_loop_put [OF w ok assms(2)] by (simp add: site_items_def fold_domains)
  show "entry_name (put_items (site_items s)) = Inr (fst s)"
    using entry_name_put [OF ok assms(2)] by (simp add: site_items_def)
qed

lemma fold_entries:
  assumes "\<forall>x \<in> set xs. \<forall>acc. cb (enc x) acc = Inr (g x acc)"
  shows "fold_items (\<lambda>field wire. if field = 1 \<and> wire = 2 then Take_bytes cb else Skip_it)
      (map (\<lambda>x. Bytes_item 1 (enc x)) xs) acc = Inr (foldl (\<lambda>acc x. g x acc) acc xs)"
  using assms by (induction xs arbitrary: acc) auto

lemma scan_entries_put:
  assumes "\<forall>x \<in> set xs. \<forall>acc. cb (enc x) acc = Inr (g x acc)"
    and "length (put_items (map (\<lambda>x. Bytes_item 1 (enc x)) xs)) < 2 ^ 63"
  shows "scan_entries cb (put_items (map (\<lambda>x. Bytes_item 1 (enc x)) xs)) acc =
    Inr (foldl (\<lambda>acc x. g x acc) acc xs)"
proof -
  let ?want = "\<lambda>field wire :: 64 word. if field = (1 :: 64 word) \<and> wire = 2 then Take_bytes cb else Skip_it"
  have w: "well_typed ?want" by (simp add: well_typed_def)
  have ok: "\<forall>i \<in> set (map (\<lambda>x. Bytes_item 1 (enc x)) xs). item_ok i" by auto
  show ?thesis
    unfolding scan_entries_def field_loop_put [OF w ok assms(2)] by (rule fold_entries [OF assms(1)])
qed

lemma entry_length:
  "x \<in> set xs \<Longrightarrow> length (enc x) \<le> length (put_items (map (\<lambda>x. Bytes_item 1 (enc x)) xs))"
  using put_length_member [of "Bytes_item 1 (enc x)" "map (\<lambda>x. Bytes_item 1 (enc x)) xs"]
    bytes_item_length [of "enc x" 1] by simp

lemma fold_found:
  "foldl (\<lambda>acc x. if P x then (True, f x (snd acc)) else acc) (found, acc) xs =
     (found \<or> (\<exists>x \<in> set xs. P x), foldl (\<lambda>acc x. f x acc) acc (filter P xs))"
  by (induction xs arbitrary: found acc) auto

lemma fold_rules:
  "foldl (\<lambda>acc x. (fst acc @ h x, snd acc + k x)) (rs, n) xs =
     (rs @ concat (map h xs), n + sum_list (map k xs :: nat list))"
  by (induction xs arbitrary: rs n) auto

lemma length_filter_concat: "length (filter P (concat xss)) = sum_list (map (\<lambda>xs. length (filter P xs)) xss)"
  by (induction xss) auto

text \<open>
  C25: Extracting a category from an encoded site list returns the rules of every site whose
  name matches in lower case, in order, with the number of skipped regular expressions,
  skips the attributes, and fails exactly when no site matches.
\<close>

theorem geosite_round_trip:
  assumes "length (put_sites sites) \<le> max_dat_bytes"
    and "\<forall>s \<in> set sites. \<forall>x \<in> set (snd s). fst x < 2 ^ 64"
    and "want = to_lower lo (trim_space category)" and "want \<noteq> []"
  shows "extract_geosite lo (Some (put_sites sites)) category =
    (let ds = concat (map snd (filter (\<lambda>s. to_lower lo (fst s) = want) sites))
     in if \<exists>s \<in> set sites. to_lower lo (fst s) = want
        then Inr (concat (map domain_rules ds), length (filter is_regex ds)) else Inl Not_found)"
proof -
  let ?enc = "\<lambda>s. put_items (site_items s)"
  let ?P = "\<lambda>s. to_lower lo (fst s) = want"
  let ?h = "\<lambda>s acc. (fst acc @ concat (map domain_rules (snd s)), snd acc + length (filter is_regex (snd s)))"
  let ?walk = "field_loop (\<lambda>field wire. if field = 2 \<and> wire = 2 then Take_bytes take_domain else Skip_it)"
  let ?cb = "\<lambda>payload (found, acc). andthen (entry_name payload) (\<lambda>name.
      if to_lower lo name \<noteq> want then Inr (found, acc)
      else andthen (?walk payload 0 acc) (\<lambda>acc'. Inr (True, acc')))"
  have len: "length (put_sites sites) < 2 ^ 63" using assms(1) by (simp add: max_dat_bytes_def)
  have cb: "?cb (?enc s) acc = Inr (if ?P s then (True, ?h s (snd acc)) else acc)"
    if s: "s \<in> set sites" for s acc
  proof -
    have l: "length (?enc s) < 2 ^ 63"
      using entry_length [OF s, of ?enc] len unfolding put_sites_def by linarith
    have t: "\<forall>x \<in> set (snd s). fst x < 2 ^ 64" using assms(2) s by blast
    show ?thesis using site_walk [OF t l] by (cases acc) simp
  qed
  have "scan_entries ?cb (put_sites sites) (False, [], 0) =
      Inr (foldl (\<lambda>acc s. if ?P s then (True, ?h s (snd acc)) else acc) (False, [], 0) sites)"
    unfolding put_sites_def
    by (rule scan_entries_put) (use cb len in \<open>auto simp: put_sites_def\<close>)
  also have "\<dots> = Inr (\<exists>s \<in> set sites. ?P s,
      concat (map (\<lambda>s. concat (map domain_rules (snd s))) (filter ?P sites)),
      sum_list (map (\<lambda>s. length (filter is_regex (snd s))) (filter ?P sites)))"
    by (simp only: fold_found [where P = ?P and f = ?h] fold_rules
        [where h = "\<lambda>s. concat (map domain_rules (snd s))" and k = "\<lambda>s. length (filter is_regex (snd s))"])
      simp
  also have "concat (map (\<lambda>s. concat (map domain_rules (snd s))) (filter ?P sites)) =
      concat (map domain_rules (concat (map snd (filter ?P sites))))"
    by (induction sites) auto
  also have "sum_list (map (\<lambda>s. length (filter is_regex (snd s))) (filter ?P sites)) =
      length (filter is_regex (concat (map snd (filter ?P sites))))"
    by (simp add: length_filter_concat comp_def)
  finally show ?thesis
    using assms(1,3,4) by (auto simp: extract_geosite_def read_file_def Let_def)
qed

text \<open>Listing returns the sorted distinct lower-case names.\<close>

lemma fold_insert_set:
  "set (foldl (\<lambda>acc x. if P x then acc else List.insert (f x) acc) acc xs) =
     set acc \<union> f ` {x \<in> set xs. \<not> P x}"
  by (induction xs arbitrary: acc) auto

lemma fold_insert_distinct:
  "distinct acc \<Longrightarrow> distinct (foldl (\<lambda>acc x. if P x then acc else List.insert (f x) acc) acc xs)"
  by (induction xs arbitrary: acc) auto

text \<open>
  Listing an encoded site list returns the sorted distinct lower-case names of the sites
  that have one.
\<close>

theorem list_entries_complete:
  assumes "length (put_sites sites) \<le> max_dat_bytes"
  shows "\<exists>names. list_entries lo (Some (put_sites sites)) = Inr names \<and> sorted names \<and> distinct names
    \<and> set names = (\<lambda>s. to_lower lo (fst s)) ` {s \<in> set sites. fst s \<noteq> []}"
proof -
  let ?enc = "\<lambda>s. put_items (site_items s)"
  let ?cb = "\<lambda>payload seen. case entry_name payload of Inl e \<Rightarrow> Inl e
     | Inr name \<Rightarrow> Inr (if name = [] then seen else List.insert (to_lower lo name) seen)"
  have len: "length (put_sites sites) < 2 ^ 63" using assms by (simp add: max_dat_bytes_def)
  have cb: "?cb (?enc s) acc = Inr (if fst s = [] then acc else List.insert (to_lower lo (fst s)) acc)"
    if s: "s \<in> set sites" for s acc
  proof -
    have "length (?enc s) < 2 ^ 63"
      using entry_length [OF s, of ?enc] len unfolding put_sites_def by linarith
    moreover have "\<forall>i \<in> set (site_items s). item_ok i" by (auto simp: site_items_def)
    ultimately have "entry_name (?enc s) = Inr (fst s)"
      using entry_name_put [of "site_items s"] by (simp add: site_items_def)
    then show ?thesis by simp
  qed
  let ?fold = "foldl (\<lambda>acc s. if fst s = [] then acc else List.insert (to_lower lo (fst s)) acc) [] sites"
  have "scan_entries ?cb (put_sites sites) [] = Inr ?fold"
    unfolding put_sites_def
    by (rule scan_entries_put) (use cb len in \<open>auto simp: put_sites_def\<close>)
  then have "list_entries lo (Some (put_sites sites)) = Inr (sort ?fold)"
    using assms by (simp add: list_entries_def read_file_def)
  moreover have "distinct ?fold" by (rule fold_insert_distinct) simp
  ultimately show ?thesis by (auto simp: fold_insert_set)
qed

subsection \<open>The country lists\<close>

type_synonym geo_cidr = "bytes \<times> nat"

definition cidr_items :: "geo_cidr \<Rightarrow> item list" where
  "cidr_items x = [Bytes_item 1 (fst x), Uint_item 2 (snd x)]"

definition country_items :: "string \<times> geo_cidr list \<Rightarrow> item list" where
  "country_items s = Bytes_item 1 (fst s) # map (\<lambda>x. Bytes_item 2 (put_items (cidr_items x))) (snd s)"

definition put_countries :: "(string \<times> geo_cidr list) list \<Rightarrow> bytes" where
  "put_countries ss = put_items (map (\<lambda>s. Bytes_item 1 (put_items (country_items s))) ss)"

text \<open>The rule of one block of 4 or 16 address bytes.\<close>

definition block_rule :: "geo_cidr \<Rightarrow> rule" where
  "block_rule x =
     (mk_rule (if length (fst x) = 4 then Ip_Cidr else Ip_Cidr6)
        (ip_string (if length (fst x) = 4 then net_ip4 (fst x) else net_ip16 (fst x)) @ ''/'' @ dec_of (snd x))
        True True) \<lparr>rl_no_resolve := True\<rparr>"

definition block_ok :: "geo_cidr \<Rightarrow> bool" where
  "block_ok x \<longleftrightarrow> (length (fst x) = 4 \<or> length (fst x) = 16) \<and> snd x < 2 ^ 64"

lemma take_cidr_put:
  assumes "block_ok x" and "length (put_items (cidr_items x)) < 2 ^ 63"
  shows "take_cidr (put_items (cidr_items x)) acc = Inr (acc @ [block_rule x])"
proof -
  let ?want = "\<lambda>field wire :: 64 word.
         if field = (1 :: 64 word) \<and> wire = 2 then Take_bytes (\<lambda>b (ip :: bytes, prefix :: 64 word). Inr (b, prefix))
         else if field = 2 \<and> wire = 0 then Take_varint (\<lambda>p (ip, prefix). (ip, p))
         else Skip_it"
  have w: "well_typed ?want" by (simp add: well_typed_def)
  have ok: "\<forall>i \<in> set (cidr_items x). item_ok i" using assms(1) by (auto simp: cidr_items_def block_ok_def)
  have "field_loop ?want (put_items (cidr_items x)) 0 ([], 0) = Inr (fst x, word_of_nat (snd x))"
    unfolding field_loop_put [OF w ok assms(2)] by (simp add: cidr_items_def)
  moreover have "unat (word_of_nat (snd x) :: 64 word) = snd x"
    using assms(1) by (intro of_nat_inverse [OF refl]) (simp add: block_ok_def)
  moreover have "fst x \<noteq> []" using assms(1) by (auto simp: block_ok_def)
  ultimately have "parse_geo_cidr (put_items (cidr_items x)) = Inr (block_rule x)"
    using assms(1) by (auto simp: parse_geo_cidr_def block_rule_def block_ok_def cidr_rule_def)
  moreover have "rl_value (block_rule x) \<noteq> []" by (simp add: block_rule_def mk_rule_def)
  ultimately show ?thesis by (simp add: take_cidr_def)
qed

lemma country_lengths:
  assumes "length (put_items (country_items s)) < 2 ^ 63" and "x \<in> set (snd s)"
  shows "length (put_items (cidr_items x)) < 2 ^ 63"
  using put_length_member [of "Bytes_item 2 (put_items (cidr_items x))" "country_items s"] assms
    bytes_item_length [of "put_items (cidr_items x)" 2]
  by (auto simp: country_items_def)

lemma fold_cidrs:
  assumes "\<forall>x \<in> set xs. block_ok x \<and> length (put_items (cidr_items x)) < 2 ^ 63"
  shows "fold_items (\<lambda>field wire. if field = 2 \<and> wire = 2 then Take_bytes take_cidr else Skip_it)
      (map (\<lambda>x. Bytes_item 2 (put_items (cidr_items x))) xs) acc = Inr (acc @ map block_rule xs)"
  using assms by (induction xs arbitrary: acc) (auto simp: take_cidr_put)

lemma country_walk:
  assumes "\<forall>x \<in> set (snd s). block_ok x" and "length (put_items (country_items s)) < 2 ^ 63"
  shows "field_loop (\<lambda>field wire. if field = 2 \<and> wire = 2 then Take_bytes take_cidr else Skip_it)
      (put_items (country_items s)) 0 acc = Inr (acc @ map block_rule (snd s))"
    and "entry_name (put_items (country_items s)) = Inr (fst s)"
proof -
  let ?want = "\<lambda>field wire :: 64 word. if field = (2 :: 64 word) \<and> wire = 2 then Take_bytes take_cidr else Skip_it"
  have w: "well_typed ?want" by (simp add: well_typed_def)
  have ok: "\<forall>i \<in> set (country_items s). item_ok i" by (auto simp: country_items_def)
  have "\<forall>x \<in> set (snd s). block_ok x \<and> length (put_items (cidr_items x)) < 2 ^ 63"
    using assms country_lengths by blast
  then show "field_loop ?want (put_items (country_items s)) 0 acc = Inr (acc @ map block_rule (snd s))"
    unfolding field_loop_put [OF w ok assms(2)] by (simp add: country_items_def fold_cidrs)
  show "entry_name (put_items (country_items s)) = Inr (fst s)"
    using entry_name_put [OF ok assms(2)] by (simp add: country_items_def)
qed

lemma fold_append: "foldl (\<lambda>acc x. acc @ h x) rs xs = rs @ concat (map h xs)"
  by (induction xs arbitrary: rs) auto

text \<open>
  Extracting a country from an encoded list of 4-byte and 16-byte blocks returns one
  rule per block of every matching entry, and fails exactly when no entry matches.
\<close>

theorem geoip_round_trip:
  assumes "length (put_countries ss) \<le> max_dat_bytes"
    and "\<forall>s \<in> set ss. \<forall>x \<in> set (snd s). block_ok x"
    and "want = to_lower lo (trim_space country)" and "want \<noteq> []"
  shows "extract_geoip lo (Some (put_countries ss)) country =
    (if \<exists>s \<in> set ss. to_lower lo (fst s) = want
     then Inr (map block_rule (concat (map snd (filter (\<lambda>s. to_lower lo (fst s) = want) ss))))
     else Inl Not_found)"
proof -
  let ?enc = "\<lambda>s. put_items (country_items s)"
  let ?P = "\<lambda>s. to_lower lo (fst s) = want"
  let ?h = "\<lambda>s acc. acc @ map block_rule (snd s)"
  let ?walk = "field_loop (\<lambda>field wire. if field = 2 \<and> wire = 2 then Take_bytes take_cidr else Skip_it)"
  let ?cb = "\<lambda>payload (found, acc). andthen (entry_name payload) (\<lambda>name.
      if to_lower lo name \<noteq> want then Inr (found, acc)
      else andthen (?walk payload 0 acc) (\<lambda>acc'. Inr (True, acc')))"
  have len: "length (put_countries ss) < 2 ^ 63" using assms(1) by (simp add: max_dat_bytes_def)
  have cb: "?cb (?enc s) acc = Inr (if ?P s then (True, ?h s (snd acc)) else acc)"
    if s: "s \<in> set ss" for s acc
  proof -
    have l: "length (?enc s) < 2 ^ 63"
      using entry_length [OF s, of ?enc] len unfolding put_countries_def by linarith
    have t: "\<forall>x \<in> set (snd s). block_ok x" using assms(2) s by blast
    show ?thesis using country_walk [OF t l] by (cases acc) simp
  qed
  have "scan_entries ?cb (put_countries ss) (False, []) =
      Inr (foldl (\<lambda>acc s. if ?P s then (True, ?h s (snd acc)) else acc) (False, []) ss)"
    unfolding put_countries_def
    by (rule scan_entries_put) (use cb len in \<open>auto simp: put_countries_def\<close>)
  also have "\<dots> = Inr (\<exists>s \<in> set ss. ?P s, concat (map (\<lambda>s. map block_rule (snd s)) (filter ?P ss)))"
    by (simp only: fold_found [where P = ?P and f = ?h] fold_append [where h = "\<lambda>s. map block_rule (snd s)"])
      simp
  also have "concat (map (\<lambda>s. map block_rule (snd s)) (filter ?P ss)) =
      map block_rule (concat (map snd (filter ?P ss)))"
    by (induction ss) auto
  finally show ?thesis
    using assms(1,3,4) by (auto simp: extract_geoip_def read_file_def Let_def)
qed

subsection \<open>The reader on hostile input\<close>

text \<open>
  A length-delimited field that is accepted lies inside the buffer, whatever 64-bit
  length it announces.
\<close>

theorem bytes_field_inside:
  assumes "read_bytes_field buf off = Inr (payload, after)"
  shows "\<exists>nxt. off < nxt \<and> nxt + length payload = after \<and> after \<le> length buf
    \<and> payload = take (length payload) (drop nxt buf)"
proof -
  obtain n nxt where r: "read_varint buf off = Inr (n, nxt)"
    and p: "payload = take (after - nxt) (drop nxt buf)"
    and e: "int nxt \<le> sint (of_nat nxt + n)" "sint (of_nat nxt + n) \<le> int (length buf)"
      "after = nat (sint (of_nat nxt + n))"
    using assms by (auto simp: read_bytes_field_def andthen_eq_Inr Let_def split: if_splits)
  have "nxt \<le> after" "after \<le> length buf" using e by linarith+
  then show ?thesis using p read_varint_bounds [OF r] by (intro exI [of _ nxt]) auto
qed

text \<open>
  Nine continuation bytes shift by 63, so the tenth byte keeps its lowest bit only; an eleventh is
  refused though the buffer is long enough.
\<close>

lemma overflow_steps:
  assumes "\<forall>c \<in> set cs. \<not> of_char c < (0x80 :: 64 word)" and "shift + 7 * length cs > 63" and "shift \<le> 63"
  shows "read_varint_from (pre @ cs @ post) (length pre) v shift = Inl Varint_overflow"
  using assms
proof (induction cs arbitrary: pre v shift)
  case (Cons c cs)
  let ?v = "v OR push_bit shift (of_char c AND 0x7F)"
  have step: "read_varint_from (pre @ (c # cs) @ post) (length pre) v shift =
      (if shift + 7 > 63 then Inl Varint_overflow
       else read_varint_from (pre @ (c # cs) @ post) (length pre + 1) ?v (shift + 7))"
    using Cons.prems(1) by (subst read_varint_from.simps) (simp add: Let_def)
  show ?case
  proof (cases "shift + 7 > 63")
    case True
    then show ?thesis unfolding step by simp
  next
    case False
    have "read_varint_from ((pre @ [c]) @ cs @ post) (length (pre @ [c])) ?v (shift + 7) = Inl Varint_overflow"
      by (rule Cons.IH) (use Cons.prems False in auto)
    then show ?thesis unfolding step using False by simp
  qed
qed simp

text \<open>
  Ten continuation bytes are refused as an overflow however long the buffer is, and the
  bits a tenth byte has above 64 are dropped without an error.
\<close>

theorem varint_errors:
  assumes "length cs = 10" and "\<forall>c \<in> set cs. \<not> of_char c < (0x80 :: 64 word)"
  shows "read_varint (pre @ cs @ post) (length pre) = Inl Varint_overflow
    \<and> read_varint (replicate 9 (CHR 0x80) @ [CHR 0x7E]) 0 = Inr (0, 10)"
proof
  show "read_varint (pre @ cs @ post) (length pre) = Inl Varint_overflow"
    unfolding read_varint_def by (rule overflow_steps) (use assms in auto)
  show "read_varint (replicate 9 (CHR 0x80) @ [CHR 0x7E]) 0 = Inr (0, 10)"
    by code_simp
qed

theorem varint_errors_witness:
  "read_varint (replicate 10 (CHR 0xFF) @ [CHR 0x01]) 0 = Inl Varint_overflow"
  using varint_errors [of "replicate 10 (CHR 0xFF)" "[]" "[CHR 0x01]"] by simp

definition ex_field :: bytes where
  "ex_field = [CHR 0x0A, CHR 0x02, CHR ''a'', CHR ''b'', CHR 0x00]"

theorem bytes_field_inside_witness:
  "\<exists>nxt. 1 < nxt \<and> nxt + length ''ab'' = 4 \<and> 4 \<le> length ex_field
    \<and> ''ab'' = take (length ''ab'') (drop nxt ex_field)"
proof -
  have "put_varint (Suc (Suc 0)) = [CHR 0x02]" by code_simp
  then have "read_bytes_field ex_field 1 = Inr (''ab'', 4)"
    using read_put_bytes [of "[CHR 0x0A]" "''ab''" "[CHR 0x00]"] by (simp add: ex_field_def)
  then show ?thesis by (rule bytes_field_inside)
qed

theorem varint_round_trip_witness: "read_varint (put_varint 300 @ ''x'') 0 = Inr (300, 2)"
  using varint_round_trip [of 300 "[]" "''x''"] by (simp add: put_varint.simps [of 300] put_varint.simps [of 2])

definition ex_sites :: "(string \<times> site_domain list) list" where
  "ex_sites = [(''CN'', [(2, ''a.cn'', [''ads'']), (1, ''^x'', []), (3, ''b.cn'', [])]), (''US'', [(0, ''us'', [])])]"

lemma ex_sites_length: "length (put_sites ex_sites) \<le> max_dat_bytes"
proof -
  have "length (put_sites ex_sites) = 53" by code_simp
  then show ?thesis by (simp add: max_dat_bytes_def)
qed

theorem geosite_round_trip_witness:
  "extract_geosite id (Some (put_sites ex_sites)) ''cn'' =
     Inr ([mk_rule Domain_Suffix ''a.cn'' True True, mk_rule Domain ''b.cn'' True True], 1)"
proof -
  have "to_lower id (trim_space ''cn'') = ''cn''" "to_lower id ''CN'' = ''cn''" "to_lower id ''US'' = ''us''"
    by code_simp+
  then show ?thesis
    using geosite_round_trip [OF ex_sites_length, of "''cn''" id "''cn''"]
    by (simp add: ex_sites_def domain_rules_def is_regex_def)
qed

theorem list_entries_complete_witness: "list_entries id (Some (put_sites ex_sites)) = Inr [''cn'', ''us'']"
proof -
  have e: "to_lower id ''CN'' = ''cn''" "to_lower id ''US'' = ''us''" by code_simp+
  obtain names where n: "list_entries id (Some (put_sites ex_sites)) = Inr names" "sorted names" "distinct names"
      "set names = (\<lambda>s. to_lower id (fst s)) ` {s \<in> set ex_sites. fst s \<noteq> []}"
    using list_entries_complete [OF ex_sites_length] by blast
  have "{s \<in> set ex_sites. fst s \<noteq> []} = set ex_sites" by (auto simp: ex_sites_def)
  then have "set names = set [''cn'', ''us'']" using n(4) e by (simp add: ex_sites_def)
  moreover have "sorted [''cn'', ''us'']" "distinct [''cn'', ''us'']" by code_simp+
  ultimately show ?thesis using n by (metis sorted_distinct_set_unique)
qed

definition ex_countries :: "(string \<times> geo_cidr list) list" where
  "ex_countries = [(''RU'', [([CHR 0x01, CHR 0x02, CHR 0x03, CHR 0x00], 24)])]"

theorem geoip_round_trip_witness:
  "\<exists>rs. extract_geoip id (Some (put_countries ex_countries)) ''ru'' = Inr rs \<and> map rl_value rs = [''1.2.3.0/24'']"
proof -
  have l: "length (put_countries ex_countries) \<le> max_dat_bytes"
  proof -
    have "length (put_countries ex_countries) = 16" by code_simp
    then show ?thesis by (simp add: max_dat_bytes_def)
  qed
  have "to_lower id (trim_space ''ru'') = ''ru''" "to_lower id ''RU'' = ''ru''" by code_simp+
  moreover have "rl_value (block_rule ([CHR 0x01, CHR 0x02, CHR 0x03, CHR 0x00], 24)) = ''1.2.3.0/24''"
  proof -
    have digits: "digit_char 0 = CHR ''0''" "digit_char 1 = CHR ''1''" "digit_char 2 = CHR ''2''"
      "digit_char 3 = CHR ''3''" "digit_char 4 = CHR ''4''" by code_simp+
    have "v4_string 0x01020300 = ''1.2.3.0''" using digits by (simp add: v4_string_def dec_of.simps)
    moreover have "dec_of 24 = ''24''" using digits by (simp add: dec_of.simps)
    ultimately show ?thesis by (simp add: block_rule_def mk_rule_def net_ip4_def ip_string_def del: as16.simps)
  qed
  ultimately show ?thesis
    using geoip_round_trip [OF l, of "''ru''" id "''ru''"] by (simp add: ex_countries_def block_ok_def)
qed

end
