(* ===== verification/Mesh_Code.thy ===== *)
theory Mesh_Code
  imports Go_Text
begin

section \<open>Mesh sync codes, derived keys and request authentication\<close>

text \<open>
  \<open>internal/mesh/synccode.go\<close>, \<open>derive.go\<close> and \<open>hmac.go\<close>. HMAC-SHA256 and SHA-256 are
  parameters \<open>mac key message\<close> and \<open>sha message\<close>; where a result depends on the length of a
  digest the statement says so. The random bytes of \<open>GenerateCode\<close> are an argument. A
  \<open>time.Time\<close> is a number of nanoseconds.
\<close>

subsection \<open>Base 32 without padding\<close>

text \<open>
  \<open>base32.StdEncoding.WithPadding(base32.NoPadding)\<close>: groups of five bytes become eight
  digits of five bits, a short last group is filled up with zero bits. Decoding ignores line
  breaks, refuses any other character, drops the bits of a last group that do not make a byte,
  and makes no byte at all of a last group of 1, 3 or 6 digits.
\<close>

fun be_val :: "nat \<Rightarrow> nat list \<Rightarrow> nat" where
  "be_val b [] = 0"
| "be_val b (d # ds) = d * b ^ length ds + be_val b ds"

fun be_digits :: "nat \<Rightarrow> nat \<Rightarrow> nat \<Rightarrow> nat list" where
  "be_digits b 0 n = []"
| "be_digits b (Suc k) n = be_digits b k (n div b) @ [n mod b]"

definition b32_char :: "nat \<Rightarrow> char" where
  "b32_char d = (if d < 26 then char_of (65 + d) else char_of (24 + d))"

definition b32_val :: "char \<Rightarrow> nat option" where
  "b32_val c =
     (let n = of_char c :: nat
      in if 65 \<le> n \<and> n \<le> 90 then Some (n - 65) else if 50 \<le> n \<and> n \<le> 55 then Some (n - 24) else None)"

definition b32_group :: "bytes \<Rightarrow> string" where
  "b32_group bs =
     (let k = (8 * length bs + 4) div 5
      in map b32_char (be_digits 32 k (be_val 256 (map of_char bs) * 2 ^ (5 * k - 8 * length bs))))"

function b32_encode :: "bytes \<Rightarrow> string" where
  "b32_encode bs = (if bs = [] then [] else b32_group (take 5 bs) @ b32_encode (drop 5 bs))"
  by pat_completeness auto
termination by (relation "measure length") auto

declare b32_encode.simps [simp del]

definition b32_bytes :: "nat list \<Rightarrow> bytes" where
  "b32_bytes ds =
     (let m = (if length ds \<in> {1, 3, 6} then 0 else 5 * length ds div 8)
      in map char_of (be_digits 256 m (be_val 32 ds div 2 ^ (5 * length ds - 8 * m))))"

function b32_groups :: "nat list \<Rightarrow> bytes" where
  "b32_groups ds = (if ds = [] then [] else b32_bytes (take 8 ds) @ b32_groups (drop 8 ds))"
  by pat_completeness auto
termination by (relation "measure length") auto

declare b32_groups.simps [simp del]

definition b32_decode :: "string \<Rightarrow> bytes option" where
  "b32_decode s =
     (let ds = map b32_val (filter (\<lambda>c. c \<noteq> newline \<and> c \<noteq> return) s)
      in if None \<in> set ds then None else Some (b32_groups (map the ds)))"

subsection \<open>The sync code\<close>

record mesh_code =
  mc_entropy :: bytes
  mc_secret :: bytes
  mc_psk :: bytes
  mc_peers :: "string list"

definition code_prefix :: string where "code_prefix = ''PWMESH1-''"

definition hex_digits :: "bytes \<Rightarrow> string" where
  "hex_digits b = concat (map (\<lambda>c. let n = of_char c :: nat in [''0123456789abcdef'' ! (n div 16), ''0123456789abcdef'' ! (n mod 16)]) b)"

definition network_name :: "mesh_code \<Rightarrow> string" where
  "network_name c = ''pwmesh-'' @ hex_digits (mc_entropy c)"

definition generate_code :: "bytes option \<Rightarrow> string + mesh_code" where
  "generate_code rand =
     (case rand of None \<Rightarrow> Inl ''generate code''
      | Some buf \<Rightarrow> Inr \<lparr>mc_entropy = take 8 buf, mc_secret = take 24 (drop 8 buf),
          mc_psk = take 32 (drop 32 buf), mc_peers = []\<rparr>)"

definition code_flags :: "mesh_code \<Rightarrow> char" where
  "code_flags c = (if mc_peers c \<noteq> [] then CHR 0x01 else CHR 0x00)"

definition code_mac :: "(bytes \<Rightarrow> bytes \<Rightarrow> bytes) \<Rightarrow> bytes \<Rightarrow> bytes \<Rightarrow> bytes" where
  "code_mac mac psk payload = take 4 (mac psk payload)"

text \<open>\<open>byte(len(p))\<close> keeps the length modulo 256.\<close>

definition peer_tlv :: "string \<Rightarrow> bytes" where
  "peer_tlv p = CHR 0x01 # char_of (length p mod 256) # p"

definition code_body :: "mesh_code \<Rightarrow> bytes" where
  "code_body c = CHR 0x01 # code_flags c # mc_entropy c @ mc_secret c @ mc_psk c
     @ concat (map peer_tlv (mc_peers c))"

function dash_groups :: "string \<Rightarrow> string" where
  "dash_groups s = (if length s \<le> 8 then s else take 8 s @ CHR ''-'' # dash_groups (drop 8 s))"
  by pat_completeness auto
termination by (relation "measure length") auto

declare dash_groups.simps [simp del]

definition encode_code :: "(bytes \<Rightarrow> bytes \<Rightarrow> bytes) \<Rightarrow> mesh_code \<Rightarrow> string" where
  "encode_code mac c =
     code_prefix @ dash_groups (b32_encode (code_body c @ code_mac mac (mc_psk c) (code_body c)))"

datatype code_error =
  Not_a_code | Malformed_code | Code_too_short | Bad_code_version | Checksum_mismatch | Truncated_extension

function code_tlvs :: "bytes \<Rightarrow> code_error + string list" where
  "code_tlvs [] = Inr []"
| "code_tlvs [c] = Inl Truncated_extension"
| "code_tlvs (t # l # rest) =
     (let n = of_char l :: nat
      in if length rest < n then Inl Truncated_extension
         else (case code_tlvs (drop n rest) of
             Inl e \<Rightarrow> Inl e
           | Inr ps \<Rightarrow> Inr (if t = CHR 0x01 then take n rest # ps else ps)))"
  by pat_completeness auto
termination by (relation "measure length") auto

definition decode_code ::
    "(string \<Rightarrow> string) \<Rightarrow> (bytes \<Rightarrow> bytes \<Rightarrow> bytes) \<Rightarrow> string \<Rightarrow> code_error + mesh_code" where
  "decode_code up mac s0 =
     (let s = to_upper up (trim_space s0)
      in if \<not> has_prefix s code_prefix then Inl Not_a_code
         else (case b32_decode (filter (\<lambda>c. c \<noteq> CHR ''-'') (trim_prefix s code_prefix)) of
             None \<Rightarrow> Inl Malformed_code
           | Some payload \<Rightarrow>
               if length payload < 66 + 4 then Inl Code_too_short
               else if hd payload \<noteq> CHR 0x01 then Inl Bad_code_version
               else (let c = \<lparr>mc_entropy = take 8 (drop 2 payload), mc_secret = take 24 (drop 10 payload),
                              mc_psk = take 32 (drop 34 payload), mc_peers = []\<rparr>;
                         body = take (length payload - 4) payload;
                         check = drop (length payload - 4) payload
                     in if code_mac mac (mc_psk c) body \<noteq> check then Inl Checksum_mismatch
                        else (case code_tlvs (drop 66 body) of
                            Inl e \<Rightarrow> Inl e | Inr ps \<Rightarrow> Inr (c \<lparr>mc_peers := ps\<rparr>)))))"

subsection \<open>Derived keys\<close>

text \<open>
  The expansion loop runs until \<open>n\<close> bytes are there. Its fuel is \<open>n\<close> rounds, enough since
  every digest adds at least one byte; the counter is a byte that wraps.
\<close>

fun hkdf_expand ::
    "(bytes \<Rightarrow> bytes \<Rightarrow> bytes) \<Rightarrow> bytes \<Rightarrow> bytes \<Rightarrow> nat \<Rightarrow> nat \<Rightarrow> nat \<Rightarrow> bytes \<Rightarrow> bytes \<Rightarrow> bytes" where
  "hkdf_expand mac prk info n 0 counter block out = out"
| "hkdf_expand mac prk info n (Suc fuel) counter block out =
     (if length out \<ge> n then out
      else (let block' = mac prk (block @ info @ [char_of (counter mod 256)])
            in hkdf_expand mac prk info n fuel (counter + 1) block' (out @ block')))"

definition hkdf :: "(bytes \<Rightarrow> bytes \<Rightarrow> bytes) \<Rightarrow> bytes \<Rightarrow> bytes option \<Rightarrow> bytes \<Rightarrow> nat \<Rightarrow> bytes" where
  "hkdf mac secret salt info n =
     (let prk = mac (case salt of None \<Rightarrow> replicate 32 (CHR 0x00) | Some s \<Rightarrow> s) secret
      in take n (hkdf_expand mac prk info n n 1 [] []))"

definition derive_ss_password :: "(bytes \<Rightarrow> bytes \<Rightarrow> bytes) \<Rightarrow> bytes \<Rightarrow> bytes \<Rightarrow> string" where
  "derive_ss_password mac psk salt = hex_digits (hkdf mac psk (Some salt) ''purewrt-mesh/ss-v1'' 16)"

definition derive_api_key :: "(bytes \<Rightarrow> bytes \<Rightarrow> bytes) \<Rightarrow> bytes \<Rightarrow> bytes" where
  "derive_api_key mac psk = hkdf mac psk None ''purewrt-mesh/api-v1'' 32"

definition derive_cred_salt :: "(bytes \<Rightarrow> bytes \<Rightarrow> bytes) \<Rightarrow> bytes \<Rightarrow> string \<Rightarrow> string" where
  "derive_cred_salt mac psk hwid = hex_digits (hkdf mac psk None (''purewrt-mesh/salt-v1:'' @ hwid) 16)"

subsection \<open>Request authentication\<close>

definition mac_field :: "string \<Rightarrow> bytes" where
  "mac_field s = s @ [newline]"

definition request_message :: "int \<Rightarrow> string \<Rightarrow> string \<Rightarrow> string \<Rightarrow> bytes" where
  "request_message ts nonce meth path =
     mac_field (itoa ts) @ mac_field nonce @ mac_field meth @ mac_field path"

definition request_mac ::
    "(bytes \<Rightarrow> bytes \<Rightarrow> bytes) \<Rightarrow> bytes \<Rightarrow> int \<Rightarrow> string \<Rightarrow> string \<Rightarrow> string \<Rightarrow> bytes" where
  "request_mac mac key ts nonce meth path = mac key (request_message ts nonce meth path)"

definition sign_request ::
    "(bytes \<Rightarrow> bytes \<Rightarrow> bytes) \<Rightarrow> bytes \<Rightarrow> int \<Rightarrow> string \<Rightarrow> string \<Rightarrow> string \<Rightarrow> string" where
  "sign_request mac key ts nonce meth path = hex_digits (request_mac mac key ts nonce meth path)"

definition sign_response ::
    "(bytes \<Rightarrow> bytes \<Rightarrow> bytes) \<Rightarrow> (bytes \<Rightarrow> bytes) \<Rightarrow> bytes \<Rightarrow> int \<Rightarrow> string \<Rightarrow> bytes \<Rightarrow> string" where
  "sign_response mac sha key ts nonce body =
     hex_digits (mac key (mac_field (itoa ts) @ mac_field nonce @ mac_field (hex_digits (sha body))))"

definition hex_nibble :: "char \<Rightarrow> nat option" where
  "hex_nibble c =
     (let n = of_char c :: nat
      in if 48 \<le> n \<and> n \<le> 57 then Some (n - 48)
         else if 97 \<le> n \<and> n \<le> 102 then Some (n - 87)
         else if 65 \<le> n \<and> n \<le> 70 then Some (n - 55) else None)"

fun hex_decode :: "string \<Rightarrow> bytes option" where
  "hex_decode [] = Some []"
| "hex_decode [c] = None"
| "hex_decode (c # d # cs) =
     (case (hex_nibble c, hex_nibble d, hex_decode cs) of
        (Some h, Some l, Some bs) \<Rightarrow> Some (char_of (16 * h + l) # bs)
      | _ \<Rightarrow> None)"

definition hmac_equal_hex :: "string \<Rightarrow> string \<Rightarrow> bool" where
  "hmac_equal_hex a b =
     (case (hex_decode a, hex_decode b) of (Some x, Some y) \<Rightarrow> x = y | _ \<Rightarrow> False)"

definition verify_response ::
    "(bytes \<Rightarrow> bytes \<Rightarrow> bytes) \<Rightarrow> (bytes \<Rightarrow> bytes) \<Rightarrow> bytes \<Rightarrow> int \<Rightarrow> string \<Rightarrow> bytes \<Rightarrow> string \<Rightarrow> bool" where
  "verify_response mac sha key ts nonce body m = hmac_equal_hex m (sign_response mac sha key ts nonce body)"

record nonce_cache =
  nc_ttl :: int
  nc_limit :: nat
  nc_seen :: "string \<rightharpoonup> int"
  nc_order :: "string list"

definition new_nonce_cache :: "nat \<Rightarrow> int \<Rightarrow> nonce_cache" where
  "new_nonce_cache limit ttl = \<lparr>nc_ttl = ttl, nc_limit = limit, nc_seen = (\<lambda>_. None), nc_order = []\<rparr>"

fun evict :: "int \<Rightarrow> nat \<Rightarrow> int \<Rightarrow> (string \<rightharpoonup> int) \<Rightarrow> string list \<Rightarrow> (string \<rightharpoonup> int) \<times> string list" where
  "evict ttl limit now seen [] = (seen, [])"
| "evict ttl limit now seen (oldest # order) =
     (if (case seen oldest of None \<Rightarrow> False | Some t \<Rightarrow> now - t \<le> ttl) \<and> length (oldest # order) < limit
      then (seen, oldest # order)
      else evict ttl limit now (seen (oldest := None)) order)"

definition remember :: "nonce_cache \<Rightarrow> string \<Rightarrow> int \<Rightarrow> bool \<times> nonce_cache" where
  "remember c nonce now =
     (case evict (nc_ttl c) (nc_limit c) now (nc_seen c) (nc_order c) of
        (seen, order) \<Rightarrow>
          (if seen nonce \<noteq> None then (False, c \<lparr>nc_seen := seen, nc_order := order\<rparr>)
           else (True, c \<lparr>nc_seen := seen (nonce \<mapsto> now), nc_order := order @ [nonce]\<rparr>)))"

datatype auth_error = Missing_nonce | Outside_window | Mac_mismatch | Nonce_replay

definition giga :: int where "giga = 1000000000"

definition verify_request ::
    "(bytes \<Rightarrow> bytes \<Rightarrow> bytes) \<Rightarrow> bytes \<Rightarrow> int \<Rightarrow> int \<Rightarrow> string \<Rightarrow> string \<Rightarrow> string \<Rightarrow> string
     \<Rightarrow> nonce_cache option \<Rightarrow> auth_error option \<times> nonce_cache option" where
  "verify_request mac key now ts nonce meth path m cache =
     (if nonce = [] then (Some Missing_nonce, cache)
      else (let skew = wrap64 (now div giga - ts);
                skew' = (if skew < 0 then wrap64 (- skew) else skew)
            in if 120 < skew' then (Some Outside_window, cache)
               else if \<not> hmac_equal_hex m (sign_request mac key ts nonce meth path)
               then (Some Mac_mismatch, cache)
               else (case cache of
                   None \<Rightarrow> (None, None)
                 | Some c \<Rightarrow>
                     (case remember c nonce now of
                        (ok, c') \<Rightarrow> (if ok then None else Some Nonce_replay, Some c')))))"

end
