(* ===== verification/Mesh_Auth.thy ===== *)
theory Mesh_Auth
  imports Mesh_Code
begin

section \<open>What sync codes and request authentication guarantee\<close>

text \<open>
  The sync-code round trip over a base-32 round trip, the length limit it depends on, what an
  accepted request has proved, how long a nonce stays refused, and the replay that the
  program's choice of the cache's lifetime leaves open.
\<close>

subsection \<open>Base 32\<close>

lemma be_val_snoc: "be_val b (ds @ [d]) = be_val b ds * b + d"
  by (induction ds) (auto simp: algebra_simps)

lemma length_be_digits [simp]: "length (be_digits b k n) = k"
  by (induction k arbitrary: n) auto

lemma be_val_digits: "n < b ^ k \<Longrightarrow> be_val b (be_digits b k n) = n"
proof (induction k arbitrary: n)
  case (Suc k)
  then have "n div b < b ^ k" by (simp add: less_mult_imp_div_less mult.commute)
  then show ?case by (simp add: be_val_snoc Suc.IH)
qed simp

lemma be_digits_val: "\<forall>d \<in> set ds. d < b \<Longrightarrow> be_digits b (length ds) (be_val b ds) = ds"
proof (induction ds rule: rev_induct)
  case (snoc d ds)
  then have "(be_val b ds * b + d) div b = be_val b ds" "(be_val b ds * b + d) mod b = d" by auto
  then show ?case using snoc by (simp add: be_val_snoc)
qed simp

lemma be_val_bound: "\<forall>d \<in> set ds. d < b \<Longrightarrow> be_val b ds < b ^ length ds"
proof (induction ds rule: rev_induct)
  case (snoc d ds)
  then have "be_val b ds + 1 \<le> b ^ length ds" "d < b" by auto
  then have "(be_val b ds + 1) * b \<le> b ^ length ds * b" by (intro mult_le_mono1)
  then show ?case using \<open>d < b\<close> by (simp add: be_val_snoc algebra_simps)
qed simp

lemma be_digits_lt: "0 < b \<Longrightarrow> d \<in> set (be_digits b k n) \<Longrightarrow> d < b"
  by (induction k arbitrary: n) auto

lemma b32_char_of: "d < 32 \<Longrightarrow> (of_char (b32_char d) :: nat) = (if d < 26 then 65 + d else 24 + d)"
proof -
  assume d: "d < 32"
  have "(65 + d) mod 256 = 65 + d" "(24 + d) mod 256 = 24 + d" using d by (intro mod_less; linarith)+
  then show ?thesis by (simp add: b32_char_def)
qed

lemma b32_round: "d < 32 \<Longrightarrow> b32_val (b32_char d) = Some d"
  by (auto simp: b32_val_def Let_def b32_char_of)

lemma b32_group_sizes:
  assumes "0 < m" and "m \<le> 5"
  shows "(if (8 * m + 4) div 5 \<in> {1, 3, 6} then 0 else 5 * ((8 * m + 4) div 5) div 8) = (m :: nat)"
    and "8 * m \<le> 5 * ((8 * m + 4) div 5)" and "0 < (8 * m + 4) div 5" and "(8 * m + 4) div 5 \<le> 8"
proof -
  have "m \<in> {1, 2, 3, 4, 5}" using assms by auto
  then show "(if (8 * m + 4) div 5 \<in> {1, 3, 6} then 0 else 5 * ((8 * m + 4) div 5) div 8) = m"
    "8 * m \<le> 5 * ((8 * m + 4) div 5)" "0 < (8 * m + 4) div 5" "(8 * m + 4) div 5 \<le> 8"
    by auto
qed

definition group_digits :: "bytes \<Rightarrow> nat list" where
  "group_digits bs =
     (let k = (8 * length bs + 4) div 5
      in be_digits 32 k (be_val 256 (map of_char bs) * 2 ^ (5 * k - 8 * length bs)))"

lemma b32_group_digits: "b32_group bs = map b32_char (group_digits bs)"
  by (simp add: b32_group_def group_digits_def Let_def)

lemma group_digits_lt: "d \<in> set (group_digits bs) \<Longrightarrow> d < 32"
  by (auto simp: group_digits_def Let_def dest: be_digits_lt [rotated])

lemma b32_bytes_group:
  assumes "bs \<noteq> []" and "length bs \<le> 5"
  shows "b32_bytes (group_digits bs) = bs"
proof -
  let ?m = "length bs" and ?V = "be_val 256 (map of_char bs)"
  let ?k = "(8 * length bs + 4) div 5"
  have m: "0 < ?m" using assms by simp
  note sizes = b32_group_sizes [OF m assms(2)]
  have V: "?V < 2 ^ (8 * ?m)"
  proof -
    have "?V < 256 ^ length (map (of_char :: char \<Rightarrow> nat) bs)" by (rule be_val_bound) (auto simp: of_char_lt)
    moreover have "(256 :: nat) ^ length bs = 2 ^ (8 * length bs)" by (simp add: power_mult)
    ultimately show ?thesis by simp
  qed
  have "?V * 2 ^ (5 * ?k - 8 * ?m) < 2 ^ (8 * ?m) * 2 ^ (5 * ?k - 8 * ?m)" using V by simp
  also have "\<dots> = 2 ^ (5 * ?k)" using sizes(2) by (simp flip: power_add)
  also have "\<dots> = 32 ^ ?k" by (simp add: power_mult)
  finally have N: "?V * 2 ^ (5 * ?k - 8 * ?m) < 32 ^ ?k" .
  have val: "be_val 32 (group_digits bs) = ?V * 2 ^ (5 * ?k - 8 * ?m)"
    unfolding group_digits_def Let_def by (rule be_val_digits [OF N])
  have len: "length (group_digits bs) = ?k" by (simp add: group_digits_def Let_def)
  have "b32_bytes (group_digits bs) = map char_of (be_digits 256 ?m (?V * 2 ^ (5 * ?k - 8 * ?m) div 2 ^ (5 * ?k - 8 * ?m)))"
    unfolding b32_bytes_def Let_def len val sizes(1) ..
  also have "\<dots> = map char_of (be_digits 256 (length (map (of_char :: char \<Rightarrow> nat) bs)) ?V)" by simp
  also have "\<dots> = bs"
    by (subst be_digits_val) (auto simp: of_char_lt comp_def)
  finally show ?thesis .
qed

function enc_digits :: "bytes \<Rightarrow> nat list" where
  "enc_digits bs = (if bs = [] then [] else group_digits (take 5 bs) @ enc_digits (drop 5 bs))"
  by pat_completeness auto
termination by (relation "measure length") auto

declare enc_digits.simps [simp del]

lemma b32_encode_digits: "b32_encode bs = map b32_char (enc_digits bs)"
proof (induction bs rule: enc_digits.induct)
  case (1 bs)
  then show ?case
    by (subst b32_encode.simps, subst enc_digits.simps) (auto simp: b32_group_digits)
qed

lemma enc_digits_lt: "d \<in> set (enc_digits bs) \<Longrightarrow> d < 32"
proof (induction bs rule: enc_digits.induct)
  case (1 bs)
  from 1(2) show ?case
    by (subst (asm) enc_digits.simps) (use 1(1) in \<open>auto dest: group_digits_lt split: if_splits\<close>)
qed

lemma b32_groups_enc: "b32_groups (enc_digits bs) = bs"
proof (induction bs rule: enc_digits.induct)
  case (1 bs)
  show ?case
  proof (cases "bs = []")
    case True
    then show ?thesis by (simp add: enc_digits.simps b32_groups.simps)
  next
    case False
    let ?g = "group_digits (take 5 bs)"
    have t: "take 5 bs \<noteq> []" "length (take 5 bs) \<le> 5" using False by auto
    have len: "length ?g = (8 * length (take 5 bs) + 4) div 5" by (simp add: group_digits_def Let_def)
    have ne: "?g \<noteq> []"
      using b32_group_sizes(3) [of "length (take 5 bs)"] t len by (metis length_greater_0_conv)
    have split: "take 8 (?g @ enc_digits (drop 5 bs)) = ?g \<and> drop 8 (?g @ enc_digits (drop 5 bs)) = enc_digits (drop 5 bs)"
    proof (cases "length bs \<ge> 5")
      case True
      then have "length ?g = 8" using len by simp
      then show ?thesis by simp
    next
      case False
      then have "enc_digits (drop 5 bs) = []" by (simp add: enc_digits.simps)
      moreover have "length ?g \<le> 8" using b32_group_sizes(4) [of "length (take 5 bs)"] t len by simp
      ultimately show ?thesis by simp
    qed
    have "b32_groups (enc_digits bs) = b32_bytes ?g @ b32_groups (enc_digits (drop 5 bs))"
      using False ne split by (subst enc_digits.simps, subst b32_groups.simps) simp
    also have "\<dots> = take 5 bs @ drop 5 bs" using b32_bytes_group [OF t] 1 [OF False] by simp
    finally show ?thesis by simp
  qed
qed

text \<open>The characters of a code: digits, upper-case letters and the dash.\<close>

definition code_char :: "char \<Rightarrow> bool" where
  "code_char c \<longleftrightarrow> c = CHR ''-'' \<or> (48 \<le> (of_char c :: nat) \<and> (of_char c :: nat) \<le> 57)
     \<or> (65 \<le> (of_char c :: nat) \<and> (of_char c :: nat) \<le> 90)"

lemma code_char_facts: "code_char c \<Longrightarrow> solid c \<and> ascii c \<and> upper_ascii c = c \<and> c \<noteq> newline \<and> c \<noteq> return"
  by (auto simp: code_char_def solid_def ascii_def upper_ascii_def newline_def return_def)

lemma b32_char_code: "d < 32 \<Longrightarrow> code_char (b32_char d) \<and> b32_char d \<noteq> CHR ''-''"
proof -
  assume d: "d < 32"
  have "b32_char d \<noteq> CHR ''-''"
  proof
    assume "b32_char d = CHR ''-''"
    then have "(of_char (b32_char d) :: nat) = 45" by simp
    then show False using d by (simp add: b32_char_of split: if_splits)
  qed
  then show ?thesis using d by (auto simp: code_char_def b32_char_of)
qed

lemma b32_encode_code: "c \<in> set (b32_encode bs) \<Longrightarrow> code_char c \<and> c \<noteq> CHR ''-''"
  using b32_char_code enc_digits_lt by (auto simp: b32_encode_digits)

lemma b32_round_trip: "b32_decode (b32_encode bs) = Some bs"
proof -
  have "filter (\<lambda>c. c \<noteq> newline \<and> c \<noteq> return) (b32_encode bs) = b32_encode bs"
    using b32_encode_code code_char_facts by (intro filter_True) blast
  moreover have "map b32_val (b32_encode bs) = map Some (enc_digits bs)"
    using enc_digits_lt by (simp add: b32_encode_digits b32_round)
  ultimately show ?thesis by (simp add: b32_decode_def Let_def b32_groups_enc image_iff comp_def)
qed

subsection \<open>The sync code\<close>

lemma dash_groups_filter: "CHR ''-'' \<notin> set s \<Longrightarrow> filter (\<lambda>c. c \<noteq> CHR ''-'') (dash_groups s) = s"
proof (induction s rule: dash_groups.induct)
  case (1 s)
  have "CHR ''-'' \<notin> set (take 8 s)" "CHR ''-'' \<notin> set (drop 8 s)"
    using 1(2) by (auto dest: in_set_takeD in_set_dropD)
  then have "filter (\<lambda>c. c \<noteq> CHR ''-'') (take 8 s) = take 8 s"
    "\<not> length s \<le> 8 \<Longrightarrow> filter (\<lambda>c. c \<noteq> CHR ''-'') (dash_groups (drop 8 s)) = drop 8 s"
    using 1(1) by (auto intro!: filter_True)
  then show ?case using 1(2) by (cases "length s \<le> 8") (auto simp: dash_groups.simps [of s] intro!: filter_True)
qed

lemma dash_groups_chars: "c \<in> set (dash_groups s) \<Longrightarrow> c \<in> set s \<or> c = CHR ''-''"
proof (induction s rule: dash_groups.induct)
  case (1 s)
  then show ?case
    by (cases "length s \<le> 8") (auto simp: dash_groups.simps [of s] dest: in_set_takeD in_set_dropD)
qed

definition code_sizes :: "mesh_code \<Rightarrow> bool" where
  "code_sizes c \<longleftrightarrow> length (mc_entropy c) = 8 \<and> length (mc_secret c) = 24 \<and> length (mc_psk c) = 32"

text \<open>Any text that is the code up to case, white space around it and dashes is read back up to its extensions.\<close>

lemma decode_up_to_tlvs:
  assumes "code_sizes c" and "\<forall>k m. 4 \<le> length (mac k m)"
    and "to_upper up (trim_space s) = code_prefix @ t"
    and "filter (\<lambda>x. x \<noteq> CHR ''-'') t = b32_encode (code_body c @ code_mac mac (mc_psk c) (code_body c))"
  shows "decode_code up mac s =
    (case code_tlvs (concat (map peer_tlv (mc_peers c))) of Inl e \<Rightarrow> Inl e | Inr ps \<Rightarrow> Inr (c \<lparr>mc_peers := ps\<rparr>))"
proof -
  let ?tlvs = "concat (map peer_tlv (mc_peers c))"
  define m where "m = code_mac mac (mc_psk c) (code_body c)"
  define b where "b = code_body c"
  define p where "p = b @ m"
  have m: "length m = 4"
    using spec [OF spec [OF assms(2)], of "mc_psk c" "code_body c"] by (simp add: code_mac_def m_def)
  have body: "b = [CHR 0x01, code_flags c] @ mc_entropy c @ mc_secret c @ mc_psk c @ ?tlvs"
    by (simp add: code_body_def b_def)
  have len: "\<not> length p < 66 + 4" using assms(1) m by (simp add: body p_def code_sizes_def)
  have parts: "take 8 (drop 2 p) = mc_entropy c" "take 24 (drop 10 p) = mc_secret c"
    "take 32 (drop 34 p) = mc_psk c" "drop 66 b = ?tlvs" "hd p = CHR 0x01"
    using assms(1) by (simp_all add: body p_def code_sizes_def)
  have ends: "take (length p - 4) p = b" "drop (length p - 4) p = m" using m by (simp_all add: p_def)
  have dec: "b32_decode (filter (\<lambda>x. x \<noteq> CHR ''-'') t) = Some p"
    using assms(4) b32_round_trip by (simp add: p_def b_def m_def)
  have mac: "code_mac mac (mc_psk c) b = m" by (simp add: b_def m_def)
  have c: "\<lparr>mc_entropy = mc_entropy c, mc_secret = mc_secret c, mc_psk = mc_psk c, mc_peers = ps\<rparr>
      = c \<lparr>mc_peers := ps\<rparr>" for ps
    by (cases c) simp
  show ?thesis
    using len unfolding decode_code_def Let_def assms(3) trim_prefix_append dec
    by (cases "code_tlvs ?tlvs") (simp_all add: parts ends mac c)
qed

lemma code_tlvs_peers:
  "\<forall>p \<in> set ps. length p < 256 \<Longrightarrow> code_tlvs (concat (map peer_tlv ps)) = Inr ps"
proof (induction ps)
  case (Cons p ps)
  then have "(of_char (char_of (length p mod 256) :: char) :: nat) = length p" by simp
  then show ?case using Cons by (simp add: peer_tlv_def Let_def)
qed simp

text \<open>
  C14: A sync code whose peers are shorter than 256 bytes is read back from any text that
  equals its encoding up to case, surrounding white space and the placing of dashes.
\<close>

theorem sync_code_round_trip:
  assumes "code_sizes c" and "\<forall>p \<in> set (mc_peers c). length p < 256" and "\<forall>k m. 4 \<le> length (mac k m)"
    and "to_upper up (trim_space s) = code_prefix @ t"
    and "filter (\<lambda>x. x \<noteq> CHR ''-'') t = filter (\<lambda>x. x \<noteq> CHR ''-'') (drop (length code_prefix) (encode_code mac c))"
  shows "decode_code up mac s = Inr c"
proof -
  let ?e = "b32_encode (code_body c @ code_mac mac (mc_psk c) (code_body c))"
  have "CHR ''-'' \<notin> set ?e" using b32_encode_code by blast
  then have "filter (\<lambda>x. x \<noteq> CHR ''-'') t = ?e"
    using assms(5) dash_groups_filter [of ?e] by (simp add: encode_code_def)
  from decode_up_to_tlvs [OF assms(1,3,4) this] show ?thesis
    by (simp add: code_tlvs_peers [OF assms(2)])
qed

lemma encode_code_text:
  "trim_space (encode_code mac c) = encode_code mac c \<and> to_upper up (encode_code mac c) = encode_code mac c"
proof -
  let ?s = "encode_code mac c"
  have chars: "\<forall>x \<in> set ?s. code_char x"
    using b32_encode_code
    by (auto simp: encode_code_def code_prefix_def code_char_def dest!: dash_groups_chars)
  have ne: "?s \<noteq> []" by (simp add: encode_code_def code_prefix_def)
  have "solid_ends ?s" unfolding solid_ends_def using ne chars code_char_facts hd_in_set last_in_set by blast
  moreover have "list_all ascii ?s" using chars code_char_facts by (auto simp: list_all_iff)
  moreover have "map upper_ascii ?s = ?s" using chars code_char_facts by (intro map_idI) blast
  ultimately show ?thesis by (simp add: to_upper_def)
qed

lemma decode_encode:
  assumes "code_sizes c" and "\<forall>k m. 4 \<le> length (mac k m)"
  shows "decode_code up mac (encode_code mac c) =
    (case code_tlvs (concat (map peer_tlv (mc_peers c))) of Inl e \<Rightarrow> Inl e | Inr ps \<Rightarrow> Inr (c \<lparr>mc_peers := ps\<rparr>))"
proof (rule decode_up_to_tlvs [OF assms])
  let ?e = "b32_encode (code_body c @ code_mac mac (mc_psk c) (code_body c))"
  show "to_upper up (trim_space (encode_code mac c)) = code_prefix @ dash_groups ?e"
    using encode_code_text by (simp add: encode_code_def)
  show "filter (\<lambda>x. x \<noteq> CHR ''-'') (dash_groups ?e) = ?e"
    using b32_encode_code by (intro dash_groups_filter) blast
qed

text \<open>A peer of 256 bytes gets the length byte 0: the code that is printed cannot be read back.\<close>

definition long_peer_code :: "mesh_code \<Rightarrow> mesh_code" where
  "long_peer_code c = c \<lparr>mc_peers := [replicate 256 (CHR ''a'')]\<rparr>"

text \<open>
  The code of a group with a peer of 256 letters is printed but cannot be read back: its
  length byte is 0.
\<close>

theorem long_peer_code_unreadable:
  assumes "code_sizes c" and "\<forall>k m. 4 \<le> length (mac k m)"
  shows "decode_code up mac (encode_code mac (long_peer_code c)) = Inl Truncated_extension"
proof -
  have "code_tlvs (peer_tlv (replicate 256 (CHR ''a''))) = Inl Truncated_extension" by code_simp
  moreover have "code_sizes (long_peer_code c)" using assms(1) by (simp add: code_sizes_def long_peer_code_def)
  ultimately show ?thesis using decode_encode [OF _ assms(2)] by (simp add: long_peer_code_def)
qed

subsection \<open>Requests\<close>

lemma hex_nibble_digit: "n < 16 \<Longrightarrow> hex_nibble (''0123456789abcdef'' ! n) = Some n"
proof -
  assume "n < 16"
  moreover have "list_all (\<lambda>k. hex_nibble (''0123456789abcdef'' ! k) = Some k) [0..<16]"
    by (simp add: upt_rec hex_nibble_def)
  ultimately show ?thesis by (simp add: list_all_iff)
qed

lemma nibbles: "n < 256 \<Longrightarrow> n div 16 < 16 \<and> n mod 16 < (16 :: nat)"
  by auto

lemma hex_decode_digits [simp]: "hex_decode (hex_digits b) = Some b"
proof (induction b)
  case (Cons c b)
  have "(of_char c :: nat) div 16 < 16" "(of_char c :: nat) mod 16 < 16"
    using nibbles [OF of_char_lt] by blast+
  then show ?case using Cons by (simp add: hex_digits_def Let_def hex_nibble_digit)
qed (simp add: hex_digits_def)

lemma hmac_equal_hex_iff: "hmac_equal_hex m (hex_digits b) \<longleftrightarrow> hex_decode m = Some b"
  by (auto simp: hmac_equal_hex_def split: option.splits)

lemma append_newline_inj:
  "newline \<notin> set a \<Longrightarrow> newline \<notin> set b \<Longrightarrow> a @ newline # s = b @ newline # t \<Longrightarrow> a = b \<and> s = t"
proof (induction a arbitrary: b)
  case Nil
  then show ?case by (cases b) auto
next
  case (Cons x a)
  then show ?case by (cases b) auto
qed

lemma itoa_newline: "newline \<notin> set (itoa v)"
  using dec_of_free [of newline] by (auto simp: itoa_def newline_def)

lemma dec_of_no_minus: "CHR ''-'' \<notin> set (dec_of n)"
  by (rule dec_of_free) simp

lemma itoa_inj: "itoa v = itoa w \<Longrightarrow> v = w"
proof -
  assume e: "itoa v = itoa w"
  have no: "dec_of n \<noteq> CHR ''-'' # s" for n s using dec_of_no_minus [of n] by (metis list.set_intros(1))
  show ?thesis
  proof (cases "v < 0")
    case True
    then have "w < 0" using e no by (auto simp: itoa_def split: if_splits dest: sym)
    then show ?thesis using e True dec_of_inj [of "nat (- v)" "nat (- w)"] by (simp add: itoa_def)
  next
    case False
    then have "\<not> w < 0" using e no by (auto simp: itoa_def split: if_splits)
    then show ?thesis using e False dec_of_inj [of "nat v" "nat w"] by (simp add: itoa_def)
  qed
qed

text \<open>
  Two requests have the same authenticated message only if timestamp, nonce, method and
  path agree, when nonce and method hold no line break.
\<close>

theorem request_message_inj:
  assumes "request_message ts nonce meth path = request_message ts' nonce' meth' path'"
    and "newline \<notin> set nonce" and "newline \<notin> set nonce'" and "newline \<notin> set meth" and "newline \<notin> set meth'"
  shows "ts = ts' \<and> nonce = nonce' \<and> meth = meth' \<and> path = path'"
proof -
  have e: "itoa ts @ newline # nonce @ newline # meth @ newline # path @ [newline] =
      itoa ts' @ newline # nonce' @ newline # meth' @ newline # path' @ [newline]"
    using assms(1) by (simp add: request_message_def mac_field_def)
  note 1 = append_newline_inj [OF itoa_newline itoa_newline e]
  note 2 = append_newline_inj [OF assms(2,3) conjunct2 [OF 1]]
  note 3 = append_newline_inj [OF assms(4,5) conjunct2 [OF 2]]
  show ?thesis using 1 2 3 itoa_inj by simp
qed

lemma wrap64_id: "- (2 ^ 63) \<le> v \<Longrightarrow> v < 2 ^ 63 \<Longrightarrow> wrap64 v = v"
  by (simp add: wrap64_def)

lemma wrap64_range: "- (2 ^ 63) \<le> wrap64 v \<and> wrap64 v < 2 ^ 63"
proof -
  have "0 \<le> (v + 2 ^ 63) mod (2 :: int) ^ 64" "(v + 2 ^ 63) mod 2 ^ 64 < (2 :: int) ^ 64" by simp_all
  moreover have "(2 :: int) ^ 64 = 2 * 2 ^ 63" by simp
  ultimately show ?thesis unfolding wrap64_def by linarith
qed

text \<open>
  What an accepted request has shown, for clocks and timestamps in the range of the 64-bit
  seconds: the only timestamp outside the two minutes that passes is the one 2^63 seconds away.
\<close>

lemma skew_accepted:
  assumes "0 \<le> d" and "d < 2 ^ 62" and "- (2 ^ 63) \<le> ts" and "ts < 2 ^ 63"
    and "\<not> 120 < (let s = wrap64 (d - ts) in if s < 0 then wrap64 (- s) else s)"
  shows "\<bar>d - ts\<bar> \<le> 120 \<or> ts = d - 2 ^ 63"
proof (cases "d - ts < 2 ^ 63")
  case True
  then have "wrap64 (d - ts) = d - ts" using assms by (intro wrap64_id) auto
  moreover have "wrap64 (- (d - ts)) = - (d - ts)" if "d - ts < 0" using assms that True by (intro wrap64_id) auto
  ultimately show ?thesis using assms(5) by (auto simp: Let_def split: if_splits)
next
  case False
  have "(d - ts + 2 ^ 63) mod 2 ^ 64 = (d - ts - 2 ^ 63 + 2 ^ 64) mod 2 ^ 64" by (simp add: add.commute)
  also have "\<dots> = (d - ts - 2 ^ 63) mod 2 ^ 64" by (rule mod_add_self2)
  also have "\<dots> = d - ts - 2 ^ 63" using False assms(1-4) by (intro mod_pos_pos_trivial) auto
  finally have w: "wrap64 (d - ts) = d - ts - 2 ^ 64" by (simp add: wrap64_def)
  show ?thesis
  proof (cases "d - ts = 2 ^ 63")
    case True
    then show ?thesis by simp
  next
    case far: False
    have neg: "d - ts - 2 ^ 64 < 0" using assms(1-4) by simp
    have "wrap64 (- (d - ts - 2 ^ 64)) = - (d - ts - 2 ^ 64)"
      using assms(1-4) False far by (intro wrap64_id) auto
    then have "\<not> 120 < - (d - ts - 2 ^ 64)" using assms(5) neg unfolding w Let_def by simp
    then show ?thesis using assms(1-4) by simp
  qed
qed

text \<open>
  C37: An accepted request carries the MAC of its own timestamp, nonce, method and path, has
  a nonce the cache had not kept, and a timestamp within two minutes of the clock, or
  exactly 2^63 seconds ahead of the wrap.
\<close>

theorem accepted_request:
  assumes "fst (verify_request mac key now ts nonce meth path m cache) = None"
    and "0 \<le> now div giga" and "now div giga < 2 ^ 62" and "- (2 ^ 63) \<le> ts" and "ts < 2 ^ 63"
  shows "nonce \<noteq> [] \<and> hex_decode m = Some (mac key (request_message ts nonce meth path))
    \<and> (\<bar>now div giga - ts\<bar> \<le> 120 \<or> ts = now div giga - 2 ^ 63)
    \<and> (\<forall>c. cache = Some c \<longrightarrow> fst (remember c nonce now))"
proof -
  have n: "nonce \<noteq> []" and s: "\<not> 120 < (let s = wrap64 (now div giga - ts) in if s < 0 then wrap64 (- s) else s)"
    and h: "hmac_equal_hex m (sign_request mac key ts nonce meth path)"
    and c: "\<forall>c. cache = Some c \<longrightarrow> fst (remember c nonce now)"
    using assms(1) by (auto simp: verify_request_def Let_def split: if_splits option.splits prod.splits)
  have "hex_decode m = Some (mac key (request_message ts nonce meth path))"
    using h by (simp add: sign_request_def request_mac_def hmac_equal_hex_iff)
  then show ?thesis using n c skew_accepted [OF assms(2-5) s] by blast
qed

subsection \<open>The nonce cache\<close>

definition cache_ok :: "(string \<rightharpoonup> int) \<Rightarrow> string list \<Rightarrow> bool" where
  "cache_ok seen order \<longleftrightarrow> distinct order \<and> (\<forall>n. seen n \<noteq> None \<longleftrightarrow> n \<in> set order)"

lemma cache_ok_tl: "cache_ok seen (n # order) \<Longrightarrow> cache_ok (seen (n := None)) order"
  by (auto simp: cache_ok_def)

lemma evict_ok: "cache_ok seen order \<Longrightarrow> evict ttl limit now seen order = (seen', order') \<Longrightarrow>
    cache_ok seen' order' \<and> (0 < limit \<longrightarrow> length order' < limit)"
proof (induction order arbitrary: seen)
  case (Cons oldest order)
  let ?stay = "(case seen oldest of None \<Rightarrow> False | Some t \<Rightarrow> now - t \<le> ttl) \<and> length (oldest # order) < limit"
  show ?case
  proof (cases ?stay)
    case True
    then have "seen' = seen" "order' = oldest # order" using Cons.prems(2) by simp_all
    then show ?thesis using Cons.prems(1) True by simp
  next
    case False
    then have "evict ttl limit now (seen (oldest := None)) order = (seen', order')"
      using Cons.prems(2) by (simp only: evict.simps if_False)
    then show ?thesis by (rule Cons.IH [OF cache_ok_tl [OF Cons.prems(1)]])
  qed
qed simp

lemma evict_keeps:
  "cache_ok seen (pre @ n # post) \<Longrightarrow> seen n = Some t \<Longrightarrow> now - t \<le> ttl \<Longrightarrow> Suc (length post) < limit \<Longrightarrow>
   \<exists>seen' pre'. evict ttl limit now seen (pre @ n # post) = (seen', pre' @ n # post) \<and> seen' n = Some t
     \<and> cache_ok seen' (pre' @ n # post)"
proof (induction pre arbitrary: seen)
  case Nil
  then show ?case by (intro exI [of _ seen] exI [of _ "[]"]) simp
next
  case (Cons x pre)
  let ?stay = "(case seen x of None \<Rightarrow> False | Some t \<Rightarrow> now - t \<le> ttl) \<and> length (x # pre @ n # post) < limit"
  show ?case
  proof (cases ?stay)
    case True
    then show ?thesis using Cons.prems by (intro exI [of _ seen] exI [of _ "x # pre"]) simp
  next
    case False
    have ok: "cache_ok (seen (x := None)) (pre @ n # post)" using Cons.prems(1) cache_ok_tl by simp
    have "x \<noteq> n" using Cons.prems(1) by (auto simp: cache_ok_def)
    then have "(seen (x := None)) n = Some t" using Cons.prems(2) by simp
    from Cons.IH [OF ok this Cons.prems(3,4)] show ?thesis
      using False by (simp only: append_Cons evict.simps if_False)
  qed
qed

definition holds_nonce :: "nonce_cache \<Rightarrow> string \<Rightarrow> int \<Rightarrow> nat \<Rightarrow> bool" where
  "holds_nonce c n t k \<longleftrightarrow> cache_ok (nc_seen c) (nc_order c) \<and> nc_seen c n = Some t
     \<and> (\<exists>pre post. nc_order c = pre @ n # post \<and> length post \<le> k)"

lemma holds_nonceI:
  "cache_ok seen (pre @ n # post) \<Longrightarrow> seen n = Some t \<Longrightarrow> length post \<le> k \<Longrightarrow>
    holds_nonce (c \<lparr>nc_seen := seen, nc_order := pre @ n # post\<rparr>) n t k"
  by (auto simp: holds_nonce_def)

lemma remember_limits [simp]:
  "nc_ttl (snd (remember c n t)) = nc_ttl c" "nc_limit (snd (remember c n t)) = nc_limit c"
  by (auto simp: remember_def split: prod.splits)

lemma remember_ok:
  assumes "cache_ok (nc_seen c) (nc_order c)"
  shows "cache_ok (nc_seen (snd (remember c n t))) (nc_order (snd (remember c n t)))
    \<and> (0 < nc_limit c \<longrightarrow> length (nc_order (snd (remember c n t))) \<le> nc_limit c)"
proof -
  obtain seen order where e: "evict (nc_ttl c) (nc_limit c) t (nc_seen c) (nc_order c) = (seen, order)" by force
  have "cache_ok seen order \<and> (0 < nc_limit c \<longrightarrow> length order < nc_limit c)"
    using evict_ok [OF assms e] by blast
  then show ?thesis using e by (auto simp: remember_def cache_ok_def)
qed

lemma remember_accepts:
  assumes "cache_ok (nc_seen c) (nc_order c)" and "fst (remember c n t)"
  shows "holds_nonce (snd (remember c n t)) n t 0"
proof -
  obtain seen order where e: "evict (nc_ttl c) (nc_limit c) t (nc_seen c) (nc_order c) = (seen, order)" by force
  have "cache_ok seen order" using evict_ok [OF assms(1) e] by blast
  then show ?thesis using e assms(2) by (auto simp: remember_def holds_nonce_def cache_ok_def split: if_splits)
qed

lemma remember_holds:
  assumes "holds_nonce c n t k" and "now - t \<le> nc_ttl c" and "Suc k < nc_limit c"
  shows "holds_nonce (snd (remember c m now)) n t (Suc k) \<and> (m = n \<longrightarrow> \<not> fst (remember c m now))"
proof -
  obtain pre post where o: "nc_order c = pre @ n # post" "length post \<le> k" "cache_ok (nc_seen c) (nc_order c)"
      "nc_seen c n = Some t"
    using assms(1) by (auto simp: holds_nonce_def)
  obtain seen' pre' where e: "evict (nc_ttl c) (nc_limit c) now (nc_seen c) (nc_order c) = (seen', pre' @ n # post)"
      "seen' n = Some t" "cache_ok seen' (pre' @ n # post)"
    using evict_keeps [of "nc_seen c" pre n post t now "nc_ttl c" "nc_limit c"] o assms(2,3) by auto
  show ?thesis
  proof (cases "seen' m = None")
    case True
    then have "m \<noteq> n" "m \<notin> set (pre' @ n # post)" using e(2,3) by (auto simp: cache_ok_def)
    then have "cache_ok (seen' (m \<mapsto> now)) ((pre' @ n # post) @ [m]) \<and> (seen' (m \<mapsto> now)) n = Some t"
      using e(2,3) by (auto simp: cache_ok_def)
    moreover have "(pre' @ n # post) @ [m] = pre' @ n # (post @ [m]) \<and> length (post @ [m]) \<le> Suc k"
      using o(2) by simp
    ultimately have "holds_nonce (c \<lparr>nc_seen := seen' (m \<mapsto> now), nc_order := (pre' @ n # post) @ [m]\<rparr>) n t (Suc k)"
      using holds_nonceI [of "seen' (m \<mapsto> now)" pre' n "post @ [m]" t "Suc k" c] by simp
    then show ?thesis using True e(1) \<open>m \<noteq> n\<close> by (simp add: remember_def)
  next
    case False
    then show ?thesis using e(1) holds_nonceI [OF e(3,2), of "Suc k" c] o(2) by (auto simp: remember_def)
  qed
qed

fun remember_all :: "nonce_cache \<Rightarrow> (string \<times> int) list \<Rightarrow> nonce_cache" where
  "remember_all c [] = c"
| "remember_all c ((n, t) # ops) = remember_all (snd (remember c n t)) ops"

lemma remember_all_holds:
  "holds_nonce c n t k \<Longrightarrow> \<forall>(m, now) \<in> set ops. now - t \<le> nc_ttl c \<Longrightarrow> k + length ops < nc_limit c \<Longrightarrow>
   holds_nonce (remember_all c ops) n t (k + length ops) \<and> nc_ttl (remember_all c ops) = nc_ttl c
     \<and> nc_limit (remember_all c ops) = nc_limit c"
proof (induction ops arbitrary: c k)
  case (Cons x ops)
  obtain m now where x: "x = (m, now)" by force
  have "holds_nonce (snd (remember c m now)) n t (Suc k)"
    using remember_holds [OF Cons.prems(1), of now m] Cons.prems x by simp
  from Cons.IH [OF this] show ?case using Cons.prems x by simp
qed simp

text \<open>Every cache reached from a new one is consistent, and never holds more than its limit.\<close>

text \<open>
  Every nonce cache reached from an empty one has distinct entries, agrees with its
  queue, and holds at most its limit.
\<close>

theorem cache_reachable_ok:
  assumes "0 < limit"
  shows "cache_ok (nc_seen (remember_all (new_nonce_cache limit ttl) ops)) (nc_order (remember_all (new_nonce_cache limit ttl) ops))
    \<and> length (nc_order (remember_all (new_nonce_cache limit ttl) ops)) \<le> limit"
proof -
  have "cache_ok (nc_seen c) (nc_order c) \<Longrightarrow> nc_limit c = limit \<Longrightarrow> length (nc_order c) \<le> limit \<Longrightarrow>
      cache_ok (nc_seen (remember_all c ops)) (nc_order (remember_all c ops))
      \<and> length (nc_order (remember_all c ops)) \<le> limit" for c
  proof (induction ops arbitrary: c)
    case (Cons x ops)
    obtain m now where x: "x = (m, now)" by force
    show ?case using Cons.IH [of "snd (remember c m now)"] remember_ok [OF Cons.prems(1), of m now] Cons.prems x assms
      by simp
  qed simp
  from this [of "new_nonce_cache limit ttl"] show ?thesis
    by (simp add: new_nonce_cache_def cache_ok_def)
qed

text \<open>
  C12: A nonce that was accepted is refused for the lifetime of the cache, as long as fewer
  than limit - 1 other requests come between.
\<close>

theorem nonce_refused_within_ttl:
  assumes "cache_ok (nc_seen c) (nc_order c)" and "fst (remember c n t)"
    and "\<forall>(m, now) \<in> set ops. now - t \<le> nc_ttl c" and "now - t \<le> nc_ttl c"
    and "length ops + 1 < nc_limit c"
  shows "\<not> fst (remember (remember_all (snd (remember c n t)) ops) n now)"
proof -
  let ?c1 = "snd (remember c n t)"
  have "holds_nonce ?c1 n t 0" by (rule remember_accepts [OF assms(1,2)])
  from remember_all_holds [OF this, of ops] assms(3,5)
  have "holds_nonce (remember_all ?c1 ops) n t (length ops)" "nc_ttl (remember_all ?c1 ops) = nc_ttl c"
    "nc_limit (remember_all ?c1 ops) = nc_limit c" by simp_all
  then show ?thesis using remember_holds [of "remember_all ?c1 ops" n t "length ops" now n] assms(4,5) by simp
qed

text \<open>
  \<open>internal/manager/mesh_api.go\<close> makes the cache with \<open>NewNonceCache(4096, MaxClockSkew)\<close>: a
  nonce is forgotten after two minutes, but a timestamp two minutes ahead stays good for four.
\<close>

definition api_cache :: nonce_cache where
  "api_cache = new_nonce_cache 4096 (120 * giga)"

text \<open>
  C13: With the cache the mesh API makes, a request whose timestamp is two minutes ahead is
  accepted, and the same request is accepted once more 121 seconds later.
\<close>

theorem replay_after_ttl:
  assumes "nonce \<noteq> []" and "m = sign_request mac key 1120 nonce meth path"
    and "verify_request mac key (1000 * giga) 1120 nonce meth path m (Some api_cache) = (r, c)"
  shows "r = None \<and> fst (verify_request mac key (1121 * giga) 1120 nonce meth path m c) = None"
proof -
  have eq: "hmac_equal_hex m (sign_request mac key 1120 nonce meth path)"
    using assms(2) by (simp add: sign_request_def hmac_equal_hex_iff)
  have c: "r = None \<and> c = Some (api_cache \<lparr>nc_seen := Map.empty(nonce \<mapsto> 1000 * giga), nc_order := [nonce]\<rparr>)"
    using assms(1,3) eq
    by (simp add: verify_request_def api_cache_def new_nonce_cache_def remember_def giga_def wrap64_def Let_def)
  then show ?thesis using assms(1) eq
    by (simp add: verify_request_def api_cache_def new_nonce_cache_def remember_def giga_def wrap64_def Let_def)
qed

subsection \<open>Derived keys\<close>

lemma hkdf_expand_length:
  assumes "\<forall>k m. 0 < length (mac k m)"
  shows "n \<le> length out + fuel \<Longrightarrow> n \<le> length (hkdf_expand mac prk info n fuel counter block out)"
proof (induction fuel arbitrary: counter block out)
  case (Suc fuel)
  let ?b = "mac prk (block @ info @ [char_of (counter mod 256)])"
  have "0 < length ?b" using assms by blast
  then have "n \<le> length (out @ ?b) + fuel" using Suc.prems unfolding length_append by linarith
  from Suc.IH [OF this] show ?case by (simp add: Let_def)
qed simp

text \<open>
  The key derivation returns exactly the number of bytes asked for, for any digest that
  is not empty.
\<close>

theorem hkdf_length:
  assumes "\<forall>k m. 0 < length (mac k m)"
  shows "length (hkdf mac secret salt info n) = n"
  using hkdf_expand_length [OF assms, of n "[]" n] by (simp add: hkdf_def Let_def)

subsection \<open>Concrete instances\<close>

definition ex_mac :: "bytes \<Rightarrow> bytes \<Rightarrow> bytes" where
  "ex_mac k m = take 32 (m @ replicate 32 (CHR ''k''))"

lemma ex_mac_length: "length (ex_mac k m) = 32"
  by (simp add: ex_mac_def)

lemma ex_mac_long: "\<forall>k m. 4 \<le> length (ex_mac k m)" "\<forall>k m. 0 < length (ex_mac k m)"
  by (simp_all only: ex_mac_length) simp_all

definition ex_code :: mesh_code where
  "ex_code = \<lparr>mc_entropy = replicate 8 (CHR ''a''), mc_secret = replicate 24 (CHR ''b''),
     mc_psk = replicate 32 (CHR ''c''), mc_peers = [''tcp://h:1'']\<rparr>"

lemma ex_code_sizes: "code_sizes ex_code"
  by (simp add: code_sizes_def ex_code_def)

theorem sync_code_round_trip_witness: "decode_code id ex_mac (encode_code ex_mac ex_code) = Inr ex_code"
proof (rule sync_code_round_trip [OF ex_code_sizes _ ex_mac_long(1)])
  show "\<forall>p \<in> set (mc_peers ex_code). length p < 256" by (simp add: ex_code_def)
  show "to_upper id (trim_space (encode_code ex_mac ex_code)) =
      code_prefix @ drop (length code_prefix) (encode_code ex_mac ex_code)"
    using encode_code_text by (simp add: encode_code_def)
qed simp

theorem long_peer_code_unreadable_witness:
  "decode_code id ex_mac (encode_code ex_mac (long_peer_code ex_code)) = Inl Truncated_extension"
  by (rule long_peer_code_unreadable [OF ex_code_sizes ex_mac_long(1)])

theorem request_message_inj_witness: "request_message 7 ''n'' ''GET'' ''/p'' \<noteq> request_message 7 ''n'' ''GET'' ''/q''"
  using request_message_inj [of 7 "''n''" "''GET''" "''/p''" 7 "''n''" "''GET''" "''/q''"] by (auto simp: newline_def)

theorem accepted_request_witness:
  "hex_decode (sign_request ex_mac [] 1120 ''n'' ''GET'' ''/'') = Some (ex_mac [] (request_message 1120 ''n'' ''GET'' ''/''))"
proof -
  have "hmac_equal_hex (sign_request ex_mac [] 1120 ''n'' ''GET'' ''/'') (sign_request ex_mac [] 1120 ''n'' ''GET'' ''/'')"
    by (simp add: sign_request_def hmac_equal_hex_iff)
  then have "fst (verify_request ex_mac [] (1000 * giga) 1120 ''n'' ''GET'' ''/''
      (sign_request ex_mac [] 1120 ''n'' ''GET'' ''/'') None) = None"
    by (simp add: verify_request_def giga_def wrap64_def Let_def)
  from accepted_request [OF this] show ?thesis by (simp add: giga_def)
qed

theorem nonce_refused_within_ttl_witness:
  "\<not> fst (remember (remember_all (snd (remember (new_nonce_cache 4 100) ''n'' 5)) [(''m'', 6), (''l'', 7)]) ''n'' 90)"
proof (rule nonce_refused_within_ttl)
  show "cache_ok (nc_seen (new_nonce_cache 4 100)) (nc_order (new_nonce_cache 4 100))"
    by (simp add: new_nonce_cache_def cache_ok_def)
  show "fst (remember (new_nonce_cache 4 100) ''n'' 5)" by (simp add: new_nonce_cache_def remember_def)
qed (simp_all add: new_nonce_cache_def)

theorem cache_reachable_ok_witness:
  "length (nc_order (remember_all (new_nonce_cache 2 100) [(''a'', 1), (''b'', 2), (''c'', 3)])) \<le> 2"
  using cache_reachable_ok [of 2 100 "[(''a'', 1), (''b'', 2), (''c'', 3)]"] by simp

theorem replay_after_ttl_witness:
  "fst (verify_request ex_mac [] (1121 * giga) 1120 ''n'' ''GET'' ''/'' (sign_request ex_mac [] 1120 ''n'' ''GET'' ''/'')
     (snd (verify_request ex_mac [] (1000 * giga) 1120 ''n'' ''GET'' ''/''
        (sign_request ex_mac [] 1120 ''n'' ''GET'' ''/'') (Some api_cache)))) = None"
  using replay_after_ttl [OF _ refl prod.collapse [symmetric], of "''n''"] by simp

theorem hkdf_length_witness: "length (derive_api_key ex_mac []) = 32"
  unfolding derive_api_key_def by (rule hkdf_length [OF ex_mac_long(2)])

end
