(* ===== verification/Config_Model.thy ===== *)
theory Config_Model
  imports Port_Match Mesh_Code Go_Sort
begin

section \<open>The configuration model\<close>

text \<open>
  \<open>internal/config/model.go\<close>: the records of the configuration, their defaults and the
  queries the other packages put to it; the edits of \<open>write.go\<close> (\<open>Upsert...\<close>,
  \<open>EnsureDefaults\<close>). A Go struct is a record with the same fields in the same order. A nil
  slice is the empty list, except where the code tells nil from empty
  (\<open>ZapretApplicationNames\<close>, an option). \<open>uint32\<close> is a 32-bit word.
\<close>

subsection \<open>Records\<close>

record settings =
  st_config_version :: int
  st_enabled :: bool
  st_workdir :: string
  st_runtime_dir :: string
  st_generated_dir :: string
  st_dnsmasq_include_dir :: string
  st_mihomo_bin :: string
  st_mihomo_config :: string
  st_mihomo_allow_lan :: bool
  st_external_controller :: string
  st_secret :: string
  st_fw_mark :: string
  st_fw_mark_mask :: string
  st_route_table :: string
  st_ip_rule_priority :: string
  st_ipv6 :: bool
  st_fake_ip :: bool
  st_sniffer :: bool
  st_dns_listen :: string
  st_rollback_on_fail :: bool
  st_apply_backup_max_bytes :: int
  st_mihomo_channel :: string
  st_mihomo_release_api :: string
  st_mihomo_stable_release_api :: string
  st_mihomo_version :: string
  st_mihomo_arch :: string
  st_mihomo_asset_url :: string
  st_mihomo_sha256_url :: string
  st_mihomo_geodata_enabled :: bool
  st_mihomo_mixin_enabled :: bool
  st_mihomo_auto_update_enabled :: bool
  st_mihomo_auto_update_cron :: string
  st_net_check_enabled :: bool
  st_net_check_cron :: string
  st_net_check_bytes :: int
  st_proxy_guard_enabled :: bool
  st_proxy_guard_cron :: string
  st_proxy_guard_min_members :: int
  st_proxy_guard_min_down_kbps :: int
  st_proxy_guard_probe_bytes :: int
  st_proxy_guard_max_jitter_ms :: int
  st_proxy_guard_active_probe_interval :: int
  st_proxy_guard_fleet_probe_interval :: int
  st_proxy_guard_quarantine_seconds :: int
  st_update_via_proxy :: bool
  st_suppress_hwid :: bool
  st_update_proxy_url :: string
  st_update_concurrency :: int
  st_auto_update_enabled :: bool
  st_auto_update_cron :: string
  st_reload_after_update :: bool
  st_background_updates :: bool
  st_boot_update_delay :: int
  st_update_nice :: int
  st_update_ionice_class :: int
  st_update_ionice_level :: int
  st_dashboard_enabled :: bool
  st_dashboard_listen :: string
  st_dashboard_path :: string
  st_dashboard_url :: string
  st_default_lists_base_url :: string
  st_dashboard_name :: string
  st_resource_profile :: string
  st_cache_mode :: string
  st_cache_dir :: string
  st_artifact_cache_mode :: string
  st_artifact_cache_max_bytes :: int
  st_artifact_cache_max_entries :: int
  st_log_level :: string
  st_log_format :: string
  st_metrics_enabled :: bool
  st_api_listen :: "string list"
  st_notify_url :: string
  st_notify_format :: string
  st_notify_on :: "string list"
  st_geo_refresh_geoip_url :: string
  st_geo_refresh_geoip_sha :: string
  st_geo_refresh_geosite_url :: string
  st_geo_refresh_geosite_sha :: string
  st_geo_refresh_mmdb_url :: string
  st_geo_refresh_mmdb_sha :: string
  st_geo_refresh_geoip_dir :: string
  st_geo_refresh_cron :: string
  st_bootstrap_doh_enabled :: bool
  st_bootstrap_doh_resolvers :: "string list"
  st_bootstrap_doh_timeout_ms :: int
  st_bootstrap_proxy_fallback :: bool
  st_bootstrap_tls_fingerprint :: string
  st_bootstrap_tofu_path :: string
  st_bootstrap_tofu_ttl_sec :: int
  st_bootstrap_health_gate :: bool
  st_ipv6_mode :: string
  st_ipv6_reject_when_off :: bool
  st_router_output_proxy :: bool
  st_cgroup_v2_path :: string
  st_wizard_vpn_pending :: bool
  st_wizard_zapret_pending :: bool
  st_ipv6_wan_interfaces :: "string list"
  st_lan_source_zones :: "string list"

record dns =
  dn_enabled :: bool
  dn_backend :: string
  dn_upstream_mode :: string
  dn_vpns :: "string list"
  dn_hijack_lan_dns :: bool
  dn_block_dot :: bool
  dn_block_doh3 :: bool
  dn_block_doq :: bool
  dn_doh3_block_ips4 :: "string list"
  dn_doh3_block_ips6 :: "string list"
  dn_listen :: string
  dn_fake_ip :: bool
  dn_enhanced_mode :: string
  dn_proxy_group_type :: string
  dn_proxy_filter :: string
  dn_proxy_exclude_filter :: string
  dn_proxy_strategy :: string
  dn_doh_upstreams :: "string list"
  dn_udp_upstreams :: "string list"
  dn_doq_upstreams :: "string list"
  dn_fallback_upstreams :: "string list"
  dn_fallback_domains :: "string list"

record proxy_wan =
  pw_name :: string
  pw_device :: string
  pw_mark :: "32 word"
  pw_mask :: "32 word"
  pw_table :: string

record mwan3 =
  mw_proxy_wan_enabled :: bool
  mw_proxy_wans :: "string list"
  mw_resolved_proxy_wans :: "proxy_wan list"

record zapret_profile =
  zp_name :: string
  zp_enabled :: bool
  zp_interfaces :: "string list"
  zp_queue_num :: int
  zp_fw_mark :: string
  zp_nfqws_bin :: string
  zp_params :: string
  zp_lua_bundle_dir :: string
  zp_blobs :: "string list"

record zapret_strategy =
  zs_selector_mark :: "32 word"
  zs_library_blobs :: "string list"
  zs_candidate :: string
  zs_name :: string
  zs_enabled :: bool
  zs_profile :: string
  zs_queue_num :: int
  zs_protocols :: "string list"
  zs_tcp_ports :: string
  zs_udp_ports :: string
  zs_tcp_pkt_out :: int
  zs_tcp_pkt_in :: int
  zs_udp_pkt_out :: int
  zs_udp_pkt_in :: int
  zs_preset :: string
  zs_params :: string

record vpn =
  vp_name :: string
  vp_enabled :: bool
  vp_interface :: string

record device =
  dv_name :: string
  dv_mac :: string
  dv_section :: string
  dv_enabled :: bool
  dv_exclude :: bool

record route_section =
  sc_name :: string
  sc_enabled :: bool
  sc_action :: string
  sc_tproxy_port :: int
  sc_proxy_group :: string
  sc_proxy_group_type :: string
  sc_proxy_filter :: string
  sc_proxy_exclude_filter :: string
  sc_proxy_strategy :: string
  sc_proxy_health_check_url :: string
  sc_proxy_health_check_interval :: int
  sc_user_overridden_proxy_group :: bool
  sc_ipv4_enabled :: bool
  sc_ipv6_enabled :: bool
  sc_udp_mode :: string
  sc_match_protocol :: string
  sc_destination_ports :: string
  sc_priority :: int
  sc_vpns :: "string list"
  sc_zapret_application_names :: "string list option"
  sc_zapret_strategies :: "string list"
  sc_source_cidr4 :: "string list"
  sc_source_cidr6 :: "string list"

record subscription =
  sb_name :: string
  sb_enabled :: bool
  sb_url :: string
  sb_mode :: string
  sb_preset_if_no_rules :: string
  sb_import_rules_on_low_resource :: bool
  sb_auto_apply :: bool
  sb_interval :: int
  sb_hwid :: string
  sb_device_name :: string
  sb_user_agent :: string
  sb_headers :: "string list"
  sb_mirrors :: "string list"
  sb_pin_sha256 :: string
  sb_suppress_hwid :: bool

record proxy_provider =
  pp_name :: string
  pp_enabled :: bool
  pp_type :: string
  pp_url :: string
  pp_interval :: int
  pp_path :: string
  pp_health_check :: bool
  pp_health_check_url :: string
  pp_health_check_interval :: int
  pp_hwid :: string
  pp_device_name :: string
  pp_user_agent :: string
  pp_headers :: "string list"
  pp_mirrors :: "string list"
  pp_pin_sha256 :: string
  pp_suppress_hwid :: bool

record rule_provider =
  rp_name :: string
  rp_enabled :: bool
  rp_behavior :: string
  rp_format :: string
  rp_parse_mode :: string
  rp_url :: string
  rp_interval :: int
  rp_path :: string
  rp_section :: string
  rp_category :: string
  rp_source_kind :: string
  rp_route_action :: string
  rp_source_subscription :: string
  rp_detected_category :: string
  rp_user_overridden_section :: bool
  rp_user_overridden_action :: bool
  rp_user_agent :: string
  rp_headers :: "string list"
  rp_mirrors :: "string list"
  rp_pin_sha256 :: string
  rp_last_error :: string
  rp_geo_target :: string

record bypass =
  by_name :: string
  by_cidr4 :: "string list"
  by_cidr6 :: "string list"
  by_proxy_server_cidr4 :: "string list"
  by_proxy_server_cidr6 :: "string list"
  by_source_cidr4 :: "string list"
  by_source_cidr6 :: "string list"

record ooni =
  oo_wans :: "string list"
  oo_enabled :: bool
  oo_upload :: bool
  oo_schedule :: string
  oo_proxy :: string
  oo_home :: string
  oo_user :: string
  oo_uid :: int

record mesh =
  me_enabled :: bool
  me_code :: string
  me_network_name :: string
  me_network_secret :: string
  me_psk :: string
  me_hwid :: string
  me_node_name :: string
  me_exit_enabled :: bool
  me_exit_filter :: string
  me_exit_exclude_filter :: string
  me_exit_max_mbit :: int
  me_overlay_ipv4 :: string
  me_listen_port :: int
  me_api_mesh_port :: int
  me_device_name :: string
  me_community_peers :: "string list"
  me_extra_peers :: "string list"
  me_easytier_bin :: string
  me_rpc_portal :: string
  me_sync_cron :: string
  me_peer_ttl_days :: int

record mesh_peer =
  mp_hwid :: string
  mp_name :: string
  mp_enabled :: bool
  mp_overlay_ip :: string
  mp_listen_port :: int
  mp_exit_offered :: bool
  mp_last_seen :: string
  mp_last_error :: string


record zapret_application =
  ap_name :: string
  ap_enabled :: bool
  ap_assignments :: "string list"

record config =
  cf_settings :: settings
  cf_dns :: dns
  cf_mwan3 :: mwan3
  cf_zapret_applications :: "zapret_application list"
  cf_zapret_profiles :: "zapret_profile list"
  cf_zapret_strategies :: "zapret_strategy list"
  cf_vpns :: "vpn list"
  cf_devices :: "device list"
  cf_sections :: "route_section list"
  cf_subscriptions :: "subscription list"
  cf_proxy_providers :: "proxy_provider list"
  cf_rule_providers :: "rule_provider list"
  cf_bypass :: bypass
  cf_ooni :: ooni
  cf_mesh :: mesh
  cf_mesh_peers :: "mesh_peer list"

subsection \<open>Zero values and defaults\<close>

definition zero_settings :: settings where
  "zero_settings =
     \<lparr>st_config_version = 0, st_enabled = False, st_workdir = [], st_runtime_dir = [],
       st_generated_dir = [], st_dnsmasq_include_dir = [], st_mihomo_bin = [],
       st_mihomo_config = [], st_mihomo_allow_lan = False, st_external_controller = [],
       st_secret = [], st_fw_mark = [], st_fw_mark_mask = [], st_route_table = [],
       st_ip_rule_priority = [], st_ipv6 = False, st_fake_ip = False, st_sniffer = False,
       st_dns_listen = [], st_rollback_on_fail = False, st_apply_backup_max_bytes = 0,
       st_mihomo_channel = [], st_mihomo_release_api = [], st_mihomo_stable_release_api = [],
       st_mihomo_version = [], st_mihomo_arch = [], st_mihomo_asset_url = [],
       st_mihomo_sha256_url = [], st_mihomo_geodata_enabled = False,
       st_mihomo_mixin_enabled = False, st_mihomo_auto_update_enabled = False,
       st_mihomo_auto_update_cron = [], st_net_check_enabled = False, st_net_check_cron = [],
       st_net_check_bytes = 0, st_proxy_guard_enabled = False, st_proxy_guard_cron = [],
       st_proxy_guard_min_members = 0, st_proxy_guard_min_down_kbps = 0,
       st_proxy_guard_probe_bytes = 0, st_proxy_guard_max_jitter_ms = 0,
       st_proxy_guard_active_probe_interval = 0, st_proxy_guard_fleet_probe_interval = 0,
       st_proxy_guard_quarantine_seconds = 0, st_update_via_proxy = False,
       st_suppress_hwid = False, st_update_proxy_url = [], st_update_concurrency = 0,
       st_auto_update_enabled = False, st_auto_update_cron = [], st_reload_after_update = False,
       st_background_updates = False, st_boot_update_delay = 0, st_update_nice = 0,
       st_update_ionice_class = 0, st_update_ionice_level = 0, st_dashboard_enabled = False,
       st_dashboard_listen = [], st_dashboard_path = [], st_dashboard_url = [],
       st_default_lists_base_url = [], st_dashboard_name = [], st_resource_profile = [],
       st_cache_mode = [], st_cache_dir = [], st_artifact_cache_mode = [],
       st_artifact_cache_max_bytes = 0, st_artifact_cache_max_entries = 0, st_log_level = [],
       st_log_format = [], st_metrics_enabled = False, st_api_listen = [], st_notify_url = [],
       st_notify_format = [], st_notify_on = [], st_geo_refresh_geoip_url = [],
       st_geo_refresh_geoip_sha = [], st_geo_refresh_geosite_url = [],
       st_geo_refresh_geosite_sha = [], st_geo_refresh_mmdb_url = [],
       st_geo_refresh_mmdb_sha = [], st_geo_refresh_geoip_dir = [], st_geo_refresh_cron = [],
       st_bootstrap_doh_enabled = False, st_bootstrap_doh_resolvers = [],
       st_bootstrap_doh_timeout_ms = 0, st_bootstrap_proxy_fallback = False,
       st_bootstrap_tls_fingerprint = [], st_bootstrap_tofu_path = [],
       st_bootstrap_tofu_ttl_sec = 0, st_bootstrap_health_gate = False, st_ipv6_mode = [],
       st_ipv6_reject_when_off = False, st_router_output_proxy = False, st_cgroup_v2_path = [],
       st_wizard_vpn_pending = False, st_wizard_zapret_pending = False,
       st_ipv6_wan_interfaces = [], st_lan_source_zones = []\<rparr>"

definition zero_dns :: dns where
  "zero_dns =
     \<lparr>dn_enabled = False, dn_backend = [], dn_upstream_mode = [], dn_vpns = [],
       dn_hijack_lan_dns = False, dn_block_dot = False, dn_block_doh3 = False,
       dn_block_doq = False, dn_doh3_block_ips4 = [], dn_doh3_block_ips6 = [], dn_listen = [],
       dn_fake_ip = False, dn_enhanced_mode = [], dn_proxy_group_type = [], dn_proxy_filter = [],
       dn_proxy_exclude_filter = [], dn_proxy_strategy = [], dn_doh_upstreams = [],
       dn_udp_upstreams = [], dn_doq_upstreams = [], dn_fallback_upstreams = [],
       dn_fallback_domains = []\<rparr>"

definition zero_mwan3 :: mwan3 where
  "zero_mwan3 =
     \<lparr>mw_proxy_wan_enabled = False, mw_proxy_wans = [], mw_resolved_proxy_wans = []\<rparr>"

definition zero_zapret_profile :: zapret_profile where
  "zero_zapret_profile =
     \<lparr>zp_name = [], zp_enabled = False, zp_interfaces = [], zp_queue_num = 0,
       zp_fw_mark = [], zp_nfqws_bin = [], zp_params = [], zp_lua_bundle_dir = [],
       zp_blobs = []\<rparr>"

definition zero_zapret_strategy :: zapret_strategy where
  "zero_zapret_strategy =
     \<lparr>zs_selector_mark = 0, zs_library_blobs = [], zs_candidate = [], zs_name = [],
       zs_enabled = False, zs_profile = [], zs_queue_num = 0, zs_protocols = [],
       zs_tcp_ports = [], zs_udp_ports = [], zs_tcp_pkt_out = 0, zs_tcp_pkt_in = 0,
       zs_udp_pkt_out = 0, zs_udp_pkt_in = 0, zs_preset = [], zs_params = []\<rparr>"

definition zero_vpn :: vpn where
  "zero_vpn =
     \<lparr>vp_name = [], vp_enabled = False, vp_interface = []\<rparr>"

definition zero_route_section :: route_section where
  "zero_route_section =
     \<lparr>sc_name = [], sc_enabled = False, sc_action = [], sc_tproxy_port = 0,
       sc_proxy_group = [], sc_proxy_group_type = [], sc_proxy_filter = [],
       sc_proxy_exclude_filter = [], sc_proxy_strategy = [], sc_proxy_health_check_url = [],
       sc_proxy_health_check_interval = 0, sc_user_overridden_proxy_group = False,
       sc_ipv4_enabled = False, sc_ipv6_enabled = False, sc_udp_mode = [],
       sc_match_protocol = [], sc_destination_ports = [], sc_priority = 0, sc_vpns = [],
       sc_zapret_application_names = None, sc_zapret_strategies = [], sc_source_cidr4 = [],
       sc_source_cidr6 = []\<rparr>"

definition zero_bypass :: bypass where
  "zero_bypass =
     \<lparr>by_name = [], by_cidr4 = [], by_cidr6 = [], by_proxy_server_cidr4 = [],
       by_proxy_server_cidr6 = [], by_source_cidr4 = [], by_source_cidr6 = []\<rparr>"

definition zero_ooni :: ooni where
  "zero_ooni =
     \<lparr>oo_wans = [], oo_enabled = False, oo_upload = False, oo_schedule = [],
       oo_proxy = [], oo_home = [], oo_user = [], oo_uid = 0\<rparr>"

definition zero_mesh :: mesh where
  "zero_mesh =
     \<lparr>me_enabled = False, me_code = [], me_network_name = [], me_network_secret = [],
       me_psk = [], me_hwid = [], me_node_name = [], me_exit_enabled = False,
       me_exit_filter = [], me_exit_exclude_filter = [], me_exit_max_mbit = 0,
       me_overlay_ipv4 = [], me_listen_port = 0, me_api_mesh_port = 0, me_device_name = [],
       me_community_peers = [], me_extra_peers = [], me_easytier_bin = [], me_rpc_portal = [],
       me_sync_cron = [], me_peer_ttl_days = 0\<rparr>"

definition zero_mesh_peer :: mesh_peer where
  "zero_mesh_peer =
     \<lparr>mp_hwid = [], mp_name = [], mp_enabled = False, mp_overlay_ip = [],
       mp_listen_port = 0, mp_exit_offered = False, mp_last_seen = [], mp_last_error = []\<rparr>"

definition default_workdir :: string where "default_workdir = ''/etc/purewrt''"
definition default_runtime_dir :: string where "default_runtime_dir = ''/tmp/purewrt''"
definition default_mihomo_config :: string where "default_mihomo_config = ''/etc/purewrt/generated/mihomo.yaml''"
definition zapret_queue_base :: int where "zapret_queue_base = 200"

definition default_bootstrap_doh_resolvers :: "string list" where
  "default_bootstrap_doh_resolvers =
     [''https://1.1.1.1/dns-query'', ''https://1.0.0.1/dns-query'',
      ''https://8.8.8.8/dns-query'', ''https://9.9.9.9/dns-query'',
      ''https://94.140.14.14/dns-query'', ''https://94.140.15.15/dns-query'',
      ''https://194.242.2.2/dns-query'', ''https://77.88.8.1/dns-query'']"

definition default_doh3_block_ips4 :: "string list" where
  "default_doh3_block_ips4 =
     [''1.1.1.1'', ''1.0.0.1'', ''8.8.8.8'', ''8.8.4.4'', ''9.9.9.9'', ''149.112.112.112'',
      ''94.140.14.14'', ''94.140.15.15'', ''45.90.28.0/24'', ''45.90.30.0/24'']"

definition default_doh3_block_ips6 :: "string list" where
  "default_doh3_block_ips6 =
     [''2606:4700:4700::1111'', ''2606:4700:4700::1001'', ''2001:4860:4860::8888'',
      ''2001:4860:4860::8844'', ''2620:fe::fe'', ''2620:fe::9'', ''2a10:50c0::ad1:ff'',
      ''2a10:50c0::ad2:ff'']"

definition default_community_peers :: "string list" where
  "default_community_peers =
     [''wss://pwmesh.glants.xyz/pwmesh'', ''tcp://150.241.85.145:11010'']"

definition default_mesh :: mesh where
  "default_mesh = zero_mesh
     \<lparr>me_listen_port := 7897, me_api_mesh_port := 8788, me_device_name := ''pwmesh0'',
       me_community_peers := default_community_peers,
       me_easytier_bin := ''/usr/bin/easytier-core'', me_rpc_portal := ''127.0.0.1:15888'',
       me_sync_cron := ''*/5 * * * *'', me_peer_ttl_days := 30\<rparr>"

definition default_settings :: settings where
  "default_settings = zero_settings
     \<lparr>st_config_version := 1, st_enabled := True, st_workdir := default_workdir,
       st_runtime_dir := default_runtime_dir, st_dnsmasq_include_dir := [],
       st_mihomo_bin := ''/usr/bin/mihomo'', st_mihomo_config := default_mihomo_config,
       st_mihomo_allow_lan := False, st_external_controller := ''127.0.0.1:9090'',
       st_secret := ''auto-generated-secret'', st_fw_mark := ''0x1'',
       st_fw_mark_mask := ''0xff'', st_route_table := ''100'', st_ip_rule_priority := ''100'',
       st_ipv6 := True, st_dns_listen := ''127.0.0.1:7874'', st_rollback_on_fail := True,
       st_apply_backup_max_bytes := 0, st_mihomo_channel := ''alpha'',
       st_mihomo_release_api := ''https://api.github.com/repos/MetaCubeX/mihomo/releases/tags/Prerelease-Alpha'',
       st_mihomo_stable_release_api := ''https://api.github.com/repos/MetaCubeX/mihomo/releases/latest'',
       st_mihomo_mixin_enabled := False, st_mihomo_auto_update_enabled := False,
       st_mihomo_auto_update_cron := ''23 4 * * *'', st_net_check_enabled := False,
       st_net_check_cron := [], st_net_check_bytes := 2097152, st_proxy_guard_enabled := True,
       st_proxy_guard_cron := ''*/5 * * * *'', st_proxy_guard_min_members := 3,
       st_proxy_guard_min_down_kbps := 2000, st_proxy_guard_probe_bytes := 1048576,
       st_proxy_guard_max_jitter_ms := 250, st_proxy_guard_active_probe_interval := 1800,
       st_proxy_guard_fleet_probe_interval := 21600, st_proxy_guard_quarantine_seconds := 1800,
       st_mihomo_geodata_enabled := False, st_update_via_proxy := False,
       st_update_proxy_url := ''http://127.0.0.1:7890'', st_update_concurrency := 2,
       st_auto_update_enabled := True, st_auto_update_cron := ''17 */6 * * *'',
       st_reload_after_update := True, st_background_updates := True, st_boot_update_delay := 0,
       st_update_nice := 19, st_update_ionice_class := 3, st_update_ionice_level := 7,
       st_dashboard_enabled := True, st_dashboard_listen := ''0.0.0.0:9090'',
       st_dashboard_path := ''/etc/purewrt/dashboard'',
       st_dashboard_url := ''https://github.com/MetaCubeX/metacubexd/archive/refs/heads/gh-pages.zip'',
       st_dashboard_name := ''metacubexd'',
       st_default_lists_base_url := ''https://github.com/mglants/purewrt-lists/releases/latest/download/'',
       st_resource_profile := ''standard'', st_cache_mode := ''auto'', st_cache_dir := [],
       st_artifact_cache_mode := ''auto'', st_artifact_cache_max_bytes := 16777216,
       st_artifact_cache_max_entries := 50000, st_log_level := ''warn'',
       st_bootstrap_doh_enabled := True,
       st_bootstrap_doh_resolvers := default_bootstrap_doh_resolvers,
       st_bootstrap_doh_timeout_ms := 8000, st_bootstrap_proxy_fallback := True,
       st_bootstrap_tls_fingerprint := ''browser'', st_ipv6_mode := ''auto'',
       st_ipv6_reject_when_off := False, st_router_output_proxy := True,
       st_cgroup_v2_path := ''services/mihomo'', st_lan_source_zones := [''lan'']\<rparr>"

definition default_dns :: dns where
  "default_dns = zero_dns
     \<lparr>dn_enabled := True, dn_backend := ''dnsmasq'', dn_upstream_mode := ''mihomo'',
       dn_hijack_lan_dns := True, dn_block_dot := True, dn_block_doh3 := True,
       dn_block_doq := True, dn_doh3_block_ips4 := default_doh3_block_ips4,
       dn_doh3_block_ips6 := default_doh3_block_ips6, dn_listen := ''127.0.0.1:7874'',
       dn_enhanced_mode := ''redir-host'', dn_proxy_group_type := ''url-test'',
       dn_proxy_strategy := ''sticky-sessions'',
       dn_doh_upstreams := [''https://dns.google/dns-query#DNSProxy'', ''https://cloudflare-dns.com/dns-query#DNSProxy'', ''https://dns.quad9.net/dns-query#DNSProxy''],
       dn_udp_upstreams := [''77.88.8.8#DIRECT'', ''77.88.8.1#DIRECT''],
       dn_fallback_upstreams := [''https://common.dot.dns.yandex.net/dns-query#DIRECT''],
       dn_fallback_domains := [''+.ru'', ''+.su'', ''+.xn--p1ai'']\<rparr>"

definition default_sections :: "route_section list" where
  "default_sections =
     [zero_route_section
     \<lparr>sc_name := ''media'', sc_enabled := True, sc_action := ''proxy'',
       sc_tproxy_port := 7894, sc_proxy_group := ''Media'', sc_proxy_group_type := ''url-test'',
       sc_proxy_strategy := ''sticky-sessions'', sc_ipv4_enabled := True,
       sc_ipv6_enabled := True, sc_udp_mode := ''proxy'', sc_priority := 10\<rparr>,
      zero_route_section
     \<lparr>sc_name := ''ai'', sc_enabled := True, sc_action := ''proxy'',
       sc_tproxy_port := 7895, sc_proxy_group := ''AI'', sc_proxy_group_type := ''url-test'',
       sc_proxy_strategy := ''sticky-sessions'', sc_ipv4_enabled := True,
       sc_ipv6_enabled := True, sc_udp_mode := ''proxy'', sc_priority := 20\<rparr>,
      zero_route_section
     \<lparr>sc_name := ''common'', sc_enabled := True, sc_action := ''proxy'',
       sc_tproxy_port := 7893, sc_proxy_group := ''Common'', sc_proxy_group_type := ''url-test'',
       sc_proxy_strategy := ''sticky-sessions'', sc_ipv4_enabled := True,
       sc_ipv6_enabled := True, sc_udp_mode := ''proxy'', sc_priority := 60\<rparr>]"

definition default_ooni :: ooni where
  "default_ooni = zero_ooni
     \<lparr>oo_enabled := False, oo_upload := True, oo_schedule := ''0 */6 * * *'',
       oo_proxy := ''socks5://127.0.0.1:7890'', oo_home := ''/tmp/ooni'',
       oo_user := ''ooniprobe''\<rparr>"

definition default_config :: config where
  "default_config =
     \<lparr>cf_settings = default_settings, cf_dns = default_dns, cf_mwan3 = zero_mwan3,
      cf_zapret_applications = [], cf_zapret_profiles = [], cf_zapret_strategies = [], cf_vpns = [],
      cf_devices = [], cf_sections = default_sections, cf_subscriptions = [], cf_proxy_providers = [],
      cf_rule_providers = [], cf_bypass = zero_bypass \<lparr>by_name := ''bypass''\<rparr>, cf_ooni = default_ooni,
      cf_mesh = default_mesh, cf_mesh_peers = []\<rparr>"
subsection \<open>Queries\<close>

definition section_by_name :: "config \<Rightarrow> string \<Rightarrow> route_section option" where
  "section_by_name c name = find (\<lambda>s. sc_name s = name) (cf_sections c)"

definition mesh_active :: "config \<Rightarrow> bool" where
  "mesh_active c \<longleftrightarrow> me_enabled (cf_mesh c) \<and> me_network_name (cf_mesh c) \<noteq> []"

definition mesh_peer_by_name :: "config \<Rightarrow> string \<Rightarrow> mesh_peer option" where
  "mesh_peer_by_name c name = find (\<lambda>p. mp_name p = name) (cf_mesh_peers c)"

definition derived_cred_salt :: "(bytes \<Rightarrow> bytes \<Rightarrow> bytes) \<Rightarrow> string \<Rightarrow> string \<Rightarrow> string" where
  "derived_cred_salt mac psk_hex hwid =
     (if hwid = [] then []
      else (case hex_decode psk_hex of
          None \<Rightarrow> []
        | Some psk \<Rightarrow> if psk = [] then [] else derive_cred_salt mac psk hwid))"

definition mesh_cred_salt :: "(bytes \<Rightarrow> bytes \<Rightarrow> bytes) \<Rightarrow> mesh \<Rightarrow> string" where
  "mesh_cred_salt mac m = derived_cred_salt mac (me_psk m) (me_hwid m)"

definition peer_cred_salt :: "(bytes \<Rightarrow> bytes \<Rightarrow> bytes) \<Rightarrow> mesh_peer \<Rightarrow> string \<Rightarrow> string" where
  "peer_cred_salt mac p group_psk = derived_cred_salt mac group_psk (mp_hwid p)"

definition or_default :: "string \<Rightarrow> string \<Rightarrow> string" where
  "or_default v d = (if v = [] then d else v)"

definition ooni_settings :: "config \<Rightarrow> ooni" where
  "ooni_settings c =
     (let r = cf_ooni c; d = default_ooni
      in r \<lparr>oo_schedule := or_default (oo_schedule r) (oo_schedule d),
            oo_proxy := or_default (oo_proxy r) (oo_proxy d),
            oo_home := or_default (oo_home r) (oo_home d),
            oo_user := or_default (oo_user r) (oo_user d)\<rparr>)"

fun new_parts :: "string list \<Rightarrow> string list \<Rightarrow> string list" where
  "new_parts out [] = out"
| "new_parts out (p # ps) =
     (let part = trim_space p
      in if part = [] \<or> part \<in> set out then new_parts out ps else new_parts (out @ [part]) ps)"

definition normalize_interface_list :: "string list \<Rightarrow> string list" where
  "normalize_interface_list vs = new_parts [] (concat (map (split_on (CHR '','')) vs))"

definition normalize_zapret_profile :: "zapret_profile \<Rightarrow> zapret_profile" where
  "normalize_zapret_profile p =
     p \<lparr>zp_nfqws_bin := or_default (zp_nfqws_bin p) ''/usr/libexec/zapret/nfqws2'',
        zp_lua_bundle_dir := or_default (zp_lua_bundle_dir p) ''/usr/libexec/zapret/lua'',
        zp_fw_mark := or_default (zp_fw_mark p) ''0x40000000'',
        zp_interfaces := normalize_interface_list (zp_interfaces p)\<rparr>"

definition enabled_zapret_profiles :: "config \<Rightarrow> zapret_profile list" where
  "enabled_zapret_profiles c =
     map normalize_zapret_profile
       (filter (\<lambda>p. zp_enabled p \<and> zp_name p \<noteq> []) (cf_zapret_profiles c))"

definition zapret_profile_by_name :: "config \<Rightarrow> string \<Rightarrow> zapret_profile option" where
  "zapret_profile_by_name c name = find (\<lambda>p. zp_name p = name) (enabled_zapret_profiles c)"

definition normalize_zapret_strategy_at :: "zapret_strategy \<Rightarrow> int \<Rightarrow> zapret_strategy" where
  "normalize_zapret_strategy_at s index =
     s \<lparr>zs_profile := or_default (zs_profile s) ''wan'',
        zs_queue_num := zapret_queue_base,
        zs_selector_mark :=
          (if zs_selector_mark s = 0 \<and> 0 \<le> index then push_bit 16 (word_of_int (index + 1))
           else zs_selector_mark s),
        zs_protocols := (if zs_protocols s = [] then [''tcp''] else zs_protocols s),
        zs_tcp_pkt_out := (if zs_tcp_pkt_out s = 0 then 15 else zs_tcp_pkt_out s),
        zs_tcp_pkt_in := (if zs_tcp_pkt_in s = 0 then 6 else zs_tcp_pkt_in s),
        zs_udp_pkt_out := (if zs_udp_pkt_out s = 0 then 9 else zs_udp_pkt_out s)\<rparr>"

definition zapret_strategy_by_name :: "config \<Rightarrow> string \<Rightarrow> zapret_strategy option" where
  "zapret_strategy_by_name c name =
     (case find (\<lambda>(i, s). zs_name s = name \<and> zs_enabled s) (enumerate 0 (cf_zapret_strategies c)) of
        None \<Rightarrow> None
      | Some (i, s) \<Rightarrow> Some (normalize_zapret_strategy_at s (int i)))"

definition resource_profile :: "(string \<Rightarrow> string) \<Rightarrow> config \<Rightarrow> string" where
  "resource_profile lo c =
     (let v = to_lower lo (trim_space (st_resource_profile (cf_settings c)))
      in if v = ''low'' then ''low'' else if v = ''high'' then ''high'' else ''standard'')"

definition low_resource :: "(string \<Rightarrow> string) \<Rightarrow> config \<Rightarrow> bool" where
  "low_resource lo c \<longleftrightarrow> resource_profile lo c = ''low''"

definition ipv6_routed :: "(string \<Rightarrow> string) \<Rightarrow> config \<Rightarrow> bool" where
  "ipv6_routed lo c =
     (let v = to_lower lo (trim_space (st_ipv6_mode (cf_settings c)))
      in if v = ''on'' then True else if v = ''off'' then False
         else st_ipv6 (cf_settings c) \<and> \<not> low_resource lo c)"

text \<open>
  \<open>filepath.Join\<close> on the elements that are not empty, with \<open>filepath.Clean\<close>: the components
  from left to right, \<open>.\<close> dropped and \<open>..\<close> resolved against the components before it.
\<close>

definition clean_step :: "bool \<Rightarrow> string list \<Rightarrow> string \<Rightarrow> string list" where
  "clean_step rooted out p =
     (if p = [] \<or> p = ''.'' then out
      else if p = ''..'' then
        (if out \<noteq> [] \<and> last out \<noteq> ''..'' then butlast out else if rooted then out else out @ [p])
      else out @ [p])"

definition clean_path :: "string \<Rightarrow> string" where
  "clean_path p =
     (let rooted = has_prefix p ''/'';
          out = foldl (clean_step rooted) [] (split_on (CHR ''/'') p);
          r = (if rooted then ''/'' else []) @ join ''/'' out
      in if r = [] then ''.'' else r)"

definition path_join :: "string list \<Rightarrow> string" where
  "path_join es =
     (let ps = filter (\<lambda>e. e \<noteq> []) es in if ps = [] then [] else clean_path (join ''/'' ps))"

text \<open>
  \<open>strings.EqualFold\<close> against a word of lower-case ASCII letters: simple folding adds the long
  s and the Kelvin sign to the two cases of s and k.
\<close>

fun equal_fold :: "string \<Rightarrow> string \<Rightarrow> bool" where
  "equal_fold [] [] = True"
| "equal_fold (c # cs) (t # ts) =
     (if lower_ascii c = t then equal_fold cs ts
      else if t = CHR ''s'' \<and> has_prefix (c # cs) [CHR 0xC5, CHR 0xBF] then equal_fold (drop 1 cs) ts
      else if t = CHR ''k'' \<and> has_prefix (c # cs) [CHR 0xE2, CHR 0x84, CHR 0xAA]
      then equal_fold (drop 2 cs) ts
      else False)"
| "equal_fold _ _ = False"

definition runtime_dir :: "config \<Rightarrow> string" where
  "runtime_dir c = or_default (st_runtime_dir (cf_settings c)) default_runtime_dir"

definition cache_dir :: "(string \<Rightarrow> string) \<Rightarrow> config \<Rightarrow> string" where
  "cache_dir lo c =
     (if trim_space (st_cache_dir (cf_settings c)) \<noteq> [] then st_cache_dir (cf_settings c)
      else if low_resource lo c \<or> equal_fold (st_cache_mode (cf_settings c)) ''tmpfs''
      then path_join [runtime_dir c, ''cache'']
      else path_join [or_default (st_workdir (cf_settings c)) default_workdir, ''cache''])"

definition vpn_for_name :: "config \<Rightarrow> string \<Rightarrow> vpn option" where
  "vpn_for_name c name =
     (if name = [] then None
      else (case find (\<lambda>v. vp_name v = name) (cf_vpns c) of
          None \<Rightarrow> None
        | Some v \<Rightarrow> if vp_enabled v \<and> vp_interface v \<noteq> [] then Some v else None))"

definition next_tproxy_port :: "config \<Rightarrow> int" where
  "next_tproxy_port c =
     foldl (\<lambda>m s. if sc_tproxy_port s > m then sc_tproxy_port s else m) 7895 (cf_sections c) + 1"

definition listener_name :: "route_section \<Rightarrow> string" where
  "listener_name s = ''tproxy-'' @ sc_name s"

definition nft_set4 :: "route_section \<Rightarrow> string" where
  "nft_set4 s =
     (if sc_action s = ''direct'' then ''direct4'' else if sc_action s = ''reject'' then ''reject4''
      else ''proxy_'' @ sc_name s @ ''4'')"

definition nft_set6 :: "route_section \<Rightarrow> string" where
  "nft_set6 s =
     (if sc_action s = ''direct'' then ''direct6'' else if sc_action s = ''reject'' then ''reject6''
      else ''proxy_'' @ sc_name s @ ''6'')"

definition title_ascii :: "(string \<Rightarrow> string) \<Rightarrow> string \<Rightarrow> string" where
  "title_ascii up s0 =
     (let s = trim_space s0 in if s = [] then [] else to_upper up (take 1 s) @ drop 1 s)"

subsection \<open>Edits\<close>

definition ensure_defaults :: "config \<Rightarrow> config" where
  "ensure_defaults c =
     (let missing = filter (\<lambda>s. sc_name s \<notin> sc_name ` set (cf_sections c)) default_sections
      in c \<lparr>cf_sections := sort_by (\<lambda>a b. sc_priority a < sc_priority b) (cf_sections c @ missing)\<rparr>)"

text \<open>The first element that satisfies the test is replaced, or a new one goes to the end.\<close>

fun upsert :: "('a \<Rightarrow> bool) \<Rightarrow> ('a \<Rightarrow> 'a) \<Rightarrow> 'a list \<Rightarrow> 'a list \<Rightarrow> 'a list" where
  "upsert P f new [] = new"
| "upsert P f new (x # xs) = (if P x then f x # xs else x # upsert P f new xs)"

definition upsert_subscription :: "config \<Rightarrow> subscription \<Rightarrow> config" where
  "upsert_subscription c s =
     c \<lparr>cf_subscriptions :=
          upsert (\<lambda>x. sb_name x = sb_name s \<or> sb_url x = sb_url s) (\<lambda>_. s) [s] (cf_subscriptions c)\<rparr>"

definition upsert_proxy_provider :: "config \<Rightarrow> proxy_provider \<Rightarrow> config" where
  "upsert_proxy_provider c p =
     c \<lparr>cf_proxy_providers :=
          upsert (\<lambda>x. pp_name x = pp_name p \<or> (pp_url p \<noteq> [] \<and> pp_url x = pp_url p)) (\<lambda>_. p) [p]
            (cf_proxy_providers c)\<rparr>"

definition geo_source :: "string \<Rightarrow> string" where
  "geo_source k =
     (if k = ''geoip'' then
        ''https://github.com/MetaCubeX/meta-rules-dat/releases/latest/download/geoip.dat''
      else if k = ''geosite'' then
        ''https://github.com/MetaCubeX/meta-rules-dat/releases/latest/download/geosite.dat''
      else ''https://github.com/MetaCubeX/meta-rules-dat/releases/latest/download/country.mmdb'')"

definition seed_geo_defaults :: "config \<Rightarrow> rule_provider \<Rightarrow> config" where
  "seed_geo_defaults c p =
     (let s = cf_settings c
      in if rp_format p = ''geosite'' then
           c \<lparr>cf_settings := s \<lparr>st_geo_refresh_geosite_url :=
                or_default (st_geo_refresh_geosite_url s) (geo_source ''geosite'')\<rparr>\<rparr>
         else if rp_format p = ''geoip'' then
           c \<lparr>cf_settings := s \<lparr>st_geo_refresh_geoip_url :=
                or_default (st_geo_refresh_geoip_url s) (geo_source ''geoip''),
              st_geo_refresh_mmdb_url :=
                or_default (st_geo_refresh_mmdb_url s) (geo_source ''mmdb'')\<rparr>\<rparr>
         else c)"

definition keep_overrides :: "rule_provider \<Rightarrow> rule_provider \<Rightarrow> rule_provider" where
  "keep_overrides p old =
     (let p1 = (if rp_user_overridden_section old
                then p \<lparr>rp_section := rp_section old, rp_user_overridden_section := True\<rparr> else p);
          p2 = (if rp_user_overridden_action old
                then p1 \<lparr>rp_route_action := rp_route_action old, rp_user_overridden_action := True\<rparr>
                else p1)
      in if \<not> rp_enabled old then p2 \<lparr>rp_enabled := False\<rparr> else p2)"

definition upsert_rule_provider :: "config \<Rightarrow> rule_provider \<Rightarrow> config" where
  "upsert_rule_provider c p =
     (let same = (\<lambda>x. rp_name x = rp_name p \<or> (rp_url p \<noteq> [] \<and> rp_url x = rp_url p));
          c' = c \<lparr>cf_rule_providers := upsert same (keep_overrides p) [p] (cf_rule_providers c)\<rparr>
      in (case find same (cf_rule_providers c) of
            None \<Rightarrow> seed_geo_defaults c' p
          | Some old \<Rightarrow> seed_geo_defaults c' (keep_overrides p old)))"

definition update_proxy_group :: "route_section \<Rightarrow> route_section \<Rightarrow> route_section" where
  "update_proxy_group s old =
     (if sc_user_overridden_proxy_group old then old
      else old \<lparr>sc_proxy_group := or_default (sc_proxy_group s) (sc_proxy_group old),
                sc_proxy_group_type := or_default (sc_proxy_group_type s) (sc_proxy_group_type old),
                sc_proxy_filter := sc_proxy_filter s,
                sc_proxy_exclude_filter := sc_proxy_exclude_filter s,
                sc_proxy_strategy := or_default (sc_proxy_strategy s) (sc_proxy_strategy old),
                sc_proxy_health_check_url := sc_proxy_health_check_url s,
                sc_proxy_health_check_interval := sc_proxy_health_check_interval s\<rparr>)"

definition upsert_section_proxy_group ::
    "(string \<Rightarrow> string) \<Rightarrow> config \<Rightarrow> route_section \<Rightarrow> config" where
  "upsert_section_proxy_group up c s =
     (let new = s \<lparr>sc_action := or_default (sc_action s) ''proxy'',
                   sc_proxy_group := or_default (sc_proxy_group s) (title_ascii up (sc_name s)),
                   sc_proxy_group_type := or_default (sc_proxy_group_type s) ''url-test'',
                   sc_proxy_strategy := or_default (sc_proxy_strategy s) ''sticky-sessions''\<rparr>
      in c \<lparr>cf_sections := upsert (\<lambda>x. sc_name x = sc_name s) (update_proxy_group s)
              (if sc_name s \<noteq> [] then [new] else []) (cf_sections c)\<rparr>)"

end
