(* ===== verification/Config_Facts.thy ===== *)
theory Config_Facts
  imports Config_Model
begin

section \<open>What the edits of a configuration keep\<close>

text \<open>
  Facts about \<open>Upsert*\<close> and \<open>EnsureDefaults\<close>: what an edit keeps of the entry it replaces, the port
  it finds free, and that a completed configuration lacks no default.
\<close>

lemma upsert_nth:
  "i < length xs \<Longrightarrow> upsert P f new xs ! i = xs ! i \<or> (P (xs ! i) \<and> upsert P f new xs ! i = f (xs ! i))"
proof (induction xs arbitrary: i)
  case (Cons x xs)
  then show ?case by (cases i) auto
qed simp

lemma upsert_length: "length xs \<le> length (upsert P f [x] xs)"
  by (induction xs) auto

lemma seed_geo_keeps [simp]: "cf_rule_providers (seed_geo_defaults c p) = cf_rule_providers c"
  by (simp add: seed_geo_defaults_def Let_def)

lemma upsert_rule_provider_list: "cf_rule_providers (upsert_rule_provider c p)
    = upsert (\<lambda>x. rp_name x = rp_name p \<or> (rp_url p \<noteq> [] \<and> rp_url x = rp_url p)) (keep_overrides p) [p]
        (cf_rule_providers c)"
  by (simp add: upsert_rule_provider_def Let_def split: option.splits)

text \<open>
  C33: when a subscription brings a rule provider again, the choices of the user on the provider
  that is already there survive: the section and the action the user set, and that it is off.
\<close>

theorem provider_overrides_kept:
  assumes "i < length (cf_rule_providers c)"
  shows "(let old = cf_rule_providers c ! i; new = cf_rule_providers (upsert_rule_provider c p) ! i
      in (rp_user_overridden_section old \<longrightarrow> rp_section new = rp_section old \<and> rp_user_overridden_section new)
       \<and> (rp_user_overridden_action old \<longrightarrow> rp_route_action new = rp_route_action old \<and> rp_user_overridden_action new)
       \<and> (\<not> rp_enabled old \<longrightarrow> \<not> rp_enabled new))"
proof -
  have "(rp_user_overridden_section old \<longrightarrow> rp_section (keep_overrides p old) = rp_section old
        \<and> rp_user_overridden_section (keep_overrides p old))
      \<and> (rp_user_overridden_action old \<longrightarrow> rp_route_action (keep_overrides p old) = rp_route_action old
        \<and> rp_user_overridden_action (keep_overrides p old))
      \<and> (\<not> rp_enabled old \<longrightarrow> \<not> rp_enabled (keep_overrides p old))" for old
    by (simp add: keep_overrides_def Let_def)
  note kept = this
  let ?old = "cf_rule_providers c ! i" and ?new = "cf_rule_providers (upsert_rule_provider c p) ! i"
  have "?new = ?old \<or> ?new = keep_overrides p ?old"
    unfolding upsert_rule_provider_list using upsert_nth [OF assms] by blast
  then show ?thesis unfolding Let_def using kept [of ?old] by (elim disjE; simp only: HOL.simp_thms)
qed

definition ex_provider :: "string \<Rightarrow> bool \<Rightarrow> rule_provider" where
  "ex_provider section_name user =
     \<lparr>rp_name = ''r'', rp_enabled = True, rp_behavior = [], rp_format = [], rp_parse_mode = [], rp_url = [],
      rp_interval = 0, rp_path = [], rp_section = section_name, rp_category = [], rp_source_kind = [],
      rp_route_action = [], rp_source_subscription = [], rp_detected_category = [],
      rp_user_overridden_section = user, rp_user_overridden_action = False, rp_user_agent = [],
      rp_headers = [], rp_mirrors = [], rp_pin_sha256 = [], rp_last_error = [], rp_geo_target = []\<rparr>"

lemma provider_overrides_kept_witness:
  "rp_section (cf_rule_providers (upsert_rule_provider
      (default_config \<lparr>cf_rule_providers := [ex_provider ''vpn'' True]\<rparr>) (ex_provider ''common'' False)) ! 0)
    = ''vpn''"
  using provider_overrides_kept [of 0 "default_config \<lparr>cf_rule_providers := [ex_provider ''vpn'' True]\<rparr>"
      "ex_provider ''common'' False"]
  by (simp add: Let_def ex_provider_def)

interpretation section_priority: slice_order "\<lambda>a b. sc_priority a < sc_priority b"
  by unfold_locales auto

text \<open>
  \<open>EnsureDefaults\<close> keeps every section, adds the default sections whose names are not there
  and nothing else, and leaves the list ordered by priority.
\<close>

theorem ensure_defaults_complete:
  "mset (cf_sections (ensure_defaults c)) = mset (cf_sections c)
      + mset (filter (\<lambda>s. sc_name s \<notin> sc_name ` set (cf_sections c)) default_sections)
    \<and> sc_name ` set default_sections \<subseteq> sc_name ` set (cf_sections (ensure_defaults c))
    \<and> sorted (map sc_priority (cf_sections (ensure_defaults c)))"
proof -
  let ?ss = "cf_sections c @ filter (\<lambda>s. sc_name s \<notin> sc_name ` set (cf_sections c)) default_sections"
  have "cf_sections (ensure_defaults c) = sort_by (\<lambda>a b. sc_priority a < sc_priority b) ?ss"
    by (simp add: ensure_defaults_def Let_def)
  then show ?thesis
    using section_priority.sorted [of ?ss] by (auto simp: sorted_map not_less)
qed

lemma port_max: "foldl (\<lambda>m s. if sc_tproxy_port s > m then sc_tproxy_port s else m) m ss \<ge> m
    \<and> list_all (\<lambda>s. sc_tproxy_port s \<le> foldl (\<lambda>m s. if sc_tproxy_port s > m then sc_tproxy_port s else m) m ss) ss"
proof (induction ss arbitrary: m)
  case (Cons s ss)
  show ?case using Cons [of "if sc_tproxy_port s > m then sc_tproxy_port s else m"] by (auto split: if_splits)
qed simp

text \<open>
  The port a new section gets is larger than the port of every section there is, and than
  the ports the defaults use.
\<close>

theorem next_port_fresh:
  "list_all (\<lambda>s. sc_tproxy_port s < next_tproxy_port c) (cf_sections c) \<and> 7895 < next_tproxy_port c"
  using port_max [of 7895 "cf_sections c"] by (auto simp: next_tproxy_port_def list_all_iff)

end
