(* ===== verification/Zapret_Apps.thy ===== *)
theory Zapret_Apps
  imports Config_Model
begin

section \<open>Zapret applications\<close>

text \<open>
  \<open>internal/config/zapret_applications.go\<close> and \<open>zapret_references.go\<close>: the persisted
  applications are compiled into one profile and one strategy per application and library
  candidate, with a selector mark each, and the sections' application names into the names of
  those strategies. The candidate list is an argument of the
  compilation; \<open>load_zapret_candidates\<close> (\<open>candidates.go\<close>) builds it from what reading
  and decoding the JSON files gave. Another argument is \<open>is_file\<close>, the \<open>os.Stat\<close> of
  \<open>CanonicalBlobPath\<close>. The map \<open>instances\<close> keeps its
  entries in the order they are made; the set \<open>devices\<close> and the map \<open>grouped\<close> of one
  application are lists too.
\<close>

record blob_ref =
  br_name :: string
  br_file :: string
  br_sha256 :: string
  br_hex :: string

record zapret_candidate =
  zc_name :: string
  zc_origin :: string
  zc_isp :: string
  zc_service :: string
  zc_protocols :: "string list"
  zc_tcp_ports :: string
  zc_udp_ports :: string
  zc_tcp_pkt_out :: int
  zc_tcp_pkt_in :: int
  zc_udp_pkt_out :: int
  zc_udp_pkt_in :: int
  zc_params :: string
  zc_blobs :: "blob_ref list"

datatype zapret_error =
    Bad_application string
  | No_assignments string
  | Bad_assignment string string
  | Missing_candidate string string
  | Too_many_combinations
  | Missing_application string string
  | Missing_library_entry string string

subsection \<open>Names\<close>

definition alnum :: "char \<Rightarrow> bool" where
  "alnum c \<longleftrightarrow>
     (let n = of_char c :: nat
      in (48 \<le> n \<and> n \<le> 57) \<or> (65 \<le> n \<and> n \<le> 90) \<or> (97 \<le> n \<and> n \<le> 122))"

definition zapret_device :: "string \<Rightarrow> bool" where
  "zapret_device s \<longleftrightarrow>
     s \<noteq> [] \<and> length s \<le> 15 \<and> list_all (\<lambda>c. alnum c \<or> c \<in> set ''_.:-'') s"

definition zapret_application_name :: "string \<Rightarrow> bool" where
  "zapret_application_name s \<longleftrightarrow>
     s \<noteq> [] \<and> length s \<le> 48 \<and> (alnum (hd s) \<or> hd s = CHR ''_'')
     \<and> list_all (\<lambda>c. alnum c \<or> c \<in> set ''_-'') (tl s)"

definition cut :: "char \<Rightarrow> string \<Rightarrow> (string \<times> string) option" where
  "cut sep s = (case str_index s [sep] of None \<Rightarrow> None | Some i \<Rightarrow> Some (take i s, drop (i + 1) s))"

subsection \<open>Compilation\<close>

record zapret_build =
  zb_profiles :: "zapret_profile list"
  zb_strategies :: "zapret_strategy list"
  zb_instances :: "(string \<times> string list) list"

record app_build =
  ab_devices :: "string list"
  ab_grouped :: "(string \<times> nat) list"
  ab_profiles :: "zapret_profile list"
  ab_strategies :: "zapret_strategy list"
  ab_names :: "string list"

definition instance_name :: "string \<Rightarrow> nat \<Rightarrow> string" where
  "instance_name app n = app @ ''_w'' @ dec_of n"

definition join_profile :: "nat \<Rightarrow> string \<Rightarrow> app_build \<Rightarrow> app_build" where
  "join_profile i device b =
     b \<lparr>ab_profiles := (ab_profiles b)[i := (ab_profiles b ! i)
          \<lparr>zp_interfaces := zp_interfaces (ab_profiles b ! i) @ [device]\<rparr>]\<rparr>"

definition new_instance :: "string \<Rightarrow> string \<Rightarrow> string \<Rightarrow> app_build \<Rightarrow> app_build" where
  "new_instance app device candidate b =
     (let name = instance_name app (length (ab_names b) + 1)
      in b \<lparr>ab_grouped := (candidate, length (ab_profiles b)) # ab_grouped b,
            ab_names := ab_names b @ [name],
            ab_profiles := ab_profiles b
              @ [zero_zapret_profile \<lparr>zp_name := name, zp_enabled := True, zp_interfaces := [device]\<rparr>],
            ab_strategies := ab_strategies b
              @ [zero_zapret_strategy \<lparr>zs_name := name, zs_enabled := True, zs_profile := name,
                   zs_candidate := candidate, zs_queue_num := zapret_queue_base,
                   zs_selector_mark := push_bit 16 (word_of_nat (length (ab_strategies b) + 1))\<rparr>]\<rparr>)"

definition assign_device ::
    "zapret_candidate list \<Rightarrow> string \<Rightarrow> string \<Rightarrow> app_build \<Rightarrow> zapret_error + app_build" where
  "assign_device cands app raw b =
     (case cut (CHR ''='') raw of
        None \<Rightarrow> Inl (Bad_assignment app raw)
      | Some (device, candidate) \<Rightarrow>
          if \<not> zapret_device device \<or> device = ''lo'' \<or> device \<in> set (ab_devices b)
          then Inl (Bad_assignment app raw)
          else if candidate \<notin> zc_name ` set cands then Inl (Missing_candidate app candidate)
          else (let b1 = b \<lparr>ab_devices := ab_devices b @ [device]\<rparr>
                in case map_of (ab_grouped b1) candidate of
                     Some i \<Rightarrow> Inr (join_profile i device b1)
                   | None \<Rightarrow>
                       if length (ab_strategies b1) \<ge> 255 then Inl Too_many_combinations
                       else Inr (new_instance app device candidate b1)))"

fun assign_devices ::
    "zapret_candidate list \<Rightarrow> string \<Rightarrow> string list \<Rightarrow> app_build \<Rightarrow> zapret_error + app_build" where
  "assign_devices cands app [] b = Inr b"
| "assign_devices cands app (raw # raws) b =
     andthen (assign_device cands app raw b) (assign_devices cands app raws)"

definition compile_application ::
    "zapret_candidate list \<Rightarrow> zapret_application \<Rightarrow> zapret_build \<Rightarrow> zapret_error + zapret_build" where
  "compile_application cands app z =
     (if ap_assignments app = [] then Inl (No_assignments (ap_name app))
      else andthen
             (assign_devices cands (ap_name app) (ap_assignments app)
                \<lparr>ab_devices = [], ab_grouped = [], ab_profiles = zb_profiles z,
                 ab_strategies = zb_strategies z, ab_names = []\<rparr>)
             (\<lambda>b. Inr \<lparr>zb_profiles = ab_profiles b, zb_strategies = ab_strategies b,
                       zb_instances = zb_instances z @ [(ap_name app, ab_names b)]\<rparr>))"

fun compile_applications ::
    "zapret_candidate list \<Rightarrow> string list \<Rightarrow> zapret_application list \<Rightarrow> zapret_build
     \<Rightarrow> zapret_error + zapret_build" where
  "compile_applications cands names [] z = Inr z"
| "compile_applications cands names (app # apps) z =
     (if \<not> zapret_application_name (ap_name app) \<or> ap_name app \<in> set names
      then Inl (Bad_application (ap_name app))
      else if \<not> ap_enabled app then compile_applications cands (ap_name app # names) apps z
      else andthen (compile_application cands app z)
             (compile_applications cands (ap_name app # names) apps))"

definition instances_of :: "(string \<times> string list) list \<Rightarrow> string \<Rightarrow> string list" where
  "instances_of inst name = (case map_of inst name of None \<Rightarrow> [] | Some ns \<Rightarrow> ns)"

definition application_names :: "route_section \<Rightarrow> string list option" where
  "application_names s =
     (if sc_zapret_application_names s = None \<and> sc_zapret_strategies s \<noteq> []
      then Some (sc_zapret_strategies s) else sc_zapret_application_names s)"

definition compile_section ::
    "(string \<times> string list) list \<Rightarrow> route_section \<Rightarrow> zapret_error + route_section" where
  "compile_section inst s =
     (let names = application_names s;
          wanted = (case names of None \<Rightarrow> [] | Some ns \<Rightarrow> ns)
      in case find (\<lambda>n. sc_enabled s \<and> sc_action s = ''zapret'' \<and> instances_of inst n = []) wanted of
           Some n \<Rightarrow> Inl (Missing_application (sc_name s) n)
         | None \<Rightarrow> Inr (s \<lparr>sc_zapret_application_names := names,
                           sc_zapret_strategies := concat (map (instances_of inst) wanted)\<rparr>))"

fun compile_sections ::
    "(string \<times> string list) list \<Rightarrow> route_section list \<Rightarrow> zapret_error + route_section list" where
  "compile_sections inst [] = Inr []"
| "compile_sections inst (s # ss) =
     andthen (compile_section inst s) (\<lambda>s'.
     andthen (compile_sections inst ss) (\<lambda>ss'. Inr (s' # ss')))"

subsection \<open>Library references\<close>

definition path_base :: "string \<Rightarrow> string" where
  "path_base p =
     (if p = [] then ''.''
      else let t = rev (dropWhile (\<lambda>c. c = CHR ''/'') (rev p));
               b = rev (takeWhile (\<lambda>c. c \<noteq> CHR ''/'') (rev t))
           in if b = [] then ''/'' else b)"

definition zapret_fake_dirs :: "string list" where
  "zapret_fake_dirs =
     [''/usr/libexec/zapret/files/fake'', ''/opt/zapret2/files/fake'', ''/opt/zapret/files/fake'',
      ''/usr/lib/zapret/fake'']"

definition canonical_blob_path :: "(string \<Rightarrow> bool) \<Rightarrow> string \<Rightarrow> string" where
  "canonical_blob_path is_file file =
     (let f = path_base file
      in case find is_file (map (\<lambda>d. path_join [d, f]) zapret_fake_dirs) of
           Some p \<Rightarrow> p
         | None \<Rightarrow> path_join [''/etc/purewrt/blobs'', f])"

definition blob_entry :: "(string \<Rightarrow> bool) \<Rightarrow> blob_ref \<Rightarrow> string" where
  "blob_entry is_file b =
     br_name b @ '':'' @ (if br_hex b = [] then ''@'' @ canonical_blob_path is_file (br_file b) else br_hex b)"

text \<open>A later entry of the library wins over an earlier one with the same name.\<close>

definition candidate_by_name :: "zapret_candidate list \<Rightarrow> string \<Rightarrow> zapret_candidate option" where
  "candidate_by_name cands name = find (\<lambda>v. zc_name v = name) (rev cands)"

definition resolve_strategy ::
    "(string \<Rightarrow> bool) \<Rightarrow> zapret_candidate list \<Rightarrow> zapret_strategy \<Rightarrow> zapret_error + zapret_strategy" where
  "resolve_strategy is_file cands s =
     (if zs_candidate s = [] then Inr s
      else (case candidate_by_name cands (zs_candidate s) of
          None \<Rightarrow> Inl (Missing_library_entry (zs_name s) (zs_candidate s))
        | Some v \<Rightarrow> Inr (s \<lparr>zs_params := zc_params v, zs_protocols := zc_protocols v,
            zs_tcp_ports := zc_tcp_ports v, zs_udp_ports := zc_udp_ports v,
            zs_tcp_pkt_out := zc_tcp_pkt_out v, zs_tcp_pkt_in := zc_tcp_pkt_in v,
            zs_udp_pkt_out := zc_udp_pkt_out v, zs_udp_pkt_in := zc_udp_pkt_in v,
            zs_library_blobs := map (blob_entry is_file) (zc_blobs v)\<rparr>)))"

fun resolve_strategies ::
    "(string \<Rightarrow> bool) \<Rightarrow> zapret_candidate list \<Rightarrow> zapret_strategy list
     \<Rightarrow> zapret_error + zapret_strategy list" where
  "resolve_strategies is_file cands [] = Inr []"
| "resolve_strategies is_file cands (s # ss) =
     andthen (resolve_strategy is_file cands s) (\<lambda>s'.
     andthen (resolve_strategies is_file cands ss) (\<lambda>ss'. Inr (s' # ss')))"

definition resolve_zapret_references ::
    "(string \<Rightarrow> bool) \<Rightarrow> zapret_candidate list \<Rightarrow> config \<Rightarrow> zapret_error + config" where
  "resolve_zapret_references is_file cands c =
     andthen (resolve_strategies is_file cands (cf_zapret_strategies c))
       (\<lambda>ss. Inr (c \<lparr>cf_zapret_strategies := ss\<rparr>))"

definition compile_zapret_applications ::
    "(string \<Rightarrow> bool) \<Rightarrow> zapret_candidate list \<Rightarrow> config \<Rightarrow> zapret_error + config" where
  "compile_zapret_applications is_file cands c =
     andthen
       (compile_applications cands [] (cf_zapret_applications c)
          \<lparr>zb_profiles = [], zb_strategies = [], zb_instances = []\<rparr>) (\<lambda>z.
     andthen (compile_sections (zb_instances z) (cf_sections c)) (\<lambda>ss.
       resolve_zapret_references is_file cands
         (c \<lparr>cf_zapret_profiles := zb_profiles z, cf_zapret_strategies := zb_strategies z,
             cf_sections := ss\<rparr>)))"

subsection \<open>The candidate library\<close>

text \<open>
  The catalog is the file on disk when it decodes to at least one candidate, the embedded list
  otherwise. Entries of the user's file (given with its size) follow, without the names there are.
\<close>

definition load_zapret_catalog ::
    "zapret_candidate list \<Rightarrow> zapret_candidate list option \<Rightarrow> zapret_candidate list" where
  "load_zapret_catalog embedded disk =
     (case disk of Some cs \<Rightarrow> if cs = [] then embedded else cs | None \<Rightarrow> embedded)"

definition add_user_candidate :: "zapret_candidate list \<Rightarrow> zapret_candidate \<Rightarrow> zapret_candidate list" where
  "add_user_candidate cs v =
     (if zc_name v \<in> zc_name ` set cs then cs else cs @ [v \<lparr>zc_origin := ''user''\<rparr>])"

definition load_zapret_candidates ::
    "zapret_candidate list \<Rightarrow> zapret_candidate list option \<Rightarrow> (nat \<times> zapret_candidate list option) option
     \<Rightarrow> zapret_candidate list" where
  "load_zapret_candidates embedded disk user =
     (let cs = map (\<lambda>v. v \<lparr>zc_origin := ''catalog''\<rparr>) (load_zapret_catalog embedded disk)
      in case user of
           Some (len, Some us) \<Rightarrow> if len \<le> 2 ^ 20 then foldl add_user_candidate cs us else cs
         | _ \<Rightarrow> cs)"

end
