(* ===== verification/Uci_Parse.thy ===== *)
theory Uci_Parse
  imports Zapret_Apps
begin

section \<open>Reading the configuration\<close>

text \<open>
  \<open>internal/config/uci.go\<close>: \<open>Load\<close> splits the UCI file into sections of options, applies
  each section to the default configuration in order and compiles the Zapret applications.
  What \<open>os.Open\<close> gives is an argument. A skipped line is reported on stderr: the model
  collects these warnings. \<open>lo\<close> and \<open>up\<close> are the case mappings of strings with
  non-ASCII characters, \<open>mac\<close> is HMAC-SHA256 (for the mesh sync code). The configuration that
  \<open>Load\<close> returns beside an error is not modelled; its callers drop it.
\<close>

subsection \<open>Text\<close>

definition trim_char :: "char \<Rightarrow> string \<Rightarrow> string" where
  "trim_char c s = rev (dropWhile (\<lambda>x. x = c) (rev (dropWhile (\<lambda>x. x = c) s)))"

definition quote :: char where "quote = CHR 0x27"
definition dquote :: char where "dquote = CHR 0x22"

definition unq :: "string \<Rightarrow> string" where
  "unq v = trim_char dquote (trim_char quote (trim_space v))"

subsection \<open>Sections of options\<close>

type_synonym options = "string \<rightharpoonup> string list"

record uci_section =
  us_type :: string
  us_name :: string
  us_opts :: "options option"

datatype uci_warning =
    Malformed_line nat | Outside_section nat string | No_value nat string | Unknown_directive nat string

record uci_scan =
  un_sections :: "uci_section list"
  un_cur :: uci_section
  un_line :: nat
  un_warnings :: "uci_warning list"

definition no_section :: uci_section where
  "no_section = \<lparr>us_type = [], us_name = [], us_opts = None\<rparr>"

definition flush_section :: "uci_scan \<Rightarrow> uci_section list" where
  "flush_section st =
     un_sections st @ (if us_type (un_cur st) \<noteq> [] then [un_cur st] else [])"

definition warn :: "uci_warning \<Rightarrow> uci_scan \<Rightarrow> uci_scan" where
  "warn w st = st \<lparr>un_warnings := un_warnings st @ [w]\<rparr>"

definition add_option :: "bool \<Rightarrow> string \<Rightarrow> string \<Rightarrow> options \<Rightarrow> options" where
  "add_option is_list k v q =
     q(k \<mapsto> (if is_list then (case q k of None \<Rightarrow> [] | Some vs \<Rightarrow> vs) @ [v] else [v]))"

definition scan_directive :: "string list \<Rightarrow> uci_scan \<Rightarrow> uci_scan" where
  "scan_directive fs st =
     (let n = un_line st
      in if hd fs = ''config'' then
           st \<lparr>un_sections := flush_section st,
              un_cur := \<lparr>us_type = unq (fs ! 1),
                         us_name = (if length fs > 2 then unq (fs ! 2) else []),
                         us_opts = Some Map.empty\<rparr>\<rparr>
         else if hd fs = ''option'' \<or> hd fs = ''list'' then
           (case us_opts (un_cur st) of
              None \<Rightarrow> warn (Outside_section n (unq (fs ! 1))) st
            | Some q \<Rightarrow>
                if length fs < 3 then warn (No_value n (unq (fs ! 1))) st
                else st \<lparr>un_cur := (un_cur st)
                       \<lparr>us_opts := Some (add_option (hd fs = ''list'') (unq (fs ! 1))
                          (unq (join '' '' (drop 2 fs))) q)\<rparr>\<rparr>)
         else warn (Unknown_directive n (hd fs)) st)"

definition scan_line :: "uci_scan \<Rightarrow> string \<Rightarrow> uci_scan" where
  "scan_line st0 raw =
     (let st = st0 \<lparr>un_line := un_line st0 + 1\<rparr>;
          line = trim_space raw
      in if line = [] \<or> has_prefix line ''#'' then st
         else if length (str_fields line) < 2 then warn (Malformed_line (un_line st)) st
         else scan_directive (str_fields line) st)"

definition start_scan :: uci_scan where
  "start_scan = \<lparr>un_sections = [], un_cur = no_section, un_line = 0, un_warnings = []\<rparr>"

definition uci_sections :: "string list \<Rightarrow> uci_section list \<times> uci_warning list" where
  "uci_sections ls =
     (let st = foldl scan_line start_scan ls in (flush_section st, un_warnings st))"

subsection \<open>Options\<close>

definition opt_one :: "options \<Rightarrow> string \<Rightarrow> string \<Rightarrow> string" where
  "opt_one q k d = (case q k of None \<Rightarrow> d | Some [] \<Rightarrow> d | Some (v # _) \<Rightarrow> v)"

definition opt_list :: "options \<Rightarrow> string \<Rightarrow> string list \<Rightarrow> string list" where
  "opt_list q k d = (case q k of None \<Rightarrow> d | Some [] \<Rightarrow> d | Some vs \<Rightarrow> vs)"

definition dns_list :: "options \<Rightarrow> string \<Rightarrow> string list \<Rightarrow> string list" where
  "dns_list q k d = (case q k of None \<Rightarrow> d | Some vs \<Rightarrow> filter (\<lambda>v. trim_space v \<noteq> []) vs)"

definition opt_bool :: "options \<Rightarrow> string \<Rightarrow> bool \<Rightarrow> bool" where
  "opt_bool q k d =
     (let v = opt_one q k []
      in if v = [] then d else v = ''1'' \<or> equal_fold v ''true'' \<or> equal_fold v ''yes'')"

definition opt_int :: "options \<Rightarrow> string \<Rightarrow> int \<Rightarrow> int" where
  "opt_int q k d =
     (let v = opt_one q k []
      in if v = [] then d else (case parse_int64 v of None \<Rightarrow> d | Some n \<Rightarrow> n))"

definition id_name :: "options \<Rightarrow> string \<Rightarrow> string \<Rightarrow> string" where
  "id_name q ident prefix =
     (if opt_one q ''name'' [] \<noteq> [] then opt_one q ''name'' []
      else if has_prefix ident prefix \<and> drop (length prefix) ident \<noteq> [] then drop (length prefix) ident
      else ident)"

definition rule_provider_path ::
    "(string \<Rightarrow> string) \<Rightarrow> string \<Rightarrow> string \<Rightarrow> string \<Rightarrow> string" where
  "rule_provider_path lo workdir name format =
     path_join [or_default workdir default_workdir, ''rulesets'',
       or_default name ''rules'' @ ''.'' @ (if to_lower lo format = ''mrs'' then ''mrs'' else ''txt'')]"

subsection \<open>One section\<close>

definition apply_main :: "options \<Rightarrow> settings \<Rightarrow> settings" where
  "apply_main q r =
     \<lparr>st_config_version = opt_int q ''config_version'' (st_config_version r),
       st_enabled = opt_bool q ''enabled'' (st_enabled r),
       st_workdir = opt_one q ''workdir'' (st_workdir r),
       st_runtime_dir = opt_one q ''runtime_dir'' (st_runtime_dir r),
       st_generated_dir = opt_one q ''generated_dir'' (st_generated_dir r),
       st_dnsmasq_include_dir = opt_one q ''dnsmasq_include_dir'' (st_dnsmasq_include_dir r),
       st_mihomo_bin = opt_one q ''mihomo_bin'' (st_mihomo_bin r),
       st_mihomo_config = opt_one q ''mihomo_config'' (st_mihomo_config r),
       st_mihomo_allow_lan = opt_bool q ''mihomo_allow_lan'' (st_mihomo_allow_lan r),
       st_external_controller = opt_one q ''external_controller'' (st_external_controller r),
       st_secret = opt_one q ''secret'' (st_secret r),
       st_fw_mark = opt_one q ''fwmark'' (st_fw_mark r),
       st_fw_mark_mask = opt_one q ''fwmark_mask'' (st_fw_mark_mask r),
       st_route_table = opt_one q ''route_table'' (st_route_table r),
       st_ip_rule_priority = opt_one q ''ip_rule_priority'' (st_ip_rule_priority r),
       st_ipv6 = opt_bool q ''ipv6'' (st_ipv6 r),
       st_fake_ip = opt_bool q ''fake_ip'' (st_fake_ip r),
       st_sniffer = opt_bool q ''sniffer'' (st_sniffer r),
       st_dns_listen = opt_one q ''dns_listen'' (st_dns_listen r),
       st_rollback_on_fail = opt_bool q ''rollback_on_fail'' (st_rollback_on_fail r),
       st_apply_backup_max_bytes = opt_int q ''apply_backup_max_bytes'' (st_apply_backup_max_bytes r),
       st_mihomo_channel = opt_one q ''mihomo_channel'' (st_mihomo_channel r),
       st_mihomo_release_api = opt_one q ''mihomo_release_api'' (st_mihomo_release_api r),
       st_mihomo_stable_release_api = opt_one q ''mihomo_stable_release_api'' (st_mihomo_stable_release_api r),
       st_mihomo_version = opt_one q ''mihomo_version'' (st_mihomo_version r),
       st_mihomo_arch = opt_one q ''mihomo_arch'' (st_mihomo_arch r),
       st_mihomo_asset_url = opt_one q ''mihomo_asset_url'' (st_mihomo_asset_url r),
       st_mihomo_sha256_url = opt_one q ''mihomo_sha256_url'' (st_mihomo_sha256_url r),
       st_mihomo_geodata_enabled = opt_bool q ''mihomo_geodata_enabled'' (st_mihomo_geodata_enabled r),
       st_mihomo_mixin_enabled = opt_bool q ''mihomo_mixin_enabled'' (st_mihomo_mixin_enabled r),
       st_mihomo_auto_update_enabled = opt_bool q ''mihomo_auto_update_enabled'' (st_mihomo_auto_update_enabled r),
       st_mihomo_auto_update_cron = opt_one q ''mihomo_auto_update_cron'' (st_mihomo_auto_update_cron r),
       st_net_check_enabled = opt_bool q ''net_check_enabled'' (st_net_check_enabled r),
       st_net_check_cron = opt_one q ''net_check_cron'' (st_net_check_cron r),
       st_net_check_bytes = opt_int q ''net_check_bytes'' (st_net_check_bytes r),
       st_proxy_guard_enabled = opt_bool q ''proxy_guard_enabled'' (st_proxy_guard_enabled r),
       st_proxy_guard_cron = opt_one q ''proxy_guard_cron'' (st_proxy_guard_cron r),
       st_proxy_guard_min_members = opt_int q ''proxy_guard_min_members'' (st_proxy_guard_min_members r),
       st_proxy_guard_min_down_kbps = opt_int q ''proxy_guard_min_down_kbps'' (st_proxy_guard_min_down_kbps r),
       st_proxy_guard_probe_bytes = opt_int q ''proxy_guard_probe_bytes'' (st_proxy_guard_probe_bytes r),
       st_proxy_guard_max_jitter_ms = opt_int q ''proxy_guard_max_jitter_ms'' (st_proxy_guard_max_jitter_ms r),
       st_proxy_guard_active_probe_interval = opt_int q ''proxy_guard_active_probe_interval'' (st_proxy_guard_active_probe_interval r),
       st_proxy_guard_fleet_probe_interval = opt_int q ''proxy_guard_fleet_probe_interval'' (st_proxy_guard_fleet_probe_interval r),
       st_proxy_guard_quarantine_seconds = opt_int q ''proxy_guard_quarantine_seconds'' (st_proxy_guard_quarantine_seconds r),
       st_update_via_proxy = opt_bool q ''update_via_proxy'' (st_update_via_proxy r),
       st_suppress_hwid = opt_bool q ''suppress_hwid'' (st_suppress_hwid r),
       st_update_proxy_url = opt_one q ''update_proxy_url'' (st_update_proxy_url r),
       st_update_concurrency = opt_int q ''update_concurrency'' (st_update_concurrency r),
       st_auto_update_enabled = opt_bool q ''auto_update_enabled'' (st_auto_update_enabled r),
       st_auto_update_cron = opt_one q ''auto_update_cron'' (st_auto_update_cron r),
       st_reload_after_update = opt_bool q ''reload_after_update'' (st_reload_after_update r),
       st_background_updates = opt_bool q ''background_updates'' (st_background_updates r),
       st_boot_update_delay = opt_int q ''boot_update_delay'' (st_boot_update_delay r),
       st_update_nice = opt_int q ''update_nice'' (st_update_nice r),
       st_update_ionice_class = opt_int q ''update_ionice_class'' (st_update_ionice_class r),
       st_update_ionice_level = opt_int q ''update_ionice_level'' (st_update_ionice_level r),
       st_dashboard_enabled = opt_bool q ''dashboard_enabled'' (st_dashboard_enabled r),
       st_dashboard_listen = opt_one q ''dashboard_listen'' (st_dashboard_listen r),
       st_dashboard_path = opt_one q ''dashboard_path'' (st_dashboard_path r),
       st_dashboard_url = opt_one q ''dashboard_url'' (st_dashboard_url r),
       st_default_lists_base_url = opt_one q ''default_lists_base_url'' (st_default_lists_base_url r),
       st_dashboard_name = opt_one q ''dashboard_name'' (st_dashboard_name r),
       st_resource_profile = opt_one q ''resource_profile'' (st_resource_profile r),
       st_cache_mode = opt_one q ''cache_mode'' (st_cache_mode r),
       st_cache_dir = opt_one q ''cache_dir'' (st_cache_dir r),
       st_artifact_cache_mode = opt_one q ''artifact_cache_mode'' (st_artifact_cache_mode r),
       st_artifact_cache_max_bytes = opt_int q ''artifact_cache_max_bytes'' (st_artifact_cache_max_bytes r),
       st_artifact_cache_max_entries = opt_int q ''artifact_cache_max_entries'' (st_artifact_cache_max_entries r),
       st_log_level = opt_one q ''log_level'' (st_log_level r),
       st_log_format = opt_one q ''log_format'' (st_log_format r),
       st_metrics_enabled = opt_bool q ''metrics_enabled'' (st_metrics_enabled r),
       st_api_listen = opt_list q ''api_listen'' (st_api_listen r),
       st_notify_url = opt_one q ''notify_url'' (st_notify_url r),
       st_notify_format = opt_one q ''notify_format'' (st_notify_format r),
       st_notify_on = opt_list q ''notify_on'' (st_notify_on r),
       st_geo_refresh_geoip_url = opt_one q ''geo_refresh_geoip_url'' (st_geo_refresh_geoip_url r),
       st_geo_refresh_geoip_sha = opt_one q ''geo_refresh_geoip_sha'' (st_geo_refresh_geoip_sha r),
       st_geo_refresh_geosite_url = opt_one q ''geo_refresh_geosite_url'' (st_geo_refresh_geosite_url r),
       st_geo_refresh_geosite_sha = opt_one q ''geo_refresh_geosite_sha'' (st_geo_refresh_geosite_sha r),
       st_geo_refresh_mmdb_url = opt_one q ''geo_refresh_mmdb_url'' (st_geo_refresh_mmdb_url r),
       st_geo_refresh_mmdb_sha = opt_one q ''geo_refresh_mmdb_sha'' (st_geo_refresh_mmdb_sha r),
       st_geo_refresh_geoip_dir = opt_one q ''geo_refresh_dir'' (st_geo_refresh_geoip_dir r),
       st_geo_refresh_cron = opt_one q ''geo_refresh_cron'' (st_geo_refresh_cron r),
       st_bootstrap_doh_enabled = opt_bool q ''bootstrap_doh_enabled'' (st_bootstrap_doh_enabled r),
       st_bootstrap_doh_resolvers = opt_list q ''bootstrap_doh_resolver'' (st_bootstrap_doh_resolvers r),
       st_bootstrap_doh_timeout_ms = opt_int q ''bootstrap_doh_timeout_ms'' (st_bootstrap_doh_timeout_ms r),
       st_bootstrap_proxy_fallback = opt_bool q ''bootstrap_proxy_fallback'' (st_bootstrap_proxy_fallback r),
       st_bootstrap_tls_fingerprint = opt_one q ''bootstrap_tls_fingerprint'' (st_bootstrap_tls_fingerprint r),
       st_bootstrap_tofu_path = opt_one q ''bootstrap_tofu_path'' (st_bootstrap_tofu_path r),
       st_bootstrap_tofu_ttl_sec = opt_int q ''bootstrap_tofu_ttl_sec'' (st_bootstrap_tofu_ttl_sec r),
       st_bootstrap_health_gate = opt_bool q ''bootstrap_health_gate'' (st_bootstrap_health_gate r),
       st_ipv6_mode = opt_one q ''ipv6_mode'' (st_ipv6_mode r),
       st_ipv6_reject_when_off = opt_bool q ''ipv6_reject_when_off'' (st_ipv6_reject_when_off r),
       st_router_output_proxy = opt_bool q ''router_output_proxy'' (st_router_output_proxy r),
       st_cgroup_v2_path = opt_one q ''cgroup_v2_path'' (st_cgroup_v2_path r),
       st_wizard_vpn_pending = opt_bool q ''wizard_vpn_pending'' (st_wizard_vpn_pending r),
       st_wizard_zapret_pending = opt_bool q ''wizard_zapret_pending'' (st_wizard_zapret_pending r),
       st_ipv6_wan_interfaces = opt_list q ''ipv6_wan_interface'' (st_ipv6_wan_interfaces r),
       st_lan_source_zones = opt_list q ''lan_source_zone'' (st_lan_source_zones r)\<rparr>"

definition apply_dns :: "options \<Rightarrow> dns \<Rightarrow> dns" where
  "apply_dns q r =
     \<lparr>dn_enabled = opt_bool q ''enabled'' (dn_enabled r),
       dn_backend = opt_one q ''backend'' (dn_backend r),
       dn_upstream_mode = opt_one q ''upstream_mode'' (dn_upstream_mode r),
       dn_vpns = opt_list q ''vpns'' (dn_vpns r),
       dn_hijack_lan_dns = opt_bool q ''hijack_lan_dns'' (dn_hijack_lan_dns r),
       dn_block_dot = opt_bool q ''block_dot'' (dn_block_dot r),
       dn_block_doh3 = opt_bool q ''block_doh3'' (dn_block_doh3 r),
       dn_block_doq = opt_bool q ''block_doq'' (dn_block_doq r),
       dn_doh3_block_ips4 = opt_list q ''doh3_block_ip4'' (dn_doh3_block_ips4 r),
       dn_doh3_block_ips6 = opt_list q ''doh3_block_ip6'' (dn_doh3_block_ips6 r),
       dn_listen = opt_one q ''listen'' (dn_listen r),
       dn_fake_ip = opt_bool q ''fake_ip'' (dn_fake_ip r),
       dn_enhanced_mode = opt_one q ''enhanced_mode'' (dn_enhanced_mode r),
       dn_proxy_group_type = opt_one q ''proxy_group_type'' (dn_proxy_group_type r),
       dn_proxy_filter = opt_one q ''proxy_filter'' (dn_proxy_filter r),
       dn_proxy_exclude_filter = opt_one q ''proxy_exclude_filter'' (dn_proxy_exclude_filter r),
       dn_proxy_strategy = opt_one q ''proxy_strategy'' (dn_proxy_strategy r),
       dn_doh_upstreams = opt_list q ''doh_upstream'' (dn_doh_upstreams r),
       dn_udp_upstreams = opt_list q ''udp_upstream'' (dn_udp_upstreams r),
       dn_doq_upstreams = opt_list q ''doq_upstream'' (dn_doq_upstreams r),
       dn_fallback_upstreams = dns_list q ''fallback_upstream'' (dn_fallback_upstreams r),
       dn_fallback_domains = dns_list q ''fallback_domain'' (dn_fallback_domains r)\<rparr>"

definition apply_mwan3 :: "options \<Rightarrow> mwan3 \<Rightarrow> mwan3" where
  "apply_mwan3 q r =
     r \<lparr>mw_proxy_wan_enabled := opt_bool q ''proxy_wan_enabled'' False,
        mw_proxy_wans := opt_list q ''proxy_wan'' []\<rparr>"

definition read_application :: "options \<Rightarrow> string \<Rightarrow> zapret_application" where
  "read_application q ident =
     \<lparr>ap_name = id_name q ident ''zs_'', ap_enabled = opt_bool q ''enabled'' True,
      ap_assignments = opt_list q ''assignment'' []\<rparr>"

definition read_vpn :: "options \<Rightarrow> string \<Rightarrow> vpn" where
  "read_vpn q ident =
     \<lparr>vp_name = or_default (id_name q ident ''vpn_'') ''vpn'',
      vp_enabled = opt_bool q ''enabled'' False, vp_interface = opt_one q ''interface'' ''wg0''\<rparr>"

definition read_device :: "(string \<Rightarrow> string) \<Rightarrow> options \<Rightarrow> string \<Rightarrow> device" where
  "read_device lo q ident =
     \<lparr>dv_name = opt_one q ''name'' ident,
      dv_mac = to_lower lo (trim_space (opt_one q ''mac'' [])),
      dv_section = opt_one q ''section'' [], dv_enabled = opt_bool q ''enabled'' True,
      dv_exclude = opt_bool q ''exclude'' False\<rparr>"

text \<open>The first device with the MAC is replaced, or a new one goes to the end.\<close>

definition add_device :: "device \<Rightarrow> device list \<Rightarrow> device list" where
  "add_device d ds =
     (if dv_mac d = [] then ds else upsert (\<lambda>x. dv_mac x = dv_mac d) (\<lambda>_. d) [d] ds)"

definition read_section :: "(string \<Rightarrow> string) \<Rightarrow> options \<Rightarrow> string \<Rightarrow> route_section" where
  "read_section up q ident =
     (let name = id_name q ident ''sec_'' in
     \<lparr>sc_name = name, sc_enabled = opt_bool q ''enabled'' True,
       sc_action = opt_one q ''action'' ''proxy'',
       sc_tproxy_port = opt_int q ''tproxy_port'' 7893,
       sc_proxy_group = opt_one q ''proxy_group'' (title_ascii up name),
       sc_proxy_group_type = opt_one q ''proxy_group_type'' ''url-test'',
       sc_proxy_filter = opt_one q ''proxy_filter'' [],
       sc_proxy_exclude_filter = opt_one q ''proxy_exclude_filter'' [],
       sc_proxy_strategy = opt_one q ''proxy_strategy'' ''sticky-sessions'',
       sc_proxy_health_check_url = opt_one q ''proxy_health_check_url'' [],
       sc_proxy_health_check_interval = opt_int q ''proxy_health_check_interval'' 0,
       sc_user_overridden_proxy_group = opt_bool q ''user_overridden_proxy_group'' False,
       sc_ipv4_enabled = opt_bool q ''ipv4_enabled'' True,
       sc_ipv6_enabled = opt_bool q ''ipv6_enabled'' True,
       sc_udp_mode = opt_one q ''udp_mode'' ''proxy'',
       sc_match_protocol = opt_one q ''match_protocol'' [],
       sc_destination_ports = opt_one q ''destination_ports'' [],
       sc_priority = opt_int q ''priority'' 100, sc_vpns = opt_list q ''vpns'' [],
       sc_zapret_application_names = None,
       sc_zapret_strategies = opt_list q ''zapret_strategy'' [],
       sc_source_cidr4 = opt_list q ''source_cidr4'' [],
       sc_source_cidr6 = opt_list q ''source_cidr6'' []\<rparr>)"

definition read_subscription :: "options \<Rightarrow> string \<Rightarrow> subscription" where
  "read_subscription q ident =
     \<lparr>sb_name = id_name q ident ''sub_'', sb_enabled = opt_bool q ''enabled'' True,
       sb_url = opt_one q ''url'' [], sb_mode = opt_one q ''mode'' ''auto'',
       sb_preset_if_no_rules = opt_one q ''preset_if_no_rules'' ''minimal'',
       sb_import_rules_on_low_resource = opt_bool q ''import_rules_on_low_resource'' False,
       sb_auto_apply = opt_bool q ''auto_apply'' False,
       sb_interval = opt_int q ''interval'' 86400, sb_hwid = opt_one q ''hwid'' [],
       sb_device_name = opt_one q ''device_name'' [],
       sb_user_agent = opt_one q ''user_agent'' [], sb_headers = opt_list q ''header'' [],
       sb_mirrors = opt_list q ''mirror'' [], sb_pin_sha256 = opt_one q ''pin_sha256'' [],
       sb_suppress_hwid = opt_bool q ''suppress_hwid'' False\<rparr>"

definition read_proxy_provider :: "options \<Rightarrow> string \<Rightarrow> proxy_provider" where
  "read_proxy_provider q ident =
     (let name = id_name q ident ''pp_'' in
     \<lparr>pp_name = name, pp_enabled = opt_bool q ''enabled'' True,
       pp_type = opt_one q ''type'' ''http'', pp_url = opt_one q ''url'' [],
       pp_interval = opt_int q ''interval'' 86400,
       pp_path = opt_one q ''path'' (''/etc/purewrt/providers/'' @ name @ ''.yaml''),
       pp_health_check = opt_bool q ''health_check'' True,
       pp_health_check_url = opt_one q ''health_check_url'' ''https://cp.cloudflare.com/generate_204'',
       pp_health_check_interval = opt_int q ''health_check_interval'' 300,
       pp_hwid = opt_one q ''hwid'' [], pp_device_name = opt_one q ''device_name'' [],
       pp_user_agent = opt_one q ''user_agent'' [], pp_headers = opt_list q ''header'' [],
       pp_mirrors = opt_list q ''mirror'' [], pp_pin_sha256 = opt_one q ''pin_sha256'' [],
       pp_suppress_hwid = opt_bool q ''suppress_hwid'' False\<rparr>)"

definition read_rule_provider ::
    "(string \<Rightarrow> string) \<Rightarrow> string \<Rightarrow> options \<Rightarrow> string \<Rightarrow> rule_provider" where
  "read_rule_provider lo workdir q ident =
     (let name = id_name q ident ''rp_''; format = opt_one q ''format'' ''text'' in
     \<lparr>rp_name = name, rp_enabled = opt_bool q ''enabled'' True,
       rp_behavior = opt_one q ''behavior'' ''domain'', rp_format = format,
       rp_parse_mode = opt_one q ''parse_mode'' ''auto'', rp_url = opt_one q ''url'' [],
       rp_interval = opt_int q ''interval'' 86400,
       rp_path = opt_one q ''path'' (rule_provider_path lo workdir name format),
       rp_section = opt_one q ''section'' ''common'',
       rp_category = opt_one q ''category'' [],
       rp_source_kind = opt_one q ''source_kind'' [],
       rp_route_action = opt_one q ''route_action'' [],
       rp_source_subscription = opt_one q ''source_subscription'' [],
       rp_detected_category = opt_one q ''detected_category'' [],
       rp_user_overridden_section = opt_bool q ''user_overridden_section'' False,
       rp_user_overridden_action = opt_bool q ''user_overridden_action'' False,
       rp_user_agent = opt_one q ''user_agent'' [], rp_headers = opt_list q ''header'' [],
       rp_mirrors = opt_list q ''mirror'' [], rp_pin_sha256 = opt_one q ''pin_sha256'' [],
       rp_last_error = opt_one q ''last_error'' [],
       rp_geo_target = opt_one q ''geo_target'' []\<rparr>)"

definition read_bypass :: "options \<Rightarrow> string \<Rightarrow> bypass" where
  "read_bypass q ident =
     \<lparr>by_name = opt_one q ''name'' ident, by_cidr4 = opt_list q ''cidr4'' [],
      by_cidr6 = opt_list q ''cidr6'' [], by_proxy_server_cidr4 = opt_list q ''proxy_server_cidr4'' [],
      by_proxy_server_cidr6 = opt_list q ''proxy_server_cidr6'' [],
      by_source_cidr4 = opt_list q ''source_cidr4'' [], by_source_cidr6 = opt_list q ''source_cidr6'' []\<rparr>"

text \<open>The sync code gives the network identity and the key; a code that cannot be read is dropped.\<close>

definition apply_code ::
    "(string \<Rightarrow> string) \<Rightarrow> (bytes \<Rightarrow> bytes \<Rightarrow> bytes) \<Rightarrow> mesh \<Rightarrow> mesh \<times> string list" where
  "apply_code up mac m =
     (if me_code m = [] then (m, [])
      else (case decode_code up mac (me_code m) of
          Inl _ \<Rightarrow> (m \<lparr>me_code := []\<rparr>, [])
        | Inr c \<Rightarrow> (m \<lparr>me_network_name := network_name c, me_network_secret := b64_encode (mc_secret c),
                       me_psk := hex_digits (mc_psk c)\<rparr>, mc_peers c)))"

definition apply_mesh ::
    "(string \<Rightarrow> string) \<Rightarrow> (bytes \<Rightarrow> bytes \<Rightarrow> bytes) \<Rightarrow> options \<Rightarrow> mesh \<Rightarrow> mesh" where
  "apply_mesh up mac q m0 =
     (let d = default_mesh;
          m1 = m0
          \<lparr>me_enabled := opt_bool q ''enabled'' (me_enabled d),
            me_code := opt_one q ''code'' [], me_hwid := opt_one q ''hwid'' (me_hwid d),
            me_node_name := opt_one q ''node_name'' (me_node_name d),
            me_exit_enabled := opt_bool q ''exit_enabled'' (me_exit_enabled d),
            me_exit_filter := opt_one q ''exit_filter'' (me_exit_filter d),
            me_exit_exclude_filter := opt_one q ''exit_exclude_filter'' (me_exit_exclude_filter d),
            me_exit_max_mbit := opt_int q ''exit_max_mbit'' (me_exit_max_mbit d),
            me_overlay_ipv4 := opt_one q ''overlay_ipv4'' (me_overlay_ipv4 d),
            me_listen_port := opt_int q ''listen_port'' (me_listen_port d),
            me_api_mesh_port := opt_int q ''api_mesh_port'' (me_api_mesh_port d),
            me_device_name := opt_one q ''device_name'' (me_device_name d),
            me_community_peers := opt_list q ''community_peer'' (me_community_peers d),
            me_easytier_bin := opt_one q ''easytier_bin'' (me_easytier_bin d),
            me_rpc_portal := opt_one q ''rpc_portal'' (me_rpc_portal d),
            me_sync_cron := opt_one q ''sync_cron'' (me_sync_cron d),
            me_peer_ttl_days := opt_int q ''peer_ttl_days'' (me_peer_ttl_days d)\<rparr>
      in case apply_code up mac m1 of
           (m2, code_extras) \<Rightarrow> m2 \<lparr>me_extra_peers := opt_list q ''extra_peer'' code_extras\<rparr>)"

definition read_mesh_peer :: "options \<Rightarrow> string \<Rightarrow> mesh_peer" where
  "read_mesh_peer q ident =
     \<lparr>mp_hwid = opt_one q ''hwid'' [], mp_name = opt_one q ''name'' ident,
       mp_enabled = opt_bool q ''enabled'' True,
       mp_overlay_ip = opt_one q ''overlay_ip'' [],
       mp_listen_port = opt_int q ''listen_port'' (me_listen_port default_mesh),
       mp_exit_offered = opt_bool q ''exit_offered'' False,
       mp_last_seen = opt_one q ''last_seen'' [],
       mp_last_error = opt_one q ''last_error'' []\<rparr>"

definition apply_ooni :: "options \<Rightarrow> ooni \<Rightarrow> ooni" where
  "apply_ooni q r =
     (let d = default_ooni in
      r
          \<lparr>oo_enabled := opt_bool q ''enabled'' (oo_enabled d),
            oo_upload := opt_bool q ''upload'' (oo_upload d),
            oo_schedule := opt_one q ''schedule'' (oo_schedule d),
            oo_proxy := opt_one q ''proxy'' (oo_proxy d),
            oo_home := opt_one q ''home'' (oo_home d),
            oo_user := opt_one q ''user'' (oo_user d)\<rparr>
        \<lparr>oo_wans := (case q ''wan'' of None \<Rightarrow> [] | Some vs \<Rightarrow> vs)\<rparr>)"

definition apply_section ::
    "(string \<Rightarrow> string) \<Rightarrow> (string \<Rightarrow> string) \<Rightarrow> (bytes \<Rightarrow> bytes \<Rightarrow> bytes) \<Rightarrow> uci_section \<Rightarrow> config
     \<Rightarrow> config" where
  "apply_section lo up mac x c =
     (let t = us_type x; ident = us_name x;
          q = (case us_opts x of None \<Rightarrow> Map.empty | Some q \<Rightarrow> q)
      in if t = ''main'' then c \<lparr>cf_settings := apply_main q (cf_settings c)\<rparr>
         else if t = ''dns'' then c \<lparr>cf_dns := apply_dns q (cf_dns c)\<rparr>
         else if t = ''mwan3'' then c \<lparr>cf_mwan3 := apply_mwan3 q (cf_mwan3 c)\<rparr>
         else if t = ''zapret_strategy'' then
           c \<lparr>cf_zapret_applications := cf_zapret_applications c @ [read_application q ident]\<rparr>
         else if t = ''vpn'' then c \<lparr>cf_vpns := cf_vpns c @ [read_vpn q ident]\<rparr>
         else if t = ''device'' then
           c \<lparr>cf_devices := add_device (read_device lo q ident) (cf_devices c)\<rparr>
         else if t = ''section'' then c \<lparr>cf_sections := cf_sections c @ [read_section up q ident]\<rparr>
         else if t = ''subscription'' then
           c \<lparr>cf_subscriptions := cf_subscriptions c @ [read_subscription q ident]\<rparr>
         else if t = ''proxy_provider'' then
           c \<lparr>cf_proxy_providers := cf_proxy_providers c @ [read_proxy_provider q ident]\<rparr>
         else if t = ''rule_provider'' then
           c \<lparr>cf_rule_providers := cf_rule_providers c
                @ [read_rule_provider lo (st_workdir (cf_settings c)) q ident]\<rparr>
         else if t = ''bypass'' then c \<lparr>cf_bypass := read_bypass q ident\<rparr>
         else if t = ''mesh'' then c \<lparr>cf_mesh := apply_mesh up mac q (cf_mesh c)\<rparr>
         else if t = ''mesh_peer'' then
           (let p = read_mesh_peer q ident
            in if mp_hwid p \<noteq> [] \<and> mp_name p \<noteq> []
               then c \<lparr>cf_mesh_peers := cf_mesh_peers c @ [p]\<rparr> else c)
         else if t = ''ooni'' then c \<lparr>cf_ooni := apply_ooni q (cf_ooni c)\<rparr>
         else c)"

subsection \<open>The whole file\<close>

datatype file_read = No_file | Read_failed string | File_data bytes

datatype load_error = Open_error string | Scan_error | Zapret_failed zapret_error

definition blank_config :: config where
  "blank_config = default_config \<lparr>cf_sections := [], cf_subscriptions := [], cf_proxy_providers := [],
     cf_rule_providers := [], cf_vpns := [], cf_zapret_profiles := [], cf_zapret_strategies := [],
     cf_mesh_peers := []\<rparr>"

definition apply_sections ::
    "(string \<Rightarrow> string) \<Rightarrow> (string \<Rightarrow> string) \<Rightarrow> (bytes \<Rightarrow> bytes \<Rightarrow> bytes) \<Rightarrow> uci_section list \<Rightarrow> config" where
  "apply_sections lo up mac xs =
     (let c = foldl (\<lambda>c x. apply_section lo up mac x c) blank_config xs
      in if cf_sections c = [] then c \<lparr>cf_sections := default_sections\<rparr> else c)"

definition load ::
    "(string \<Rightarrow> string) \<Rightarrow> (string \<Rightarrow> string) \<Rightarrow> (bytes \<Rightarrow> bytes \<Rightarrow> bytes) \<Rightarrow> (string \<Rightarrow> bool)
     \<Rightarrow> zapret_candidate list \<Rightarrow> file_read \<Rightarrow> load_error + config" where
  "load lo up mac is_file cands f =
     (case f of
        No_file \<Rightarrow> Inr default_config
      | Read_failed e \<Rightarrow> Inl (Open_error e)
      | File_data data \<Rightarrow>
          (case scan_lines data of (ls, too_long) \<Rightarrow>
             (let c = apply_sections lo up mac (fst (uci_sections ls))
              in if too_long then Inl Scan_error
                 else (case compile_zapret_applications is_file cands c of
                     Inl e \<Rightarrow> Inl (Zapret_failed e)
                   | Inr c' \<Rightarrow> Inr c'))))"

end
