(* ===== verification/Zapret_Facts.thy ===== *)
theory Zapret_Facts
  imports Uci_Parse
begin

section \<open>What the compiled Zapret applications promise\<close>

text \<open>
  The marks, names and profiles of the compiled strategies, and that every assignment of an
  application has its strategy and no other one.
\<close>

subsection \<open>Names and marks\<close>

definition mark_of :: "nat \<Rightarrow> 32 word" where
  "mark_of i = push_bit 16 (word_of_nat (i + 1))"

lemma unat_small: "k < 2 ^ 32 \<Longrightarrow> unat (word_of_nat k :: 32 word) = k"
  by (simp add: unsigned_of_nat take_bit_nat_eq_self)

lemma first_part: "u @ c # a = v @ c # b \<Longrightarrow> c \<notin> set u \<Longrightarrow> c \<notin> set v \<Longrightarrow> u = v \<and> a = b"
proof (induction u arbitrary: v)
  case Nil
  then show ?case by (cases v) auto
next
  case (Cons x u)
  then show ?case by (cases v) auto
qed

lemma unat_mark_of: "i < 255 \<Longrightarrow> unat (mark_of i) = (i + 1) * 65536"
proof -
  assume "i < 255"
  then have "(i + 1) * 65536 < 2 ^ 32" by simp
  moreover have "mark_of i = word_of_nat ((i + 1) * 65536)"
    by (simp add: mark_of_def push_bit_eq_mult algebra_simps)
  ultimately show ?thesis by (simp only: unat_small)
qed

lemma mark_of_inj: "i < 255 \<Longrightarrow> j < 255 \<Longrightarrow> mark_of i = mark_of j \<Longrightarrow> i = j"
  by (drule arg_cong [where f = unat]) (simp only: unat_mark_of, simp)

lemma mark_of_in_mask:
  assumes "i < 255"
  shows "and (mark_of i) 0x00FF0000 = mark_of i" and "mark_of i \<noteq> 0"
proof -
  have m: "(0x00FF0000 :: 32 word) = push_bit 16 (mask 8)" by (simp add: push_bit_eq_mult mask_eq_exp_minus_1)
  have "and (word_of_nat (i + 1)) (mask 8 :: 32 word) = word_of_nat (i + 1)"
  proof -
    have "unat (word_of_nat (i + 1) :: 32 word) = i + 1" using assms by (intro unat_small) simp
    then show ?thesis
      unfolding take_bit_eq_mask [symmetric] word_unat_eq_iff unsigned_take_bit_eq
      using assms by (simp only:) (simp add: take_bit_nat_eq_self)
  qed
  then show "and (mark_of i) 0x00FF0000 = mark_of i"
    unfolding m mark_of_def push_bit_and [symmetric] by simp
  show "mark_of i \<noteq> 0" using unat_mark_of [OF assms] by auto
qed

lemma instance_name_inj:
  assumes "instance_name a m = instance_name b n"
  shows "a = b \<and> m = n"
proof -
  have split: "a = b \<and> u = v" if "a @ CHR ''w'' # u = b @ CHR ''w'' # v" "CHR ''w'' \<notin> set u" "CHR ''w'' \<notin> set v"
    for a b u v :: string
  proof -
    have "rev u @ CHR ''w'' # rev a = rev v @ CHR ''w'' # rev b" using arg_cong [OF that(1), of rev] by simp
    from first_part [OF this] have "rev u = rev v \<and> rev a = rev b" using that(2,3) by simp
    then show ?thesis by simp
  qed
  have free: "CHR ''w'' \<notin> set (dec_of k)" for k by (rule dec_of_free) simp
  have "(a @ ''_'') @ CHR ''w'' # dec_of m = (b @ ''_'') @ CHR ''w'' # dec_of n"
    using assms by (simp add: instance_name_def)
  from split [OF this free free] show ?thesis using dec_of_inj by simp
qed

subsection \<open>The profiles and strategies of one application\<close>

definition strategy_ok :: "zapret_candidate list \<Rightarrow> zapret_profile list \<Rightarrow> zapret_strategy list \<Rightarrow> nat \<Rightarrow> bool" where
  "strategy_ok cands ps ss i \<longleftrightarrow>
     zs_enabled (ss ! i) \<and> zs_name (ss ! i) = zp_name (ps ! i) \<and> zs_profile (ss ! i) = zp_name (ps ! i)
     \<and> zs_selector_mark (ss ! i) = mark_of i \<and> zs_candidate (ss ! i) \<in> zc_name ` set cands
     \<and> zp_enabled (ps ! i) \<and> zp_interfaces (ps ! i) \<noteq> []"

definition paired :: "zapret_candidate list \<Rightarrow> zapret_profile list \<Rightarrow> zapret_strategy list \<Rightarrow> bool" where
  "paired cands ps ss \<longleftrightarrow>
     length ps = length ss \<and> length ss \<le> 255 \<and> (\<forall>i < length ss. strategy_ok cands ps ss i)"

definition owns :: "nat \<Rightarrow> zapret_profile list \<Rightarrow> string \<Rightarrow> nat \<Rightarrow> bool" where
  "owns n0 ps d i \<longleftrightarrow> n0 \<le> i \<and> i < length ps \<and> d \<in> set (zp_interfaces (ps ! i))"

definition app_inv ::
    "zapret_candidate list \<Rightarrow> string \<Rightarrow> zapret_profile list \<Rightarrow> zapret_strategy list \<Rightarrow> app_build \<Rightarrow> bool" where
  "app_inv cands app ps0 ss0 b \<longleftrightarrow>
     paired cands (ab_profiles b) (ab_strategies b)
     \<and> length ss0 \<le> length (ab_strategies b)
     \<and> (\<forall>i < length ss0. ab_profiles b ! i = ps0 ! i \<and> ab_strategies b ! i = ss0 ! i)
     \<and> ab_names b = map (instance_name app) [1..<Suc (length (ab_names b))]
     \<and> map zs_name (ab_strategies b) = map zs_name ss0 @ ab_names b
     \<and> (\<forall>c i. map_of (ab_grouped b) c = Some i
          \<longrightarrow> length ss0 \<le> i \<and> i < length (ab_strategies b) \<and> zs_candidate (ab_strategies b ! i) = c)
     \<and> (\<forall>d i. owns (length ss0) (ab_profiles b) d i \<longrightarrow> d \<in> set (ab_devices b))
     \<and> (\<forall>d i j. owns (length ss0) (ab_profiles b) d i \<longrightarrow> owns (length ss0) (ab_profiles b) d j \<longrightarrow> i = j)"

text \<open>The assignment is served: a strategy of its candidate, whose profile has the device.\<close>

definition served :: "nat \<Rightarrow> zapret_profile list \<Rightarrow> zapret_strategy list \<Rightarrow> string \<Rightarrow> bool" where
  "served n0 ps ss raw \<longleftrightarrow>
     (\<exists>device candidate i. cut (CHR ''='') raw = Some (device, candidate) \<and> owns n0 ps device i
        \<and> zs_candidate (ss ! i) = candidate)"

lemma owns_join:
  assumes "i < length ps"
  shows "owns n0 (ps[i := (ps ! i) \<lparr>zp_interfaces := zp_interfaces (ps ! i) @ [v]\<rparr>]) d j
    \<longleftrightarrow> owns n0 ps d j \<or> (n0 \<le> i \<and> j = i \<and> d = v)"
  using assms by (cases "j = i") (auto simp: owns_def)

lemma owns_new:
  "n0 \<le> length ps \<Longrightarrow> owns n0 (ps @ [p]) d j
    \<longleftrightarrow> owns n0 ps d j \<or> (j = length ps \<and> d \<in> set (zp_interfaces p))"
  by (auto simp: owns_def nth_append)

lemma paired_join:
  assumes "paired cands ps ss" and "i < length ps"
  shows "paired cands (ps[i := (ps ! i) \<lparr>zp_interfaces := zp_interfaces (ps ! i) @ [v]\<rparr>]) ss"
  using assms by (auto simp: paired_def strategy_ok_def nth_list_update)

lemma paired_new:
  assumes "paired cands ps ss" and "length ss < 255" and "strategy_ok cands (ps @ [p]) (ss @ [s]) (length ss)"
  shows "paired cands (ps @ [p]) (ss @ [s])"
  using assms by (auto simp: paired_def strategy_ok_def nth_append less_Suc_eq)

lemma assign_device_step:
  assumes "app_inv cands app ps0 ss0 b" and "assign_device cands app raw b = Inr b'"
  shows "app_inv cands app ps0 ss0 b' \<and> served (length ss0) (ab_profiles b') (ab_strategies b') raw
    \<and> (\<forall>r. served (length ss0) (ab_profiles b) (ab_strategies b) r
          \<longrightarrow> served (length ss0) (ab_profiles b') (ab_strategies b') r)"
proof -
  obtain device candidate where raw: "cut (CHR ''='') raw = Some (device, candidate)"
    and new: "device \<notin> set (ab_devices b)" and cand: "candidate \<in> zc_name ` set cands"
    using assms(2) by (auto simp: assign_device_def split: option.splits prod.splits if_splits)
  have I: "paired cands (ab_profiles b) (ab_strategies b)" "length ss0 \<le> length (ab_strategies b)"
    using assms(1) unfolding app_inv_def by blast+
  have O0: "d \<in> set (ab_devices b)" if "owns (length ss0) (ab_profiles b) d i" for d i
    using assms(1) that unfolding app_inv_def by blast
  have U0: "i = j" if "owns (length ss0) (ab_profiles b) d i" "owns (length ss0) (ab_profiles b) d j" for d i j
    using assms(1) that unfolding app_inv_def by blast
  have G0: "length ss0 \<le> i \<and> i < length (ab_strategies b) \<and> zs_candidate (ab_strategies b ! i) = c"
    if "map_of (ab_grouped b) c = Some i" for c i
    using assms(1) that unfolding app_inv_def by blast
  have K0: "ab_profiles b ! i = ps0 ! i \<and> ab_strategies b ! i = ss0 ! i" if "i < length ss0" for i
    using assms(1) that unfolding app_inv_def by blast
  from I(1) have len: "length (ab_profiles b) = length (ab_strategies b)" by (simp add: paired_def)
  show ?thesis
  proof (cases "map_of (ab_grouped b) candidate")
    case (Some i)
    then have i: "length ss0 \<le> i" "i < length (ab_strategies b)" "zs_candidate (ab_strategies b ! i) = candidate"
      using G0 by blast+
    have b': "b' = join_profile i device (b \<lparr>ab_devices := ab_devices b @ [device]\<rparr>)"
      using assms(2) raw Some by (simp add: assign_device_def Let_def split: if_splits)
    have own: "owns (length ss0) (ab_profiles b') d j
        \<longleftrightarrow> owns (length ss0) (ab_profiles b) d j \<or> (j = i \<and> d = device)" for d j
      using i(1,2) len by (simp add: b' join_profile_def owns_join)
    have "paired cands (ab_profiles b') (ab_strategies b')"
      using paired_join [OF I(1)] i(2) len by (simp add: b' join_profile_def)
    moreover have "ab_profiles b' ! k = ps0 ! k \<and> ab_strategies b' ! k = ss0 ! k" if "k < length ss0" for k
      using K0 [OF that] that i(1) by (simp add: b' join_profile_def)
    ultimately have "app_inv cands app ps0 ss0 b'"
      using assms(1) new unfolding app_inv_def own by (auto simp: b' join_profile_def)
    then show ?thesis using raw i(3) unfolding served_def own by (auto simp: b' join_profile_def)
  next
    case None
    then have small: "length (ab_strategies b) < 255"
      and b': "b' = new_instance app device candidate (b \<lparr>ab_devices := ab_devices b @ [device]\<rparr>)"
      using assms(2) raw by (auto simp: assign_device_def Let_def split: if_splits)
    have own: "owns (length ss0) (ab_profiles b') d j
        \<longleftrightarrow> owns (length ss0) (ab_profiles b) d j \<or> (j = length (ab_profiles b) \<and> d = device)" for d j
      using I(2) len by (simp add: b' new_instance_def Let_def owns_new)
    have P: "paired cands (ab_profiles b') (ab_strategies b')"
      using small cand len unfolding b' new_instance_def Let_def
      by (simp add: paired_new [OF I(1)] strategy_ok_def mark_of_def nth_append)
    have len': "length (ab_strategies b') = Suc (length (ab_strategies b))"
      by (simp add: b' new_instance_def Let_def)
    have cs: "zs_candidate (ab_strategies b' ! j)
        = (if j < length (ab_strategies b) then zs_candidate (ab_strategies b ! j) else candidate)"
      if "j \<le> length (ab_strategies b)" for j
      using that by (auto simp: b' new_instance_def Let_def nth_append)
    have names: "ab_names b' = map (instance_name app) [1..<Suc (length (ab_names b'))]"
      "map zs_name (ab_strategies b') = map zs_name ss0 @ ab_names b'"
      using assms(1) by (simp_all add: app_inv_def b' new_instance_def Let_def)
    have G: "length ss0 \<le> i \<and> i < length (ab_strategies b') \<and> zs_candidate (ab_strategies b' ! i) = c"
      if "map_of (ab_grouped b') c = Some i" for c i
    proof (cases "c = candidate")
      case True
      then have "i = length (ab_strategies b)" using that len by (simp add: b' new_instance_def Let_def)
      then show ?thesis using True I(2) cs len' by simp
    next
      case False
      then have "map_of (ab_grouped b) c = Some i" using that by (simp add: b' new_instance_def Let_def)
      from G0 [OF this] show ?thesis using cs len' by simp
    qed
    have O: "d \<in> set (ab_devices b')" if "owns (length ss0) (ab_profiles b') d i" for d i
      using that O0 [of d i] unfolding own by (auto simp: b' new_instance_def Let_def)
    have U: "i = j" if "owns (length ss0) (ab_profiles b') d i" "owns (length ss0) (ab_profiles b') d j" for d i j
      using that U0 [of d i j] O0 [of device] new unfolding own by blast
    have L: "length ss0 \<le> length (ab_strategies b')" using I(2) len' by simp
    have K: "ab_profiles b' ! k = ps0 ! k \<and> ab_strategies b' ! k = ss0 ! k" if "k < length ss0" for k
      using K0 [OF that] that I(2) len by (simp add: b' new_instance_def Let_def nth_append)
    have "app_inv cands app ps0 ss0 b'" unfolding app_inv_def
      by (intro conjI allI impI) (rule P | rule L | rule names | (drule K, blast) | (drule G, blast) | (erule O) | (erule (1) U))+
    moreover have "served (length ss0) (ab_profiles b') (ab_strategies b') raw"
      unfolding served_def own using raw cs [of "length (ab_strategies b)"] len by auto
    moreover have "served (length ss0) (ab_profiles b') (ab_strategies b') r"
      if S: "served (length ss0) (ab_profiles b) (ab_strategies b) r" for r
    proof -
      obtain v k i where r: "cut (CHR ''='') r = Some (v, k)" "owns (length ss0) (ab_profiles b) v i"
        "zs_candidate (ab_strategies b ! i) = k" using S unfolding served_def by blast
      then have "i < length (ab_strategies b)" using len by (simp add: owns_def)
      then have "zs_candidate (ab_strategies b' ! i) = k" using cs [of i] r(3) by simp
      then show ?thesis using r(1,2) own unfolding served_def by blast
    qed
    ultimately show ?thesis by blast
  qed
qed

lemma assign_devices_served:
  "app_inv cands app ps0 ss0 b \<Longrightarrow> assign_devices cands app raws b = Inr b' \<Longrightarrow>
     app_inv cands app ps0 ss0 b'
     \<and> (\<forall>r. r \<in> set raws \<or> served (length ss0) (ab_profiles b) (ab_strategies b) r
          \<longrightarrow> served (length ss0) (ab_profiles b') (ab_strategies b') r)"
proof (induction raws arbitrary: b)
  case (Cons raw raws)
  then obtain b1 where b1: "assign_device cands app raw b = Inr b1" "assign_devices cands app raws b1 = Inr b'"
    by (cases "assign_device cands app raw b") auto
  from assign_device_step [OF Cons.prems(1) b1(1)] Cons.IH [of b1] b1(2) show ?case by auto
qed auto

lemma app_inv_start:
  "paired cands ps0 ss0 \<Longrightarrow> app_inv cands app ps0 ss0
     \<lparr>ab_devices = [], ab_grouped = [], ab_profiles = ps0, ab_strategies = ss0, ab_names = []\<rparr>"
  by (simp add: app_inv_def owns_def paired_def)

subsection \<open>All applications\<close>

definition app_strategy :: "zapret_build \<Rightarrow> string \<Rightarrow> nat \<Rightarrow> bool" where
  "app_strategy z app i \<longleftrightarrow>
     i < length (zb_strategies z) \<and> (\<exists>n. zs_name (zb_strategies z ! i) = instance_name app n)"

definition assigned :: "zapret_build \<Rightarrow> string \<Rightarrow> string \<Rightarrow> nat \<Rightarrow> bool" where
  "assigned z app device i \<longleftrightarrow>
     app_strategy z app i \<and> device \<in> set (zp_interfaces (zb_profiles z ! i))"

definition build_inv ::
    "zapret_candidate list \<Rightarrow> string list \<Rightarrow> zapret_application list \<Rightarrow> zapret_build \<Rightarrow> bool" where
  "build_inv cands names apps z \<longleftrightarrow>
     paired cands (zb_profiles z) (zb_strategies z)
     \<and> distinct (map zs_name (zb_strategies z))
     \<and> (\<forall>s \<in> set (zb_strategies z). \<exists>a \<in> set names. \<exists>n. zs_name s = instance_name a n)
     \<and> (\<forall>p \<in> set (zb_instances z). set (snd p) \<subseteq> zs_name ` set (zb_strategies z))
     \<and> (\<forall>app \<in> set apps. ap_enabled app \<longrightarrow> (\<forall>raw \<in> set (ap_assignments app). \<exists>device candidate i.
          cut (CHR ''='') raw = Some (device, candidate) \<and> assigned z (ap_name app) device i
          \<and> zs_candidate (zb_strategies z ! i) = candidate))
     \<and> (\<forall>app device i j. assigned z app device i \<longrightarrow> assigned z app device j \<longrightarrow> i = j)"

lemma compile_application_keeps:
  assumes "build_inv cands names apps z" and "ap_name app \<notin> set names"
    and "compile_application cands app z = Inr z'"
  shows "build_inv cands (ap_name app # names) (app # apps) z'"
proof -
  let ?n = "length (zb_strategies z)"
  note B = assms(1) [unfolded build_inv_def]
  obtain b where b: "assign_devices cands (ap_name app) (ap_assignments app)
        \<lparr>ab_devices = [], ab_grouped = [], ab_profiles = zb_profiles z, ab_strategies = zb_strategies z,
         ab_names = []\<rparr> = Inr b"
    and z': "z' = \<lparr>zb_profiles = ab_profiles b, zb_strategies = ab_strategies b,
        zb_instances = zb_instances z @ [(ap_name app, ab_names b)]\<rparr>"
    using assms(3) by (auto simp: compile_application_def andthen_def split: if_splits sum.splits)
  note b = assign_devices_served [OF app_inv_start b]
  have A: "app_inv cands (ap_name app) (zb_profiles z) (zb_strategies z) b"
    and S: "\<And>r. r \<in> set (ap_assignments app) \<Longrightarrow> served ?n (ab_profiles b) (ab_strategies b) r"
    using b B by blast+
  note A = A [unfolded app_inv_def]
  have names: "map zs_name (ab_strategies b) = map zs_name (zb_strategies z) @ ab_names b"
    "ab_names b = map (instance_name (ap_name app)) [1..<Suc (length (ab_names b))]"
    using A by blast+
  have len: "length (ab_profiles b) = length (ab_strategies b)" "length (zb_profiles z) = ?n"
    using A B by (simp_all add: paired_def)
  have le: "?n \<le> length (ab_strategies b)" using A by blast
  have old: "ab_profiles b ! i = zb_profiles z ! i" "ab_strategies b ! i = zb_strategies z ! i" if "i < ?n" for i
    using A that by blast+
  have new_name: "zs_name (ab_strategies b ! i) = instance_name (ap_name app) (i - ?n + 1)"
    if "?n \<le> i" "i < length (ab_strategies b)" for i
  proof -
    have "length (ab_strategies b) = ?n + length (ab_names b)" using arg_cong [OF names(1), of length] by simp
    then have k: "i - ?n < length (ab_names b)" using that by simp
    have "zs_name (ab_strategies b ! i) = map zs_name (ab_strategies b) ! i" using that(2) by simp
    also have "\<dots> = ab_names b ! (i - ?n)" using that(1) by (simp add: names(1) nth_append)
    also have "\<dots> = map (instance_name (ap_name app)) [1..<Suc (length (ab_names b))] ! (i - ?n)"
      using names(2) by simp
    also have "\<dots> = instance_name (ap_name app) (i - ?n + 1)" using k by (simp del: upt_Suc)
    finally show ?thesis .
  qed
  have fresh: "\<not> app_strategy z (ap_name app) i" for i
    using B assms(2) instance_name_inj by (metis app_strategy_def nth_mem)
  have strat: "app_strategy z' a i \<longleftrightarrow> app_strategy z a i \<or> (a = ap_name app \<and> ?n \<le> i \<and> i < length (ab_strategies b))"
    for a i
  proof (cases "i < ?n")
    case True
    then show ?thesis using le by (simp add: app_strategy_def z' old)
  next
    case False
    then show ?thesis using new_name [of i] instance_name_inj by (auto simp: app_strategy_def z')
  qed
  have own: "assigned z' a d i \<longleftrightarrow> assigned z a d i \<or> (a = ap_name app \<and> owns ?n (ab_profiles b) d i)" for a d i
    using len old unfolding assigned_def strat owns_def by (auto simp: z' app_strategy_def)
  have P: "paired cands (zb_profiles z') (zb_strategies z')" using A by (simp add: z')
  have "inj_on (instance_name (ap_name app)) A" for A
    by (rule inj_onI) (drule instance_name_inj, blast)
  then have "distinct (map (instance_name (ap_name app)) [1..<Suc (length (ab_names b))])"
    unfolding distinct_map by (blast intro: distinct_upt)
  then have dn: "distinct (ab_names b)" using names(2) by simp
  have mine: "\<exists>n. w = instance_name (ap_name app) n" if "w \<in> set (ab_names b)" for w
    using that names(2) by (metis image_iff list.set_map)
  have theirs: "\<exists>a \<in> set names. \<exists>n. w = instance_name a n" if "w \<in> zs_name ` set (zb_strategies z)" for w
    using that B by blast
  have sets: "zs_name ` set (ab_strategies b) = zs_name ` set (zb_strategies z) \<union> set (ab_names b)"
    using arg_cong [OF names(1), of set] by simp
  have "set (map zs_name (zb_strategies z)) \<inter> set (ab_names b) = {}"
    using mine theirs assms(2) instance_name_inj by (fastforce simp: disjoint_iff)
  then have D: "distinct (map zs_name (zb_strategies z'))" using B dn by (simp add: z' names(1))
  have N: "\<exists>a \<in> set (ap_name app # names). \<exists>n. zs_name s = instance_name a n"
    if "s \<in> set (zb_strategies z')" for s
  proof -
    have "zs_name s \<in> zs_name ` set (zb_strategies z) \<union> set (ab_names b)"
      using that unfolding sets [symmetric] by (simp add: z')
    then show ?thesis using mine theirs by auto
  qed
  have I: "set (snd p) \<subseteq> zs_name ` set (zb_strategies z')" if "p \<in> set (zb_instances z')" for p
    using that B sets by (auto simp: z')
  have As: "\<exists>device candidate i. cut (CHR ''='') raw = Some (device, candidate) \<and> assigned z' (ap_name a) device i
      \<and> zs_candidate (zb_strategies z' ! i) = candidate"
    if a: "a \<in> set (app # apps)" "ap_enabled a" and raw: "raw \<in> set (ap_assignments a)" for a raw
  proof (cases "a = app")
    case True
    then show ?thesis using S [of raw] raw unfolding served_def own by (auto simp: z')
  next
    case False
    then have "a \<in> set apps" using a(1) by simp
    with B a(2) raw obtain device candidate i where i: "cut (CHR ''='') raw = Some (device, candidate)"
      "assigned z (ap_name a) device i" "zs_candidate (zb_strategies z ! i) = candidate" by blast
    moreover from i(2) have "i < ?n" by (simp add: assigned_def app_strategy_def)
    ultimately show ?thesis unfolding own by (auto simp: z' old)
  qed
  have U: "i = j" if "assigned z' a d i" "assigned z' a d j" for a d i j
  proof (cases "a = ap_name app")
    case True
    have "\<not> assigned z (ap_name app) d k" for k by (simp add: assigned_def fresh)
    then have "owns ?n (ab_profiles b) d i" "owns ?n (ab_profiles b) d j"
      using that True own by blast+
    then show ?thesis using A by blast
  next
    case False
    then show ?thesis using that B unfolding own by blast
  qed
  show ?thesis unfolding build_inv_def
    by (intro conjI ballI allI impI) (rule P | rule D | (erule N) | (erule I) | (erule (2) As) | (erule (1) U))+
qed

lemma compile_applications_inv:
  "build_inv cands names apps0 z \<Longrightarrow> compile_applications cands names apps z = Inr z' \<Longrightarrow>
     \<exists>names'. build_inv cands names' (rev apps @ apps0) z'"
proof (induction apps arbitrary: names apps0 z)
  case (Cons app apps)
  show ?case
  proof (cases "ap_enabled app")
    case True
    then obtain z1 where z1: "compile_application cands app z = Inr z1" "ap_name app \<notin> set names"
      "compile_applications cands (ap_name app # names) apps z1 = Inr z'"
      using Cons.prems(2) by (auto simp: andthen_def split: if_splits sum.splits)
    from Cons.IH [OF compile_application_keeps [OF Cons.prems(1) z1(2,1)] z1(3)] show ?thesis by simp
  next
    case False
    then have "build_inv cands (ap_name app # names) (app # apps0) z"
      using Cons.prems(1) by (auto simp: build_inv_def)
    from Cons.IH [OF this] Cons.prems(2) False show ?thesis by (auto split: if_splits)
  qed
qed auto

subsection \<open>The compiled configuration\<close>

lemma resolve_strategies_keep:
  "resolve_strategies is_file cands ss = Inr ss' \<Longrightarrow> length ss' = length ss
     \<and> (\<forall>i < length ss. zs_name (ss' ! i) = zs_name (ss ! i) \<and> zs_profile (ss' ! i) = zs_profile (ss ! i)
          \<and> zs_enabled (ss' ! i) = zs_enabled (ss ! i) \<and> zs_candidate (ss' ! i) = zs_candidate (ss ! i)
          \<and> zs_selector_mark (ss' ! i) = zs_selector_mark (ss ! i))"
proof (induction ss arbitrary: ss')
  case (Cons s ss)
  then obtain t ts where t: "resolve_strategy is_file cands s = Inr t" "resolve_strategies is_file cands ss = Inr ts"
    "ss' = t # ts"
    by (auto simp: andthen_def split: sum.splits)
  have "zs_name t = zs_name s \<and> zs_profile t = zs_profile s \<and> zs_enabled t = zs_enabled s
      \<and> zs_candidate t = zs_candidate s \<and> zs_selector_mark t = zs_selector_mark s"
    using t(1) by (auto simp: resolve_strategy_def split: if_splits option.splits)
  then show ?case using Cons.IH [OF t(2)] t(3) by (auto simp: nth_Cons split: nat.splits)
qed simp

lemma compiled_build:
  assumes "compile_zapret_applications is_file cands c = Inr c'"
  obtains names z where "build_inv cands names (rev (cf_zapret_applications c)) z"
    and "compile_sections (zb_instances z) (cf_sections c) = Inr (cf_sections c')"
    and "cf_zapret_profiles c' = zb_profiles z"
    and "resolve_strategies is_file cands (zb_strategies z) = Inr (cf_zapret_strategies c')"
proof -
  let ?z = "\<lparr>zb_profiles = [], zb_strategies = [], zb_instances = []\<rparr> :: zapret_build"
  obtain z where z: "compile_applications cands [] (cf_zapret_applications c) ?z = Inr z"
    and rest: "compile_sections (zb_instances z) (cf_sections c) = Inr (cf_sections c')"
    "cf_zapret_profiles c' = zb_profiles z"
    "resolve_strategies is_file cands (zb_strategies z) = Inr (cf_zapret_strategies c')"
    using assms
    by (auto simp: compile_zapret_applications_def resolve_zapret_references_def andthen_def split: sum.splits)
  have "build_inv cands [] [] ?z"
    by (simp add: build_inv_def paired_def assigned_def app_strategy_def)
  from compile_applications_inv [OF this z] obtain names
    where "build_inv cands names (rev (cf_zapret_applications c)) z" by auto
  then show thesis using rest by (rule that)
qed

text \<open>
  C17: the strategies a configuration compiles to can be told apart in the kernel and by name:
  there are at most 255, the i-th one carries the mark i+1 in the eight bits of the selector
  mask and no other bit, marks and names are all different, and each has its profile.
\<close>

theorem zapret_strategies_apart:
  assumes "compile_zapret_applications is_file cands c = Inr c'"
  shows "length (cf_zapret_strategies c') \<le> 255
    \<and> distinct (map zs_selector_mark (cf_zapret_strategies c'))
    \<and> distinct (map zs_name (cf_zapret_strategies c'))
    \<and> map zs_profile (cf_zapret_strategies c') = map zp_name (cf_zapret_profiles c')
    \<and> list_all (\<lambda>m. m \<noteq> 0 \<and> and m 0x00FF0000 = m) (map zs_selector_mark (cf_zapret_strategies c'))"
proof -
  obtain names z where "build_inv cands names (rev (cf_zapret_applications c)) z"
    and ps: "cf_zapret_profiles c' = zb_profiles z"
    and ss: "resolve_strategies is_file cands (zb_strategies z) = Inr (cf_zapret_strategies c')"
    using compiled_build [OF assms] by metis
  then have P: "paired cands (zb_profiles z) (zb_strategies z)" and D: "distinct (map zs_name (zb_strategies z))"
    by (simp_all add: build_inv_def)
  let ?ss = "cf_zapret_strategies c'"
  note K = resolve_strategies_keep [OF ss]
  have len: "length ?ss \<le> 255" "length (zb_profiles z) = length ?ss" using P K by (simp_all add: paired_def)
  have marks: "zs_selector_mark (?ss ! i) = mark_of i" "zs_profile (?ss ! i) = zp_name (zb_profiles z ! i)"
    if "i < length ?ss" for i
    using P K that by (simp_all add: paired_def strategy_ok_def)
  have "map zs_name ?ss = map zs_name (zb_strategies z)" using K by (auto intro: nth_equalityI)
  then have "distinct (map zs_name ?ss)" using D by simp
  moreover have "distinct (map zs_selector_mark ?ss)"
    using len marks(1) by (auto simp: distinct_conv_nth dest: mark_of_inj [rotated 2])
  moreover have "map zs_profile ?ss = map zp_name (zb_profiles z)"
    using len marks(2) by (auto intro: nth_equalityI)
  moreover have "list_all (\<lambda>m. m \<noteq> 0 \<and> and m 0x00FF0000 = m) (map zs_selector_mark ?ss)"
    using len(1) marks(1) mark_of_in_mask by (auto simp: list_all_length)
  ultimately show ?thesis using len(1) ps by simp
qed

text \<open>
  C18: every assignment \<open>device=candidate\<close> of an enabled application is served: one of the
  strategies named after the application runs the candidate on a profile with the device, and
  no other strategy of the application has that device.
\<close>

theorem zapret_assignment_served:
  assumes "compile_zapret_applications is_file cands c = Inr c'"
    and "app \<in> set (cf_zapret_applications c)" and "ap_enabled app" and "raw \<in> set (ap_assignments app)"
  shows "\<exists>device candidate. cut (CHR ''='') raw = Some (device, candidate)
    \<and> (\<exists>!i. i < length (cf_zapret_strategies c')
         \<and> (\<exists>n. zs_name (cf_zapret_strategies c' ! i) = instance_name (ap_name app) n)
         \<and> device \<in> set (zp_interfaces (cf_zapret_profiles c' ! i)))
    \<and> (\<exists>i < length (cf_zapret_strategies c'). zs_candidate (cf_zapret_strategies c' ! i) = candidate
         \<and> (\<exists>n. zs_name (cf_zapret_strategies c' ! i) = instance_name (ap_name app) n)
         \<and> device \<in> set (zp_interfaces (cf_zapret_profiles c' ! i)))"
proof -
  obtain names z where B: "build_inv cands names (rev (cf_zapret_applications c)) z"
    and ps: "cf_zapret_profiles c' = zb_profiles z"
    and ss: "resolve_strategies is_file cands (zb_strategies z) = Inr (cf_zapret_strategies c')"
    using compiled_build [OF assms(1)] by metis
  note K = resolve_strategies_keep [OF ss]
  have as: "assigned z a d i \<longleftrightarrow> i < length (cf_zapret_strategies c')
      \<and> (\<exists>n. zs_name (cf_zapret_strategies c' ! i) = instance_name a n)
      \<and> d \<in> set (zp_interfaces (cf_zapret_profiles c' ! i))" for a d i
    using K by (auto simp: assigned_def app_strategy_def ps)
  obtain device candidate i where "cut (CHR ''='') raw = Some (device, candidate)"
    "assigned z (ap_name app) device i" "zs_candidate (zb_strategies z ! i) = candidate"
    using B assms(2-4) unfolding build_inv_def set_rev by blast
  moreover have "\<forall>j. assigned z (ap_name app) device j \<longrightarrow> j = i"
    using B calculation(2) unfolding build_inv_def by blast
  ultimately show ?thesis unfolding as [symmetric] using K as by (metis (no_types, lifting))
qed

lemma compile_sections_resolved:
  "compile_sections inst ss = Inr ss' \<Longrightarrow> s \<in> set ss' \<Longrightarrow>
     set (sc_zapret_strategies s) \<subseteq> (\<Union>p \<in> set inst. set (snd p))
     \<and> (sc_enabled s \<and> sc_action s = ''zapret'' \<and> sc_zapret_application_names s \<notin> {None, Some []}
          \<longrightarrow> sc_zapret_strategies s \<noteq> [])"
proof (induction ss arbitrary: ss')
  case (Cons s0 ss)
  then obtain t ts where t: "compile_section inst s0 = Inr t" "compile_sections inst ss = Inr ts" "ss' = t # ts"
    by (auto simp: andthen_def split: sum.splits)
  have inst: "set (instances_of inst n) \<subseteq> (\<Union>p \<in> set inst. set (snd p))" for n
  proof (cases "map_of inst n")
    case (Some ns)
    from map_of_SomeD [OF this] show ?thesis by (force simp: instances_of_def Some)
  qed (simp add: instances_of_def)
  show ?case
  proof (cases "s = t")
    case True
    let ?names = "application_names s0"
    have t': "t = s0 \<lparr>sc_zapret_application_names := ?names,
        sc_zapret_strategies := concat (map (instances_of inst) (case ?names of None \<Rightarrow> [] | Some ns \<Rightarrow> ns))\<rparr>"
      and found: "\<forall>n \<in> set (case ?names of None \<Rightarrow> [] | Some ns \<Rightarrow> ns).
        \<not> (sc_enabled s0 \<and> sc_action s0 = ''zapret'' \<and> instances_of inst n = [])"
      using t(1) by (auto simp: compile_section_def Let_def find_None_iff split: option.splits)
    show ?thesis unfolding True
    proof (intro conjI impI)
      show "set (sc_zapret_strategies t) \<subseteq> (\<Union>p \<in> set inst. set (snd p))"
        using inst by (auto simp: t')
      assume "sc_enabled t \<and> sc_action t = ''zapret'' \<and> sc_zapret_application_names t \<notin> {None, Some []}"
      then obtain n ns where "?names = Some (n # ns)" "sc_enabled s0" "sc_action s0 = ''zapret''"
        by (auto simp: t' neq_Nil_conv)
      then show "sc_zapret_strategies t \<noteq> []" using found by (simp add: t')
    qed
  next
    case False
    then show ?thesis using Cons.IH [OF t(2)] Cons.prems(2) t(3) by simp
  qed
qed simp

text \<open>
  C19: after a compilation, the strategies of a section are compiled strategies, and an enabled
  zapret section that names an application has at least one: no traffic is marked for a queue
  that does not exist.
\<close>

theorem zapret_sections_resolved:
  assumes "compile_zapret_applications is_file cands c = Inr c'" and "s \<in> set (cf_sections c')"
  shows "set (sc_zapret_strategies s) \<subseteq> zs_name ` set (cf_zapret_strategies c')
    \<and> (sc_enabled s \<and> sc_action s = ''zapret'' \<and> sc_zapret_application_names s \<notin> {None, Some []}
         \<longrightarrow> sc_zapret_strategies s \<noteq> [])"
proof -
  obtain names z where B: "build_inv cands names (rev (cf_zapret_applications c)) z"
    and ss: "compile_sections (zb_instances z) (cf_sections c) = Inr (cf_sections c')"
    and re: "resolve_strategies is_file cands (zb_strategies z) = Inr (cf_zapret_strategies c')"
    using compiled_build [OF assms(1)] by metis
  have "map zs_name (cf_zapret_strategies c') = map zs_name (zb_strategies z)"
    using resolve_strategies_keep [OF re] by (auto intro: nth_equalityI)
  from arg_cong [OF this, of set]
  have "zs_name ` set (zb_strategies z) = set (map zs_name (cf_zapret_strategies c'))" by simp
  moreover have "(\<Union>p \<in> set (zb_instances z). set (snd p)) \<subseteq> zs_name ` set (zb_strategies z)"
    using B unfolding build_inv_def by blast
  ultimately have "(\<Union>p \<in> set (zb_instances z). set (snd p)) \<subseteq> zs_name ` set (cf_zapret_strategies c')"
    by simp
  then show ?thesis using compile_sections_resolved [OF ss assms(2)] by blast
qed

subsection \<open>An example\<close>

definition ex_candidate :: zapret_candidate where
  "ex_candidate = \<lparr>zc_name = ''x'', zc_origin = [], zc_isp = ''common'', zc_service = [], zc_protocols = [], zc_tcp_ports = ''443'', zc_udp_ports = [],
     zc_tcp_pkt_out = 9, zc_tcp_pkt_in = 0, zc_udp_pkt_out = 0, zc_udp_pkt_in = 0, zc_params = ''p'',
     zc_blobs = []\<rparr>"

definition ex_zapret :: config where
  "ex_zapret = blank_config \<lparr>cf_zapret_applications :=
       [\<lparr>ap_name = ''a'', ap_enabled = True, ap_assignments = [''wan=x'', ''lte=x'']\<rparr>],
     cf_sections := [(hd default_sections) \<lparr>sc_action := ''zapret'', sc_zapret_strategies := [''a'']\<rparr>]\<rparr>"

definition ex_zapret' :: config where
  "ex_zapret' = (case compile_zapret_applications (\<lambda>_. False) [ex_candidate] ex_zapret of
     Inl _ \<Rightarrow> ex_zapret | Inr c \<Rightarrow> c)"

lemma ex_zapret_ok: "isl (compile_zapret_applications (\<lambda>_. False) [ex_candidate] ex_zapret) = False"
  by code_simp

lemma ex_zapret_compiles: "compile_zapret_applications (\<lambda>_. False) [ex_candidate] ex_zapret = Inr ex_zapret'"
  using ex_zapret_ok by (cases "compile_zapret_applications (\<lambda>_. False) [ex_candidate] ex_zapret")
    (simp_all add: ex_zapret'_def)

lemma ex_zapret_apps: "cf_zapret_applications ex_zapret
    = [\<lparr>ap_name = ''a'', ap_enabled = True, ap_assignments = [''wan=x'', ''lte=x'']\<rparr>]"
  by (simp add: ex_zapret_def)

lemma ex_zapret_sections: "cf_sections ex_zapret' \<noteq> []"
  by code_simp

lemma zapret_strategies_apart_witness: "distinct (map zs_name (cf_zapret_strategies ex_zapret'))"
  using zapret_strategies_apart [OF ex_zapret_compiles] by simp

lemma zapret_assignment_served_witness:
  "\<exists>device candidate. cut (CHR ''='') ''lte=x'' = Some (device, candidate)
    \<and> (\<exists>!i. i < length (cf_zapret_strategies ex_zapret')
         \<and> (\<exists>n. zs_name (cf_zapret_strategies ex_zapret' ! i) = instance_name ''a'' n)
         \<and> device \<in> set (zp_interfaces (cf_zapret_profiles ex_zapret' ! i)))"
  using zapret_assignment_served [OF ex_zapret_compiles, of "hd (cf_zapret_applications ex_zapret)" "''lte=x''"]
  by (auto simp: ex_zapret_apps)

lemma zapret_sections_resolved_witness:
  "set (sc_zapret_strategies (hd (cf_sections ex_zapret'))) \<subseteq> zs_name ` set (cf_zapret_strategies ex_zapret')"
  using zapret_sections_resolved [OF ex_zapret_compiles, of "hd (cf_sections ex_zapret')"] ex_zapret_sections by simp

end
