(* ===== verification/Uci_Write.thy ===== *)
theory Uci_Write
  imports Uci_Parse
begin

section \<open>Writing the configuration\<close>

text \<open>
  \<open>internal/config/write.go\<close>: \<open>Serialize\<close>. The buffer is a list of lines, each a
  constructor for the \<open>Fprintf\<close> that writes it; \<open>line_text\<close> is the text of one. The map
  \<open>seen\<close> of section ids that \<open>sectionHeader\<close> shares is passed on from section to section.
\<close>

datatype uci_line =
    Header string "string option"
  | Option_line string string
  | List_line string string
  | Blank

definition quoted :: "string \<Rightarrow> string" where
  "quoted v = [quote] @ concat (map (\<lambda>c. if c = quote then [quote, CHR 0x5C, quote, quote] else [c]) v) @ [quote]"

fun line_text :: "uci_line \<Rightarrow> string" where
  "line_text (Header ty None) = ''config '' @ ty @ [newline]"
| "line_text (Header ty (Some ident)) = ''config '' @ ty @ '' '' @ quoted ident @ [newline]"
| "line_text (Option_line k v) = ''    option '' @ k @ '' '' @ quoted v @ [newline]"
| "line_text (List_line k v) = ''    list '' @ k @ '' '' @ quoted v @ [newline]"
| "line_text Blank = [newline]"

subsection \<open>Options\<close>

text \<open>The lines a call of a writer adds to the buffer, beside the key they are for.\<close>

type_synonym option_group = "string \<times> uci_line list"

definition w_opt :: "string \<Rightarrow> string \<Rightarrow> option_group" where
  "w_opt k v = (k, [Option_line k v])"

definition w_nonempty :: "string \<Rightarrow> string \<Rightarrow> option_group" where
  "w_nonempty k v = (k, if v \<noteq> [] then [Option_line k v] else [])"

definition yn :: "bool \<Rightarrow> string" where
  "yn v = (if v then ''1'' else ''0'')"

definition w_bool :: "string \<Rightarrow> bool \<Rightarrow> option_group" where
  "w_bool k v = w_opt k (yn v)"

definition w_int :: "string \<Rightarrow> int \<Rightarrow> option_group" where
  "w_int k v = w_opt k (itoa v)"

definition w_list :: "string \<Rightarrow> string list \<Rightarrow> option_group" where
  "w_list k vs = (k, map (List_line k) vs)"

definition w_if :: "bool \<Rightarrow> option_group \<Rightarrow> option_group" where
  "w_if c g = (fst g, if c then snd g else [])"

definition option_lines :: "option_group list \<Rightarrow> uci_line list" where
  "option_lines gs = concat (map snd gs)"

subsection \<open>Section headers\<close>

definition uci_id :: "string \<Rightarrow> bool" where
  "uci_id s \<longleftrightarrow> s \<noteq> [] \<and> list_all (\<lambda>c. alnum c \<or> c = CHR ''_'') s"

definition section_header ::
    "string \<Rightarrow> string \<Rightarrow> string \<Rightarrow> string list \<Rightarrow> uci_line \<times> bool \<times> string list" where
  "section_header ty prefix name seen =
     (let ident = prefix @ name
      in if ident \<notin> set seen \<and> uci_id name then (Header ty (Some ident), False, ident # seen)
         else (Header ty None, True, ident # seen))"

definition named_section ::
    "string \<Rightarrow> string \<Rightarrow> string \<Rightarrow> option_group list \<Rightarrow> string list \<Rightarrow> uci_line list \<times> string list" where
  "named_section ty prefix name gs seen =
     (case section_header ty prefix name seen of (h, need, seen') \<Rightarrow>
        (h # option_lines ((if need then [w_opt ''name'' name] else []) @ gs) @ [Blank], seen'))"

subsection \<open>One section\<close>

definition main_options :: "settings \<Rightarrow> option_group list" where
  "main_options r =
     [w_int ''config_version'' (st_config_version r),
      w_bool ''enabled'' (st_enabled r),
      w_opt ''workdir'' (st_workdir r),
      w_opt ''runtime_dir'' (st_runtime_dir r),
      w_nonempty ''generated_dir'' (st_generated_dir r),
      w_nonempty ''dnsmasq_include_dir'' (st_dnsmasq_include_dir r),
      w_opt ''mihomo_bin'' (st_mihomo_bin r),
      w_nonempty ''mihomo_config'' (st_mihomo_config r),
      w_bool ''mihomo_allow_lan'' (st_mihomo_allow_lan r),
      w_opt ''external_controller'' (st_external_controller r),
      w_opt ''secret'' (st_secret r),
      w_opt ''fwmark'' (st_fw_mark r),
      w_opt ''fwmark_mask'' (st_fw_mark_mask r),
      w_opt ''route_table'' (st_route_table r),
      w_opt ''ip_rule_priority'' (st_ip_rule_priority r),
      w_bool ''ipv6'' (st_ipv6 r),
      w_bool ''fake_ip'' (st_fake_ip r),
      w_bool ''sniffer'' (st_sniffer r),
      w_opt ''dns_listen'' (st_dns_listen r),
      w_bool ''rollback_on_fail'' (st_rollback_on_fail r),
      w_int ''apply_backup_max_bytes'' (st_apply_backup_max_bytes r),
      w_opt ''mihomo_channel'' (st_mihomo_channel r),
      w_opt ''mihomo_release_api'' (st_mihomo_release_api r),
      w_opt ''mihomo_stable_release_api'' (st_mihomo_stable_release_api r),
      w_bool ''mihomo_mixin_enabled'' (st_mihomo_mixin_enabled r),
      w_bool ''mihomo_auto_update_enabled'' (st_mihomo_auto_update_enabled r),
      w_opt ''mihomo_auto_update_cron'' (st_mihomo_auto_update_cron r),
      w_bool ''net_check_enabled'' (st_net_check_enabled r),
      w_nonempty ''net_check_cron'' (st_net_check_cron r),
      w_int ''net_check_bytes'' (st_net_check_bytes r),
      w_bool ''proxy_guard_enabled'' (st_proxy_guard_enabled r),
      w_nonempty ''proxy_guard_cron'' (st_proxy_guard_cron r),
      w_int ''proxy_guard_min_members'' (st_proxy_guard_min_members r),
      w_int ''proxy_guard_min_down_kbps'' (st_proxy_guard_min_down_kbps r),
      w_int ''proxy_guard_probe_bytes'' (st_proxy_guard_probe_bytes r),
      w_int ''proxy_guard_max_jitter_ms'' (st_proxy_guard_max_jitter_ms r),
      w_int ''proxy_guard_active_probe_interval'' (st_proxy_guard_active_probe_interval r),
      w_int ''proxy_guard_fleet_probe_interval'' (st_proxy_guard_fleet_probe_interval r),
      w_int ''proxy_guard_quarantine_seconds'' (st_proxy_guard_quarantine_seconds r),
      w_opt ''mihomo_version'' (st_mihomo_version r),
      w_opt ''mihomo_arch'' (st_mihomo_arch r),
      w_opt ''mihomo_asset_url'' (st_mihomo_asset_url r),
      w_opt ''mihomo_sha256_url'' (st_mihomo_sha256_url r),
      w_bool ''mihomo_geodata_enabled'' (st_mihomo_geodata_enabled r),
      w_bool ''update_via_proxy'' (st_update_via_proxy r),
      w_bool ''suppress_hwid'' (st_suppress_hwid r),
      w_opt ''update_proxy_url'' (st_update_proxy_url r),
      w_int ''update_concurrency'' (st_update_concurrency r),
      w_bool ''auto_update_enabled'' (st_auto_update_enabled r),
      w_opt ''auto_update_cron'' (st_auto_update_cron r),
      w_bool ''reload_after_update'' (st_reload_after_update r),
      w_bool ''background_updates'' (st_background_updates r),
      w_int ''boot_update_delay'' (st_boot_update_delay r),
      w_int ''update_nice'' (st_update_nice r),
      w_int ''update_ionice_class'' (st_update_ionice_class r),
      w_int ''update_ionice_level'' (st_update_ionice_level r),
      w_bool ''dashboard_enabled'' (st_dashboard_enabled r),
      w_opt ''dashboard_listen'' (st_dashboard_listen r),
      w_opt ''dashboard_path'' (st_dashboard_path r),
      w_opt ''dashboard_url'' (st_dashboard_url r),
      w_nonempty ''default_lists_base_url'' (st_default_lists_base_url r),
      w_opt ''dashboard_name'' (st_dashboard_name r),
      w_opt ''resource_profile'' (st_resource_profile r),
      w_opt ''cache_mode'' (st_cache_mode r),
      w_opt ''cache_dir'' (st_cache_dir r),
      w_opt ''artifact_cache_mode'' (st_artifact_cache_mode r),
      w_int ''artifact_cache_max_bytes'' (st_artifact_cache_max_bytes r),
      w_int ''artifact_cache_max_entries'' (st_artifact_cache_max_entries r),
      w_opt ''log_level'' (st_log_level r),
      w_nonempty ''log_format'' (st_log_format r),
      w_list ''api_listen'' (st_api_listen r),
      w_nonempty ''notify_url'' (st_notify_url r),
      w_nonempty ''notify_format'' (st_notify_format r),
      w_list ''notify_on'' (st_notify_on r),
      w_bool ''metrics_enabled'' (st_metrics_enabled r),
      w_nonempty ''geo_refresh_geoip_url'' (st_geo_refresh_geoip_url r),
      w_nonempty ''geo_refresh_geoip_sha'' (st_geo_refresh_geoip_sha r),
      w_nonempty ''geo_refresh_geosite_url'' (st_geo_refresh_geosite_url r),
      w_nonempty ''geo_refresh_geosite_sha'' (st_geo_refresh_geosite_sha r),
      w_nonempty ''geo_refresh_mmdb_url'' (st_geo_refresh_mmdb_url r),
      w_nonempty ''geo_refresh_mmdb_sha'' (st_geo_refresh_mmdb_sha r),
      w_nonempty ''geo_refresh_dir'' (st_geo_refresh_geoip_dir r),
      w_nonempty ''geo_refresh_cron'' (st_geo_refresh_cron r),
      w_bool ''bootstrap_doh_enabled'' (st_bootstrap_doh_enabled r),
      w_list ''bootstrap_doh_resolver'' (st_bootstrap_doh_resolvers r),
      w_int ''bootstrap_doh_timeout_ms'' (st_bootstrap_doh_timeout_ms r),
      w_bool ''bootstrap_proxy_fallback'' (st_bootstrap_proxy_fallback r),
      w_opt ''bootstrap_tls_fingerprint'' (st_bootstrap_tls_fingerprint r),
      w_nonempty ''bootstrap_tofu_path'' (st_bootstrap_tofu_path r),
      w_int ''bootstrap_tofu_ttl_sec'' (st_bootstrap_tofu_ttl_sec r),
      w_bool ''bootstrap_health_gate'' (st_bootstrap_health_gate r),
      w_opt ''ipv6_mode'' (st_ipv6_mode r),
      w_bool ''ipv6_reject_when_off'' (st_ipv6_reject_when_off r),
      w_bool ''router_output_proxy'' (st_router_output_proxy r),
      w_opt ''cgroup_v2_path'' (st_cgroup_v2_path r),
      w_bool ''wizard_vpn_pending'' (st_wizard_vpn_pending r),
      w_bool ''wizard_zapret_pending'' (st_wizard_zapret_pending r),
      w_list ''ipv6_wan_interface'' (st_ipv6_wan_interfaces r),
      w_list ''lan_source_zone'' (st_lan_source_zones r)]"

definition write_main :: "settings \<Rightarrow> uci_line list" where
  "write_main r = Header ''main'' (Some ''settings'') # option_lines (main_options r) @ [Blank]"

definition w_dns_list :: "string \<Rightarrow> string list \<Rightarrow> option_group" where
  "w_dns_list k vs = (if vs = [] then w_opt k [] else w_list k vs)"

definition dns_options :: "dns \<Rightarrow> option_group list" where
  "dns_options r =
     [w_bool ''enabled'' (dn_enabled r),
      w_opt ''backend'' (dn_backend r),
      w_opt ''upstream_mode'' (dn_upstream_mode r),
      w_list ''vpns'' (dn_vpns r),
      w_bool ''hijack_lan_dns'' (dn_hijack_lan_dns r),
      w_bool ''block_dot'' (dn_block_dot r),
      w_bool ''block_doh3'' (dn_block_doh3 r),
      w_bool ''block_doq'' (dn_block_doq r),
      w_list ''doh3_block_ip4'' (dn_doh3_block_ips4 r),
      w_list ''doh3_block_ip6'' (dn_doh3_block_ips6 r),
      w_opt ''listen'' (dn_listen r),
      w_bool ''fake_ip'' (dn_fake_ip r),
      w_opt ''enhanced_mode'' (dn_enhanced_mode r),
      w_opt ''proxy_group_type'' (dn_proxy_group_type r),
      w_opt ''proxy_filter'' (dn_proxy_filter r),
      w_opt ''proxy_exclude_filter'' (dn_proxy_exclude_filter r),
      w_opt ''proxy_strategy'' (dn_proxy_strategy r),
      w_list ''doh_upstream'' (dn_doh_upstreams r),
      w_list ''udp_upstream'' (dn_udp_upstreams r),
      w_list ''doq_upstream'' (dn_doq_upstreams r),
      w_dns_list ''fallback_upstream'' (dn_fallback_upstreams r),
      w_dns_list ''fallback_domain'' (dn_fallback_domains r)]"

definition write_dns :: "dns \<Rightarrow> uci_line list" where
  "write_dns r = Header ''dns'' (Some ''dns'') # option_lines (dns_options r) @ [Blank]"

definition mwan3_options :: "mwan3 \<Rightarrow> option_group list" where
  "mwan3_options r =
     [w_bool ''proxy_wan_enabled'' (mw_proxy_wan_enabled r),
      w_list ''proxy_wan'' (mw_proxy_wans r)]"

definition write_mwan3 :: "mwan3 \<Rightarrow> uci_line list" where
  "write_mwan3 r = Header ''mwan3'' (Some ''mwan3'') # option_lines (mwan3_options r) @ [Blank]"

definition application_options :: "zapret_application \<Rightarrow> option_group list" where
  "application_options r = [w_bool ''enabled'' (ap_enabled r), w_list ''assignment'' (ap_assignments r)]"

definition write_application :: "zapret_application \<Rightarrow> string list \<Rightarrow> uci_line list \<times> string list" where
  "write_application r = named_section ''zapret_strategy'' ''zs_'' (ap_name r) (application_options r)"

definition vpn_options :: "vpn \<Rightarrow> option_group list" where
  "vpn_options r = [w_bool ''enabled'' (vp_enabled r), w_opt ''interface'' (vp_interface r)]"

definition write_vpn :: "vpn \<Rightarrow> string list \<Rightarrow> uci_line list \<times> string list" where
  "write_vpn r = named_section ''vpn'' ''vpn_'' (vp_name r) (vpn_options r)"

definition device_section_name :: "(string \<Rightarrow> string) \<Rightarrow> string \<Rightarrow> string" where
  "device_section_name lo m = ''dev_'' @ filter (\<lambda>c. c \<noteq> CHR '':'') (to_lower lo m)"

definition device_options :: "device \<Rightarrow> option_group list" where
  "device_options r =
     [w_opt ''name'' (dv_name r),
      w_bool ''enabled'' (dv_enabled r),
      w_opt ''mac'' (dv_mac r),
      (if dv_exclude r then w_bool ''exclude'' True else w_nonempty ''section'' (dv_section r))]"

definition write_device :: "(string \<Rightarrow> string) \<Rightarrow> device \<Rightarrow> uci_line list" where
  "write_device lo r = Header ''device'' (Some (device_section_name lo (dv_mac r))) # option_lines (device_options r) @ [Blank]"

definition section_options :: "route_section \<Rightarrow> option_group list" where
  "section_options r =
     [w_bool ''enabled'' (sc_enabled r),
      w_opt ''action'' (sc_action r),
      w_int ''tproxy_port'' (sc_tproxy_port r),
      w_opt ''proxy_group'' (sc_proxy_group r),
      w_opt ''proxy_group_type'' (sc_proxy_group_type r),
      w_opt ''proxy_filter'' (sc_proxy_filter r),
      w_opt ''proxy_exclude_filter'' (sc_proxy_exclude_filter r),
      w_opt ''proxy_strategy'' (sc_proxy_strategy r),
      w_opt ''proxy_health_check_url'' (sc_proxy_health_check_url r),
      w_int ''proxy_health_check_interval'' (sc_proxy_health_check_interval r),
      w_bool ''user_overridden_proxy_group'' (sc_user_overridden_proxy_group r),
      w_bool ''ipv4_enabled'' (sc_ipv4_enabled r),
      w_bool ''ipv6_enabled'' (sc_ipv6_enabled r),
      w_opt ''udp_mode'' (sc_udp_mode r),
      w_opt ''match_protocol'' (sc_match_protocol r),
      w_opt ''destination_ports'' (sc_destination_ports r),
      w_int ''priority'' (sc_priority r),
      w_list ''vpns'' (sc_vpns r),
      w_list ''zapret_strategy''
        (case sc_zapret_application_names r of Some ns \<Rightarrow> ns | None \<Rightarrow> sc_zapret_strategies r),
      w_list ''source_cidr4'' (sc_source_cidr4 r),
      w_list ''source_cidr6'' (sc_source_cidr6 r)]"

definition write_section :: "route_section \<Rightarrow> string list \<Rightarrow> uci_line list \<times> string list" where
  "write_section r = named_section ''section'' ''sec_'' (sc_name r) (section_options r)"

definition subscription_options :: "subscription \<Rightarrow> option_group list" where
  "subscription_options r =
     [w_bool ''enabled'' (sb_enabled r),
      w_opt ''url'' (sb_url r),
      w_opt ''mode'' (sb_mode r),
      w_opt ''preset_if_no_rules'' (sb_preset_if_no_rules r),
      w_bool ''import_rules_on_low_resource'' (sb_import_rules_on_low_resource r),
      w_bool ''auto_apply'' (sb_auto_apply r),
      w_int ''interval'' (sb_interval r),
      w_opt ''hwid'' (sb_hwid r),
      w_opt ''device_name'' (sb_device_name r),
      w_opt ''user_agent'' (sb_user_agent r),
      w_list ''header'' (sb_headers r),
      w_list ''mirror'' (sb_mirrors r),
      w_nonempty ''pin_sha256'' (sb_pin_sha256 r),
      w_bool ''suppress_hwid'' (sb_suppress_hwid r)]"

definition write_subscription :: "subscription \<Rightarrow> string list \<Rightarrow> uci_line list \<times> string list" where
  "write_subscription r = named_section ''subscription'' ''sub_'' (sb_name r) (subscription_options r)"

definition proxy_provider_options :: "proxy_provider \<Rightarrow> option_group list" where
  "proxy_provider_options r =
     [w_bool ''enabled'' (pp_enabled r),
      w_opt ''type'' (pp_type r),
      w_opt ''url'' (pp_url r),
      w_int ''interval'' (pp_interval r),
      w_opt ''path'' (pp_path r),
      w_bool ''health_check'' (pp_health_check r),
      w_opt ''health_check_url'' (pp_health_check_url r),
      w_int ''health_check_interval'' (pp_health_check_interval r),
      w_opt ''hwid'' (pp_hwid r),
      w_opt ''device_name'' (pp_device_name r),
      w_opt ''user_agent'' (pp_user_agent r),
      w_list ''header'' (pp_headers r),
      w_list ''mirror'' (pp_mirrors r),
      w_nonempty ''pin_sha256'' (pp_pin_sha256 r),
      w_bool ''suppress_hwid'' (pp_suppress_hwid r)]"

definition write_proxy_provider :: "proxy_provider \<Rightarrow> string list \<Rightarrow> uci_line list \<times> string list" where
  "write_proxy_provider r = named_section ''proxy_provider'' ''pp_'' (pp_name r) (proxy_provider_options r)"

definition rule_provider_options :: "rule_provider \<Rightarrow> option_group list" where
  "rule_provider_options r =
     [w_bool ''enabled'' (rp_enabled r),
      w_opt ''behavior'' (rp_behavior r),
      w_opt ''format'' (rp_format r),
      w_opt ''parse_mode'' (rp_parse_mode r),
      w_opt ''url'' (rp_url r),
      w_int ''interval'' (rp_interval r),
      w_opt ''path'' (rp_path r),
      w_opt ''section'' (rp_section r),
      w_opt ''category'' (rp_category r),
      w_opt ''source_kind'' (rp_source_kind r),
      w_opt ''route_action'' (rp_route_action r),
      w_opt ''source_subscription'' (rp_source_subscription r),
      w_opt ''detected_category'' (rp_detected_category r),
      w_bool ''user_overridden_section'' (rp_user_overridden_section r),
      w_bool ''user_overridden_action'' (rp_user_overridden_action r),
      w_opt ''user_agent'' (rp_user_agent r),
      w_list ''header'' (rp_headers r),
      w_list ''mirror'' (rp_mirrors r),
      w_nonempty ''pin_sha256'' (rp_pin_sha256 r),
      w_opt ''last_error'' (rp_last_error r),
      w_opt ''geo_target'' (rp_geo_target r)]"

definition write_rule_provider :: "rule_provider \<Rightarrow> string list \<Rightarrow> uci_line list \<times> string list" where
  "write_rule_provider r = named_section ''rule_provider'' ''rp_'' (rp_name r) (rule_provider_options r)"

definition bypass_options :: "bypass \<Rightarrow> option_group list" where
  "bypass_options r =
     [w_list ''cidr4'' (by_cidr4 r),
      w_list ''cidr6'' (by_cidr6 r),
      w_list ''proxy_server_cidr4'' (by_proxy_server_cidr4 r),
      w_list ''proxy_server_cidr6'' (by_proxy_server_cidr6 r),
      w_list ''source_cidr4'' (by_source_cidr4 r),
      w_list ''source_cidr6'' (by_source_cidr6 r)]"

definition write_bypass :: "bypass \<Rightarrow> uci_line list" where
  "write_bypass r =
     (if by_name r = [] \<and> by_cidr4 r = [] \<and> by_cidr6 r = [] \<and> by_proxy_server_cidr4 r = []
         \<and> by_proxy_server_cidr6 r = [] \<and> by_source_cidr4 r = [] \<and> by_source_cidr6 r = [] then []
      else Header ''bypass'' (Some (by_name r)) # option_lines (bypass_options r) @ [Blank])"

definition mesh_extras_match_code ::
    "(string \<Rightarrow> string) \<Rightarrow> (bytes \<Rightarrow> bytes \<Rightarrow> bytes) \<Rightarrow> string \<Rightarrow> string list \<Rightarrow> bool" where
  "mesh_extras_match_code up mac code extras =
     (if code = [] then extras = []
      else (case decode_code up mac code of Inl _ \<Rightarrow> False | Inr c \<Rightarrow> mc_peers c = extras))"

definition mesh_options ::
    "(string \<Rightarrow> string) \<Rightarrow> (bytes \<Rightarrow> bytes \<Rightarrow> bytes) \<Rightarrow> mesh \<Rightarrow> option_group list" where
  "mesh_options up mac r = (let d = default_mesh in
     [w_bool ''enabled'' (me_enabled r),
      w_opt ''code'' (me_code r),
      w_opt ''hwid'' (me_hwid r),
      w_opt ''node_name'' (me_node_name r),
      w_bool ''exit_enabled'' (me_exit_enabled r),
      w_if (me_exit_filter r \<noteq> me_exit_filter d) (w_opt ''exit_filter'' (me_exit_filter r)),
      w_if (me_exit_exclude_filter r \<noteq> me_exit_exclude_filter d) (w_opt ''exit_exclude_filter'' (me_exit_exclude_filter r)),
      w_if (me_exit_max_mbit r \<noteq> me_exit_max_mbit d) (w_int ''exit_max_mbit'' (me_exit_max_mbit r)),
      w_if (me_overlay_ipv4 r \<noteq> me_overlay_ipv4 d) (w_opt ''overlay_ipv4'' (me_overlay_ipv4 r)),
      w_if (me_listen_port r \<noteq> me_listen_port d) (w_int ''listen_port'' (me_listen_port r)),
      w_if (me_api_mesh_port r \<noteq> me_api_mesh_port d) (w_int ''api_mesh_port'' (me_api_mesh_port r)),
      w_if (me_device_name r \<noteq> me_device_name d) (w_opt ''device_name'' (me_device_name r)),
      w_list ''community_peer'' (me_community_peers r),
      w_if (\<not> mesh_extras_match_code up mac (me_code r) (me_extra_peers r))
        (w_list ''extra_peer'' (me_extra_peers r)),
      w_if (me_easytier_bin r \<noteq> me_easytier_bin d) (w_opt ''easytier_bin'' (me_easytier_bin r)),
      w_if (me_rpc_portal r \<noteq> me_rpc_portal d) (w_opt ''rpc_portal'' (me_rpc_portal r)),
      w_if (me_sync_cron r \<noteq> me_sync_cron d) (w_opt ''sync_cron'' (me_sync_cron r)),
      w_if (me_peer_ttl_days r \<noteq> me_peer_ttl_days d) (w_int ''peer_ttl_days'' (me_peer_ttl_days r))])"

definition write_mesh ::
    "(string \<Rightarrow> string) \<Rightarrow> (bytes \<Rightarrow> bytes \<Rightarrow> bytes) \<Rightarrow> mesh \<Rightarrow> uci_line list" where
  "write_mesh up mac r =
     (if \<not> me_enabled r \<and> me_code r = [] then []
      else Header ''mesh'' (Some ''mesh'') # option_lines (mesh_options up mac r) @ [Blank])"

definition mesh_peer_options :: "mesh_peer \<Rightarrow> option_group list" where
  "mesh_peer_options r =
     [w_opt ''hwid'' (mp_hwid r),
      w_opt ''name'' (mp_name r),
      w_bool ''enabled'' (mp_enabled r),
      w_opt ''overlay_ip'' (mp_overlay_ip r),
      w_if (mp_listen_port r \<noteq> me_listen_port default_mesh) (w_int ''listen_port'' (mp_listen_port r)),
      w_bool ''exit_offered'' (mp_exit_offered r),
      w_nonempty ''last_seen'' (mp_last_seen r),
      w_nonempty ''last_error'' (mp_last_error r)]"

definition write_mesh_peer :: "mesh_peer \<Rightarrow> uci_line list" where
  "write_mesh_peer r = Header ''mesh_peer'' None # option_lines (mesh_peer_options r) @ [Blank]"

definition ooni_options :: "ooni \<Rightarrow> option_group list" where
  "ooni_options r =
     [w_bool ''enabled'' (oo_enabled r),
      w_bool ''upload'' (oo_upload r),
      w_opt ''schedule'' (oo_schedule r),
      w_opt ''proxy'' (oo_proxy r),
      w_opt ''home'' (oo_home r),
      w_opt ''user'' (oo_user r),
      w_list ''wan'' (oo_wans r)]"

definition write_ooni :: "ooni \<Rightarrow> uci_line list" where
  "write_ooni r = Header ''ooni'' (Some ''ooni'') # option_lines (ooni_options r) @ [Blank]"

subsection \<open>The whole file\<close>

fun write_all :: "('a \<Rightarrow> string list \<Rightarrow> uci_line list \<times> string list) \<Rightarrow> 'a list \<Rightarrow> string list
     \<Rightarrow> uci_line list \<times> string list" where
  "write_all f [] seen = ([], seen)"
| "write_all f (x # xs) seen =
     (case f x seen of (ls, seen1) \<Rightarrow> (case write_all f xs seen1 of (ms, seen2) \<Rightarrow> (ls @ ms, seen2)))"

definition reserved_ids :: "config \<Rightarrow> string list" where
  "reserved_ids c = [''settings'', ''dns'', ''mwan3'', ''ooni'', ''bypass'', ''mesh'']
     @ (if by_name (cf_bypass c) \<noteq> [] then [by_name (cf_bypass c)] else [])"

definition config_lines ::
    "(string \<Rightarrow> string) \<Rightarrow> (string \<Rightarrow> string) \<Rightarrow> (bytes \<Rightarrow> bytes \<Rightarrow> bytes) \<Rightarrow> config \<Rightarrow> uci_line list" where
  "config_lines lo up mac c =
     (case write_all write_application (cf_zapret_applications c) (reserved_ids c) of (apps, seen1) \<Rightarrow>
      case write_all write_vpn (cf_vpns c) seen1 of (vpns, seen2) \<Rightarrow>
      case write_all write_section (cf_sections c) seen2 of (sections, seen3) \<Rightarrow>
      case write_all write_subscription (cf_subscriptions c) seen3 of (subs, seen4) \<Rightarrow>
      case write_all write_proxy_provider (cf_proxy_providers c) seen4 of (proxies, seen5) \<Rightarrow>
      case write_all write_rule_provider (cf_rule_providers c) seen5 of (rules, seen6) \<Rightarrow>
        write_main (cf_settings c) @ write_dns (cf_dns c) @ write_mwan3 (cf_mwan3 c) @ apps @ vpns
        @ concat (map (write_device lo) (cf_devices c)) @ sections @ subs @ proxies @ rules
        @ write_bypass (cf_bypass c) @ write_ooni (cf_ooni c) @ write_mesh up mac (cf_mesh c)
        @ concat (map write_mesh_peer (cf_mesh_peers c)))"

definition serialize ::
    "(string \<Rightarrow> string) \<Rightarrow> (string \<Rightarrow> string) \<Rightarrow> (bytes \<Rightarrow> bytes \<Rightarrow> bytes) \<Rightarrow> config \<Rightarrow> bytes" where
  "serialize lo up mac c = concat (map line_text (config_lines lo up mac c))"

end
