(* ===== verification/Uci_Text.thy ===== *)
theory Uci_Text
  imports Uci_Write
begin

section \<open>The text of the configuration file\<close>

text \<open>
  What the reader makes of the lines the writer prints. A value is clean when splitting it at
  white space and joining the parts with blanks gives it back, it holds no single quote and
  has no double quote at an end, and it fits a scanner line.
\<close>

subsection \<open>Words\<close>

lemma head_len_zero: "head_len go_spaces s = 0 \<longleftrightarrow> (\<forall>p \<in> set go_spaces. \<not> has_prefix s p)"
proof (cases "find (has_prefix s) go_spaces")
  case None
  then have "\<forall>p \<in> set go_spaces. \<not> has_prefix s p" by (auto simp: find_None_iff)
  then show ?thesis using None by (simp add: head_len_def)
next
  case (Some p)
  then have "p \<in> set go_spaces" "has_prefix s p" by (auto simp: find_Some_iff)
  moreover have "p \<noteq> []" using go_spaces_heads \<open>p \<in> set go_spaces\<close> by (auto simp: list_all_iff)
  ultimately show ?thesis using Some by (auto simp: head_len_def)
qed

lemma space_tails: "list_all (\<lambda>p. CHR '' '' \<notin> set (tl p) \<and> quote \<notin> set (tl p)) go_spaces"
  by (simp add: go_spaces_def quote_def)

lemma prefix_stays:
  assumes "p \<in> set go_spaces" and "has_prefix (u @ c # s) p" and "u \<noteq> []" and "c = CHR '' '' \<or> c = quote"
  shows "has_prefix u p"
proof -
  obtain t where t: "u @ c # s = p @ t" using assms(2) by (auto simp: has_prefix_iff)
  show ?thesis
  proof (cases "length p \<le> length u")
    case True
    then have "take (length p) u = p" using arg_cong [OF t, of "take (length p)"] by simp
    then show ?thesis by (simp add: has_prefix_def)
  next
    case False
    then have "p ! length u = c" using arg_cong [OF t, of "\<lambda>x. x ! length u"] by (simp add: nth_append)
    moreover have "p \<noteq> []" using False by auto
    ultimately have "c \<in> set (tl p)"
      using False assms(3) nth_mem [of "length u - 1" "tl p"] by (cases p; cases "length u") auto
    then show ?thesis using assms(1,4) space_tails by (auto simp: list_all_iff)
  qed
qed

lemma head_len_before:
  assumes "u \<noteq> []" and "head_len go_spaces u = 0" and "c = CHR '' '' \<or> c = quote"
  shows "head_len go_spaces (u @ c # s) = 0"
  using assms prefix_stays unfolding head_len_zero by blast

lemma head_len_part: "head_len go_spaces (u @ s) = 0 \<Longrightarrow> head_len go_spaces u = 0"
  unfolding head_len_zero has_prefix_iff by force

lemma head_len_quote [simp]: "head_len go_spaces (quote # s) = 0"
  by (rule head_len_solid) (simp_all add: quote_def solid_def)

lemma head_len_blank [simp]: "head_len go_spaces (CHR '' '' # s) = 1"
  by (simp add: head_len_def go_spaces_def)

definition no_space :: "string \<Rightarrow> bool" where
  "no_space w \<longleftrightarrow> (\<forall>i < length w. head_len go_spaces (drop i w) = 0)"

definition word :: "string \<Rightarrow> bool" where
  "word w \<longleftrightarrow> w \<noteq> [] \<and> no_space w"

lemma no_space_Cons: "no_space (c # w) \<longleftrightarrow> head_len go_spaces (c # w) = 0 \<and> no_space w"
  unfolding no_space_def
  by (metis (no_types, lifting) Suc_less_eq drop0 drop_Suc_Cons length_Cons not0_implies_Suc zero_less_Suc)

lemma no_space_Nil [simp]: "no_space []"
  by (simp add: no_space_def)

lemma no_space_snoc:
  assumes "no_space w" and "c = quote"
  shows "no_space (w @ [c])"
  using assms
proof (induction w)
  case (Cons x w)
  then show ?case
    using head_len_before [of "x # w" c "[]"] by (simp add: no_space_Cons)
qed (simp add: no_space_Cons)

lemma word_quote_front: "word w \<or> w = [] \<Longrightarrow> word (quote # w)"
  by (auto simp: word_def no_space_Cons)

lemma word_quote_back: "word w \<Longrightarrow> word (w @ [quote])"
  by (auto simp: word_def no_space_snoc)

lemma word_solid: "w \<noteq> [] \<Longrightarrow> list_all solid w \<Longrightarrow> word w"
proof -
  have "list_all solid w \<Longrightarrow> no_space w"
    by (induction w) (auto simp: no_space_Cons intro!: head_len_solid)
  then show "w \<noteq> [] \<Longrightarrow> list_all solid w \<Longrightarrow> word w" by (simp add: word_def)
qed

lemma fields_from_words:
  assumes "\<forall>i < length acc. head_len go_spaces (drop i acc @ s) = 0"
  shows "\<forall>w \<in> set (fields_from acc s). word w"
  using assms
proof (induction acc s rule: fields_from.induct)
  case (1 acc s)
  have acc: "acc \<noteq> [] \<Longrightarrow> word acc"
    using 1(3) head_len_part unfolding word_def no_space_def by blast
  consider (stop) "s = []" | (step) "s \<noteq> []" "head_len go_spaces s = 0"
    | (gap) "s \<noteq> []" "head_len go_spaces s \<noteq> 0" by blast
  then show ?case
  proof cases
    case stop
    then show ?thesis using acc by (simp add: fields_from.simps [of acc "[]"])
  next
    case step
    have "head_len go_spaces (drop i (acc @ [hd s]) @ tl s) = 0" if "i < length (acc @ [hd s])" for i
    proof (cases "i < length acc")
      case True
      then show ?thesis using 1(3) step(1) by simp
    next
      case False
      then have "i = length acc" using that by simp
      then show ?thesis using step by simp
    qed
    then show ?thesis using 1(1) [OF step] step by (simp add: fields_from.simps [of acc s])
  next
    case gap
    then show ?thesis using 1(2) [OF gap] acc by (simp add: fields_from.simps [of acc s])
  qed
qed

lemma str_fields_words: "w \<in> set (str_fields s) \<Longrightarrow> word w"
  using fields_from_words [of "[]" s] by (auto simp: str_fields_def)

lemma fields_from_word:
  "no_space u \<Longrightarrow> fields_from acc u = (if acc @ u = [] then [] else [acc @ u])"
proof (induction u arbitrary: acc)
  case (Cons c u)
  then show ?case by (simp add: fields_from.simps [of acc "c # u"] no_space_Cons)
qed (simp add: fields_from.simps)

lemma fields_from_word_blank:
  "no_space u \<Longrightarrow>
     fields_from acc (u @ CHR '' '' # s) = (if acc @ u = [] then [] else [acc @ u]) @ str_fields s"
proof (induction u arbitrary: acc)
  case (Cons c u)
  have "head_len go_spaces (c # u @ CHR '' '' # s) = 0"
    using head_len_before [of "c # u" "CHR '' ''" s] Cons.prems by (simp add: no_space_Cons)
  then show ?case
    using Cons by (simp add: fields_from.simps [of acc "c # u @ CHR '' '' # s"] no_space_Cons)
qed (simp add: fields_from.simps [of _ "CHR '' '' # s"] str_fields_def)

lemma str_fields_word [simp]: "word w \<Longrightarrow> str_fields w = [w]"
  by (simp add: str_fields_def word_def fields_from_word)

lemma str_fields_word_blank: "word w \<Longrightarrow> str_fields (w @ CHR '' '' # s) = w # str_fields s"
  by (simp add: str_fields_def [of "w @ CHR '' '' # s"] word_def fields_from_word_blank)

lemma str_fields_join: "\<forall>w \<in> set ws. word w \<Longrightarrow> str_fields (join '' '' ws) = ws"
proof (induction ws rule: induct_list012)
  case 1
  then show ?case by (simp add: str_fields_def fields_from.simps)
next
  case (3 v w ws)
  then show ?case using str_fields_word_blank [of v "join '' '' (w # ws)"] by simp
qed simp

lemma join_Cons_char: "join sep ((c # x) # xs) = c # join sep (x # xs)"
  by (cases xs) auto

lemma join_snoc_char: "xs \<noteq> [] \<Longrightarrow> join sep (butlast xs @ [last xs @ t]) = join sep xs @ t"
proof (induction xs rule: induct_list012)
  case (3 x y zs)
  have "join sep (x # butlast (y # zs) @ [last (y # zs) @ t])
      = x @ sep @ join sep (butlast (y # zs) @ [last (y # zs) @ t])"
    by (cases "butlast (y # zs)") auto
  then show ?case using 3 by simp
qed auto

subsection \<open>Clean values\<close>

definition clean_value :: "string \<Rightarrow> bool" where
  "clean_value v \<longleftrightarrow>
     join '' '' (str_fields v) = v \<and> quote \<notin> set v \<and> length v < 65000
     \<and> (v \<noteq> [] \<longrightarrow> hd v \<noteq> dquote \<and> last v \<noteq> dquote)"

lemma quoted_clean: "quote \<notin> set v \<Longrightarrow> quoted v = quote # v @ [quote]"
proof -
  assume "quote \<notin> set v"
  then have "concat (map (\<lambda>c. if c = quote then [quote, CHR 0x5C, quote, quote] else [c]) v) = v"
    by (induction v) auto
  then show ?thesis by (simp add: quoted_def)
qed

lemma quoted_fields:
  assumes "clean_value v"
  shows "join '' '' (str_fields (quoted v)) = quoted v" and "str_fields (quoted v) \<noteq> []"
proof -
  let ?ws = "str_fields v"
  have q: "quoted v = quote # v @ [quote]" using assms by (simp add: clean_value_def quoted_clean)
  have v: "join '' '' ?ws = v" using assms by (simp add: clean_value_def)
  have words: "word w" if "w \<in> set ?ws" for w using str_fields_words that .
  have "\<exists>us. us \<noteq> [] \<and> (\<forall>w \<in> set us. word w) \<and> join '' '' us = quoted v"
  proof (cases ?ws)
    case Nil
    then have "v = []" using v by simp
    moreover have "word [quote, quote]" by (simp add: word_def no_space_Cons)
    ultimately show ?thesis using q by (intro exI [of _ "[[quote, quote]]"]) simp
  next
    case (Cons w ws)
    let ?us = "(quote # w) # ws"
    let ?vs = "butlast ?us @ [last ?us @ [quote]]"
    have us: "\<forall>u \<in> set ?us. word u" using words Cons word_quote_front by auto
    then have last: "word (last ?us @ [quote])" using word_quote_back last_in_set [of ?us] by blast
    have "word u" if "u \<in> set ?vs" for u
      using that us last in_set_butlastD [of u ?us] unfolding set_append by auto
    moreover have "join '' '' ?vs = quoted v"
      unfolding join_snoc_char [OF list.distinct(2)] join_Cons_char using v Cons q by simp
    ultimately show ?thesis by (intro exI [of _ ?vs]) simp
  qed
  then show "join '' '' (str_fields (quoted v)) = quoted v" "str_fields (quoted v) \<noteq> []"
    using str_fields_join by metis+
qed

lemma trim_char_wrapped:
  assumes "c \<notin> set v"
  shows "trim_char c (c # v @ [c]) = v"
proof (cases v)
  case (Cons x xs)
  have "dropWhile (\<lambda>y. y = c) (rev v) = rev v"
    using assms by (cases "rev v") (auto simp flip: set_rev [of v])
  moreover have "dropWhile (\<lambda>y. y = c) (c # v @ [c]) = v @ [c]" using assms Cons by auto
  ultimately show ?thesis by (simp only: trim_char_def rev_append rev.simps append.simps) simp
qed (simp add: trim_char_def)

lemma trim_char_ends:
  assumes "v \<noteq> [] \<longrightarrow> hd v \<noteq> c \<and> last v \<noteq> c"
  shows "trim_char c v = v"
proof (cases v)
  case (Cons x xs)
  have "dropWhile (\<lambda>y. y = c) (rev v) = rev v"
    using assms Cons by (cases "rev v") (auto simp: hd_rev [symmetric])
  then show ?thesis using assms Cons by (simp add: trim_char_def)
qed (simp add: trim_char_def)

lemma unq_quoted:
  assumes "clean_value v"
  shows "unq (quoted v) = v"
proof -
  have "solid_ends (quote # v @ [quote])" by (simp add: solid_ends_def quote_def solid_def)
  then show ?thesis
    using assms by (simp add: unq_def quoted_clean clean_value_def trim_char_wrapped trim_char_ends)
qed

definition plain_key :: "string \<Rightarrow> bool" where
  "plain_key k \<longleftrightarrow> k \<noteq> [] \<and> length k < 100 \<and> list_all (\<lambda>c. alnum c \<or> c = CHR ''_'') k"

lemma alnum_solid: "alnum c \<or> c = CHR ''_'' \<Longrightarrow> solid c \<and> c \<noteq> quote \<and> c \<noteq> dquote \<and> c \<noteq> newline \<and> c \<noteq> return"
  by (auto simp: alnum_def solid_def quote_def dquote_def newline_def return_def Let_def)

lemma plain_key_solid: "plain_key k \<Longrightarrow> list_all solid k"
  using alnum_solid by (auto simp: plain_key_def list_all_iff)

lemma plain_key_word: "plain_key k \<Longrightarrow> word k"
  using plain_key_solid word_solid by (auto simp: plain_key_def)

lemma unq_key:
  assumes "plain_key k"
  shows "unq k = k"
proof -
  have k: "k \<noteq> []" "\<forall>c \<in> set k. solid c \<and> c \<noteq> quote \<and> c \<noteq> dquote"
    using assms alnum_solid by (auto simp: plain_key_def list_all_iff)
  then have "solid_ends k" by (simp add: solid_ends_def)
  then show ?thesis using k by (simp add: unq_def trim_char_ends)
qed

lemma word_no_newline: "word w \<Longrightarrow> newline \<notin> set w"
proof
  assume w: "word w" and "newline \<in> set w"
  then obtain i where i: "i < length w" "w ! i = newline" by (auto simp: in_set_conv_nth)
  then have "drop i w = newline # drop (Suc i) w" using Cons_nth_drop_Suc by metis
  then have "has_prefix (drop i w) [CHR 0x09] \<or> has_prefix (drop i w) [CHR 0x0A]"
    by (simp add: newline_def)
  moreover have "[CHR 0x0A] \<in> set go_spaces" "[CHR 0x09] \<in> set go_spaces" by (simp_all add: go_spaces_def)
  ultimately have "head_len go_spaces (drop i w) \<noteq> 0" unfolding head_len_zero by blast
  then show False using w i by (auto simp: word_def no_space_def)
qed

lemma clean_no_newline: "clean_value v \<Longrightarrow> newline \<notin> set v"
proof -
  assume v: "clean_value v"
  have "newline \<notin> set (join '' '' ws)" if "\<forall>w \<in> set ws. word w" for ws
    using that word_no_newline
    by (induction ws rule: induct_list012) (auto simp: newline_def)
  then show ?thesis using v str_fields_words unfolding clean_value_def by metis
qed

end
