(* ===== verification/Uci_Lines.thy ===== *)
theory Uci_Lines
  imports Uci_Text
begin

subsection \<open>Scanning written lines\<close>

text \<open>
  The scanner of the reader gives back the lines of the writer, and each line is read as the
  directive it was printed from, provided its values are clean.
\<close>

fun line_body :: "uci_line \<Rightarrow> string" where
  "line_body (Header ty None) = ''config '' @ ty"
| "line_body (Header ty (Some ident)) = ''config '' @ ty @ '' '' @ quoted ident"
| "line_body (Option_line k v) = ''    option '' @ k @ '' '' @ quoted v"
| "line_body (List_line k v) = ''    list '' @ k @ '' '' @ quoted v"
| "line_body Blank = []"

lemma line_text_body: "line_text l = line_body l @ [newline]"
  by (cases l rule: line_text.cases) auto

fun clean_line :: "uci_line \<Rightarrow> bool" where
  "clean_line (Header ty None) \<longleftrightarrow> plain_key ty"
| "clean_line (Header ty (Some ident)) \<longleftrightarrow> plain_key ty \<and> clean_value ident \<and> no_space ident"
| "clean_line (Option_line k v) \<longleftrightarrow> plain_key k \<and> clean_value v"
| "clean_line (List_line k v) \<longleftrightarrow> plain_key k \<and> clean_value v"
| "clean_line Blank \<longleftrightarrow> True"

fun line_step :: "uci_line \<Rightarrow> uci_scan \<Rightarrow> uci_scan" where
  "line_step (Header ty ident) st =
     st \<lparr>un_line := un_line st + 1, un_sections := flush_section st,
        un_cur := \<lparr>us_type = ty, us_name = (case ident of None \<Rightarrow> [] | Some i \<Rightarrow> i),
                   us_opts = Some Map.empty\<rparr>\<rparr>"
| "line_step (Option_line k v) st =
     st \<lparr>un_line := un_line st + 1,
        un_cur := (un_cur st) \<lparr>us_opts := map_option (add_option False k v) (us_opts (un_cur st))\<rparr>\<rparr>"
| "line_step (List_line k v) st =
     st \<lparr>un_line := un_line st + 1,
        un_cur := (un_cur st) \<lparr>us_opts := map_option (add_option True k v) (us_opts (un_cur st))\<rparr>\<rparr>"
| "line_step Blank st = st \<lparr>un_line := un_line st + 1\<rparr>"

fun needs_section :: "uci_line \<Rightarrow> bool" where
  "needs_section (Option_line k v) \<longleftrightarrow> True"
| "needs_section (List_line k v) \<longleftrightarrow> True"
| "needs_section l \<longleftrightarrow> False"

lemma quoted_ends:
  assumes "clean_value v"
  shows "quoted v \<noteq> []" and "last (quoted v) = quote"
  using assms by (simp_all add: clean_value_def quoted_clean)

lemma solid_quote [simp]: "solid quote"
  by (simp add: solid_def quote_def)

lemma trim_space_indent:
  assumes "solid_ends s"
  shows "trim_space (''    '' @ s) = s"
proof -
  have "trim_left (CHR '' '' # t) = trim_left t" for t
    by (simp add: trim_left_def strip_heads.simps [of go_spaces "CHR '' '' # t"])
  then show ?thesis using assms trim_space_solid [OF assms] by (simp add: trim_space_def)
qed

lemma option_fields:
  assumes "plain_key d" and "plain_key k" and "clean_value v"
  shows "str_fields (d @ '' '' @ k @ '' '' @ quoted v) = d # k # str_fields (quoted v)"
    and "solid_ends (d @ '' '' @ k @ '' '' @ quoted v)"
proof -
  show "str_fields (d @ '' '' @ k @ '' '' @ quoted v) = d # k # str_fields (quoted v)"
    using assms by (simp add: str_fields_word_blank plain_key_word)
  have "d \<noteq> []" "solid (hd d)" using assms(1) plain_key_solid by (auto simp: plain_key_def list_all_iff)
  then show "solid_ends (d @ '' '' @ k @ '' '' @ quoted v)"
    using quoted_ends [OF assms(3)] by (simp add: solid_ends_def)
qed

lemma scan_option_line:
  assumes "plain_key k" and "clean_value v" and "us_opts (un_cur st) = Some q"
  shows "scan_line st (''    option '' @ k @ '' '' @ quoted v) = line_step (Option_line k v) st"
    and "scan_line st (''    list '' @ k @ '' '' @ quoted v) = line_step (List_line k v) st"
proof -
  have keys: "plain_key ''option''" "plain_key ''list''" by (simp_all add: plain_key_def alnum_def)
  let ?o = "''option'' @ '' '' @ k @ '' '' @ quoted v" and ?l = "''list'' @ '' '' @ k @ '' '' @ quoted v"
  note fo = option_fields [OF keys(1) assms(1,2)] and fl = option_fields [OF keys(2) assms(1,2)]
  have trims: "trim_space (''    '' @ ?o) = ?o" "trim_space (''    '' @ ?l) = ?l"
    using trim_space_indent fo(2) fl(2) by blast+
  have val: "unq (join '' '' (str_fields (quoted v))) = v" and len: "str_fields (quoted v) \<noteq> []"
    using quoted_fields [OF assms(2)] unq_quoted [OF assms(2)] by simp_all
  have form: "''    option '' @ k @ '' '' @ quoted v = ''    '' @ ?o"
    "''    list '' @ k @ '' '' @ quoted v = ''    '' @ ?l" by simp_all
  have long: "length (str_fields (quoted v)) \<noteq> 0" using len by simp
  have opt: "\<not> (?o = [] \<or> has_prefix ?o ''#'')" "\<not> (?l = [] \<or> has_prefix ?l ''#'')" by simp_all
  show "scan_line st (''    option '' @ k @ '' '' @ quoted v) = line_step (Option_line k v) st"
    unfolding form scan_line_def Let_def trims fo(1)
    using opt long val assms(1,3) len by (simp add: scan_directive_def unq_key)
  show "scan_line st (''    list '' @ k @ '' '' @ quoted v) = line_step (List_line k v) st"
    unfolding form scan_line_def Let_def trims fl(1)
    using opt long val assms(1,3) len by (simp add: scan_directive_def unq_key)
qed

lemma scan_header:
  assumes "plain_key ty"
  shows "scan_line st (''config '' @ ty) = line_step (Header ty None) st"
    and "clean_value i \<Longrightarrow> no_space i \<Longrightarrow>
      scan_line st (''config '' @ ty @ '' '' @ quoted i) = line_step (Header ty (Some i)) st"
proof -
  have key: "plain_key ''config''" by (simp add: plain_key_def alnum_def)
  have ty: "ty \<noteq> []" "solid (last ty)"
    using assms plain_key_solid by (auto simp: plain_key_def list_all_iff)
  then have "solid_ends (''config '' @ ty)" by (simp add: solid_ends_def solid_def)
  moreover have "str_fields (''config'' @ CHR '' '' # ty) = [''config'', ty]"
    using str_fields_word_blank [OF plain_key_word [OF key], of ty]
      str_fields_word [OF plain_key_word [OF assms]] by simp
  ultimately show "scan_line st (''config '' @ ty) = line_step (Header ty None) st"
    using assms ty by (simp add: scan_line_def scan_directive_def unq_key flush_section_def)
  assume i: "clean_value i" "no_space i"
  have "word (quoted i)"
    using i by (auto simp: quoted_clean clean_value_def word_def no_space_Cons intro: no_space_snoc)
  then have fs: "str_fields (''config'' @ '' '' @ ty @ '' '' @ quoted i) = [''config'', ty, quoted i]"
    using option_fields(1) [OF key assms i(1)] by simp
  have "trim_space (''config'' @ '' '' @ ty @ '' '' @ quoted i) = ''config'' @ '' '' @ ty @ '' '' @ quoted i"
    using option_fields(2) [OF key assms i(1)] by (rule trim_space_solid)
  moreover have "''config '' @ ty @ '' '' @ quoted i = ''config'' @ '' '' @ ty @ '' '' @ quoted i" by simp
  ultimately show "scan_line st (''config '' @ ty @ '' '' @ quoted i) = line_step (Header ty (Some i)) st"
    unfolding scan_line_def Let_def using fs assms
    by (simp add: scan_directive_def unq_key unq_quoted i(1) flush_section_def)
qed

lemma scan_clean_line:
  assumes "clean_line l" and "needs_section l \<longrightarrow> us_opts (un_cur st) \<noteq> None"
  shows "scan_line st (line_body l) = line_step l st"
proof (cases l rule: line_body.cases)
  case 5
  then show ?thesis by (simp add: scan_line_def)
qed (use assms scan_header scan_option_line in auto)

text \<open>Every line ends the line before it and fits the scanner.\<close>

lemma body_fits:
  assumes "clean_line l"
  shows "newline \<notin> set (line_body l)" and "length (line_body l) < 65536" and "drop_cr (line_body l) = line_body l"
proof -
  have key: "plain_key k \<Longrightarrow> newline \<notin> set k \<and> length k < 100 \<and> k \<noteq> [] \<and> last k \<noteq> return" for k
  proof -
    assume k: "plain_key k"
    then have "c \<noteq> newline \<and> c \<noteq> return" if "c \<in> set k" for c
      using that alnum_solid by (auto simp: plain_key_def list_all_iff)
    moreover have "k \<noteq> []" "length k < 100" using k by (simp_all add: plain_key_def)
    ultimately show ?thesis using last_in_set [of k] by blast
  qed
  have val: "clean_value v \<Longrightarrow> newline \<notin> set (quoted v) \<and> length (quoted v) < 65002 \<and> quoted v \<noteq> []
      \<and> last (quoted v) \<noteq> return" for v
    using clean_no_newline [of v]
    by (simp add: clean_value_def quoted_clean newline_def return_def quote_def)
  have ends: "drop_cr (xs @ ys) = xs @ ys" if "ys \<noteq> []" "last ys \<noteq> return" for xs ys
    using that by (simp add: drop_cr_def)
  have blank: "newline \<notin> set ''config ''" "newline \<notin> set ''    option ''" "newline \<notin> set ''    list ''" "newline \<noteq> CHR '' ''"
    by (simp_all add: newline_def)
  have "newline \<notin> set (line_body l) \<and> length (line_body l) < 65536 \<and> drop_cr (line_body l) = line_body l"
  proof (cases l rule: line_body.cases)
    case (1 ty)
    then show ?thesis using key [of ty] assms ends [of ty "''config ''"] blank by simp
  next
    case (2 ty i)
    then show ?thesis
      using key [of ty] val [of i] assms ends [of "quoted i" "''config '' @ ty @ '' ''"] blank by simp
  next
    case (3 k v)
    then show ?thesis
      using key [of k] val [of v] assms ends [of "quoted v" "''    option '' @ k @ '' ''"] blank by simp
  next
    case (4 k v)
    then show ?thesis
      using key [of k] val [of v] assms ends [of "quoted v" "''    list '' @ k @ '' ''"] blank by simp
  next
    case 5
    then show ?thesis by (simp add: drop_cr_def)
  qed
  then show "newline \<notin> set (line_body l)" "length (line_body l) < 65536" "drop_cr (line_body l) = line_body l"
    by blast+
qed

lemma scan_written_lines:
  assumes "list_all clean_line ls"
  shows "scan_lines (concat (map line_text ls)) = (map line_body ls, False)"
  using assms
proof (induction ls)
  case (Cons l ls)
  have "scan_lines (line_body l @ newline # concat (map line_text ls)) = (map line_body (l # ls), False)"
    using scan_lines_line [of "line_body l" "concat (map line_text ls)"] body_fits [of l] Cons by simp
  then show ?case by (simp add: line_text_body [of l])
qed simp

subsection \<open>Blocks\<close>

text \<open>A written section: its type, its id and the lines of its options.\<close>

type_synonym block = "string \<times> string option \<times> uci_line list"

definition block_lines :: "block \<Rightarrow> uci_line list" where
  "block_lines b = (case b of (ty, ident, body) \<Rightarrow> Header ty ident # body @ [Blank])"

definition option_step :: "options \<Rightarrow> uci_line \<Rightarrow> options" where
  "option_step q l =
     (case l of Option_line k v \<Rightarrow> add_option False k v q | List_line k v \<Rightarrow> add_option True k v q | _ \<Rightarrow> q)"

definition opts_of :: "uci_line list \<Rightarrow> options" where
  "opts_of ls = foldl option_step Map.empty ls"

definition block_section :: "block \<Rightarrow> uci_section" where
  "block_section b = (case b of (ty, ident, body) \<Rightarrow>
     \<lparr>us_type = ty, us_name = (case ident of None \<Rightarrow> [] | Some i \<Rightarrow> i), us_opts = Some (opts_of body)\<rparr>)"

definition good_block :: "block \<Rightarrow> bool" where
  "good_block b \<longleftrightarrow> list_all clean_line (block_lines b) \<and> list_all needs_section (snd (snd b))"

lemma scan_body:
  assumes "list_all clean_line body" and "list_all needs_section body" and "us_opts (un_cur st) = Some q"
  shows "\<exists>n. foldl scan_line st (map line_body body)
    = st \<lparr>un_line := n, un_cur := (un_cur st) \<lparr>us_opts := Some (foldl option_step q body)\<rparr>\<rparr>"
  using assms
proof (induction body arbitrary: st q)
  case Nil
  then show ?case by (intro exI [of _ "un_line st"]) simp
next
  case (Cons l body)
  let ?st = "line_step l st"
  have "scan_line st (line_body l) = ?st" using Cons.prems by (intro scan_clean_line) auto
  moreover have st: "?st = st \<lparr>un_line := un_line st + 1,
      un_cur := (un_cur st) \<lparr>us_opts := Some (option_step q l)\<rparr>\<rparr>"
    using Cons.prems by (cases l) (auto simp: option_step_def)
  moreover obtain n where "foldl scan_line ?st (map line_body body)
      = ?st \<lparr>un_line := n, un_cur := (un_cur ?st) \<lparr>us_opts := Some (foldl option_step (option_step q l) body)\<rparr>\<rparr>"
    using Cons.IH [of ?st "option_step q l"] Cons.prems st by auto
  ultimately show ?case by (intro exI [of _ n]) simp
qed

lemma scan_block:
  assumes "good_block b" and "fst b \<noteq> []"
  shows "\<exists>n. foldl scan_line st (map line_body (block_lines b))
    = st \<lparr>un_line := n, un_sections := flush_section st, un_cur := block_section b\<rparr>"
proof -
  obtain ty ident body where b: "b = (ty, ident, body)" by (metis prod_cases3)
  let ?st = "line_step (Header ty ident) st"
  have clean: "clean_line (Header ty ident)" "list_all clean_line body" "list_all needs_section body"
    using assms by (simp_all add: good_block_def block_lines_def b)
  have "scan_line st (line_body (Header ty ident)) = ?st"
    using scan_clean_line [of "Header ty ident"] clean(1) by simp
  moreover obtain n where "foldl scan_line ?st (map line_body body)
      = ?st \<lparr>un_line := n, un_cur := (un_cur ?st) \<lparr>us_opts := Some (opts_of body)\<rparr>\<rparr>"
    using scan_body [of body ?st Map.empty] clean by (auto simp: opts_of_def)
  ultimately show ?thesis
    using scan_clean_line [of Blank]
    by (intro exI [of _ "n + 1"]) (simp add: b block_lines_def block_section_def)
qed

lemma scan_blocks:
  assumes "list_all good_block bs" and "list_all (\<lambda>b. fst b \<noteq> []) bs"
  shows "flush_section (foldl scan_line st (map line_body (concat (map block_lines bs))))
    = flush_section st @ map block_section bs"
  using assms
proof (induction bs arbitrary: st)
  case (Cons b bs)
  obtain n where "foldl scan_line st (map line_body (block_lines b))
    = st \<lparr>un_line := n, un_sections := flush_section st, un_cur := block_section b\<rparr>" (is "_ = ?st")
    using scan_block [of b st] Cons.prems by auto
  moreover have "flush_section ?st = flush_section st @ [block_section b]"
    using Cons.prems(2) by (simp add: flush_section_def block_section_def split_beta)
  ultimately show ?case using Cons by simp
qed simp

theorem uci_text_sections:
  assumes "list_all good_block bs"
  shows "fst (uci_sections (fst (scan_lines (concat (map line_text (concat (map block_lines bs)))))))
      = map block_section bs"
    and "snd (scan_lines (concat (map line_text (concat (map block_lines bs))))) = False"
proof -
  have clean: "list_all clean_line (concat (map block_lines bs))"
    using assms by (auto simp: list_all_iff good_block_def)
  have "list_all (\<lambda>b. fst b \<noteq> []) bs"
  proof -
    have "fst b \<noteq> []" if "good_block b" for b
      using that by (cases b rule: prod_cases3; cases "fst (snd b)")
        (auto simp: good_block_def block_lines_def plain_key_def)
    then show ?thesis using assms by (auto simp: list_all_iff)
  qed
  then show "fst (uci_sections (fst (scan_lines (concat (map line_text (concat (map block_lines bs)))))))
      = map block_section bs"
    using scan_blocks [OF assms, of start_scan]
    by (simp add: scan_written_lines [OF clean] uci_sections_def flush_section_def start_scan_def
        no_section_def)
  show "snd (scan_lines (concat (map line_text (concat (map block_lines bs))))) = False"
    by (simp add: scan_written_lines [OF clean])
qed

end
