(* ===== verification/Uci_Settings.thy ===== *)
theory Uci_Settings
  imports Uci_Lines
begin

section \<open>Reading back a written configuration\<close>

text \<open>
  Each section that is written is read back as the record it was written from; together, a
  configuration that is written and loaded is the one the program had, up to what the file
  does not hold.
\<close>

subsection \<open>One option among the written ones\<close>

fun step_at :: "string \<Rightarrow> string list option \<Rightarrow> uci_line \<Rightarrow> string list option" where
  "step_at k a (Option_line k' v) = (if k' = k then Some [v] else a)"
| "step_at k a (List_line k' v) =
     (if k' = k then Some ((case a of None \<Rightarrow> [] | Some vs \<Rightarrow> vs) @ [v]) else a)"
| "step_at k a l = a"

lemma opts_at: "opts_of ls k = foldl (step_at k) None ls"
proof -
  have "foldl option_step q ls k = foldl (step_at k) (q k) ls" for q
  proof (induction ls arbitrary: q)
    case (Cons l ls)
    have "option_step q l k = step_at k (q k) l"
      by (cases l) (auto simp: option_step_def add_option_def)
    then show ?case using Cons by simp
  qed simp
  then show ?thesis by (simp add: opts_of_def)
qed

fun line_key :: "uci_line \<Rightarrow> string option" where
  "line_key (Option_line k v) = Some k"
| "line_key (List_line k v) = Some k"
| "line_key l = None"

definition keyed :: "option_group \<Rightarrow> bool" where
  "keyed g \<longleftrightarrow> list_all (\<lambda>l. line_key l = Some (fst g)) (snd g)"

text \<open>The groups a writer emits: one per key.\<close>

definition table :: "option_group list \<Rightarrow> bool" where
  "table t \<longleftrightarrow> distinct (map fst t) \<and> list_all keyed t"

lemma keyed_groups [simp]:
  "keyed (w_opt k v)" "keyed (w_bool k b)" "keyed (w_int k i)" "keyed (w_nonempty k v)"
  "keyed (w_list k vs)" "keyed (w_dns_list k vs)" "keyed g \<Longrightarrow> keyed (w_if c g)"
  by (auto simp: keyed_def w_opt_def w_bool_def w_int_def w_nonempty_def w_list_def w_dns_list_def
      w_if_def list_all_iff)

lemma group_keys [simp]:
  "fst (w_opt k v) = k" "fst (w_bool k b) = k" "fst (w_int k i) = k" "fst (w_nonempty k v) = k"
  "fst (w_list k vs) = k" "fst (w_dns_list k vs) = k" "fst (w_if c g) = fst g"
  by (simp_all add: w_opt_def w_bool_def w_int_def w_nonempty_def w_list_def w_dns_list_def w_if_def)

lemma step_other: "list_all (\<lambda>l. line_key l \<noteq> Some k) ls \<Longrightarrow> foldl (step_at k) a ls = a"
proof (induction ls arbitrary: a)
  case (Cons l ls)
  then show ?case by (cases l) auto
qed simp

lemma keyed_other: "keyed g \<Longrightarrow> fst g \<noteq> k \<Longrightarrow> foldl (step_at k) a (snd g) = a"
  by (rule step_other) (auto simp: keyed_def list_all_iff)

lemma table_other: "list_all keyed t \<Longrightarrow> k \<notin> fst ` set t \<Longrightarrow> foldl (step_at k) a (option_lines t) = a"
proof (induction t arbitrary: a)
  case (Cons g t)
  then show ?case using keyed_other [of g k] by (auto simp: option_lines_def)
qed (simp add: option_lines_def)

lemma opts_of_row:
  assumes "table t" and "g \<in> set t"
  shows "opts_of (option_lines t) (fst g) = foldl (step_at (fst g)) None (snd g)"
proof -
  obtain xs ys where t: "t = xs @ g # ys" using split_list assms(2) by metis
  have "list_all keyed xs" "list_all keyed ys" "fst g \<notin> fst ` set xs" "fst g \<notin> fst ` set ys"
    using assms(1) by (auto simp: table_def t)
  then have "foldl (step_at (fst g)) a (option_lines xs) = a" "foldl (step_at (fst g)) a (option_lines ys) = a" for a
    using table_other by blast+
  then show ?thesis by (simp add: opts_at t option_lines_def)
qed

lemma opts_of_absent: "table t \<Longrightarrow> k \<notin> fst ` set t \<Longrightarrow> opts_of (option_lines t) k = None"
  by (simp add: opts_at table_def table_other)

lemma list_steps: "foldl (step_at k) None (map (List_line k) vs) = (if vs = [] then None else Some vs)"
proof -
  have "foldl (step_at k) (Some us) (map (List_line k) ws) = Some (us @ ws)" for us ws
    by (induction ws arbitrary: us) auto
  then show ?thesis by (cases vs) auto
qed

lemma row_values:
  assumes "table t"
  shows "w_opt k v \<in> set t \<Longrightarrow> opts_of (option_lines t) k = Some [v]"
    and "w_nonempty k v \<in> set t \<Longrightarrow> opts_of (option_lines t) k = (if v = [] then None else Some [v])"
    and "w_list k vs \<in> set t \<Longrightarrow> opts_of (option_lines t) k = (if vs = [] then None else Some vs)"
    and "w_dns_list k vs \<in> set t \<Longrightarrow> opts_of (option_lines t) k = Some (if vs = [] then [[]] else vs)"
    and "w_if c (w_opt k v) \<in> set t \<Longrightarrow> opts_of (option_lines t) k = (if c then Some [v] else None)"
    and "w_if c (w_list k vs) \<in> set t \<Longrightarrow>
      opts_of (option_lines t) k = (if c \<and> vs \<noteq> [] then Some vs else None)"
  using opts_of_row [OF assms, of "w_opt k v"] opts_of_row [OF assms, of "w_nonempty k v"]
    opts_of_row [OF assms, of "w_list k vs"] opts_of_row [OF assms, of "w_dns_list k vs"]
    opts_of_row [OF assms, of "w_if c (w_opt k v)"] opts_of_row [OF assms, of "w_if c (w_list k vs)"]
  by (auto simp: w_opt_def w_nonempty_def w_list_def w_dns_list_def w_if_def list_steps)

subsection \<open>Values\<close>

lemma parse_itoa:
  assumes "- (2 ^ 63) \<le> v" and "v < 2 ^ 63"
  shows "parse_int64 (itoa v) = Some v"
proof (cases "v < 0")
  case True
  then show ?thesis
    using assms by (simp add: itoa_def parse_int64_def Let_def digits_val_dec_of)
next
  case False
  then have "nat v < 2 ^ 63" using assms(2) by (simp add: nat_less_iff)
  then show ?thesis using False by (simp add: itoa_def)
qed

definition int64 :: "int \<Rightarrow> bool" where
  "int64 v \<longleftrightarrow> - (2 ^ 63) \<le> v \<and> v < 2 ^ 63"

lemma itoa_nonempty [simp]: "itoa v \<noteq> []"
  by (simp add: itoa_def)

text \<open>What each reader makes of a key that is written: rules for the fields of a section.\<close>

lemma row_one:
  assumes "table t"
  shows "w_opt k v \<in> set t \<Longrightarrow> opt_one (opts_of (option_lines t)) k d = v"
    and "w_nonempty k v \<in> set t \<Longrightarrow> (v = [] \<longrightarrow> d = []) \<Longrightarrow> opt_one (opts_of (option_lines t)) k d = v"
    and "w_if c (w_opt k v) \<in> set t \<Longrightarrow> (\<not> c \<longrightarrow> d = v) \<Longrightarrow> opt_one (opts_of (option_lines t)) k d = v"
  by (auto simp: opt_one_def row_values [OF assms])

lemma row_bool:
  assumes "table t"
  shows "w_bool k x \<in> set t \<Longrightarrow> opt_bool (opts_of (option_lines t)) k d = x"
  using row_values(1) [OF assms, of k "yn x"]
  by (auto simp: opt_bool_def opt_one_def yn_def lower_ascii_def w_bool_def)

lemma row_int:
  assumes "table t"
  shows "w_int k v \<in> set t \<Longrightarrow> int64 v \<Longrightarrow> opt_int (opts_of (option_lines t)) k d = v"
    and "w_if c (w_int k v) \<in> set t \<Longrightarrow> int64 v \<Longrightarrow> (\<not> c \<longrightarrow> d = v) \<Longrightarrow>
      opt_int (opts_of (option_lines t)) k d = v"
  using row_values(1) [OF assms, of k "itoa v"] row_values(5) [OF assms, of c k "itoa v"]
  by (auto simp: opt_int_def opt_one_def parse_itoa int64_def w_int_def)

lemma row_list:
  assumes "table t"
  shows "w_list k vs \<in> set t \<Longrightarrow> (vs = [] \<longrightarrow> d = []) \<Longrightarrow> opt_list (opts_of (option_lines t)) k d = vs"
    and "w_if c (w_list k vs) \<in> set t \<Longrightarrow> (\<not> c \<or> vs = [] \<longrightarrow> d = vs) \<Longrightarrow>
      opt_list (opts_of (option_lines t)) k d = vs"
  using row_values(3) [OF assms, of k vs] row_values(6) [OF assms, of c k vs]
  by (cases vs; auto simp: opt_list_def)+

lemma row_dns_list:
  assumes "table t"
  shows "w_dns_list k vs \<in> set t \<Longrightarrow> \<forall>v \<in> set vs. trim_space v \<noteq> [] \<Longrightarrow>
    dns_list (opts_of (option_lines t)) k d = vs"
  by (auto simp: dns_list_def row_values [OF assms] filter_id_conv)

subsection \<open>The settings\<close>

definition storable_settings :: "settings \<Rightarrow> settings \<Rightarrow> bool" where
  "storable_settings d r \<longleftrightarrow>
     list_all int64
       [st_config_version r, st_apply_backup_max_bytes r, st_net_check_bytes r,
        st_proxy_guard_min_members r, st_proxy_guard_min_down_kbps r, st_proxy_guard_probe_bytes r,
        st_proxy_guard_max_jitter_ms r, st_proxy_guard_active_probe_interval r,
        st_proxy_guard_fleet_probe_interval r, st_proxy_guard_quarantine_seconds r,
        st_update_concurrency r, st_boot_update_delay r, st_update_nice r, st_update_ionice_class r,
        st_update_ionice_level r, st_artifact_cache_max_bytes r, st_artifact_cache_max_entries r,
        st_bootstrap_doh_timeout_ms r, st_bootstrap_tofu_ttl_sec r]
     \<and> st_mihomo_config r \<noteq> [] \<and> st_proxy_guard_cron r \<noteq> [] \<and> st_default_lists_base_url r \<noteq> []
     \<and> st_bootstrap_doh_resolvers r \<noteq> [] \<and> st_lan_source_zones r \<noteq> []"

lemma empty_settings [simp]:
  "st_generated_dir default_settings = []"
  "st_dnsmasq_include_dir default_settings = []"
  "st_net_check_cron default_settings = []"
  "st_log_format default_settings = []"
  "st_notify_url default_settings = []"
  "st_notify_format default_settings = []"
  "st_geo_refresh_geoip_url default_settings = []"
  "st_geo_refresh_geoip_sha default_settings = []"
  "st_geo_refresh_geosite_url default_settings = []"
  "st_geo_refresh_geosite_sha default_settings = []"
  "st_geo_refresh_mmdb_url default_settings = []"
  "st_geo_refresh_mmdb_sha default_settings = []"
  "st_geo_refresh_geoip_dir default_settings = []"
  "st_geo_refresh_cron default_settings = []"
  "st_bootstrap_tofu_path default_settings = []"
  "st_api_listen default_settings = []"
  "st_notify_on default_settings = []"
  "st_ipv6_wan_interfaces default_settings = []"
  by (simp_all add: default_settings_def zero_settings_def)

lemma main_table: "table (main_options r)"
proof -
  have "distinct (map fst (main_options r))"
    unfolding main_options_def list.map group_keys by code_simp
  moreover have "list_all keyed (main_options r)" by (simp add: main_options_def)
  ultimately show ?thesis by (simp add: table_def)
qed

lemma main_rows:
  assumes T: "table t" and "list_all (\<lambda>g. g \<in> set t) (main_options r)"
    and "storable_settings default_settings r"
  shows "apply_main (opts_of (option_lines t)) default_settings = r"
  using assms(2,3) unfolding main_options_def storable_settings_def list.pred_inject
  apply (elim conjE)
  apply (rule trans [OF _ settings.surjective [symmetric]])
  apply (unfold apply_main_def settings.ext_inject)
  apply (intro conjI)
  apply ((rule row_one(1) [OF T] row_bool [OF T] row_int(1) [OF T] row_one(2) [OF T]
        row_list(1) [OF T], assumption,
      (assumption | (rule impI, erule (1) notE) | (rule impI, rule empty_settings))?)+)
  apply (simp (no_asm))
  done

lemma main_round_trip:
  "storable_settings default_settings r \<Longrightarrow>
     apply_main (opts_of (option_lines (main_options r))) default_settings = r"
  by (rule main_rows [OF main_table]) (simp_all add: list_all_iff)

end
