(* ===== verification/Uci_Round.thy ===== *)
theory Uci_Round
  imports Uci_Settings
begin

section \<open>Reading back the other sections\<close>

text \<open>
  One lemma per kind of section: what the reader makes of the options the writer emits. The
  rows of the section are among the groups of a table, so that a \<open>name\<close> option in front of
  them changes nothing.
\<close>

definition rows_in :: "option_group list \<Rightarrow> option_group list \<Rightarrow> bool" where
  "rows_in t gs \<longleftrightarrow> list_all (\<lambda>g. g \<in> set t) gs"

definition storable_dns :: "dns \<Rightarrow> bool" where
  "storable_dns r \<longleftrightarrow>
     dn_doh3_block_ips4 r \<noteq> [] \<and> dn_doh3_block_ips6 r \<noteq> [] \<and> dn_doh_upstreams r \<noteq> []
     \<and> dn_udp_upstreams r \<noteq> []
     \<and> list_all (\<lambda>v. trim_space v \<noteq> []) (dn_fallback_upstreams r @ dn_fallback_domains r)"

lemma dns_rows:
  assumes T: "table t" and "rows_in t (dns_options r)" and "storable_dns r"
  shows "apply_dns (opts_of (option_lines t)) default_dns = r"
  using assms(2,3) unfolding rows_in_def dns_options_def storable_dns_def list.pred_inject
  apply (elim conjE)
  apply (rule trans [OF _ dns.surjective [symmetric]])
  apply (unfold apply_dns_def dns.ext_inject)
  apply (intro conjI)
  apply ((rule row_one(1) [OF T] row_bool [OF T] row_list(1) [OF T] row_dns_list [OF T], assumption,
      ((rule impI, erule (1) notE) | (simp add: default_dns_def zero_dns_def list_all_iff; fail))?)+)
  apply (simp (no_asm))
  done

definition storable_section :: "route_section \<Rightarrow> bool" where
  "storable_section r \<longleftrightarrow>
     int64 (sc_tproxy_port r) \<and> int64 (sc_proxy_health_check_interval r) \<and> int64 (sc_priority r)"

text \<open>What a section keeps: the names of its applications, not yet compiled.\<close>

definition persisted_section :: "route_section \<Rightarrow> route_section" where
  "persisted_section r =
     r \<lparr>sc_zapret_application_names := None,
        sc_zapret_strategies :=
          (case sc_zapret_application_names r of Some ns \<Rightarrow> ns | None \<Rightarrow> sc_zapret_strategies r)\<rparr>"

lemma section_rows_compiled:
  assumes T: "table t" and R: "rows_in t (section_options r)" and S: "storable_section r"
    and N: "id_name (opts_of (option_lines t)) ident ''sec_'' = sc_name r"
    and A: "sc_zapret_application_names r = None"
  shows "read_section up (opts_of (option_lines t)) ident = r"
  using R S unfolding rows_in_def section_options_def storable_section_def list.pred_inject A option.case
  apply (elim conjE)
  apply (rule trans [OF _ route_section.surjective [symmetric]])
  apply (unfold read_section_def Let_def N route_section.ext_inject)
  apply (intro conjI)
  apply ((rule refl A [symmetric] | rule row_one(1) [OF T] row_bool [OF T] row_int(1) [OF T] row_list(1) [OF T], assumption,
      (assumption | (rule impI, rule refl))?)+)
  apply (simp (no_asm))
  done

lemma section_rows:
  assumes "table t" and "rows_in t (section_options r)" and "storable_section r"
    and "id_name (opts_of (option_lines t)) ident ''sec_'' = sc_name r"
  shows "read_section up (opts_of (option_lines t)) ident = persisted_section r"
proof -
  have "section_options (persisted_section r) = section_options r"
    by (simp add: section_options_def persisted_section_def)
  then show ?thesis
    using assms by (intro section_rows_compiled) (simp_all add: storable_section_def persisted_section_def)
qed

lemma subscription_rows:
  assumes T: "table t" and R: "rows_in t (subscription_options r)" and S: "int64 (sb_interval r)"
    and N: "id_name (opts_of (option_lines t)) ident ''sub_'' = sb_name r"
  shows "read_subscription (opts_of (option_lines t)) ident = r"
  using R S unfolding rows_in_def subscription_options_def list.pred_inject
  apply (elim conjE)
  apply (rule trans [OF _ subscription.surjective [symmetric]])
  apply (unfold read_subscription_def Let_def N subscription.ext_inject)
  apply (intro conjI)
  apply ((rule refl | rule row_one(1) [OF T] row_bool [OF T] row_int(1) [OF T] row_one(2) [OF T] row_list(1) [OF T],
      assumption, (assumption | (rule impI, rule refl))?)+)
  apply (simp (no_asm))
  done

lemma proxy_provider_rows:
  assumes T: "table t" and R: "rows_in t (proxy_provider_options r)"
    and S: "int64 (pp_interval r)" "int64 (pp_health_check_interval r)"
    and N: "id_name (opts_of (option_lines t)) ident ''pp_'' = pp_name r"
  shows "read_proxy_provider (opts_of (option_lines t)) ident = r"
  using R S unfolding rows_in_def proxy_provider_options_def list.pred_inject
  apply (elim conjE)
  apply (rule trans [OF _ proxy_provider.surjective [symmetric]])
  apply (unfold read_proxy_provider_def Let_def N proxy_provider.ext_inject)
  apply (intro conjI)
  apply ((rule refl | rule row_one(1) [OF T] row_bool [OF T] row_int(1) [OF T] row_one(2) [OF T] row_list(1) [OF T],
      assumption, (assumption | (rule impI, rule refl))?)+)
  apply (simp (no_asm))
  done

lemma rule_provider_rows:
  assumes T: "table t" and R: "rows_in t (rule_provider_options r)" and S: "int64 (rp_interval r)"
    and N: "id_name (opts_of (option_lines t)) ident ''rp_'' = rp_name r"
  shows "read_rule_provider lo workdir (opts_of (option_lines t)) ident = r"
  using R S unfolding rows_in_def rule_provider_options_def list.pred_inject
  apply (elim conjE)
  apply (rule trans [OF _ rule_provider.surjective [symmetric]])
  apply (unfold read_rule_provider_def Let_def N rule_provider.ext_inject)
  apply (intro conjI)
  apply ((rule refl | rule row_one(1) [OF T] row_bool [OF T] row_int(1) [OF T] row_one(2) [OF T] row_list(1) [OF T],
      assumption, (assumption | (rule impI, rule refl))?)+)
  apply (simp (no_asm))
  done

lemma application_rows:
  assumes T: "table t" and R: "rows_in t (application_options r)"
    and N: "id_name (opts_of (option_lines t)) ident ''zs_'' = ap_name r"
  shows "read_application (opts_of (option_lines t)) ident = r"
  using R N row_bool [OF T, of "''enabled''" "ap_enabled r" True]
    row_list(1) [OF T, of "''assignment''" "ap_assignments r" "[]"]
  by (simp add: rows_in_def application_options_def read_application_def)

lemma vpn_rows:
  assumes T: "table t" and R: "rows_in t (vpn_options r)" and S: "vp_name r \<noteq> []"
    and N: "id_name (opts_of (option_lines t)) ident ''vpn_'' = vp_name r"
  shows "read_vpn (opts_of (option_lines t)) ident = r"
  using R N S row_bool [OF T, of "''enabled''" "vp_enabled r" False]
    row_one(1) [OF T, of "''interface''" "vp_interface r" "''wg0''"]
  by (simp add: rows_in_def vpn_options_def read_vpn_def or_default_def)

text \<open>The writer drops the section of an excluded device.\<close>

definition storable_device :: "(string \<Rightarrow> string) \<Rightarrow> device \<Rightarrow> bool" where
  "storable_device lo r \<longleftrightarrow>
     to_lower lo (trim_space (dv_mac r)) = dv_mac r \<and> (dv_exclude r \<longrightarrow> dv_section r = [])"

lemma device_rows:
  assumes "storable_device lo r"
  shows "read_device lo (opts_of (option_lines (device_options r))) ident = r"
proof -
  have T: "table (device_options r)" by (simp add: table_def device_options_def)
  have one: "opt_one (opts_of (option_lines (device_options r))) ''name'' ident = dv_name r"
    "opt_one (opts_of (option_lines (device_options r))) ''mac'' [] = dv_mac r"
    "opt_bool (opts_of (option_lines (device_options r))) ''enabled'' True = dv_enabled r"
    by (rule row_one(1) [OF T] row_bool [OF T]; simp add: device_options_def)+
  have "opt_one (opts_of (option_lines (device_options r))) ''section'' [] = dv_section r
      \<and> opt_bool (opts_of (option_lines (device_options r))) ''exclude'' False = dv_exclude r"
  proof (cases "dv_exclude r")
    case True
    then have "opts_of (option_lines (device_options r)) ''section'' = None"
      by (intro opts_of_absent [OF T]) (simp add: device_options_def)
    moreover have "opt_bool (opts_of (option_lines (device_options r))) ''exclude'' False = True"
      using True by (intro row_bool [OF T]) (simp add: device_options_def)
    ultimately show ?thesis using True assms by (simp add: opt_one_def storable_device_def)
  next
    case False
    then have "opts_of (option_lines (device_options r)) ''exclude'' = None"
      by (intro opts_of_absent [OF T]) (simp add: device_options_def)
    moreover have "opt_one (opts_of (option_lines (device_options r))) ''section'' [] = dv_section r"
      using False by (intro row_one(2) [OF T]) (simp_all add: device_options_def)
    ultimately show ?thesis using False by (simp add: opt_one_def opt_bool_def)
  qed
  then show ?thesis using assms by (simp add: read_device_def one storable_device_def)
qed

end
