(* ===== verification/Uci_Singles.thy ===== *)
theory Uci_Singles
  imports Uci_Round
begin

subsection \<open>Sections there is one of, and mesh peers\<close>

text \<open>
  The sections the file has once (multi-WAN, bypass, mesh, OONI and the other services), and the
  peers of the mesh, as the reader gives them back.
\<close>

lemma mwan3_rows:
  assumes "mw_resolved_proxy_wans r = []"
  shows "apply_mwan3 (opts_of (option_lines (mwan3_options r))) zero_mwan3 = r"
proof -
  have T: "table (mwan3_options r)" by (simp add: table_def mwan3_options_def)
  have "opt_bool (opts_of (option_lines (mwan3_options r))) ''proxy_wan_enabled'' False = mw_proxy_wan_enabled r"
    "opt_list (opts_of (option_lines (mwan3_options r))) ''proxy_wan'' [] = mw_proxy_wans r"
    by (rule row_bool [OF T] row_list(1) [OF T]; simp add: mwan3_options_def)+
  then show ?thesis using assms by (simp add: apply_mwan3_def zero_mwan3_def)
qed

lemma bypass_rows: "read_bypass (opts_of (option_lines (bypass_options r))) (by_name r) = r"
proof -
  have T: "table (bypass_options r)" by (simp add: table_def bypass_options_def)
  have "opts_of (option_lines (bypass_options r)) ''name'' = None"
    by (intro opts_of_absent [OF T]) (simp add: bypass_options_def)
  then have "opt_one (opts_of (option_lines (bypass_options r))) ''name'' (by_name r) = by_name r"
    by (simp add: opt_one_def)
  moreover have "opt_list (opts_of (option_lines (bypass_options r))) ''cidr4'' [] = by_cidr4 r"
    "opt_list (opts_of (option_lines (bypass_options r))) ''cidr6'' [] = by_cidr6 r"
    "opt_list (opts_of (option_lines (bypass_options r))) ''proxy_server_cidr4'' [] = by_proxy_server_cidr4 r"
    "opt_list (opts_of (option_lines (bypass_options r))) ''proxy_server_cidr6'' [] = by_proxy_server_cidr6 r"
    "opt_list (opts_of (option_lines (bypass_options r))) ''source_cidr4'' [] = by_source_cidr4 r"
    "opt_list (opts_of (option_lines (bypass_options r))) ''source_cidr6'' [] = by_source_cidr6 r"
    by (rule row_list(1) [OF T]; simp add: bypass_options_def)+
  ultimately show ?thesis by (simp add: read_bypass_def)
qed

lemma ooni_rows:
  "apply_ooni (opts_of (option_lines (ooni_options r))) default_ooni = r \<lparr>oo_uid := 0\<rparr>"
proof -
  have T: "table (ooni_options r)" by (simp add: table_def ooni_options_def)
  have one: "opt_one (opts_of (option_lines (ooni_options r))) ''schedule'' d = oo_schedule r"
    "opt_one (opts_of (option_lines (ooni_options r))) ''proxy'' d = oo_proxy r"
    "opt_one (opts_of (option_lines (ooni_options r))) ''home'' d = oo_home r"
    "opt_one (opts_of (option_lines (ooni_options r))) ''user'' d = oo_user r" for d
    by (rule row_one(1) [OF T]; simp add: ooni_options_def)+
  have bools: "opt_bool (opts_of (option_lines (ooni_options r))) ''enabled'' b = oo_enabled r"
    "opt_bool (opts_of (option_lines (ooni_options r))) ''upload'' b = oo_upload r" for b
    by (rule row_bool [OF T]; simp add: ooni_options_def)+
  have "opts_of (option_lines (ooni_options r)) ''wan'' = (if oo_wans r = [] then None else Some (oo_wans r))"
    by (rule row_values(3) [OF T]) (simp add: ooni_options_def)
  then show ?thesis
    by (simp add: apply_ooni_def one bools default_ooni_def zero_ooni_def)
qed

lemma mesh_peer_rows:
  assumes "int64 (mp_listen_port r)"
  shows "read_mesh_peer (opts_of (option_lines (mesh_peer_options r))) ident = r"
proof -
  have T: "table (mesh_peer_options r)" by (simp add: table_def mesh_peer_options_def)
  have "rows_in (mesh_peer_options r) (mesh_peer_options r)" by (simp add: rows_in_def list_all_iff)
  moreover have "read_mesh_peer (opts_of (option_lines t)) ident = r"
    if T: "table t" and "rows_in t (mesh_peer_options r)" for t
    using that(2) assms unfolding rows_in_def mesh_peer_options_def list.pred_inject
    apply (elim conjE)
    apply (rule trans [OF _ mesh_peer.surjective [symmetric]])
    apply (unfold read_mesh_peer_def mesh_peer.ext_inject)
    apply (intro conjI)
    apply ((rule row_one(1) [OF T] row_bool [OF T] row_int(2) [OF T] row_one(2) [OF T],
        assumption, ((assumption | (rule impI, rule refl) | (simp (no_asm); fail))+)?)+)
    done
  ultimately show ?thesis using T by blast
qed

text \<open>
  The network identity of a mesh is what its code gives, and extra peers can be cleared only
  when the code has none.
\<close>

definition storable_mesh :: "(string \<Rightarrow> string) \<Rightarrow> (bytes \<Rightarrow> bytes \<Rightarrow> bytes) \<Rightarrow> mesh \<Rightarrow> bool" where
  "storable_mesh up mac r \<longleftrightarrow>
     int64 (me_exit_max_mbit r) \<and> int64 (me_listen_port r) \<and> int64 (me_api_mesh_port r)
     \<and> int64 (me_peer_ttl_days r) \<and> me_community_peers r \<noteq> []
     \<and> (if me_code r = [] then me_network_name r = [] \<and> me_network_secret r = [] \<and> me_psk r = []
        else (case decode_code up mac (me_code r) of
            Inl _ \<Rightarrow> False
          | Inr c \<Rightarrow> me_network_name r = network_name c \<and> me_network_secret r = b64_encode (mc_secret c)
              \<and> me_psk r = hex_digits (mc_psk c) \<and> (me_extra_peers r = [] \<longrightarrow> mc_peers c = [])))"

lemma mesh_own_options:
  assumes T: "table t" and "rows_in t (mesh_options up mac r)"
    and "int64 (me_exit_max_mbit r)" "int64 (me_listen_port r)" "int64 (me_api_mesh_port r)"
      "int64 (me_peer_ttl_days r)" "me_community_peers r \<noteq> []"
  shows "opt_bool (opts_of (option_lines t)) ''enabled'' (me_enabled default_mesh) = me_enabled r
    \<and> opt_one (opts_of (option_lines t)) ''code'' [] = me_code r
    \<and> opt_one (opts_of (option_lines t)) ''hwid'' (me_hwid default_mesh) = me_hwid r
    \<and> opt_one (opts_of (option_lines t)) ''node_name'' (me_node_name default_mesh) = me_node_name r
    \<and> opt_bool (opts_of (option_lines t)) ''exit_enabled'' (me_exit_enabled default_mesh) = me_exit_enabled r
    \<and> opt_one (opts_of (option_lines t)) ''exit_filter'' (me_exit_filter default_mesh) = me_exit_filter r
    \<and> opt_one (opts_of (option_lines t)) ''exit_exclude_filter'' (me_exit_exclude_filter default_mesh)
        = me_exit_exclude_filter r
    \<and> opt_int (opts_of (option_lines t)) ''exit_max_mbit'' (me_exit_max_mbit default_mesh) = me_exit_max_mbit r
    \<and> opt_one (opts_of (option_lines t)) ''overlay_ipv4'' (me_overlay_ipv4 default_mesh) = me_overlay_ipv4 r
    \<and> opt_int (opts_of (option_lines t)) ''listen_port'' (me_listen_port default_mesh) = me_listen_port r
    \<and> opt_int (opts_of (option_lines t)) ''api_mesh_port'' (me_api_mesh_port default_mesh) = me_api_mesh_port r
    \<and> opt_one (opts_of (option_lines t)) ''device_name'' (me_device_name default_mesh) = me_device_name r
    \<and> opt_list (opts_of (option_lines t)) ''community_peer'' (me_community_peers default_mesh)
        = me_community_peers r
    \<and> opt_one (opts_of (option_lines t)) ''easytier_bin'' (me_easytier_bin default_mesh) = me_easytier_bin r
    \<and> opt_one (opts_of (option_lines t)) ''rpc_portal'' (me_rpc_portal default_mesh) = me_rpc_portal r
    \<and> opt_one (opts_of (option_lines t)) ''sync_cron'' (me_sync_cron default_mesh) = me_sync_cron r
    \<and> opt_int (opts_of (option_lines t)) ''peer_ttl_days'' (me_peer_ttl_days default_mesh) = me_peer_ttl_days r"
  using assms(2-) unfolding rows_in_def mesh_options_def Let_def list.pred_inject
  apply (elim conjE)
  apply (intro conjI)
  apply ((rule row_one(1) [OF T] row_bool [OF T] row_int(2) [OF T] row_one(3) [OF T] row_list(1) [OF T],
      assumption, ((assumption | (rule impI, erule (1) notE) | (simp (no_asm); fail))+)?)+)
  done

lemma mesh_extras_option:
  assumes "table t" and "rows_in t (mesh_options up mac r)"
    and "\<not> mesh_extras_match_code up mac (me_code r) (me_extra_peers r) \<and> me_extra_peers r \<noteq> []
      \<or> d = me_extra_peers r"
  shows "opt_list (opts_of (option_lines t)) ''extra_peer'' d = me_extra_peers r"
  using assms(2,3) unfolding rows_in_def mesh_options_def Let_def list.pred_inject
  by (intro row_list(2) [OF assms(1)]) auto

lemma mesh_rows:
  assumes S: "storable_mesh up mac r"
  shows "apply_mesh up mac (opts_of (option_lines (mesh_options up mac r))) default_mesh = r"
proof -
  let ?t = "mesh_options up mac r"
  have T: "table ?t" by (simp add: table_def mesh_options_def)
  have R: "rows_in ?t ?t" by (simp add: rows_in_def list_all_iff)
  have nums: "int64 (me_exit_max_mbit r)" "int64 (me_listen_port r)" "int64 (me_api_mesh_port r)"
      "int64 (me_peer_ttl_days r)" "me_community_peers r \<noteq> []"
    using S by (auto simp: storable_mesh_def)
  note own = mesh_own_options [OF T R nums]
  have dm: "me_network_name default_mesh = []" "me_network_secret default_mesh = []"
      "me_psk default_mesh = []" "me_extra_peers default_mesh = []"
    by (simp_all add: default_mesh_def zero_mesh_def)
  let ?bare = "r \<lparr>me_network_name := [], me_network_secret := [], me_psk := [], me_extra_peers := []\<rparr>"
  have "apply_mesh up mac (opts_of (option_lines ?t)) default_mesh
      = (case apply_code up mac ?bare of
           (m, code_extras) \<Rightarrow> m \<lparr>me_extra_peers := opt_list (opts_of (option_lines ?t)) ''extra_peer'' code_extras\<rparr>)"
  proof -
    obtain d where d: "d = default_mesh" by simp
    have "d \<lparr>me_enabled := me_enabled r, me_code := me_code r, me_hwid := me_hwid r,
        me_node_name := me_node_name r, me_exit_enabled := me_exit_enabled r, me_exit_filter := me_exit_filter r,
        me_exit_exclude_filter := me_exit_exclude_filter r, me_exit_max_mbit := me_exit_max_mbit r,
        me_overlay_ipv4 := me_overlay_ipv4 r, me_listen_port := me_listen_port r,
        me_api_mesh_port := me_api_mesh_port r, me_device_name := me_device_name r,
        me_community_peers := me_community_peers r, me_easytier_bin := me_easytier_bin r,
        me_rpc_portal := me_rpc_portal r, me_sync_cron := me_sync_cron r,
        me_peer_ttl_days := me_peer_ttl_days r\<rparr> = ?bare"
      using dm unfolding d [symmetric] by (cases r; cases d) simp
    then show ?thesis using own unfolding apply_mesh_def Let_def d by simp
  qed
  also have "\<dots> = r"
  proof (cases "me_code r = []")
    case True
    then have "opt_list (opts_of (option_lines ?t)) ''extra_peer'' [] = me_extra_peers r"
      by (intro mesh_extras_option [OF T R]) (auto simp: mesh_extras_match_code_def)
    then show ?thesis using True S by (cases r) (simp add: apply_code_def storable_mesh_def)
  next
    case False
    then obtain c where c: "decode_code up mac (me_code r) = Inr c"
      "me_network_name r = network_name c" "me_network_secret r = b64_encode (mc_secret c)"
      "me_psk r = hex_digits (mc_psk c)" "me_extra_peers r = [] \<longrightarrow> mc_peers c = []"
      using S by (auto simp: storable_mesh_def split: sum.splits)
    have "opt_list (opts_of (option_lines ?t)) ''extra_peer'' (mc_peers c) = me_extra_peers r"
      using False c by (intro mesh_extras_option [OF T R]) (auto simp: mesh_extras_match_code_def)
    then show ?thesis using False c by (cases r) (simp add: apply_code_def)
  qed
  finally show ?thesis .
qed

end
