(* ===== verification/Uci_Config.thy ===== *)
theory Uci_Config
  imports Uci_Singles
begin

section \<open>Saving and loading a configuration\<close>

text \<open>
  The round trip of the whole file: the written sections as blocks of lines, the reader as a fold
  over the blocks, and the conditions under which a saved configuration is loaded as itself.
\<close>

subsection \<open>Named sections\<close>

definition named_block ::
    "string \<Rightarrow> string \<Rightarrow> string \<Rightarrow> option_group list \<Rightarrow> string list \<Rightarrow> block" where
  "named_block ty prefix name gs seen =
     (if prefix @ name \<notin> set seen \<and> uci_id name then (ty, Some (prefix @ name), option_lines gs)
      else (ty, None, option_lines (w_opt ''name'' name # gs)))"

lemma named_section_block:
  "named_section ty prefix name gs seen
    = (block_lines (named_block ty prefix name gs seen), (prefix @ name) # seen)"
  by (simp add: named_section_def section_header_def named_block_def block_lines_def Let_def)

fun named_blocks ::
    "string \<Rightarrow> string \<Rightarrow> ('a \<Rightarrow> string) \<Rightarrow> ('a \<Rightarrow> option_group list) \<Rightarrow> 'a list \<Rightarrow> string list
     \<Rightarrow> block list" where
  "named_blocks ty prefix nm gs [] seen = []"
| "named_blocks ty prefix nm gs (x # xs) seen =
     named_block ty prefix (nm x) (gs x) seen # named_blocks ty prefix nm gs xs ((prefix @ nm x) # seen)"

lemma write_all_named:
  "write_all (\<lambda>r. named_section ty prefix (nm r) (gs r)) xs seen
    = (concat (map block_lines (named_blocks ty prefix nm gs xs seen)), rev (map (\<lambda>x. prefix @ nm x) xs) @ seen)"
  by (induction xs arbitrary: seen) (simp_all add: named_section_block)

text \<open>A reader that gives back every record whose rows are in the table it is shown.\<close>

definition reads_back ::
    "(options \<Rightarrow> string \<Rightarrow> 'b) \<Rightarrow> string \<Rightarrow> string \<Rightarrow> option_group list \<Rightarrow> 'b \<Rightarrow> bool" where
  "reads_back rd prefix name gs y \<longleftrightarrow>
     (\<forall>t ident. table t \<longrightarrow> rows_in t gs \<longrightarrow> id_name (opts_of (option_lines t)) ident prefix = name
        \<longrightarrow> rd (opts_of (option_lines t)) ident = y)"

definition section_table :: "option_group list \<Rightarrow> bool" where
  "section_table gs \<longleftrightarrow> table gs \<and> ''name'' \<notin> fst ` set gs"

lemma read_named_block:
  assumes "section_table gs" and "prefix \<noteq> []" and "reads_back rd prefix name gs y"
  shows "rd (the (us_opts (block_section (named_block ty prefix name gs seen))))
      (us_name (block_section (named_block ty prefix name gs seen))) = y"
proof (cases "prefix @ name \<notin> set seen \<and> uci_id name")
  case True
  have "opts_of (option_lines gs) ''name'' = None"
    using assms(1) by (simp add: section_table_def opts_of_absent)
  moreover have "has_prefix (prefix @ name) prefix" by simp
  moreover have "name \<noteq> []" using True by (simp add: uci_id_def)
  ultimately have "id_name (opts_of (option_lines gs)) (prefix @ name) prefix = name"
    by (simp add: id_name_def opt_one_def)
  moreover have "table gs" "rows_in gs gs"
    using assms(1) by (simp_all add: section_table_def rows_in_def list_all_iff)
  ultimately show ?thesis
    using assms(3) True by (simp add: named_block_def block_section_def reads_back_def)
next
  case False
  let ?t = "w_opt ''name'' name # gs"
  have T: "table ?t" using assms(1) by (simp add: section_table_def table_def)
  have "opt_one (opts_of (option_lines ?t)) ''name'' [] = name" by (rule row_one(1) [OF T]) simp
  then have "id_name (opts_of (option_lines ?t)) [] prefix = name"
    using assms(2) by (simp add: id_name_def)
  moreover have "rows_in ?t gs" by (simp add: rows_in_def list_all_iff)
  ultimately have "rd (opts_of (option_lines ?t)) [] = y"
    using assms(3) T unfolding reads_back_def by blast
  moreover have "named_block ty prefix name gs seen = (ty, None, option_lines ?t)"
    unfolding named_block_def by (rule if_not_P [OF False])
  ultimately show ?thesis by (simp add: block_section_def)
qed

lemma read_named_blocks:
  assumes "prefix \<noteq> []"
    and "\<forall>x \<in> set xs. section_table (gs x) \<and> reads_back rd prefix (nm x) (gs x) (f x)"
  shows "map (\<lambda>u. rd (the (us_opts u)) (us_name u))
      (map block_section (named_blocks ty prefix nm gs xs seen)) = map f xs"
  using assms(2)
  by (induction xs arbitrary: seen) (simp_all add: read_named_block [OF _ assms(1)] del: map_map)

lemma named_blocks_type:
  "u \<in> set (map block_section (named_blocks ty prefix nm gs xs seen)) \<Longrightarrow>
     us_type u = ty \<and> us_opts u \<noteq> None"
proof -
  have "fst b = ty" if "b \<in> set (named_blocks ty prefix nm gs xs seen)" for b
    using that by (induction xs arbitrary: seen) (auto simp: named_block_def)
  then show "u \<in> set (map block_section (named_blocks ty prefix nm gs xs seen)) \<Longrightarrow>
     us_type u = ty \<and> us_opts u \<noteq> None"
    by (auto simp: block_section_def split_beta)
qed

lemma option_lines_options: "list_all keyed gs \<Longrightarrow> list_all needs_section (option_lines gs)"
proof -
  have "needs_section l" if "line_key l = Some k" for l k
    using that by (cases l) auto
  then show "list_all keyed gs \<Longrightarrow> list_all needs_section (option_lines gs)"
    by (auto simp: option_lines_def list_all_iff keyed_def)
qed

definition option_block :: "block \<Rightarrow> bool" where
  "option_block b \<longleftrightarrow> list_all needs_section (snd (snd b))"

lemma named_blocks_options:
  "\<forall>x \<in> set xs. section_table (gs x) \<Longrightarrow> list_all option_block (named_blocks ty prefix nm gs xs seen)"
proof (induction xs arbitrary: seen)
  case (Cons x xs)
  then have "list_all keyed (gs x)" by (simp add: section_table_def table_def)
  then have "option_block (named_block ty prefix (nm x) (gs x) seen)"
    using option_lines_options [of "gs x"] option_lines_options [of "w_opt ''name'' (nm x) # gs x"]
    by (simp add: option_block_def named_block_def)
  then show ?case using Cons by simp
qed simp

lemma section_tables [simp]:
  "section_table (application_options a)" "section_table (vpn_options v)"
  "section_table (section_options s)" "section_table (subscription_options u)"
  "section_table (proxy_provider_options p)" "section_table (rule_provider_options r)"
  by (simp_all add: section_table_def table_def application_options_def vpn_options_def
      section_options_def subscription_options_def proxy_provider_options_def rule_provider_options_def)

subsection \<open>The blocks of a configuration\<close>

definition device_block :: "(string \<Rightarrow> string) \<Rightarrow> device \<Rightarrow> block" where
  "device_block lo r = (''device'', Some (device_section_name lo (dv_mac r)), option_lines (device_options r))"

definition mesh_peer_block :: "mesh_peer \<Rightarrow> block" where
  "mesh_peer_block r = (''mesh_peer'', None, option_lines (mesh_peer_options r))"

definition bypass_blocks :: "bypass \<Rightarrow> block list" where
  "bypass_blocks r =
     (if write_bypass r = [] then [] else [(''bypass'', Some (by_name r), option_lines (bypass_options r))])"

definition mesh_blocks :: "(string \<Rightarrow> string) \<Rightarrow> (bytes \<Rightarrow> bytes \<Rightarrow> bytes) \<Rightarrow> mesh \<Rightarrow> block list" where
  "mesh_blocks up mac r =
     (if write_mesh up mac r = [] then [] else [(''mesh'', Some ''mesh'', option_lines (mesh_options up mac r))])"

definition first_blocks :: "config \<Rightarrow> block list" where
  "first_blocks c =
     [(''main'', Some ''settings'', option_lines (main_options (cf_settings c))),
      (''dns'', Some ''dns'', option_lines (dns_options (cf_dns c))),
      (''mwan3'', Some ''mwan3'', option_lines (mwan3_options (cf_mwan3 c)))]"

definition last_blocks ::
    "(string \<Rightarrow> string) \<Rightarrow> (bytes \<Rightarrow> bytes \<Rightarrow> bytes) \<Rightarrow> config \<Rightarrow> block list" where
  "last_blocks up mac c =
     bypass_blocks (cf_bypass c) @ [(''ooni'', Some ''ooni'', option_lines (ooni_options (cf_ooni c)))]
     @ mesh_blocks up mac (cf_mesh c) @ map mesh_peer_block (cf_mesh_peers c)"

lemma config_lines_blocks:
  "\<exists>s1 s2 s3 s4 s5 s6. list_all (\<lambda>s. set (reserved_ids c) \<subseteq> set s) [s1, s2, s3, s4, s5, s6]
     \<and> config_lines lo up mac c = concat (map block_lines
     (first_blocks c
      @ named_blocks ''zapret_strategy'' ''zs_'' ap_name application_options (cf_zapret_applications c) s1
      @ named_blocks ''vpn'' ''vpn_'' vp_name vpn_options (cf_vpns c) s2
      @ map (device_block lo) (cf_devices c)
      @ named_blocks ''section'' ''sec_'' sc_name section_options (cf_sections c) s3
      @ named_blocks ''subscription'' ''sub_'' sb_name subscription_options (cf_subscriptions c) s4
      @ named_blocks ''proxy_provider'' ''pp_'' pp_name proxy_provider_options (cf_proxy_providers c) s5
      @ named_blocks ''rule_provider'' ''rp_'' rp_name rule_provider_options (cf_rule_providers c) s6
      @ last_blocks up mac c))"
proof -
  have fs: "write_application = (\<lambda>r. named_section ''zapret_strategy'' ''zs_'' (ap_name r) (application_options r))"
    "write_vpn = (\<lambda>r. named_section ''vpn'' ''vpn_'' (vp_name r) (vpn_options r))"
    "write_section = (\<lambda>r. named_section ''section'' ''sec_'' (sc_name r) (section_options r))"
    "write_subscription = (\<lambda>r. named_section ''subscription'' ''sub_'' (sb_name r) (subscription_options r))"
    "write_proxy_provider = (\<lambda>r. named_section ''proxy_provider'' ''pp_'' (pp_name r) (proxy_provider_options r))"
    "write_rule_provider = (\<lambda>r. named_section ''rule_provider'' ''rp_'' (rp_name r) (rule_provider_options r))"
    by (simp_all add: fun_eq_iff write_application_def write_vpn_def write_section_def
        write_subscription_def write_proxy_provider_def write_rule_provider_def)
  have dev: "concat (map (write_device lo) ds) = concat (map block_lines (map (device_block lo) ds))" for ds
    by (induction ds) (simp_all add: write_device_def device_block_def block_lines_def)
  have peers: "concat (map write_mesh_peer ps) = concat (map block_lines (map mesh_peer_block ps))" for ps
    by (induction ps) (simp_all add: write_mesh_peer_def mesh_peer_block_def block_lines_def)
  have byp: "write_bypass r = concat (map block_lines (bypass_blocks r))" for r
    by (auto simp: bypass_blocks_def write_bypass_def block_lines_def)
  have me: "write_mesh up mac r = concat (map block_lines (mesh_blocks up mac r))" for r
    by (auto simp: mesh_blocks_def write_mesh_def block_lines_def)
  show ?thesis
    unfolding config_lines_def fs write_all_named prod.case first_blocks_def last_blocks_def dev peers byp me
      write_main_def write_dns_def write_mwan3_def write_ooni_def
    by (intro exI, rule conjI [rotated], simp add: block_lines_def, auto)
qed

subsection \<open>Applying the sections\<close>

definition apply_all ::
    "(string \<Rightarrow> string) \<Rightarrow> (string \<Rightarrow> string) \<Rightarrow> (bytes \<Rightarrow> bytes \<Rightarrow> bytes) \<Rightarrow> config \<Rightarrow> uci_section list
     \<Rightarrow> config" where
  "apply_all lo up mac c us = foldl (\<lambda>c x. apply_section lo up mac x c) c us"

lemma apply_all_append [simp]: "apply_all lo up mac c (us @ vs) = apply_all lo up mac (apply_all lo up mac c us) vs"
  by (simp add: apply_all_def)

definition typed :: "string \<Rightarrow> uci_section list \<Rightarrow> bool" where
  "typed ty us \<longleftrightarrow> (\<forall>u \<in> set us. us_type u = ty \<and> us_opts u \<noteq> None)"

definition read_all :: "(options \<Rightarrow> string \<Rightarrow> 'a) \<Rightarrow> uci_section list \<Rightarrow> 'a list" where
  "read_all rd us = map (\<lambda>u. rd (the (us_opts u)) (us_name u)) us"

lemma apply_section_typed:
  assumes "us_opts u \<noteq> None"
  shows "us_type u = ''zapret_strategy'' \<Longrightarrow> apply_section lo up mac u c = c
      \<lparr>cf_zapret_applications := cf_zapret_applications c @ [read_application (the (us_opts u)) (us_name u)]\<rparr>"
    and "us_type u = ''vpn'' \<Longrightarrow> apply_section lo up mac u c = c
      \<lparr>cf_vpns := cf_vpns c @ [read_vpn (the (us_opts u)) (us_name u)]\<rparr>"
    and "us_type u = ''section'' \<Longrightarrow> apply_section lo up mac u c = c
      \<lparr>cf_sections := cf_sections c @ [read_section up (the (us_opts u)) (us_name u)]\<rparr>"
    and "us_type u = ''subscription'' \<Longrightarrow> apply_section lo up mac u c = c
      \<lparr>cf_subscriptions := cf_subscriptions c @ [read_subscription (the (us_opts u)) (us_name u)]\<rparr>"
    and "us_type u = ''proxy_provider'' \<Longrightarrow> apply_section lo up mac u c = c
      \<lparr>cf_proxy_providers := cf_proxy_providers c @ [read_proxy_provider (the (us_opts u)) (us_name u)]\<rparr>"
    and "us_type u = ''rule_provider'' \<Longrightarrow> apply_section lo up mac u c = c
      \<lparr>cf_rule_providers := cf_rule_providers c
        @ [read_rule_provider lo (st_workdir (cf_settings c)) (the (us_opts u)) (us_name u)]\<rparr>"
  using assms by (auto simp: apply_section_def)

lemma apply_typed:
  "typed ''zapret_strategy'' us \<Longrightarrow> apply_all lo up mac c us
     = c \<lparr>cf_zapret_applications := cf_zapret_applications c @ read_all read_application us\<rparr>"
  "typed ''vpn'' us \<Longrightarrow> apply_all lo up mac c us = c \<lparr>cf_vpns := cf_vpns c @ read_all read_vpn us\<rparr>"
  "typed ''section'' us \<Longrightarrow> apply_all lo up mac c us
     = c \<lparr>cf_sections := cf_sections c @ read_all (read_section up) us\<rparr>"
  "typed ''subscription'' us \<Longrightarrow> apply_all lo up mac c us
     = c \<lparr>cf_subscriptions := cf_subscriptions c @ read_all read_subscription us\<rparr>"
  "typed ''proxy_provider'' us \<Longrightarrow> apply_all lo up mac c us
     = c \<lparr>cf_proxy_providers := cf_proxy_providers c @ read_all read_proxy_provider us\<rparr>"
  "typed ''rule_provider'' us \<Longrightarrow> apply_all lo up mac c us
     = c \<lparr>cf_rule_providers := cf_rule_providers c
          @ read_all (read_rule_provider lo (st_workdir (cf_settings c))) us\<rparr>"
proof -
  have Cons: "typed ty (u # us) \<longleftrightarrow> us_type u = ty \<and> us_opts u \<noteq> None \<and> typed ty us" for ty u us
    by (auto simp: typed_def)
  show "typed ''zapret_strategy'' us \<Longrightarrow> apply_all lo up mac c us
     = c \<lparr>cf_zapret_applications := cf_zapret_applications c @ read_all read_application us\<rparr>"
    by (induction us arbitrary: c) (simp_all add: apply_all_def read_all_def Cons apply_section_typed)
  show "typed ''vpn'' us \<Longrightarrow> apply_all lo up mac c us = c \<lparr>cf_vpns := cf_vpns c @ read_all read_vpn us\<rparr>"
    by (induction us arbitrary: c) (simp_all add: apply_all_def read_all_def Cons apply_section_typed)
  show "typed ''section'' us \<Longrightarrow> apply_all lo up mac c us
     = c \<lparr>cf_sections := cf_sections c @ read_all (read_section up) us\<rparr>"
    by (induction us arbitrary: c) (simp_all add: apply_all_def read_all_def Cons apply_section_typed)
  show "typed ''subscription'' us \<Longrightarrow> apply_all lo up mac c us
     = c \<lparr>cf_subscriptions := cf_subscriptions c @ read_all read_subscription us\<rparr>"
    by (induction us arbitrary: c) (simp_all add: apply_all_def read_all_def Cons apply_section_typed)
  show "typed ''proxy_provider'' us \<Longrightarrow> apply_all lo up mac c us
     = c \<lparr>cf_proxy_providers := cf_proxy_providers c @ read_all read_proxy_provider us\<rparr>"
    by (induction us arbitrary: c) (simp_all add: apply_all_def read_all_def Cons apply_section_typed)
  show "typed ''rule_provider'' us \<Longrightarrow> apply_all lo up mac c us
     = c \<lparr>cf_rule_providers := cf_rule_providers c
          @ read_all (read_rule_provider lo (st_workdir (cf_settings c))) us\<rparr>"
    by (induction us arbitrary: c) (simp_all add: apply_all_def read_all_def Cons apply_section_typed)
qed

lemma upsert_new: "\<not> (\<exists>x \<in> set xs. P x) \<Longrightarrow> upsert P f new xs = xs @ new"
  by (induction xs) auto

lemma apply_devices:
  assumes "\<forall>d \<in> set ds. storable_device lo d \<and> dv_mac d \<noteq> []" and "distinct (map dv_mac (cf_devices c @ ds))"
  shows "apply_all lo up mac c (map block_section (map (device_block lo) ds))
    = c \<lparr>cf_devices := cf_devices c @ ds\<rparr>"
  using assms
proof (induction ds arbitrary: c)
  case (Cons d ds)
  have d: "storable_device lo d" "dv_mac d \<noteq> []" using Cons.prems(1) by auto
  have "apply_section lo up mac (block_section (device_block lo d)) c = c \<lparr>cf_devices :=
      add_device (read_device lo (opts_of (option_lines (device_options d))) (device_section_name lo (dv_mac d)))
        (cf_devices c)\<rparr>"
    by (simp add: block_section_def device_block_def apply_section_def)
  also have "\<dots> = c \<lparr>cf_devices := add_device d (cf_devices c)\<rparr>"
    by (simp only: device_rows [OF d(1)])
  also have "add_device d (cf_devices c) = cf_devices c @ [d]"
  proof -
    have "dv_mac d \<notin> dv_mac ` set (cf_devices c)" using Cons.prems(2) by simp
    then have "\<not> (\<exists>x \<in> set (cf_devices c). dv_mac x = dv_mac d)" by (metis imageI)
    from upsert_new [OF this] show ?thesis using d(2) by (simp add: add_device_def)
  qed
  finally have "apply_section lo up mac (block_section (device_block lo d)) c = c \<lparr>cf_devices := cf_devices c @ [d]\<rparr>" .
  then show ?case using Cons by (simp add: apply_all_def)
qed (simp add: apply_all_def)

lemma apply_mesh_peers:
  assumes "\<forall>p \<in> set ps. mp_hwid p \<noteq> [] \<and> mp_name p \<noteq> [] \<and> int64 (mp_listen_port p)"
  shows "apply_all lo up mac c (map block_section (map mesh_peer_block ps))
    = c \<lparr>cf_mesh_peers := cf_mesh_peers c @ ps\<rparr>"
  using assms
  by (induction ps arbitrary: c)
    (simp_all add: apply_all_def block_section_def mesh_peer_block_def apply_section_def mesh_peer_rows Let_def)

subsection \<open>What a save keeps\<close>

text \<open>
  The fields that are filled in at run time are not written, and the sections keep the names of
  their applications.
\<close>

definition persisted :: "config \<Rightarrow> config" where
  "persisted c = c
     \<lparr>cf_mwan3 := (cf_mwan3 c) \<lparr>mw_resolved_proxy_wans := []\<rparr>, cf_zapret_profiles := [],
      cf_zapret_strategies := [], cf_sections := map persisted_section (cf_sections c),
      cf_ooni := (cf_ooni c) \<lparr>oo_uid := 0\<rparr>\<rparr>"

definition storable ::
    "(string \<Rightarrow> string) \<Rightarrow> (string \<Rightarrow> string) \<Rightarrow> (bytes \<Rightarrow> bytes \<Rightarrow> bytes) \<Rightarrow> config \<Rightarrow> bool" where
  "storable lo up mac c \<longleftrightarrow>
     list_all clean_line (config_lines lo up mac c)
     \<and> storable_settings default_settings (cf_settings c) \<and> storable_dns (cf_dns c)
     \<and> cf_sections c \<noteq> [] \<and> list_all storable_section (cf_sections c)
     \<and> list_all (\<lambda>s. int64 (sb_interval s)) (cf_subscriptions c)
     \<and> list_all (\<lambda>p. int64 (pp_interval p) \<and> int64 (pp_health_check_interval p)) (cf_proxy_providers c)
     \<and> list_all (\<lambda>p. int64 (rp_interval p)) (cf_rule_providers c)
     \<and> list_all (\<lambda>v. vp_name v \<noteq> []) (cf_vpns c)
     \<and> list_all (\<lambda>d. storable_device lo d \<and> dv_mac d \<noteq> []) (cf_devices c)
     \<and> distinct (map dv_mac (cf_devices c))
     \<and> write_bypass (cf_bypass c) \<noteq> []
     \<and> (if write_mesh up mac (cf_mesh c) = [] then cf_mesh c = default_mesh
        else storable_mesh up mac (cf_mesh c))
     \<and> list_all (\<lambda>p. mp_hwid p \<noteq> [] \<and> mp_name p \<noteq> [] \<and> int64 (mp_listen_port p)) (cf_mesh_peers c)"

lemma apply_first:
  assumes "storable lo up mac c"
  shows "apply_all lo up mac blank_config (map block_section (first_blocks c))
    = blank_config \<lparr>cf_settings := cf_settings c, cf_dns := cf_dns c,
        cf_mwan3 := (cf_mwan3 c) \<lparr>mw_resolved_proxy_wans := []\<rparr>\<rparr>"
proof -
  have "mwan3_options (cf_mwan3 c) = mwan3_options ((cf_mwan3 c) \<lparr>mw_resolved_proxy_wans := []\<rparr>)"
    by (simp add: mwan3_options_def)
  then have m: "apply_mwan3 (opts_of (option_lines (mwan3_options (cf_mwan3 c)))) zero_mwan3
      = (cf_mwan3 c) \<lparr>mw_resolved_proxy_wans := []\<rparr>"
    using mwan3_rows [of "(cf_mwan3 c) \<lparr>mw_resolved_proxy_wans := []\<rparr>"] by simp
  have T: "table (dns_options (cf_dns c))" by (simp add: table_def dns_options_def)
  have d: "apply_dns (opts_of (option_lines (dns_options (cf_dns c)))) default_dns = cf_dns c"
    using assms by (intro dns_rows [OF T]) (simp_all add: rows_in_def list_all_iff storable_def)
  have s: "apply_main (opts_of (option_lines (main_options (cf_settings c)))) default_settings = cf_settings c"
    using assms by (intro main_round_trip) (simp add: storable_def)
  show ?thesis
    by (simp add: first_blocks_def block_section_def apply_all_def apply_section_def blank_config_def
        default_config_def m d s)
qed

lemma apply_last:
  assumes "storable lo up mac c" and "cf_ooni b = default_ooni" and "cf_mesh b = default_mesh"
  shows "apply_all lo up mac b (map block_section (last_blocks up mac c))
    = b \<lparr>cf_bypass := cf_bypass c, cf_ooni := (cf_ooni c) \<lparr>oo_uid := 0\<rparr>, cf_mesh := cf_mesh c,
        cf_mesh_peers := cf_mesh_peers b @ cf_mesh_peers c\<rparr>"
proof -
  have by1: "apply_all lo up mac b (map block_section (bypass_blocks (cf_bypass c))) = b \<lparr>cf_bypass := cf_bypass c\<rparr>" for b
    using assms(1) by (simp add: storable_def bypass_blocks_def apply_all_def block_section_def
        apply_section_def bypass_rows)
  have me: "apply_all lo up mac b (map block_section (mesh_blocks up mac (cf_mesh c))) = b \<lparr>cf_mesh := cf_mesh c\<rparr>"
    if "cf_mesh b = default_mesh" for b
    using assms(1) that by (cases b) (auto simp: storable_def mesh_blocks_def apply_all_def block_section_def
        apply_section_def mesh_rows)
  have oo: "apply_all lo up mac b (map block_section
      [(''ooni'', Some ''ooni'', option_lines (ooni_options (cf_ooni c)))])
      = b \<lparr>cf_ooni := (cf_ooni c) \<lparr>oo_uid := 0\<rparr>\<rparr>" if "cf_ooni b = default_ooni" for b
    using that by (simp add: apply_all_def block_section_def apply_section_def ooni_rows)
  have peers: "\<forall>p \<in> set (cf_mesh_peers c). mp_hwid p \<noteq> [] \<and> mp_name p \<noteq> [] \<and> int64 (mp_listen_port p)"
    using assms(1) by (auto simp: storable_def list_all_iff)
  show ?thesis
    unfolding last_blocks_def map_append apply_all_append by1
    using assms(2,3) oo [of "b \<lparr>cf_bypass := cf_bypass c\<rparr>"]
      me [of "b \<lparr>cf_bypass := cf_bypass c, cf_ooni := (cf_ooni c) \<lparr>oo_uid := 0\<rparr>\<rparr>"]
    by (simp add: apply_mesh_peers [OF peers] del: list.map map_map)
qed

lemma rows_self: "table t \<Longrightarrow> rows_in t t"
  by (simp add: rows_in_def list_all_iff)

lemma apply_named:
  assumes "storable lo up mac c"
  shows "read_all read_application (map block_section
      (named_blocks ''zapret_strategy'' ''zs_'' ap_name application_options (cf_zapret_applications c) s1))
      = cf_zapret_applications c"
    and "read_all read_vpn (map block_section
      (named_blocks ''vpn'' ''vpn_'' vp_name vpn_options (cf_vpns c) s2)) = cf_vpns c"
    and "read_all (read_section up) (map block_section
      (named_blocks ''section'' ''sec_'' sc_name section_options (cf_sections c) s3))
      = map persisted_section (cf_sections c)"
    and "read_all read_subscription (map block_section
      (named_blocks ''subscription'' ''sub_'' sb_name subscription_options (cf_subscriptions c) s4))
      = cf_subscriptions c"
    and "read_all read_proxy_provider (map block_section
      (named_blocks ''proxy_provider'' ''pp_'' pp_name proxy_provider_options (cf_proxy_providers c) s5))
      = cf_proxy_providers c"
    and "read_all (read_rule_provider lo workdir) (map block_section
      (named_blocks ''rule_provider'' ''rp_'' rp_name rule_provider_options (cf_rule_providers c) s6))
      = cf_rule_providers c"
proof -
  note S = assms [unfolded storable_def list_all_iff]
  show "read_all read_application (map block_section
      (named_blocks ''zapret_strategy'' ''zs_'' ap_name application_options (cf_zapret_applications c) s1))
      = cf_zapret_applications c"
    unfolding read_all_def
    by (subst read_named_blocks [where f = id]) (simp_all add: reads_back_def application_rows)
  show "read_all read_vpn (map block_section
      (named_blocks ''vpn'' ''vpn_'' vp_name vpn_options (cf_vpns c) s2)) = cf_vpns c"
    unfolding read_all_def
    by (subst read_named_blocks [where f = id]) (use S in \<open>simp_all add: reads_back_def vpn_rows\<close>)
  show "read_all (read_section up) (map block_section
      (named_blocks ''section'' ''sec_'' sc_name section_options (cf_sections c) s3))
      = map persisted_section (cf_sections c)"
    unfolding read_all_def
    by (subst read_named_blocks [where f = persisted_section])
      (use S in \<open>simp_all add: reads_back_def section_rows\<close>)
  show "read_all read_subscription (map block_section
      (named_blocks ''subscription'' ''sub_'' sb_name subscription_options (cf_subscriptions c) s4))
      = cf_subscriptions c"
    unfolding read_all_def
    by (subst read_named_blocks [where f = id]) (use S in \<open>simp_all add: reads_back_def subscription_rows\<close>)
  show "read_all read_proxy_provider (map block_section
      (named_blocks ''proxy_provider'' ''pp_'' pp_name proxy_provider_options (cf_proxy_providers c) s5))
      = cf_proxy_providers c"
    unfolding read_all_def
    by (subst read_named_blocks [where f = id]) (use S in \<open>simp_all add: reads_back_def proxy_provider_rows\<close>)
  show "read_all (read_rule_provider lo workdir) (map block_section
      (named_blocks ''rule_provider'' ''rp_'' rp_name rule_provider_options (cf_rule_providers c) s6))
      = cf_rule_providers c"
    unfolding read_all_def
    by (subst read_named_blocks [where f = id]) (use S in \<open>simp_all add: reads_back_def rule_provider_rows\<close>)
qed

lemma typed_named: "typed ty (map block_section (named_blocks ty prefix nm gs xs seen))"
  unfolding typed_def using named_blocks_type by blast

lemma all_option_blocks:
  "list_all option_block (first_blocks c
      @ named_blocks ''zapret_strategy'' ''zs_'' ap_name application_options (cf_zapret_applications c) s1
      @ named_blocks ''vpn'' ''vpn_'' vp_name vpn_options (cf_vpns c) s2
      @ map (device_block lo) (cf_devices c)
      @ named_blocks ''section'' ''sec_'' sc_name section_options (cf_sections c) s3
      @ named_blocks ''subscription'' ''sub_'' sb_name subscription_options (cf_subscriptions c) s4
      @ named_blocks ''proxy_provider'' ''pp_'' pp_name proxy_provider_options (cf_proxy_providers c) s5
      @ named_blocks ''rule_provider'' ''rp_'' rp_name rule_provider_options (cf_rule_providers c) s6
      @ last_blocks up mac c)"
proof -
  have keyed: "list_all keyed (main_options a)" "list_all keyed (dns_options b)" "list_all keyed (mwan3_options d)"
    "list_all keyed (bypass_options e)" "list_all keyed (ooni_options f)" "list_all keyed (mesh_options up mac g)"
    "list_all keyed (mesh_peer_options h)" "list_all keyed (device_options i)" for a b d e f g h i
    by (simp_all add: main_options_def dns_options_def mwan3_options_def bypass_options_def ooni_options_def
        mesh_options_def mesh_peer_options_def device_options_def Let_def)
  note options = keyed [THEN option_lines_options]
  have "list_all option_block (first_blocks c)" "list_all option_block (last_blocks up mac c)"
    "list_all option_block (map (device_block lo) ds)" for ds
    by (auto simp: first_blocks_def last_blocks_def bypass_blocks_def mesh_blocks_def mesh_peer_block_def
        device_block_def option_block_def list_all_iff options [unfolded list_all_iff])
  then show ?thesis by (simp add: named_blocks_options)
qed

lemma apply_config_blocks:
  assumes "storable lo up mac c"
  shows "apply_all lo up mac blank_config (map block_section (first_blocks c
      @ named_blocks ''zapret_strategy'' ''zs_'' ap_name application_options (cf_zapret_applications c) s1
      @ named_blocks ''vpn'' ''vpn_'' vp_name vpn_options (cf_vpns c) s2
      @ map (device_block lo) (cf_devices c)
      @ named_blocks ''section'' ''sec_'' sc_name section_options (cf_sections c) s3
      @ named_blocks ''subscription'' ''sub_'' sb_name subscription_options (cf_subscriptions c) s4
      @ named_blocks ''proxy_provider'' ''pp_'' pp_name proxy_provider_options (cf_proxy_providers c) s5
      @ named_blocks ''rule_provider'' ''rp_'' rp_name rule_provider_options (cf_rule_providers c) s6
      @ last_blocks up mac c)) = persisted c"
proof -
  have blank: "cf_zapret_applications blank_config = []" "cf_vpns blank_config = []" "cf_devices blank_config = []"
    "cf_sections blank_config = []" "cf_subscriptions blank_config = []" "cf_proxy_providers blank_config = []"
    "cf_rule_providers blank_config = []" "cf_mesh_peers blank_config = []" "cf_zapret_profiles blank_config = []"
    "cf_zapret_strategies blank_config = []" "cf_ooni blank_config = default_ooni"
    "cf_mesh blank_config = default_mesh"
    by (simp_all add: blank_config_def default_config_def)
  have dev: "apply_all lo up mac b (map block_section (map (device_block lo) (cf_devices c)))
      = b \<lparr>cf_devices := cf_devices c\<rparr>" if "cf_devices b = []" for b
    using assms that by (subst apply_devices) (auto simp: storable_def list_all_iff)
  note typed = apply_typed(1) [OF typed_named] apply_typed(2) [OF typed_named] apply_typed(3) [OF typed_named]
    apply_typed(4) [OF typed_named] apply_typed(5) [OF typed_named] apply_typed(6) [OF typed_named]
  show ?thesis
    unfolding map_append apply_all_append apply_first [OF assms] typed apply_named [OF assms]
    by (rule config.equality)
      (simp_all add: dev apply_last [OF assms] blank persisted_def del: list.map map_map)
qed

text \<open>
  C1: a configuration that is saved is loaded back. The file that \<open>Serialize\<close> prints (its text
  split into lines, words and quoted values, its sections and options) is read by \<open>Load\<close> as the
  configuration itself, without what is only filled in at run time, and the load goes on to
  compile the Zapret applications of that configuration.
\<close>

theorem saved_config_loads:
  assumes "storable lo up mac c"
  shows "load lo up mac is_file cands (File_data (serialize lo up mac c))
    = (case compile_zapret_applications is_file cands (persisted c) of
         Inl e \<Rightarrow> Inl (Zapret_failed e) | Inr c' \<Rightarrow> Inr c')"
proof -
  obtain bs where bs: "config_lines lo up mac c = concat (map block_lines bs)" "list_all option_block bs"
    "apply_all lo up mac blank_config (map block_section bs) = persisted c"
    using config_lines_blocks [of c lo up mac] apply_config_blocks [OF assms] all_option_blocks by metis
  have "list_all good_block bs"
    using bs(1,2) assms by (auto simp: storable_def good_block_def option_block_def list_all_iff)
  note parsed = uci_text_sections [OF this, folded bs(1), folded serialize_def [of lo up mac]]
  have "apply_sections lo up mac (map block_section bs) = persisted c"
  proof -
    have "cf_sections (persisted c) \<noteq> []" using assms by (simp add: persisted_def storable_def)
    then show ?thesis using bs(3) by (simp add: apply_sections_def apply_all_def)
  qed
  then show ?thesis using parsed by (simp add: load_def split_beta)
qed

end
