(* ===== verification/Uci_Facts.thy ===== *)
theory Uci_Facts
  imports Uci_Config
begin

section \<open>What survives a save, and what does not\<close>

text \<open>
  Properties of the configuration file beyond the round trip: ids that libuci accepts, one
  device per MAC, the values the file cannot hold, and a saved configuration that is loaded.
\<close>

subsection \<open>Section ids\<close>

fun header_id :: "uci_line \<Rightarrow> string list" where
  "header_id (Header ty (Some i)) = [i]"
| "header_id l = []"

definition header_ids :: "uci_line list \<Rightarrow> string list" where
  "header_ids ls = concat (map header_id ls)"

lemma header_ids_simps [simp]:
  "header_ids [] = []" "header_ids (ls @ ms) = header_ids ls @ header_ids ms"
  "header_ids (l # ls) = header_id l @ header_ids ls"
  by (simp_all add: header_ids_def)

definition ids_of :: "block list \<Rightarrow> string list" where
  "ids_of bs = concat (map (\<lambda>b. case fst (snd b) of None \<Rightarrow> [] | Some i \<Rightarrow> [i]) bs)"

lemma ids_of_simps [simp]:
  "ids_of [] = []" "ids_of (bs @ cs) = ids_of bs @ ids_of cs"
  "ids_of ((ty, None, ls) # bs) = ids_of bs" "ids_of ((ty, Some i, ls) # bs) = i # ids_of bs"
  by (simp_all add: ids_of_def)

lemma block_ids:
  assumes "list_all option_block bs"
  shows "header_ids (concat (map block_lines bs)) = ids_of bs"
proof -
  have "header_id l = []" if "needs_section l" for l
    using that by (cases l) auto
  then have "header_ids (snd (snd b)) = []" if "b \<in> set bs" for b
    using assms that by (auto simp: header_ids_def list_all_iff option_block_def)
  then show ?thesis
    by (induction bs) (auto simp: block_lines_def ids_of_def split_beta split: option.splits)
qed

lemma named_block_ids:
  "distinct (ids_of (named_blocks ty prefix nm gs xs seen))
    \<and> set (ids_of (named_blocks ty prefix nm gs xs seen)) \<subseteq> {prefix @ nm x | x. x \<in> set xs} - set seen"
proof (induction xs arbitrary: seen)
  case (Cons x xs)
  show ?case using Cons [of "(prefix @ nm x) # seen"]
    by (auto simp: named_block_def split: option.splits)
qed simp

lemma distinct_between:
  "distinct (xs @ ms @ zs) \<Longrightarrow> w \<notin> set ms \<Longrightarrow> w \<notin> set xs \<Longrightarrow> w \<notin> set zs
    \<Longrightarrow> distinct (xs @ ms @ (if b then [] else [w]) @ zs)"
  by auto

lemma not_named_id:
  "w = [] \<or> w \<in> set seen \<Longrightarrow> prefix \<noteq> [] \<Longrightarrow> w \<notin> set (ids_of (named_blocks ty prefix nm gs xs seen))"
  using named_block_ids [of ty prefix nm gs xs seen] by auto

text \<open>Lists of ids whose first three characters tell them apart.\<close>

definition tagged :: "string \<Rightarrow> string list \<Rightarrow> bool" where
  "tagged t ids \<longleftrightarrow> distinct ids \<and> list_all (\<lambda>i. take 3 i = t) ids"

lemma distinct_tagged:
  assumes "\<forall>x \<in> set ls. tagged (fst x) (snd x)" and "distinct (map fst ls)"
  shows "distinct (concat (map snd ls))"
  using assms
proof (induction ls)
  case (Cons x ls)
  have "i \<notin> set (snd y)" if "i \<in> set (snd x)" "y \<in> set ls" for i y
  proof -
    have i: "take 3 i = fst x" using Cons.prems(1) that(1) by (simp add: tagged_def list_all_iff)
    have "fst x \<notin> fst ` set ls" using Cons.prems(2) by simp
    then have "fst x \<noteq> fst y" using that(2) by blast
    then show ?thesis using Cons.prems(1) that(2) i by (auto simp: tagged_def list_all_iff)
  qed
  then have "set (snd x) \<inter> set (concat (map snd ls)) = {}" by auto
  moreover have "distinct (snd x)" using Cons.prems(1) by (simp add: tagged_def)
  ultimately show ?case using Cons by simp
qed simp

lemma tagged_named:
  "take 3 (prefix @ []) = t \<Longrightarrow> 3 \<le> length prefix
     \<Longrightarrow> tagged t (ids_of (named_blocks ty prefix nm gs xs seen))"
  using named_block_ids [of ty prefix nm gs xs seen] by (auto simp: tagged_def list_all_iff)

lemma tagged_simps [simp]: "tagged t []" "tagged t [i] \<longleftrightarrow> take 3 i = t"
  by (simp_all add: tagged_def)

text \<open>
  C31: no two sections of a saved configuration carry the same id, which libuci would reject,
  whatever the names of the records are (empty, repeated, or not valid as an id), as long as the
  devices have different addresses and the bypass section does not take the id of another kind.
\<close>

theorem saved_ids_distinct:
  assumes "distinct (map (\<lambda>d. device_section_name lo (dv_mac d)) (cf_devices c))"
    and "by_name (cf_bypass c) \<notin> {''settings'', ''dns'', ''mwan3'', ''ooni'', ''mesh''}"
    and "\<not> has_prefix (by_name (cf_bypass c)) ''dev_''"
  shows "distinct (header_ids (config_lines lo up mac c))"
proof -
  obtain s1 s2 s3 s4 s5 s6 where
    seen: "list_all (\<lambda>s. set (reserved_ids c) \<subseteq> set s) [s1, s2, s3, s4, s5, s6]"
    and lines: "config_lines lo up mac c = concat (map block_lines (first_blocks c
      @ (named_blocks ''zapret_strategy'' ''zs_'' ap_name application_options (cf_zapret_applications c) s1
      @ named_blocks ''vpn'' ''vpn_'' vp_name vpn_options (cf_vpns c) s2
      @ map (device_block lo) (cf_devices c)
      @ named_blocks ''section'' ''sec_'' sc_name section_options (cf_sections c) s3
      @ named_blocks ''subscription'' ''sub_'' sb_name subscription_options (cf_subscriptions c) s4
      @ named_blocks ''proxy_provider'' ''pp_'' pp_name proxy_provider_options (cf_proxy_providers c) s5
      @ named_blocks ''rule_provider'' ''rp_'' rp_name rule_provider_options (cf_rule_providers c) s6)
      @ last_blocks up mac c))" (is "_ = concat (map block_lines (_ @ ?ms @ _))")
    using config_lines_blocks [of c lo up mac] unfolding append_assoc by blast
  have devices: "ids_of (map (device_block lo) ds) = map (\<lambda>d. device_section_name lo (dv_mac d)) ds" for ds
    by (induction ds) (simp_all add: device_block_def)
  have dev: "tagged ''dev'' (ids_of (map (device_block lo) (cf_devices c)))"
    unfolding devices using assms(1) by (simp add: tagged_def list_all_iff device_section_name_def)
  have peers: "ids_of (map mesh_peer_block ps) = []" for ps
    by (induction ps) (simp_all add: mesh_peer_block_def)
  have first: "ids_of (first_blocks c) = [''settings'', ''dns'', ''mwan3'']"
    by (simp add: first_blocks_def)
  have last: "ids_of (last_blocks up mac c)
     = (if write_bypass (cf_bypass c) = [] then [] else [by_name (cf_bypass c)]) @ [''ooni'']
       @ (if write_mesh up mac (cf_mesh c) = [] then [] else [''mesh''])"
    by (simp add: last_blocks_def bypass_blocks_def mesh_blocks_def peers)
  have byp: "by_name (cf_bypass c) = [] \<or> by_name (cf_bypass c) \<in> set (reserved_ids c)"
    by (auto simp: reserved_ids_def)
  have bypass_seen: "by_name (cf_bypass c) = [] \<or> by_name (cf_bypass c) \<in> set s" if "s \<in> set [s1, s2, s3, s4, s5, s6]" for s
    using byp seen that by (auto simp: list_all_iff)
  have dev_id: "by_name (cf_bypass c) \<notin> set (ids_of (map (device_block lo) (cf_devices c)))"
    unfolding devices using assms(3) by (auto simp: device_section_name_def has_prefix_def)
  let ?mesh = "if write_mesh up mac (cf_mesh c) = [] then [] else [''mesh'']"
  let ?ls = "[(''set'', [''settings'']), (''dns'', [''dns'']), (''mwa'', [''mwan3'']),
      (''zs_'', ids_of (named_blocks ''zapret_strategy'' ''zs_'' ap_name application_options (cf_zapret_applications c) s1)),
      (''vpn'', ids_of (named_blocks ''vpn'' ''vpn_'' vp_name vpn_options (cf_vpns c) s2)),
      (''dev'', ids_of (map (device_block lo) (cf_devices c))),
      (''sec'', ids_of (named_blocks ''section'' ''sec_'' sc_name section_options (cf_sections c) s3)),
      (''sub'', ids_of (named_blocks ''subscription'' ''sub_'' sb_name subscription_options (cf_subscriptions c) s4)),
      (''pp_'', ids_of (named_blocks ''proxy_provider'' ''pp_'' pp_name proxy_provider_options (cf_proxy_providers c) s5)),
      (''rp_'', ids_of (named_blocks ''rule_provider'' ''rp_'' rp_name rule_provider_options (cf_rule_providers c) s6)),
      (''oon'', [''ooni'']), (''mes'', ?mesh)]"
  have "distinct (concat (map snd ?ls))"
    by (rule distinct_tagged) (simp_all add: dev tagged_named)
  then have "distinct (ids_of (first_blocks c) @ ids_of ?ms @ [''ooni''] @ ?mesh)"
    unfolding first list.map concat.simps snd_conv ids_of_simps append_Nil2 append_assoc
      append_Cons append_Nil .
  moreover have "by_name (cf_bypass c) \<notin> set (ids_of ?ms)"
    unfolding ids_of_simps set_append Un_iff de_Morgan_disj
    by (intro conjI dev_id; rule not_named_id [OF bypass_seen]; simp)
  ultimately have "distinct (ids_of (first_blocks c) @ ids_of ?ms @ ids_of (last_blocks up mac c))"
    unfolding last by (rule distinct_between) (use assms(2) in \<open>simp_all add: first\<close>)
  then have "distinct (ids_of (first_blocks c @ ?ms @ last_blocks up mac c))" by (simp only: ids_of_simps)
  then show ?thesis using block_ids [OF all_option_blocks] lines unfolding append_assoc by metis
qed

subsection \<open>Devices\<close>

definition devices_ok :: "device list \<Rightarrow> bool" where
  "devices_ok ds \<longleftrightarrow> distinct (map dv_mac ds) \<and> [] \<notin> dv_mac ` set ds"

lemma upsert_macs:
  "map dv_mac (upsert (\<lambda>x. dv_mac x = dv_mac d) (\<lambda>_. d) [d] ds)
    = (if dv_mac d \<in> dv_mac ` set ds then map dv_mac ds else map dv_mac ds @ [dv_mac d])"
  by (induction ds) auto

lemma add_device_ok: "devices_ok ds \<Longrightarrow> devices_ok (add_device d ds)"
proof (cases "dv_mac d = []")
  case False
  assume ok: "devices_ok ds"
  let ?ds = "upsert (\<lambda>x. dv_mac x = dv_mac d) (\<lambda>_. d) [d] ds"
  have "distinct (map dv_mac ?ds)" unfolding upsert_macs using ok by (auto simp: devices_ok_def)
  moreover have "[] \<notin> set (map dv_mac ?ds)" unfolding upsert_macs using ok False by (auto simp: devices_ok_def)
  ultimately show ?thesis using False by (simp add: devices_ok_def add_device_def)
qed (simp add: add_device_def)

lemma apply_section_devices: "devices_ok (cf_devices c) \<Longrightarrow> devices_ok (cf_devices (apply_section lo up mac x c))"
  by (simp add: apply_section_def Let_def add_device_ok)

lemma apply_sections_devices: "devices_ok (cf_devices (apply_sections lo up mac xs))"
proof -
  have "devices_ok (cf_devices c) \<Longrightarrow> devices_ok (cf_devices (foldl (\<lambda>c x. apply_section lo up mac x c) c xs))" for c
    by (induction xs arbitrary: c) (simp_all add: apply_section_devices)
  moreover have "devices_ok (cf_devices blank_config)"
    by (simp add: devices_ok_def blank_config_def default_config_def)
  ultimately show ?thesis by (simp add: apply_sections_def Let_def)
qed

lemma compile_keeps_devices:
  "compile_zapret_applications is_file cands c = Inr c' \<Longrightarrow> cf_devices c' = cf_devices c"
  by (auto simp: compile_zapret_applications_def resolve_zapret_references_def andthen_def split: sum.splits)

text \<open>
  C32: whatever the configuration file says (repeated device sections, none, a section without an
  address), the configuration that is loaded has no two devices with the same hardware address
  and none without one.
\<close>

theorem loaded_devices_distinct:
  assumes "load lo up mac is_file cands f = Inr c"
  shows "distinct (map dv_mac (cf_devices c)) \<and> [] \<notin> set (map dv_mac (cf_devices c))"
proof -
  have "devices_ok (cf_devices c)"
  proof (cases f)
    case No_file
    then show ?thesis using assms by (auto simp: load_def devices_ok_def default_config_def)
  next
    case (Read_failed e)
    then show ?thesis using assms by (simp add: load_def)
  next
    case (File_data d)
    then have "cf_devices c = cf_devices (apply_sections lo up mac (fst (uci_sections (fst (scan_lines d)))))"
      using assms compile_keeps_devices
      by (auto simp: load_def Let_def split: prod.splits if_splits sum.splits)
    then show ?thesis using apply_sections_devices by simp
  qed
  then show ?thesis by (simp add: devices_ok_def)
qed

subsection \<open>What the file cannot hold\<close>

text \<open>A value with a single quote in the middle of it comes back with three more characters.\<close>

lemma trim_char_inner:
  assumes "v \<noteq> []" and "hd v \<noteq> c" and "last v \<noteq> c"
  shows "trim_char c (replicate m c @ v @ replicate n c) = v"
proof -
  have d: "dropWhile (\<lambda>x. x = c) (replicate m c @ w) = w" if "w = [] \<or> hd w \<noteq> c" for m w
    using that by (induction m) (auto simp: dropWhile_eq_self_iff)
  have "dropWhile (\<lambda>x. x = c) (replicate m c @ v @ replicate n c) = v @ replicate n c"
    using assms(1,2) by (subst d) (auto simp: hd_append)
  moreover have "dropWhile (\<lambda>x. x = c) (replicate n c @ rev v) = rev v"
    using assms(1,3) by (subst d) (auto simp: hd_rev)
  ultimately show ?thesis by (simp add: trim_char_def)
qed

text \<open>
  A single quote inside a value is written escaped and not unescaped on reading, so that
  the value that is read back is longer, with a backslash and two quotes after the quote: every
  save and load of such a value adds three characters for each quote.
\<close>

theorem single_quote_grows:
  assumes "u \<noteq> []" and "w \<noteq> []" and "quote \<notin> set u" and "quote \<notin> set w"
    and "hd u \<noteq> dquote" and "last w \<noteq> dquote"
  shows "unq (quoted (u @ quote # w)) = u @ [quote, CHR 0x5C, quote, quote] @ w"
proof -
  have esc: "concat (map (\<lambda>c. if c = quote then [quote, CHR 0x5C, quote, quote] else [c]) v) = v"
    if "quote \<notin> set v" for v
    using that by (induction v) auto
  let ?v = "u @ [quote, CHR 0x5C, quote, quote] @ w"
  have q: "quoted (u @ quote # w) = replicate 1 quote @ ?v @ replicate 1 quote"
    by (simp add: quoted_def esc assms)
  have ends: "hd ?v \<noteq> quote" "last ?v \<noteq> quote" "hd ?v \<noteq> dquote" "last ?v \<noteq> dquote" "?v \<noteq> []"
    using assms by (auto simp: hd_append last_append hd_in_set last_in_set dest: hd_in_set last_in_set)
  have solid: "solid_ends (quoted (u @ quote # w))"
    unfolding q by (simp add: solid_ends_def solid_def quote_def)
  have "unq (quoted (u @ quote # w)) = trim_char dquote ?v"
    unfolding unq_def using trim_char_inner [OF ends(5,1,2), of 1 1] solid by (simp add: q)
  then show ?thesis using trim_char_inner [OF ends(5,3,4), of 0 0] by simp
qed

lemma single_quote_grows_witness:
  "unq (quoted (''it'' @ quote # ''s'')) = ''it'' @ [quote, CHR 0x5C, quote, quote] @ ''s''"
  by (rule single_quote_grows) (simp_all add: quote_def dquote_def)

text \<open>
  A setting whose default is not empty cannot be cleared: an empty download base of the
  default lists, or an empty list of LAN zones, is not written, and the next load puts the
  default back.
\<close>

theorem cleared_setting_returns:
  assumes "st_default_lists_base_url r = []" and "st_lan_source_zones r = []"
  shows "st_default_lists_base_url (apply_main (opts_of (option_lines (main_options r))) default_settings)
      = st_default_lists_base_url default_settings
    \<and> st_lan_source_zones (apply_main (opts_of (option_lines (main_options r))) default_settings) = [''lan'']
    \<and> st_default_lists_base_url default_settings \<noteq> []"
proof -
  let ?t = "main_options r"
  have "w_nonempty ''default_lists_base_url'' [] \<in> set ?t" "w_list ''lan_source_zone'' [] \<in> set ?t"
    using assms by (simp_all add: main_options_def)
  from row_values(2) [OF main_table this(1)] row_values(3) [OF main_table this(2)]
  have none: "opts_of (option_lines ?t) ''default_lists_base_url'' = None"
    "opts_of (option_lines ?t) ''lan_source_zone'' = None" by simp_all
  have "st_default_lists_base_url (apply_main q s) = opt_one q ''default_lists_base_url'' (st_default_lists_base_url s)"
    "st_lan_source_zones (apply_main q s) = opt_list q ''lan_source_zone'' (st_lan_source_zones s)" for q s
    by (simp_all only: apply_main_def settings.select_convs)
  then show ?thesis
    by (simp add: none opt_one_def opt_list_def default_settings_def)
qed

lemma cleared_setting_returns_witness:
  "st_default_lists_base_url (apply_main (opts_of (option_lines (main_options zero_settings))) default_settings)
      = st_default_lists_base_url default_settings"
  using cleared_setting_returns [of zero_settings] by (simp add: zero_settings_def)

end
