(* ===== verification/Uci_Example.thy ===== *)
theory Uci_Example
  imports Uci_Facts
begin

section \<open>A configuration that is saved and loaded\<close>

text \<open>
  A small configuration with a routing section, evaluated against the conditions of the round
  trip; the witnesses of the properties of the configuration file are at the end.
\<close>

lemma join_split: "join [c] (split_on c s) = s"
  by (induction s) (auto split: list.splits simp: join_Cons_char)

lemma clean_text:
  assumes "v \<noteq> [] \<longrightarrow> list_all (\<lambda>w. w \<noteq> [] \<and> list_all solid w) (split_on CHR '' '' v)"
    and "quote \<notin> set v" and "length v < 65000" and "v \<noteq> [] \<longrightarrow> hd v \<noteq> dquote \<and> last v \<noteq> dquote"
  shows "clean_value v"
proof (cases "v = []")
  case True
  then show ?thesis by (simp add: clean_value_def str_fields_def fields_from.simps)
next
  case False
  then have "\<forall>w \<in> set (split_on CHR '' '' v). word w"
    using assms(1) word_solid by (auto simp: list_all_iff)
  then have "str_fields (join '' '' (split_on CHR '' '' v)) = split_on CHR '' '' v"
    by (rule str_fields_join)
  then show ?thesis using assms(2-4) by (simp add: join_split clean_value_def)
qed

lemma clean_small: "clean_value []" "clean_value ''0''" "clean_value ''1''"
  by (rule clean_text; simp add: solid_def quote_def dquote_def)+

lemma alnum_chars:
  "list_all alnum ''abcdefghijklmnopqrstuvwxyzABCDEFGHIJKLMNOPQRSTUVWXYZ0123456789''"
  by (simp add: alnum_def)

lemmas alnum_char [simp] = alnum_chars [simplified list.pred_inject, THEN conjunct1]

lemma clean_groups:
  "list_all clean_line (snd (w_opt k v)) \<longleftrightarrow> plain_key k \<and> clean_value v"
  "list_all clean_line (snd (w_bool k b)) \<longleftrightarrow> plain_key k"
  "list_all clean_line (snd (w_int k n)) \<longleftrightarrow> plain_key k \<and> clean_value (itoa n)"
  "list_all clean_line (snd (w_nonempty k v)) \<longleftrightarrow> v = [] \<or> plain_key k \<and> clean_value v"
  "list_all clean_line (snd (w_list k vs)) \<longleftrightarrow> vs = [] \<or> plain_key k \<and> list_all clean_value vs"
  "list_all clean_line (snd (w_dns_list k vs)) \<longleftrightarrow> plain_key k \<and> list_all clean_value vs"
  using clean_small
  by (auto simp: w_opt_def w_bool_def w_int_def w_nonempty_def w_list_def w_dns_list_def yn_def list_all_iff
      neq_Nil_conv)

lemma clean_option_lines:
  "list_all clean_line (option_lines gs) \<longleftrightarrow> list_all (\<lambda>g. list_all clean_line (snd g)) gs"
  by (simp add: option_lines_def list_all_iff)

definition ex_settings :: settings where
  "ex_settings = zero_settings \<lparr>st_mihomo_config := ''m.yaml'', st_proxy_guard_cron := ''*/5 * * * *'',
        st_default_lists_base_url := ''u'', st_bootstrap_doh_resolvers := [''r''],
        st_lan_source_zones := [''lan'']\<rparr>"

lemma main_keys: "list_all plain_key (map fst (main_options r))"
  unfolding main_options_def list.map group_keys
  by (simp add: plain_key_def alnum_chars [simplified])

lemma itoa_0 [simp]: "itoa 0 = ''0''" "itoa 5 = ''5''"
  by code_simp+

lemma main_clean: "list_all clean_line (option_lines (main_options ex_settings))"
  using main_keys [of ex_settings]
  unfolding main_options_def clean_option_lines list.map group_keys list.pred_inject clean_groups
  by (simp add: clean_small ex_settings_def zero_settings_def clean_text solid_def quote_def dquote_def)

definition ex_dns :: dns where
  "ex_dns = zero_dns \<lparr>dn_doh3_block_ips4 := [''a''], dn_doh3_block_ips6 := [''a''],
     dn_doh_upstreams := [''a''], dn_udp_upstreams := [''a'']\<rparr>"

definition ex_bypass :: bypass where
  "ex_bypass = zero_bypass \<lparr>by_name := ''bypass''\<rparr>"

definition ex_device :: device where
  "ex_device = \<lparr>dv_name = ''d'', dv_mac = ''aa'', dv_section = [], dv_enabled = True, dv_exclude = False\<rparr>"

definition ex_config :: config where
  "ex_config = blank_config \<lparr>cf_settings := ex_settings, cf_dns := ex_dns, cf_mwan3 := zero_mwan3,
     cf_devices := [ex_device], cf_sections := [zero_route_section \<lparr>sc_name := ''a''\<rparr>], cf_bypass := ex_bypass,
     cf_ooni := zero_ooni\<rparr>"

lemma ex_keys:
  "list_all plain_key (map fst (dns_options d))" "list_all plain_key (map fst (mwan3_options w))"
  "list_all plain_key (map fst (section_options s))" "list_all plain_key (map fst (bypass_options b))"
  "list_all plain_key (map fst (ooni_options q))" "list_all plain_key (map fst (device_options ex_device))"
  unfolding device_options_def ex_device_def device.select_convs if_False dns_options_def mwan3_options_def section_options_def bypass_options_def ooni_options_def
    list.map group_keys
  by (simp_all add: plain_key_def alnum_chars [simplified])

lemma ex_clean:
  "list_all clean_line (option_lines (dns_options ex_dns))"
  "list_all clean_line (option_lines (mwan3_options zero_mwan3))"
  "list_all clean_line (option_lines (section_options (zero_route_section \<lparr>sc_name := ''a''\<rparr>)))"
  "list_all clean_line (option_lines (bypass_options ex_bypass))"
  "list_all clean_line (option_lines (ooni_options zero_ooni))"
  "list_all clean_line (option_lines (device_options ex_device))"
  using ex_keys
  unfolding device_options_def ex_device_def device.select_convs if_False dns_options_def mwan3_options_def section_options_def bypass_options_def ooni_options_def
    clean_option_lines list.map group_keys list.pred_inject clean_groups
  by (simp_all add: clean_small ex_dns_def zero_dns_def zero_mwan3_def zero_route_section_def ex_bypass_def
      zero_bypass_def zero_ooni_def clean_text solid_def quote_def dquote_def)

lemma ex_parts [simp]:
  "cf_settings ex_config = ex_settings" "cf_dns ex_config = ex_dns" "cf_mwan3 ex_config = zero_mwan3"
  "cf_zapret_applications ex_config = []" "cf_vpns ex_config = []" "cf_devices ex_config = [ex_device]"
  "cf_sections ex_config = [zero_route_section \<lparr>sc_name := ''a''\<rparr>]" "cf_subscriptions ex_config = []"
  "cf_proxy_providers ex_config = []" "cf_rule_providers ex_config = []" "cf_bypass ex_config = ex_bypass"
  "cf_ooni ex_config = zero_ooni" "cf_mesh ex_config = default_mesh" "cf_mesh_peers ex_config = []"
  by (simp_all add: ex_config_def blank_config_def default_config_def)

lemma clean_header:
  assumes "plain_key ty" and "plain_key i"
  shows "clean_line (Header ty (Some i))"
proof -
  have w: "word i" using assms(2) by (rule plain_key_word)
  then have "str_fields i = [i]" using str_fields_join [of "[i]"] by simp
  moreover have "c \<noteq> quote \<and> c \<noteq> dquote" if "c \<in> set i" for c
    using assms(2) that alnum_solid by (auto simp: plain_key_def list_all_iff)
  moreover have "i \<noteq> []" "length i < 65000" using assms(2) by (simp_all add: plain_key_def)
  ultimately have "clean_value i" by (auto simp: clean_value_def)
  then show ?thesis using assms(1) w by (simp add: word_def)
qed

lemma mac_lower [simp]: "to_lower lo ''aa'' = ''aa''" "trim_space ''aa'' = ''aa''"
  by (simp_all add: to_lower_def ascii_def lower_ascii_def solid_ends_def solid_def)

lemma ex_lines_clean: "list_all clean_line (config_lines lo up mac ex_config)"
proof -
  have mesh: "write_mesh up mac default_mesh = []" by (simp add: write_mesh_def default_mesh_def zero_mesh_def)
  have hs: "list_all (\<lambda>(ty, i). clean_line (Header ty (Some i)))
      [(''main'', ''settings''), (''dns'', ''dns''), (''mwan3'', ''mwan3''), (''section'', ''sec_a''),
       (''bypass'', ''bypass''), (''ooni'', ''ooni''), (''device'', ''dev_aa'')]"
    by (simp add: clean_header plain_key_def alnum_chars [simplified] del: clean_line.simps)
  have dev: "device_section_name lo (dv_mac ex_device) = ''dev_aa''"
    by (simp add: device_section_name_def ex_device_def)
  have "write_section (zero_route_section \<lparr>sc_name := ''a''\<rparr>) (reserved_ids ex_config)
      = (Header ''section'' (Some ''sec_a'') # option_lines (section_options (zero_route_section \<lparr>sc_name := ''a''\<rparr>))
          @ [Blank], ''sec_a'' # reserved_ids ex_config)"
    by (simp add: write_section_def named_section_def section_header_def uci_id_def reserved_ids_def Let_def
        alnum_chars [simplified] ex_bypass_def zero_bypass_def)
  then show ?thesis
    using hs ex_clean main_clean
    by (simp add: config_lines_def mesh write_main_def write_dns_def write_mwan3_def write_bypass_def
        write_ooni_def write_device_def dev ex_bypass_def del: clean_line.simps(2))
qed

lemma ex_storable: "storable lo up mac ex_config"
  by (simp add: storable_def ex_lines_clean storable_settings_def storable_dns_def storable_section_def
      int64_def storable_device_def ex_device_def ex_settings_def zero_settings_def ex_dns_def zero_dns_def zero_route_section_def write_bypass_def
      ex_bypass_def zero_bypass_def write_mesh_def default_mesh_def zero_mesh_def)

lemma saved_config_loads_witness:
  "load id id (\<lambda>k m. m) (\<lambda>_. False) [] (File_data (serialize id id (\<lambda>k m. m) ex_config))
    = (case compile_zapret_applications (\<lambda>_. False) [] (persisted ex_config) of
         Inl e \<Rightarrow> Inl (Zapret_failed e) | Inr c' \<Rightarrow> Inr c')"
  by (rule saved_config_loads [OF ex_storable])

lemma saved_ids_distinct_witness: "distinct (header_ids (config_lines id id (\<lambda>k m. m) ex_config))"
  by (rule saved_ids_distinct) (simp_all add: ex_bypass_def zero_bypass_def has_prefix_def)

definition ex_loaded :: config where
  "ex_loaded = (case compile_zapret_applications (\<lambda>_. False) [] (persisted ex_config) of
     Inl _ \<Rightarrow> blank_config | Inr c \<Rightarrow> c)"

lemma ex_loads: "load id id (\<lambda>k m. m) (\<lambda>_. False) [] (File_data (serialize id id (\<lambda>k m. m) ex_config)) = Inr ex_loaded"
  and ex_loaded_devices: "cf_devices ex_loaded = cf_devices ex_config"
  unfolding saved_config_loads_witness ex_loaded_def
  by (simp_all add: compile_zapret_applications_def resolve_zapret_references_def compile_section_def
      application_names_def persisted_def persisted_section_def zero_route_section_def Let_def)

lemma loaded_devices_distinct_witness: "distinct (map dv_mac (cf_devices ex_loaded)) \<and> length (cf_devices ex_loaded) = 1"
  using loaded_devices_distinct [OF ex_loads] by (simp add: ex_loaded_devices)

end
