(* ===== verification/Rule_Index.thy ===== *)
theory Rule_Index
  imports Mrs_Format Config_Model "HOL-Library.List_Lexorder"
begin

section \<open>The index over the rule providers\<close>

text \<open>
  \<open>internal/checker/rules.go\<close>: the lazy index that answers which provider lists a domain or an
  address. Providers are sorted by name and parsed one by one; a query stops at the first parse
  after which the index claims the domain. \<open>os.ReadFile\<close> is the argument \<open>rd\<close>; the
  decompressors and the case mappings are those of the rule parsers. Warnings are collected as
  values instead of texts. The maps \<open>domainExact\<close> and \<open>domainSuffix\<close> are partial functions.
\<close>

record match_info =
  mt_provider :: string
  mt_section :: string
  mt_action :: string
  mt_rule :: rule

record rule_match =
  rm_provider :: string
  rm_rule :: rule
  rm_section :: string
  rm_action :: string
  rm_matched :: bool

datatype index_warning =
    Unreadable string string | Bad_mrs string mrs_error | Native_rules string

record rule_index =
  ix_warnings :: "index_warning list"
  ix_pending :: "rule_provider list"
  ix_cfg :: config
  ix_exact :: "string \<rightharpoonup> match_info"
  ix_suffix :: "string \<rightharpoonup> match_info"
  ix_sets :: "(domain_set \<times> match_info) list"
  ix_keywords :: "(string \<times> match_info) list"
  ix_cidrs :: "(prefix \<times> match_info) list"

definition to_match :: "match_info \<Rightarrow> rule_match" where
  "to_match i = \<lparr>rm_provider = mt_provider i, rm_rule = mt_rule i, rm_section = mt_section i,
     rm_action = mt_action i, rm_matched = True\<rparr>"

definition set_match :: "match_info \<Rightarrow> string \<Rightarrow> rule_match" where
  "set_match i suffix = \<lparr>rm_provider = mt_provider i,
     rm_rule = (mk_rule Domain_Suffix suffix True True) \<lparr>rl_source := mt_provider i\<rparr>,
     rm_section = mt_section i, rm_action = mt_action i, rm_matched = True\<rparr>"

definition no_match :: rule_match where
  "no_match = \<lparr>rm_provider = [], rm_rule = zero_rule, rm_section = ''default'', rm_action = ''direct'',
     rm_matched = False\<rparr>"

definition new_index :: "config \<Rightarrow> rule_index" where
  "new_index c = \<lparr>ix_warnings = [],
     ix_pending = sort_by (\<lambda>p q. rp_name p < rp_name q)
       (filter (\<lambda>p. rp_enabled p \<and> rp_path p \<noteq> []) (cf_rule_providers c)),
     ix_cfg = c, ix_exact = Map.empty, ix_suffix = Map.empty, ix_sets = [], ix_keywords = [], ix_cidrs = []\<rparr>"

subsection \<open>Looking a domain up\<close>

text \<open>The parents of a domain, from the longest; \<open>lookup_parents\<close> is the loop over them.\<close>

function lookup_parents :: "(string \<rightharpoonup> match_info) \<Rightarrow> string \<Rightarrow> match_info option" where
  "lookup_parents suf d =
     (case str_index d ''.'' of
        None \<Rightarrow> None
      | Some i \<Rightarrow>
          let e = drop (i + 1) d
          in if e = [] then None
             else (case suf e of Some m \<Rightarrow> Some m | None \<Rightarrow> lookup_parents suf e))"
  by pat_completeness auto
termination
proof (relation "measure (\<lambda>(suf, d). length d)")
  fix suf :: "string \<rightharpoonup> match_info" and d :: string and i e
  assume "str_index d ''.'' = Some i" "e = drop (i + 1) d"
  then show "((suf, e), (suf, d)) \<in> measure (\<lambda>(suf, d). length d)" by (cases d) auto
qed auto

declare lookup_parents.simps [simp del]

fun lookup_sets :: "(domain_set \<times> match_info) list \<Rightarrow> string \<Rightarrow> rule_match option" where
  "lookup_sets [] d = None"
| "lookup_sets (x # xs) d =
     (case ds_lookup (fst x) d of Some s \<Rightarrow> Some (set_match (snd x) s) | None \<Rightarrow> lookup_sets xs d)"

definition index_lookup :: "rule_index \<Rightarrow> string \<Rightarrow> rule_match option" where
  "index_lookup x d =
     (case ix_exact x d of Some m \<Rightarrow> Some (to_match m) | None \<Rightarrow>
      case ix_suffix x d of Some m \<Rightarrow> Some (to_match m) | None \<Rightarrow>
      case lookup_parents (ix_suffix x) d of Some m \<Rightarrow> Some (to_match m) | None \<Rightarrow>
        lookup_sets (ix_sets x) d)"

subsection \<open>Parsing the next provider\<close>

definition put_new :: "string \<Rightarrow> match_info \<Rightarrow> (string \<rightharpoonup> match_info) \<Rightarrow> (string \<rightharpoonup> match_info)" where
  "put_new k m q = (if q k = None then q(k \<mapsto> m) else q)"

definition add_cidr :: "match_info \<Rightarrow> rule_index \<Rightarrow> rule_index" where
  "add_cidr m x =
     (case parse_prefix (rl_value (mt_rule m)) of
        None \<Rightarrow> x | Some p \<Rightarrow> x \<lparr>ix_cidrs := ix_cidrs x @ [(p, m)]\<rparr>)"

definition add_mrs_rule :: "match_info \<Rightarrow> rule_index \<Rightarrow> rule \<Rightarrow> rule_index" where
  "add_mrs_rule i x r =
     (if rl_type r \<noteq> Ip_Cidr \<and> rl_type r \<noteq> Ip_Cidr6 then x else add_cidr (i \<lparr>mt_rule := r\<rparr>) x)"

definition add_text_rule :: "match_info \<Rightarrow> rule_index \<Rightarrow> rule \<Rightarrow> rule_index" where
  "add_text_rule i x r =
     (let m = i \<lparr>mt_rule := r\<rparr>
      in case rl_type r of
           Domain \<Rightarrow> x \<lparr>ix_exact := put_new (rl_value r) m (ix_exact x)\<rparr>
         | Domain_Suffix \<Rightarrow> x \<lparr>ix_suffix := put_new (rl_value r) m (ix_suffix x)\<rparr>
         | Domain_Keyword \<Rightarrow> x \<lparr>ix_keywords := ix_keywords x @ [(rl_value r, m)]\<rparr>
         | Ip_Cidr \<Rightarrow> add_cidr m x
         | Ip_Cidr6 \<Rightarrow> add_cidr m x
         | _ \<Rightarrow> x)"

definition index_warn :: "index_warning \<Rightarrow> rule_index \<Rightarrow> rule_index" where
  "index_warn w x = x \<lparr>ix_warnings := ix_warnings x @ [w]\<rparr>"

text \<open>The warning of native rules is given once, before the rules are added.\<close>

definition parse_provider ::
    "(string \<Rightarrow> string + bytes) \<Rightarrow> (bytes \<Rightarrow> string + bytes) \<Rightarrow> (nat \<Rightarrow> bytes \<Rightarrow> string + bytes)
     \<Rightarrow> (string \<Rightarrow> string) \<Rightarrow> (string \<Rightarrow> string) \<Rightarrow> rule_provider \<Rightarrow> rule_index \<Rightarrow> rule_index" where
  "parse_provider rd zstd gunzip lo up rp x =
     (let action = (case section_by_name (ix_cfg x) (rp_section rp) of Some s \<Rightarrow> sc_action s | None \<Rightarrow> []);
          info = \<lparr>mt_provider = rp_name rp, mt_section = rp_section rp, mt_action = action, mt_rule = zero_rule\<rparr>
      in case rd (rp_path rp) of
           Inl e \<Rightarrow> index_warn (Unreadable (rp_name rp) e) x
         | Inr data \<Rightarrow>
             if equal_fold (rp_format rp) ''mrs'' then
               (case parse_mrs_domain_set zstd gunzip (rp_name rp) data of
                  Inr s \<Rightarrow> x \<lparr>ix_sets := ix_sets x @ [(s, info)]\<rparr>
                | Inl e \<Rightarrow>
                    if e \<noteq> Not_domain_behavior then index_warn (Bad_mrs (rp_name rp) e) x
                    else (case parse_mrs zstd gunzip lo up (rp_name rp) data of
                        Inl e' \<Rightarrow> index_warn (Bad_mrs (rp_name rp) e') x
                      | Inr pv \<Rightarrow> foldl (add_mrs_rule info) x (pv_rules pv)))
             else (let rs = pv_rules (parse_text lo up (rp_name rp) data);
                       x' = (if \<exists>r \<in> set rs. rl_type r = Native
                             then index_warn (Native_rules (rp_name rp)) x else x)
                   in foldl (add_text_rule info) x' rs))"

subsection \<open>Queries\<close>

fun match_pending ::
    "(rule_provider \<Rightarrow> rule_index \<Rightarrow> rule_index) \<Rightarrow> rule_provider list \<Rightarrow> string \<Rightarrow> rule_index
     \<Rightarrow> rule_match option \<times> rule_index" where
  "match_pending parse [] d x = (None, x)"
| "match_pending parse (rp # ps) d x =
     (let x' = parse rp (x \<lparr>ix_pending := ps\<rparr>)
      in case index_lookup x' d of Some m \<Rightarrow> (Some m, x') | None \<Rightarrow> match_pending parse ps d x')"

definition index_match ::
    "(rule_provider \<Rightarrow> rule_index \<Rightarrow> rule_index) \<Rightarrow> (string \<Rightarrow> string) \<Rightarrow> string \<Rightarrow> rule_index
     \<Rightarrow> rule_match \<times> rule_index" where
  "index_match parse lo domain x =
     (let d = normalize_domain lo domain
      in case index_lookup x d of
           Some m \<Rightarrow> (m, x)
         | None \<Rightarrow>
             (case match_pending parse (ix_pending x) d x of
                (Some m, x') \<Rightarrow> (m, x')
              | (None, x') \<Rightarrow>
                  (case find (\<lambda>k. str_contains domain (fst k)) (ix_keywords x') of
                     Some k \<Rightarrow> (to_match (snd k), x')
                   | None \<Rightarrow> (no_match, x'))))"

fun parse_pending ::
    "(rule_provider \<Rightarrow> rule_index \<Rightarrow> rule_index) \<Rightarrow> rule_provider list \<Rightarrow> rule_index \<Rightarrow> rule_index" where
  "parse_pending parse [] x = x"
| "parse_pending parse (rp # ps) x = parse_pending parse ps (parse rp (x \<lparr>ix_pending := ps\<rparr>))"

definition index_match_ip ::
    "(rule_provider \<Rightarrow> rule_index \<Rightarrow> rule_index) \<Rightarrow> ip_addr \<times> string \<Rightarrow> rule_index
     \<Rightarrow> rule_match \<times> rule_index" where
  "index_match_ip parse a x =
     (let x' = parse_pending parse (ix_pending x) x
      in case find (\<lambda>e. snd a = [] \<and> prefix_contains (fst e) (fst a)) (ix_cidrs x') of
           Some e \<Rightarrow> (to_match (snd e), x')
         | None \<Rightarrow> (no_match, x'))"

text \<open>One query on an index, and on a fresh one.\<close>

definition index_query ::
    "(rule_provider \<Rightarrow> rule_index \<Rightarrow> rule_index) \<Rightarrow> (string \<Rightarrow> string) \<Rightarrow> string \<Rightarrow> rule_index
     \<Rightarrow> rule_match \<times> rule_index" where
  "index_query parse lo query x =
     (case parse_addr_zone (trim_space query) of
        Some a \<Rightarrow> index_match_ip parse a x
      | None \<Rightarrow> index_match parse lo query x)"

definition match_rule_providers ::
    "(rule_provider \<Rightarrow> rule_index \<Rightarrow> rule_index) \<Rightarrow> (string \<Rightarrow> string) \<Rightarrow> config \<Rightarrow> string \<Rightarrow> rule_match" where
  "match_rule_providers parse lo c query = fst (index_query parse lo query (new_index c))"

end
