(* ===== verification/Routing_Trace.thy ===== *)
theory Routing_Trace
  imports Rule_Index Port_Match
begin

section \<open>The destination trace\<close>

text \<open>
  \<open>internal/checker/routing_trace.go\<close> and the section predicates of
  \<open>internal/config/section_match.go\<close>: which sections list a destination, in which order they are
  tried, and which of them decides for a flow of which the protocol, the port and the outgoing
  device may be unknown. \<open>os.Stat\<close> is the argument \<open>stat\<close>, the error if there is one; the argument
  \<open>parse\<close> is \<^const>\<open>parse_provider\<close> on the files of the system. A status is the text of the
  code; the explanations shown beside it are constructors.
\<close>

record flow =
  fw_protocol :: string
  fw_port :: int
  fw_wan :: string

datatype flow_error = Bad_protocol | Bad_flow_port

definition validate_flow :: "flow \<Rightarrow> flow_error option" where
  "validate_flow f =
     (if fw_protocol f \<noteq> [] \<and> fw_protocol f \<noteq> ''tcp'' \<and> fw_protocol f \<noteq> ''udp'' then Some Bad_protocol
      else if fw_port f < 0 \<or> 65535 < fw_port f then Some Bad_flow_port
      else None)"

datatype match_error = Bad_match_protocol string | Bad_ports port_error

definition validate_match :: "route_section \<Rightarrow> match_error option" where
  "validate_match s =
     (if sc_action s \<noteq> ''proxy'' \<and> sc_action s \<noteq> ''zapret'' then None
      else if sc_match_protocol s \<notin> {[], ''any'', ''tcp'', ''udp'', ''tcp_udp''}
      then Some (Bad_match_protocol (sc_match_protocol s))
      else (case normalize_destination_ports (sc_destination_ports s) of
              Inl e \<Rightarrow> Some (Bad_ports e) | Inr _ \<Rightarrow> None))"

definition matches_protocol :: "route_section \<Rightarrow> string \<Rightarrow> bool" where
  "matches_protocol s protocol \<longleftrightarrow>
     (if sc_action s \<noteq> ''proxy'' \<and> sc_action s \<noteq> ''zapret'' then True
      else if sc_match_protocol s = [] \<or> sc_match_protocol s = ''any'' then True
      else if sc_match_protocol s = ''tcp_udp'' then protocol = ''tcp'' \<or> protocol = ''udp''
      else sc_match_protocol s = protocol)"

subsection \<open>The scope of a section\<close>

datatype flow_reason =
    Global_exclusion | Unsupported_action | Protocol_mismatch | Tcp_only | Port_mismatch
  | Need_protocol_port | Quic_blocked | Scope_matches | Outside_zapret | Need_zapret_flow
  | Wan_unclaimed | Zapret_matches | Family_disabled | Earlier_terminal | Earlier_conditional

text \<open>
  The inner loops of the zapret case keep the pair \<open>(possible, wanMatch)\<close>: \<open>scope_protocol\<close> is the
  body for one protocol of one strategy, \<open>scope_strategy\<close> the body for one strategy name.
\<close>

definition scope_protocol ::
    "route_section \<Rightarrow> flow \<Rightarrow> zapret_strategy \<Rightarrow> zapret_profile option \<Rightarrow> bool \<times> bool \<Rightarrow> string \<Rightarrow> bool \<times> bool" where
  "scope_protocol s f zs p acc proto =
     (if fw_protocol f \<noteq> [] \<and> proto \<noteq> fw_protocol f \<or> \<not> matches_protocol s proto then acc
      else (let ports = (if proto = ''udp'' then zs_udp_ports zs else zs_tcp_ports zs)
            in case intersect_destination_ports ports (sc_destination_ports s) of (both, ok) \<Rightarrow>
                 if \<not> ok then acc
                 else if fw_port f \<noteq> 0 \<and> \<not> snd (intersect_destination_ports both (itoa (fw_port f))) then acc
                 else (True, snd acc \<or> (case p of None \<Rightarrow> False
                     | Some q \<Rightarrow> zp_interfaces q = [] \<or> fw_wan f \<in> set (zp_interfaces q)))))"

definition scope_strategy :: "config \<Rightarrow> route_section \<Rightarrow> flow \<Rightarrow> bool \<times> bool \<Rightarrow> string \<Rightarrow> bool \<times> bool" where
  "scope_strategy c s f acc name =
     (case zapret_strategy_by_name c name of
        None \<Rightarrow> acc
      | Some zs \<Rightarrow> foldl (scope_protocol s f zs (zapret_profile_by_name c (zs_profile zs))) acc (zs_protocols zs))"

definition zapret_scope :: "config \<Rightarrow> route_section \<Rightarrow> flow \<Rightarrow> bool \<times> bool" where
  "zapret_scope c s f = foldl (scope_strategy c s f) (False, False) (sc_zapret_strategies s)"

definition section_flow_scope :: "config \<Rightarrow> route_section \<Rightarrow> flow \<Rightarrow> string \<times> flow_reason" where
  "section_flow_scope c s f =
     (if sc_action s = ''direct'' \<or> sc_action s = ''reject'' then (''match'', Global_exclusion)
      else if sc_action s \<noteq> ''proxy'' \<and> sc_action s \<noteq> ''zapret'' then (''skip'', Unsupported_action)
      else if fw_protocol f \<noteq> [] \<and> \<not> matches_protocol s (fw_protocol f) then (''skip'', Protocol_mismatch)
      else if fw_protocol f = ''udp'' \<and> sc_action s = ''proxy'' \<and> sc_udp_mode s = ''tcp_only''
      then (''skip'', Tcp_only)
      else if fw_port f \<noteq> 0 \<and> \<not> snd (intersect_destination_ports (sc_destination_ports s) (itoa (fw_port f)))
      then (''skip'', Port_mismatch)
      else if sc_action s = ''proxy'' then
        (if fw_protocol f = []
            \<or> fw_port f = 0 \<and> (sc_destination_ports s \<noteq> [] \<or> sc_udp_mode s = ''block_quic'')
         then (''conditional'', Need_protocol_port)
         else if fw_protocol f = ''udp'' \<and> fw_port f = 443 \<and> sc_udp_mode s = ''block_quic''
         then (''reject'', Quic_blocked)
         else (''match'', Scope_matches))
      else (case zapret_scope c s f of (possible, wan_match) \<Rightarrow>
        if \<not> possible then (''skip'', Outside_zapret)
        else if fw_protocol f = [] \<or> fw_port f = 0 \<or> fw_wan f = [] then (''conditional'', Need_zapret_flow)
        else if \<not> wan_match then (''direct'', Wan_unclaimed)
        else (''match'', Zapret_matches)))"

subsection \<open>The order of the sections\<close>

definition dispatch_rank :: "route_section \<Rightarrow> nat" where
  "dispatch_rank s = (if sc_action s = ''reject'' then 0 else if sc_action s = ''direct'' then 1 else 2)"

definition dispatch_less :: "route_section \<Rightarrow> route_section \<Rightarrow> bool" where
  "dispatch_less s t =
     (if dispatch_rank s \<noteq> dispatch_rank t then dispatch_rank s < dispatch_rank t
      else sc_priority s < sc_priority t)"

definition routing_sections :: "config \<Rightarrow> route_section list" where
  "routing_sections c = sort_by dispatch_less (cf_sections c)"

subsection \<open>The lists that name the destination\<close>

datatype trace_warning = Unavailable string string | Index_warned index_warning

record candidates =
  cd_cfg :: config
  cd_matches :: "string \<Rightarrow> string list"
  cd_warnings :: "trace_warning list"

text \<open>
  A provider whose section does not exist but whose action is direct or reject belongs to the
  section of that name, which is added when there is none.
\<close>

definition provider_section ::
    "config \<Rightarrow> rule_provider \<Rightarrow> (route_section \<times> config \<times> rule_provider) option" where
  "provider_section c rp =
     (case section_by_name c (rp_section rp) of
        Some sec \<Rightarrow> Some (sec, c, rp)
      | None \<Rightarrow>
          (let action = (if rp_section rp = ''direct'' \<or> rp_section rp = ''reject'' then rp_section rp
                         else rp_route_action rp)
           in if action \<noteq> ''direct'' \<and> action \<noteq> ''reject'' then None
              else (case section_by_name c action of
                  Some sec \<Rightarrow> Some (sec, c, rp \<lparr>rp_section := sc_name sec\<rparr>)
                | None \<Rightarrow>
                    (let sec = zero_route_section \<lparr>sc_name := action, sc_action := action, sc_enabled := True,
                           sc_ipv4_enabled := True, sc_ipv6_enabled := True\<rparr>
                     in Some (sec, c \<lparr>cf_sections := cf_sections c @ [sec]\<rparr>,
                          rp \<lparr>rp_section := action\<rparr>)))))"

definition trace_provider ::
    "(string \<Rightarrow> string option) \<Rightarrow> (rule_provider \<Rightarrow> rule_index \<Rightarrow> rule_index) \<Rightarrow> (string \<Rightarrow> string)
     \<Rightarrow> string \<Rightarrow> candidates \<Rightarrow> rule_provider \<Rightarrow> candidates" where
  "trace_provider stat parse lo query t rp0 =
     (if \<not> rp_enabled rp0 then t
      else case provider_section (cd_cfg t) rp0 of
          None \<Rightarrow> t
        | Some (sec, c, rp) \<Rightarrow>
            (let t' = t \<lparr>cd_cfg := c\<rparr>
             in if \<not> sc_enabled sec then t'
                else (case stat (rp_path rp) of
                    Some e \<Rightarrow> t' \<lparr>cd_warnings := cd_warnings t' @ [Unavailable (rp_name rp) e]\<rparr>
                  | None \<Rightarrow>
                      (case index_query parse lo query (new_index (c \<lparr>cf_rule_providers := [rp]\<rparr>)) of
                         (m, x) \<Rightarrow>
                           (let t'' = t' \<lparr>cd_warnings := cd_warnings t' @ map Index_warned (ix_warnings x)\<rparr>
                            in if rm_matched m
                               then t'' \<lparr>cd_matches := (cd_matches t'') (sc_name sec :=
                                      cd_matches t'' (sc_name sec) @ [rp_name rp])\<rparr>
                               else t'')))))"

definition trace_candidates ::
    "(string \<Rightarrow> string option) \<Rightarrow> (rule_provider \<Rightarrow> rule_index \<Rightarrow> rule_index) \<Rightarrow> (string \<Rightarrow> string)
     \<Rightarrow> config \<Rightarrow> string \<Rightarrow> candidates" where
  "trace_candidates stat parse lo c query =
     foldl (trace_provider stat parse lo query)
       \<lparr>cd_cfg = c, cd_matches = (\<lambda>_. []), cd_warnings = []\<rparr> (cf_rule_providers c)"

subsection \<open>The dispatch\<close>

record routing_step =
  rs_section :: string
  rs_priority :: int
  rs_action :: string
  rs_providers :: "string list"
  rs_status :: string
  rs_reason :: flow_reason

record routing_trace =
  rt_warnings :: "trace_warning list"
  rt_steps :: "routing_step list"
  rt_action :: string
  rt_section :: string

record dispatch =
  dp_action :: string
  dp_section :: string
  dp_uncertain :: bool
  dp_terminal :: bool
  dp_steps :: "routing_step list"

text \<open>The scope of a section for the query: an IPv6 address is skipped when IPv6 is not routed.\<close>

definition query_scope :: "(string \<Rightarrow> string) \<Rightarrow> config \<Rightarrow> string \<Rightarrow> flow \<Rightarrow> route_section \<Rightarrow> string \<times> flow_reason" where
  "query_scope lo c query f s =
     (case parse_addr_zone (trim_space query) of
        Some (V6 _, _) \<Rightarrow>
          if \<not> ipv6_routed lo c \<and> sc_action s \<noteq> ''direct'' \<and> sc_action s \<noteq> ''reject''
          then (''skip'', Family_disabled) else section_flow_scope c s f
      | _ \<Rightarrow> section_flow_scope c s f)"

definition scope_action :: "route_section \<Rightarrow> string \<Rightarrow> string \<times> string" where
  "scope_action s status =
     (if status = ''reject'' \<or> status = ''direct'' then (status, ''match'') else (sc_action s, status))"

definition settle :: "string \<Rightarrow> string \<Rightarrow> string \<times> flow_reason \<Rightarrow> dispatch \<Rightarrow> (string \<times> flow_reason) \<times> dispatch" where
  "settle action name st d =
     (if fst st \<noteq> ''match'' \<and> fst st \<noteq> ''conditional'' then (st, d)
      else (case (if dp_terminal d then ((''shadowed'', Earlier_terminal), d)
                  else if dp_uncertain d then ((''conditional'', Earlier_conditional), d)
                  else if fst st = ''match''
                  then (st, d \<lparr>dp_action := action, dp_section := name, dp_terminal := True\<rparr>)
                  else (st, d)) of (st', d') \<Rightarrow>
              (st', if fst st' = ''conditional''
                    then d' \<lparr>dp_uncertain := True, dp_action := ''conditional''\<rparr> else d')))"

definition dispatch_section ::
    "(string \<Rightarrow> string) \<Rightarrow> config \<Rightarrow> string \<Rightarrow> flow \<Rightarrow> (string \<Rightarrow> string list) \<Rightarrow> dispatch \<Rightarrow> route_section \<Rightarrow> dispatch" where
  "dispatch_section lo c query f matches d s =
     (let providers = matches (sc_name s)
      in if \<not> sc_enabled s \<or> providers = [] then d
         else (case query_scope lo c query f s of (status, reason) \<Rightarrow>
               case scope_action s status of (action, status') \<Rightarrow>
               case settle action (sc_name s) (status', reason) d of (st, d') \<Rightarrow>
                 d' \<lparr>dp_steps := dp_steps d' @
                   [\<lparr>rs_section = sc_name s, rs_priority = sc_priority s, rs_action = action,
                     rs_providers = sort providers, rs_status = fst st, rs_reason = snd st\<rparr>]\<rparr>))"

definition start_dispatch :: dispatch where
  "start_dispatch = \<lparr>dp_action = ''direct'', dp_section = [], dp_uncertain = False, dp_terminal = False,
     dp_steps = []\<rparr>"

definition trace_destination ::
    "(string \<Rightarrow> string option) \<Rightarrow> (rule_provider \<Rightarrow> rule_index \<Rightarrow> rule_index) \<Rightarrow> (string \<Rightarrow> string)
     \<Rightarrow> config \<Rightarrow> string \<Rightarrow> flow \<Rightarrow> routing_trace" where
  "trace_destination stat parse lo c query f =
     (let t = trace_candidates stat parse lo c query;
          d = foldl (dispatch_section lo (cd_cfg t) query f (cd_matches t)) start_dispatch
                (routing_sections (cd_cfg t));
          ok = (cd_warnings t = [])
      in \<lparr>rt_warnings = cd_warnings t, rt_steps = dp_steps d,
          rt_action = (if ok then dp_action d else ''conditional''),
          rt_section = (if ok then dp_section d else [])\<rparr>)"

end
