(* ===== verification/Nft_Rules.thy ===== *)
theory Nft_Rules
  imports Routing_Trace Zapret_Apps
begin

section \<open>The nftables ruleset\<close>

text \<open>
  \<open>internal/generator/nftables.go\<close> with \<open>section_match.go\<close> of the same package and
  \<open>zapretInstances\<close> of \<open>zapret.go\<close>: the text that \<open>nft -f\<close> loads. A ruleset is the list of its
  lines. The rules that match a destination set are the records \<open>set_rule\<close>, so that what they
  select can be stated; \<open>rule_text\<close> is the line the code prints for one. The builder \<open>nat\<close> of the
  code is never written to, so its chain is never printed.
\<close>

text \<open>\<open>itoa\<close> of the generator prints nothing for a negative number.\<close>

definition gen_itoa :: "int \<Rightarrow> string" where
  "gen_itoa i = (if i < 0 then [] else itoa i)"

definition str_count :: "char \<Rightarrow> string \<Rightarrow> nat" where
  "str_count ch s = length (filter (\<lambda>x. x = ch) s)"

definition hex32 :: "32 word \<Rightarrow> string" where
  "hex32 w = ''0x'' @ hex_of (unat w)"

definition in_quotes :: "string \<Rightarrow> string" where
  "in_quotes s = CHR 0x22 # s @ [CHR 0x22]"

subsection \<open>Sections and ports\<close>

definition sections_by_priority :: "route_section list \<Rightarrow> route_section list" where
  "sections_by_priority ss = sort_by (\<lambda>s t. sc_priority s < sc_priority t) (filter sc_enabled ss)"

definition nft_port_expr :: "string \<Rightarrow> string \<Rightarrow> string \<Rightarrow> string" where
  "nft_port_expr proto dir ports =
     (if trim_space ports = [] then []
      else '' '' @ proto @ '' '' @ dir @ '' { '' @ trim_space ports @ '' }'')"

text \<open>The ports of a section; a list that does not parse counts as empty, as the error is dropped.\<close>

definition section_ports :: "route_section \<Rightarrow> string" where
  "section_ports s =
     (if sc_action s \<noteq> ''proxy'' \<and> sc_action s \<noteq> ''zapret'' then []
      else (case normalize_destination_ports (sc_destination_ports s) of Inl _ \<Rightarrow> [] | Inr v \<Rightarrow> v))"

definition section_port_expr :: "route_section \<Rightarrow> string \<Rightarrow> string" where
  "section_port_expr s protocol = nft_port_expr protocol ''dport'' (section_ports s)"

definition section_match_expr :: "route_section \<Rightarrow> string" where
  "section_match_expr s =
     (if sc_action s \<noteq> ''proxy'' \<and> sc_action s \<noteq> ''zapret'' then []
      else (let ports = section_ports s; mp = sc_match_protocol s
            in if mp = ''tcp'' \<or> mp = ''udp''
               then '' meta l4proto '' @ mp @ nft_port_expr mp ''dport'' ports
               else if mp = ''tcp_udp'' \<or> ports \<noteq> []
               then '' meta l4proto { tcp, udp }'' @ nft_port_expr ''th'' ''dport'' ports
               else []))"

definition protocol_enabled :: "zapret_strategy \<Rightarrow> string \<Rightarrow> bool" where
  "protocol_enabled zs proto \<longleftrightarrow> (\<exists>p \<in> set (zs_protocols zs). equal_fold (trim_space p) proto)"

definition section_zapret_strategy :: "route_section \<Rightarrow> zapret_strategy \<Rightarrow> zapret_strategy" where
  "section_zapret_strategy s zs =
     (let narrow = (\<lambda>proto ports. if protocol_enabled zs proto \<and> matches_protocol s proto
            then (case intersect_destination_ports ports (sc_destination_ports s) of
                    (v, ok) \<Rightarrow> if ok then Some v else None) else None);
          t = narrow ''tcp'' (zs_tcp_ports zs); u = narrow ''udp'' (zs_udp_ports zs)
      in zs \<lparr>zs_tcp_ports := (case t of Some v \<Rightarrow> v | None \<Rightarrow> zs_tcp_ports zs),
             zs_udp_ports := (case u of Some v \<Rightarrow> v | None \<Rightarrow> zs_udp_ports zs),
             zs_protocols := (if t = None then [] else [''tcp'']) @ (if u = None then [] else [''udp''])\<rparr>)"

subsection \<open>What a zapret section claims\<close>

datatype port_claim = All_ports | Some_ports string

record claims =
  cl_claims :: "string \<Rightarrow> port_claim option"
  cl_seen :: "string \<Rightarrow> string list"

fun claim_parts :: "string list \<Rightarrow> string list \<Rightarrow> string list \<times> string list" where
  "claim_parts [] seen = ([], seen)"
| "claim_parts (raw # raws) seen =
     (let p = trim_space raw
      in if p = [] \<or> p \<in> set seen then claim_parts raws seen
         else (case claim_parts raws (seen @ [p]) of (ps, seen') \<Rightarrow> (p # ps, seen')))"

definition add_claim :: "string \<Rightarrow> string \<Rightarrow> claims \<Rightarrow> claims" where
  "add_claim proto ports q =
     (if cl_claims q proto = Some All_ports then q
      else if trim_space ports = [] then q \<lparr>cl_claims := (cl_claims q) (proto \<mapsto> All_ports)\<rparr>
      else (case claim_parts (split_on (CHR '','') ports) (cl_seen q proto) of (new, seen) \<Rightarrow>
              let old = (case cl_claims q proto of Some (Some_ports v) \<Rightarrow> if v = [] then [] else [v] | _ \<Rightarrow> [])
              in q \<lparr>cl_claims := (cl_claims q) (proto \<mapsto> Some_ports (join '', '' (old @ new))),
                    cl_seen := (cl_seen q) (proto := seen)\<rparr>))"

definition claim_strategy :: "config \<Rightarrow> route_section \<Rightarrow> claims \<Rightarrow> string \<Rightarrow> claims" where
  "claim_strategy c s q name =
     (case zapret_strategy_by_name c name of
        None \<Rightarrow> q
      | Some zs0 \<Rightarrow>
          (let zs = section_zapret_strategy s zs0;
               q' = (if protocol_enabled zs ''tcp'' then add_claim ''tcp'' (zs_tcp_ports zs) q else q)
           in if protocol_enabled zs ''udp'' then add_claim ''udp'' (zs_udp_ports zs) q' else q'))"

definition section_claims :: "config \<Rightarrow> route_section \<Rightarrow> string \<Rightarrow> port_claim option" where
  "section_claims c s =
     cl_claims (foldl (claim_strategy c s) \<lparr>cl_claims = (\<lambda>_. None), cl_seen = (\<lambda>_. [])\<rparr> (sc_zapret_strategies s))"

subsection \<open>Rules over destination sets\<close>

datatype rule_action = Do_reject | Do_return | Do_tproxy string int | Do_mark string

record set_rule =
  sr_family :: string
  sr_set :: string
  sr_scope :: "(string \<times> string) option"
  sr_quic :: bool
  sr_action :: rule_action

definition dns_set_name :: "string \<Rightarrow> string" where "dns_set_name sn = ''dns_'' @ sn"
definition nft_set_refs :: "string \<Rightarrow> string list" where "nft_set_refs sn = [sn, dns_set_name sn]"

definition counter_tag :: "string \<Rightarrow> string" where
  "counter_tag sn = '' counter name '' @ in_quotes sn"

definition mark_text :: "string \<Rightarrow> string" where
  "mark_text fwmark = '' meta mark set meta mark | '' @ fwmark"

definition rule_text :: "string \<Rightarrow> set_rule \<Rightarrow> string" where
  "rule_text fwmark r =
     ''    '' @ sr_family r @ '' daddr @'' @ sr_set r
       @ (case sr_scope r of None \<Rightarrow> []
          | Some (proto, ports) \<Rightarrow> '' meta l4proto '' @ proto @ nft_port_expr proto ''dport'' ports)
       @ (case sr_action r of Do_tproxy _ _ \<Rightarrow> mark_text fwmark | Do_mark _ \<Rightarrow> mark_text fwmark | _ \<Rightarrow> [])
       @ counter_tag (sr_set r)
       @ (if sr_quic r then '' udp dport 443'' else [])
       @ (case sr_action r of
            Do_reject \<Rightarrow> '' reject'' | Do_return \<Rightarrow> '' return'' | Do_mark _ \<Rightarrow> '' accept''
          | Do_tproxy family port \<Rightarrow> '' tproxy '' @ family @ '' to :'' @ gen_itoa port @ '' accept'')"

definition set_rule_for :: "rule_action \<Rightarrow> string \<Rightarrow> string \<Rightarrow> set_rule" where
  "set_rule_for a family sn = \<lparr>sr_family = family, sr_set = sn, sr_scope = None, sr_quic = False, sr_action = a\<rparr>"

text \<open>One rule for each reference of a set, in the IPv4 table first and in IPv6 when it is routed.\<close>

definition both_families :: "bool \<Rightarrow> string \<Rightarrow> string \<Rightarrow> (string \<Rightarrow> string \<Rightarrow> set_rule list) \<Rightarrow> set_rule list" where
  "both_families v6 set4 set6 f =
     concat (map (f ''ip'') (nft_set_refs set4))
       @ (if v6 then concat (map (f ''ip6'') (nft_set_refs set6)) else [])"

definition claim_returns :: "config \<Rightarrow> route_section \<Rightarrow> bool \<Rightarrow> set_rule list" where
  "claim_returns c s v6 =
     (let claims = section_claims c s
      in both_families v6 (nft_set4 s) (nft_set6 s) (\<lambda>family sn.
           concat (map (\<lambda>proto. case claims proto of
               None \<Rightarrow> []
             | Some cl \<Rightarrow> [(set_rule_for Do_return family sn)
                 \<lparr>sr_scope := Some (proto, case cl of All_ports \<Rightarrow> [] | Some_ports v \<Rightarrow> v)\<rparr>])
             [''tcp'', ''udp''])))"

definition proxied_protocols :: "route_section \<Rightarrow> string list" where
  "proxied_protocols s =
     (if matches_protocol s ''tcp'' then [''tcp''] else [])
       @ (if sc_udp_mode s \<noteq> ''tcp_only'' \<and> matches_protocol s ''udp'' then [''udp''] else [])"

definition proxy_rules :: "route_section \<Rightarrow> bool \<Rightarrow> (string \<Rightarrow> rule_action) \<Rightarrow> set_rule list" where
  "proxy_rules s v6 act =
     both_families v6 (nft_set4 s) (nft_set6 s) (\<lambda>family sn.
       map (\<lambda>proto. (set_rule_for (act family) family sn) \<lparr>sr_scope := Some (proto, section_ports s)\<rparr>)
         (proxied_protocols s))"

definition quic_rules :: "route_section \<Rightarrow> bool \<Rightarrow> set_rule list" where
  "quic_rules s v6 =
     (if sc_udp_mode s = ''block_quic'' \<and> matches_protocol s ''udp''
         \<and> snd (intersect_destination_ports (sc_destination_ports s) ''443'')
      then both_families v6 (nft_set4 s) (nft_set6 s) (\<lambda>family sn. [(set_rule_for Do_reject family sn) \<lparr>sr_quic := True\<rparr>])
      else [])"

subsection \<open>Native expressions\<close>

definition native_action_lines :: "string \<Rightarrow> route_section \<Rightarrow> string \<Rightarrow> bool \<Rightarrow> string list" where
  "native_action_lines expr s fwmark output =
     (if sc_action s \<noteq> ''proxy'' \<and> sc_action s \<noteq> [] then []
      else if \<exists>proto \<in> set [''tcp'', ''udp'']. str_contains expr (''meta l4proto '' @ proto)
          \<and> (\<not> matches_protocol s proto
               \<or> proto = ''udp'' \<and> sc_action s = ''proxy'' \<and> sc_udp_mode s = ''tcp_only'') then []
      else (let e = expr @ section_match_expr s;
                act = (\<lambda>family. mark_text fwmark
                  @ (if output then '' accept''
                     else '' tproxy '' @ family @ '' to :'' @ gen_itoa (sc_tproxy_port s) @ '' accept''))
            in if str_contains e ''ip6 '' then [''    '' @ e @ act ''ip6'']
               else if str_contains e ''ip '' then [''    '' @ e @ act ''ip'']
               else [''    ip version 4 '' @ e @ act ''ip'', ''    ip6 version 6 '' @ e @ act ''ip6'']))"

definition native_lines :: "string \<Rightarrow> route_section \<Rightarrow> string \<Rightarrow> string list" where
  "native_lines expr s fwmark = native_action_lines expr s fwmark False"

subsection \<open>The destination pass\<close>

text \<open>An entry of a chain: a rule over a set, or a line that is copied.\<close>

datatype chain_entry = Set_rule set_rule | Raw_line string

fun entry_text :: "string \<Rightarrow> chain_entry \<Rightarrow> string" where
  "entry_text fwmark (Set_rule r) = rule_text fwmark r"
| "entry_text fwmark (Raw_line l) = l"

definition plain_rules :: "rule_action \<Rightarrow> bool \<Rightarrow> string \<Rightarrow> string \<Rightarrow> set_rule list" where
  "plain_rules a v6 set4 set6 = both_families v6 set4 set6 (\<lambda>family sn. [set_rule_for a family sn])"

definition section_entries ::
    "config \<Rightarrow> (string \<Rightarrow> string list) \<Rightarrow> bool \<Rightarrow> route_section \<Rightarrow> chain_entry list" where
  "section_entries c native v6 s =
     (if sc_action s = ''reject'' then map Set_rule (plain_rules Do_reject v6 (nft_set4 s) (nft_set6 s))
      else if sc_action s = ''direct'' then map Set_rule (plain_rules Do_return v6 (nft_set4 s) (nft_set6 s))
      else if sc_action s = ''zapret'' then map Set_rule (claim_returns c s v6)
      else if sc_action s \<noteq> ''proxy'' then []
      else map Raw_line (concat (map (\<lambda>e. native_lines e s (st_fw_mark (cf_settings c))) (native (sc_name s))))
             @ map Set_rule (quic_rules s v6)
             @ map Set_rule (proxy_rules s v6 (\<lambda>family. Do_tproxy family (sc_tproxy_port s))))"

definition destination_pass :: "config \<Rightarrow> (string \<Rightarrow> string list) \<Rightarrow> bool \<Rightarrow> chain_entry list" where
  "destination_pass c native v6 =
     map Set_rule (plain_rules Do_reject v6 ''reject4'' ''reject6'' @ plain_rules Do_return v6 ''direct4'' ''direct6'')
       @ concat (map (section_entries c native v6) (sections_by_priority (cf_sections c)))"

subsection \<open>Source addresses\<close>

definition masked_prefix :: "prefix \<Rightarrow> prefix" where
  "masked_prefix p =
     (case p of (V4 a, n) \<Rightarrow> (V4 (masked32 n a), n) | (V6 a, n) \<Rightarrow> (V6 (masked128 n a), n))"

definition is_v6 :: "ip_addr \<Rightarrow> bool" where
  "is_v6 a = (case a of V4 _ \<Rightarrow> False | V6 _ \<Rightarrow> True)"

definition normalized_cidr :: "bool \<Rightarrow> string \<Rightarrow> string" where
  "normalized_cidr v6 v =
     (case parse_prefix v of
        Some p \<Rightarrow> if is_v6 (fst p) \<noteq> v6 then [] else prefix_string (masked_prefix p)
      | None \<Rightarrow>
          (case parse_addr_zone v of
             Some (a, z) \<Rightarrow>
               if is_v6 a \<noteq> v6 then []
               else addr_string a @ (if z = [] then [] else CHR ''%'' # z) @ (if v6 then ''/128'' else ''/32'')
           | None \<Rightarrow> []))"

fun normalize_cidrs_from :: "bool \<Rightarrow> string list \<Rightarrow> string list \<Rightarrow> string list" where
  "normalize_cidrs_from v6 seen [] = []"
| "normalize_cidrs_from v6 seen (v # vs) =
     (let n = normalized_cidr v6 (trim_space v)
      in if n = [] \<or> n \<in> set seen then normalize_cidrs_from v6 seen vs
         else n # normalize_cidrs_from v6 (n # seen) vs)"

definition normalize_cidrs :: "string list \<Rightarrow> bool \<Rightarrow> string list" where
  "normalize_cidrs vs v6 = normalize_cidrs_from v6 [] vs"

definition nft_cidr_set_expr :: "string list \<Rightarrow> string" where
  "nft_cidr_set_expr vs =
     (case vs of [] \<Rightarrow> [] | [v] \<Rightarrow> v | _ \<Rightarrow> ''{ '' @ join '', '' vs @ '' }'')"

definition source_bypass_lines :: "config \<Rightarrow> bool \<Rightarrow> string list" where
  "source_bypass_lines c v6 =
     (let e4 = nft_cidr_set_expr (normalize_cidrs (by_source_cidr4 (cf_bypass c)) False);
          e6 = nft_cidr_set_expr (normalize_cidrs (by_source_cidr6 (cf_bypass c)) True)
      in (if e4 \<noteq> [] then [''    ip saddr '' @ e4 @ '' return''] else [])
           @ (if v6 \<and> e6 \<noteq> [] then [''    ip6 saddr '' @ e6 @ '' return''] else []))"

text \<open>The TPROXY lines of one family behind a match on the client.\<close>

definition client_proxy_lines :: "string \<Rightarrow> route_section \<Rightarrow> string \<Rightarrow> string \<Rightarrow> string list" where
  "client_proxy_lines fwmark s family client =
     map (\<lambda>proto. ''    '' @ client @ '' meta l4proto '' @ proto @ section_port_expr s proto @ mark_text fwmark
         @ '' tproxy '' @ family @ '' to :'' @ gen_itoa (sc_tproxy_port s) @ '' accept'') (proxied_protocols s)"

definition device_macs :: "config \<Rightarrow> (device \<Rightarrow> bool) \<Rightarrow> string list" where
  "device_macs c f = map dv_mac (filter (\<lambda>d. dv_enabled d \<and> f d \<and> dv_mac d \<noteq> []) (cf_devices c))"

definition excluded_device_lines :: "config \<Rightarrow> string list" where
  "excluded_device_lines c =
     (let macs = device_macs c dv_exclude
      in if macs = [] then [] else [''    ether saddr { '' @ join '', '' macs @ '' } return''])"

definition section_device_lines :: "config \<Rightarrow> bool \<Rightarrow> route_section \<Rightarrow> string list" where
  "section_device_lines c v6 s =
     (let macs = device_macs c (\<lambda>d. dv_section d = sc_name s);
          client = ''ether saddr { '' @ join '', '' macs @ '' }''
      in if macs = [] then []
         else if sc_action s = ''reject'' then [''    '' @ client @ '' reject'']
         else if sc_action s = ''direct'' then [''    '' @ client @ '' return'']
         else if sc_action s = ''proxy'' \<or> sc_action s = [] then
           client_proxy_lines (st_fw_mark (cf_settings c)) s ''ip'' (''meta nfproto ipv4 '' @ client)
             @ (if v6 then client_proxy_lines (st_fw_mark (cf_settings c)) s ''ip6'' (''meta nfproto ipv6 '' @ client) else [])
         else [])"

definition section_source_lines :: "config \<Rightarrow> bool \<Rightarrow> route_section \<Rightarrow> string list" where
  "section_source_lines c v6 s =
     (let e4 = nft_cidr_set_expr (normalize_cidrs (sc_source_cidr4 s) False);
          e6 = (if v6 then nft_cidr_set_expr (normalize_cidrs (sc_source_cidr6 s) True) else []);
          each = (\<lambda>f. (if e4 \<noteq> [] then f ''ip'' (''ip saddr '' @ e4) else [])
                    @ (if e6 \<noteq> [] then f ''ip6'' (''ip6 saddr '' @ e6) else []))
      in if sc_action s = ''reject'' then each (\<lambda>family client. [''    '' @ client @ '' reject''])
         else if sc_action s = ''direct'' then each (\<lambda>family client. [''    '' @ client @ '' return''])
         else if sc_action s = ''proxy'' \<or> sc_action s = [] then
           each (client_proxy_lines (st_fw_mark (cf_settings c)) s)
         else [])"

subsection \<open>The zapret chains\<close>

definition zapret_selector_mask :: "32 word" where "zapret_selector_mask = 0x00FF0000"

definition has_enabled_zapret_strategies :: "config \<Rightarrow> bool" where
  "has_enabled_zapret_strategies c \<longleftrightarrow>
     (\<exists>s \<in> set (cf_sections c). sc_enabled s \<and> sc_action s = ''zapret''
        \<and> (\<exists>n \<in> set (sc_zapret_strategies s). zapret_strategy_by_name c n \<noteq> None))"

text \<open>The strategies in use with their profiles, each name once.\<close>

fun zapret_instances_from ::
    "config \<Rightarrow> string list \<Rightarrow> string list \<Rightarrow> (zapret_profile \<times> zapret_strategy) list" where
  "zapret_instances_from c seen [] = []"
| "zapret_instances_from c seen (n # ns) =
     (if n \<in> set seen then zapret_instances_from c seen ns
      else (case zapret_strategy_by_name c n of
          None \<Rightarrow> zapret_instances_from c seen ns
        | Some zs \<Rightarrow>
            (case zapret_profile_by_name c (zs_profile zs) of
               None \<Rightarrow> zapret_instances_from c seen ns
             | Some p \<Rightarrow> (p, zs) # zapret_instances_from c (n # seen) ns)))"

definition zapret_instances :: "config \<Rightarrow> (zapret_profile \<times> zapret_strategy) list" where
  "zapret_instances c =
     zapret_instances_from c []
       (concat (map sc_zapret_strategies (filter (\<lambda>s. sc_enabled s \<and> sc_action s = ''zapret'') (cf_sections c))))"

definition nft_iface_expr :: "string \<Rightarrow> string list \<Rightarrow> string" where
  "nft_iface_expr keyword ifaces =
     (let vals = map in_quotes (new_parts [] ifaces)
      in case vals of [] \<Rightarrow> [] | [v] \<Rightarrow> '' '' @ keyword @ '' '' @ v
         | _ \<Rightarrow> '' '' @ keyword @ '' { '' @ join '', '' vals @ '' }'')"

definition zapret_queue_selector :: "zapret_strategy \<Rightarrow> string" where
  "zapret_queue_selector zs =
     '' meta mark set meta mark & 0xff00ffff | '' @ hex32 (zs_selector_mark zs)
       @ '' ct mark set ct mark & 0xff00ffff | '' @ hex32 (zs_selector_mark zs)"

definition queue_text :: string where
  "queue_text = '' queue num '' @ gen_itoa zapret_queue_base @ '' bypass''"

definition postrouting_set_lines ::
    "string \<Rightarrow> string \<Rightarrow> string \<Rightarrow> zapret_profile \<Rightarrow> zapret_strategy \<Rightarrow> string list" where
  "postrouting_set_lines family dst counter p zs =
     (let oif = nft_iface_expr ''oifname'' (zp_interfaces p) @ '' ct mark & '' @ hex32 zapret_selector_mask
            @ '' == { 0x0, '' @ hex32 (zs_selector_mark zs) @ '' }'';
          cnt = (if counter \<noteq> [] then counter_tag counter else []);
          start = (\<lambda>proto ports. ''    '' @ family @ '' daddr '' @ dst @ oif @ '' meta mark & '' @ zp_fw_mark p
            @ '' == 0 meta l4proto '' @ proto @ nft_port_expr proto ''dport'' ports);
          packets = (\<lambda>n. '' ct original packets >= 1 ct original packets <= '' @ gen_itoa n);
          finish = cnt @ zapret_queue_selector zs @ queue_text
      in (if protocol_enabled zs ''tcp''
          then [start ''tcp'' (zs_tcp_ports zs) @ packets (zs_tcp_pkt_out zs) @ finish,
                start ''tcp'' (zs_tcp_ports zs) @ '' tcp flags & (fin | rst) != 0'' @ finish] else [])
         @ (if protocol_enabled zs ''udp''
            then [start ''udp'' (zs_udp_ports zs) @ packets (zs_udp_pkt_out zs) @ finish] else []))"

definition postrouting_lines :: "config \<Rightarrow> bool \<Rightarrow> route_section \<Rightarrow> string list" where
  "postrouting_lines c v6 s =
     concat (map (\<lambda>name. case zapret_strategy_by_name c name of
         None \<Rightarrow> []
       | Some zs0 \<Rightarrow>
           (let zs = section_zapret_strategy s zs0
            in case zapret_profile_by_name c (zs_profile zs) of
                 None \<Rightarrow> []
               | Some p \<Rightarrow>
                   concat (map (\<lambda>sn. postrouting_set_lines ''ip'' (CHR ''@'' # sn) sn p zs) (nft_set_refs (nft_set4 s)))
                   @ (if v6 then concat (map (\<lambda>sn. postrouting_set_lines ''ip6'' (CHR ''@'' # sn) sn p zs)
                        (nft_set_refs (nft_set6 s))) else [])))
       (sc_zapret_strategies s))"

definition reply_lines :: "zapret_profile \<times> zapret_strategy \<Rightarrow> string list" where
  "reply_lines i =
     (case i of (p, zs) \<Rightarrow>
        concat (map (\<lambda>proto.
          let limit = (if proto = ''udp'' then zs_udp_pkt_in zs else zs_tcp_pkt_in zs)
          in if \<not> protocol_enabled zs proto \<or> limit \<le> 0 then []
             else [''    ct mark & '' @ hex32 zapret_selector_mask @ '' == '' @ hex32 (zs_selector_mark zs)
               @ nft_iface_expr ''iifname'' (zp_interfaces p) @ '' meta l4proto '' @ proto
               @ '' ct reply packets >= 1 ct reply packets <= '' @ gen_itoa limit
               @ '' meta mark set meta mark & 0xff00ffff | '' @ hex32 (zs_selector_mark zs) @ queue_text])
          [''tcp'', ''udp'']))"

definition chain_head :: "string \<Rightarrow> string \<Rightarrow> string list" where
  "chain_head name hook = [''  chain '' @ name @ '' {'', ''    type '' @ hook]"

definition zapret_chain_lines :: "config \<Rightarrow> bool \<Rightarrow> string list" where
  "zapret_chain_lines c v6 =
     (if enabled_zapret_profiles c = [] \<or> \<not> has_enabled_zapret_strategies c then []
      else [''  }'', []] @ chain_head ''postrouting'' ''filter hook postrouting priority srcnat + 1; policy accept;''
        @ [''    ct direction reply return'']
        @ concat (map (postrouting_lines c v6)
            (filter (\<lambda>s. sc_action s = ''zapret'') (sections_by_priority (cf_sections c))))
        @ [''  }'', []] @ chain_head ''zapret_reply'' ''filter hook prerouting priority mangle - 1; policy accept;''
        @ [''    ct direction original return''] @ concat (map reply_lines (zapret_instances c))
        @ [''  }'', []] @ chain_head ''zapret_clear_pre'' ''filter hook prerouting priority mangle + 2; policy accept;''
        @ [''    meta mark set meta mark & 0xff00ffff'']
        @ [''  }'', []] @ chain_head ''zapret_clear_post'' ''filter hook postrouting priority srcnat + 2; policy accept;''
        @ [''    meta mark set meta mark & 0xff00ffff'']
        @ [''  }'', []] @ chain_head ''predefrag'' ''filter hook output priority -401; policy accept;''
        @ map (\<lambda>p. ''    meta mark & '' @ zp_fw_mark p @ '' != 0 notrack'') (enabled_zapret_profiles c))"

subsection \<open>The output chain and the mesh limiter\<close>

text \<open>The addresses that never leave the network, and the bypass sets.\<close>

definition local_address_lines :: "bool \<Rightarrow> string list" where
  "local_address_lines v6 =
     [''    ip daddr { 0.0.0.0/8, 10.0.0.0/8, 100.64.0.0/10, 127.0.0.0/8, 169.254.0.0/16, 172.16.0.0/12, 192.168.0.0/16, 224.0.0.0/4, 240.0.0.0/4 } return'']
       @ (if v6 then [''    ip6 daddr { ::1, fc00::/7, fe80::/10, ff00::/8 } return''] else [])"

definition bypass_rules :: "bool \<Rightarrow> set_rule list" where
  "bypass_rules v6 =
     concat (map (\<lambda>(a, b). set_rule_for Do_return ''ip'' a # (if v6 then [set_rule_for Do_return ''ip6'' b] else []))
       [(''bypass4'', ''bypass6''), (dns_set_name ''bypass4'', dns_set_name ''bypass6''),
        (''proxy_server_bypass4'', ''proxy_server_bypass6'')])"

definition cgroup_line :: "string \<Rightarrow> string" where
  "cgroup_line path =
     ''    socket cgroupv2 level '' @ gen_itoa (int (str_count (CHR ''/'') path) + 1) @ '' '' @ in_quotes path @ '' return''"

definition cgroup_exemption_rule :: "config \<Rightarrow> string" where
  "cgroup_exemption_rule c =
     (let path = trim_prefix (trim_space (st_cgroup_v2_path (cf_settings c))) ''/''
      in cgroup_line (if path = [] then ''services/mihomo'' else path))"

definition easytier_cgroup_path :: string where "easytier_cgroup_path = ''services/purewrt-easytier''"

definition easytier_exemption_rule :: "config \<Rightarrow> string list" where
  "easytier_exemption_rule c = (if \<not> mesh_active c then [] else [cgroup_line easytier_cgroup_path])"

definition ooni_exemption_rule :: "config \<Rightarrow> string list" where
  "ooni_exemption_rule c =
     (if \<not> oo_enabled (cf_ooni c) \<or> oo_uid (cf_ooni c) \<le> 0 then []
      else [''    meta skuid '' @ gen_itoa (oo_uid (cf_ooni c)) @ '' return''])"

definition output_section_entries ::
    "config \<Rightarrow> (string \<Rightarrow> string list) \<Rightarrow> bool \<Rightarrow> route_section \<Rightarrow> chain_entry list" where
  "output_section_entries c native v6 s =
     (if sc_action s = ''proxy''
      then map Raw_line (concat (map (\<lambda>e. native_action_lines e s (st_fw_mark (cf_settings c)) True) (native (sc_name s))))
      else [])
     @ map Set_rule
        (if sc_action s = ''reject'' then plain_rules Do_reject v6 (nft_set4 s) (nft_set6 s)
         else if sc_action s = ''direct'' then plain_rules Do_return v6 (nft_set4 s) (nft_set6 s)
         else if sc_action s = ''zapret'' then claim_returns c s v6
         else if sc_action s = ''proxy'' \<or> sc_action s = [] then proxy_rules s v6 Do_mark
         else [])"

definition output_chain_lines :: "config \<Rightarrow> (string \<Rightarrow> string list) \<Rightarrow> bool \<Rightarrow> string list" where
  "output_chain_lines c native v6 =
     (let text = entry_text (st_fw_mark (cf_settings c))
      in [[]] @ chain_head ''output_mangle'' ''route hook output priority mangle; policy accept;''
        @ [cgroup_exemption_rule c] @ easytier_exemption_rule c @ ooni_exemption_rule c
        @ map (\<lambda>m. ''    meta mark & '' @ m @ '' != 0 return'')
            (rev (remdups (rev (map zp_fw_mark (enabled_zapret_profiles c)))))
        @ [''    fib daddr type { local, broadcast, anycast, multicast } return'',
           ''    ct direction reply return'', ''    meta l4proto != { tcp, udp } return'']
        @ local_address_lines v6 @ map (\<lambda>r. text (Set_rule r)) (bypass_rules v6)
        @ map text (concat (map (output_section_entries c native v6) (sections_by_priority (cf_sections c))))
        @ [''  }''])"

definition mesh_limiter_lines :: "config \<Rightarrow> string list" where
  "mesh_limiter_lines c =
     (let m = cf_mesh c; rate = gen_itoa (wrap64 (me_exit_max_mbit m * 125000)); port = gen_itoa (me_listen_port m);
          rule = (\<lambda>iface dir. ''    '' @ iface @ '' '' @ in_quotes (me_device_name m)
            @ '' meta l4proto { tcp, udp } th '' @ dir @ '' '' @ port @ '' limit rate over '' @ rate
            @ '' bytes/second counter drop'')
      in if \<not> mesh_active c \<or> \<not> me_exit_enabled m \<or> me_listen_port m \<le> 0 \<or> me_exit_max_mbit m \<le> 0 then []
         else [[]] @ chain_head ''mesh_limit_in'' ''filter hook input priority filter; policy accept;''
           @ [rule ''iifname'' ''dport'', ''  }'']
           @ [[]] @ chain_head ''mesh_limit_out'' ''filter hook output priority filter; policy accept;''
           @ [rule ''oifname'' ''sport'', ''  }''])"

subsection \<open>The whole ruleset\<close>

definition nft_payload_sets :: "(string \<Rightarrow> string) \<Rightarrow> config \<Rightarrow> string list" where
  "nft_payload_sets lo c =
     (let v6 = ipv6_routed lo c
      in [''bypass4'', ''proxy_server_bypass4'', ''direct4'', ''reject4'']
        @ (if v6 then [''bypass6'', ''proxy_server_bypass6'', ''direct6'', ''reject6''] else [])
        @ concat (map (\<lambda>s. if sc_action s = ''proxy'' \<or> sc_action s = ''zapret''
            then nft_set4 s # (if v6 then [nft_set6 s] else []) else []) (cf_sections c)))"

definition dynamic_dns_set_names :: "(string \<Rightarrow> string) \<Rightarrow> config \<Rightarrow> string list" where
  "dynamic_dns_set_names lo c = map dns_set_name (nft_payload_sets lo c)"

definition nft_set_definition :: "string \<Rightarrow> bool \<Rightarrow> string list" where
  "nft_set_definition sn dynamic =
     [''  set '' @ sn @ '' {'', ''    type '' @ (if has_suffix sn ''6'' then ''ipv6_addr'' else ''ipv4_addr'')]
       @ (if dynamic then [''    flags dynamic,timeout'', ''    timeout 150m'', ''    size 65535'']
          else [''    flags interval'', ''    auto-merge''])
       @ [''  }'', []]"

definition nft_counter_decl :: "string \<Rightarrow> string list" where
  "nft_counter_decl sn = [''  counter '' @ sn @ '' {'', ''  }'', []]"

definition set_lines :: "string \<Rightarrow> string list" where
  "set_lines sn =
     nft_set_definition sn False @ nft_set_definition (dns_set_name sn) True
       @ nft_counter_decl sn @ nft_counter_decl (dns_set_name sn)"

definition dns_block_lines :: "(string \<Rightarrow> string) \<Rightarrow> config \<Rightarrow> string list" where
  "dns_block_lines lo c =
     (let v6 = ipv6_routed lo c; q = cf_dns c;
          e4 = nft_cidr_set_expr (normalize_cidrs (dn_doh3_block_ips4 q) False);
          e6 = nft_cidr_set_expr (normalize_cidrs (dn_doh3_block_ips6 q) True)
      in (if dn_block_dot q then [''    tcp dport 853 reject''] else [])
        @ (if \<not> v6 \<and> st_ipv6_reject_when_off (cf_settings c) then [''    ip6 daddr ::/0 reject''] else [])
        @ (if dn_block_doq q then [''    udp dport 853 reject''] else [])
        @ (if dn_block_doh3 q then
             (if e4 \<noteq> [] then [''    ip daddr '' @ e4 @ '' udp dport 443 reject''] else [])
             @ (if v6 \<and> e6 \<noteq> [] then [''    ip6 daddr '' @ e6 @ '' udp dport 443 reject''] else [])
           else []))"

definition prerouting_lines :: "(string \<Rightarrow> string) \<Rightarrow> config \<Rightarrow> (string \<Rightarrow> string list) \<Rightarrow> string list" where
  "prerouting_lines lo c native =
     (let v6 = ipv6_routed lo c; st = cf_settings c; text = entry_text (st_fw_mark st);
          ordered = sections_by_priority (cf_sections c)
      in chain_head ''prerouting'' ''filter hook prerouting priority mangle; policy accept;''
        @ [''    ct direction reply return'',
           ''    iifname '' @ in_quotes ''lo'' @ '' fib daddr type local return'',
           ''    iifname != '' @ in_quotes ''lo'' @ '' meta mark & '' @ st_fw_mark_mask st @ '' == '' @ st_fw_mark st @ '' return'']
        @ local_address_lines v6 @ map (\<lambda>r. text (Set_rule r)) (bypass_rules v6)
        @ source_bypass_lines c v6 @ excluded_device_lines c
        @ concat (map (section_device_lines c v6) ordered) @ concat (map (section_source_lines c v6) ordered)
        @ map text (destination_pass c native v6) @ dns_block_lines lo c)"

definition nft_lines :: "(string \<Rightarrow> string) \<Rightarrow> config \<Rightarrow> (string \<Rightarrow> string list) \<Rightarrow> string list" where
  "nft_lines lo c native =
     [''add table inet purewrt'', ''delete table inet purewrt'', ''table inet purewrt {'']
       @ concat (map set_lines (nft_payload_sets lo c))
       @ prerouting_lines lo c native @ zapret_chain_lines c (ipv6_routed lo c) @ [''  }'']
       @ (if st_router_output_proxy (cf_settings c) then output_chain_lines c native (ipv6_routed lo c) else [])
       @ mesh_limiter_lines c @ [''}'']"

definition nft_tables_with_native :: "(string \<Rightarrow> string) \<Rightarrow> config \<Rightarrow> (string \<Rightarrow> string list) \<Rightarrow> string" where
  "nft_tables_with_native lo c native = concat (map (\<lambda>l. l @ [newline]) (nft_lines lo c native))"

definition nft_tables :: "(string \<Rightarrow> string) \<Rightarrow> config \<Rightarrow> string" where
  "nft_tables lo c = nft_tables_with_native lo c (\<lambda>_. [])"

text \<open>The payload that fills the sets: its header, and one element.\<close>

definition set_payload_header :: "(string \<Rightarrow> string) \<Rightarrow> config \<Rightarrow> string list" where
  "set_payload_header lo c =
     [''#!/usr/sbin/nft -f'', ''# PureWRT generated set payload; do not edit.'']
       @ map (\<lambda>sn. ''flush set inet purewrt '' @ sn) (nft_payload_sets lo c)"

definition set_element_line :: "string \<Rightarrow> string \<Rightarrow> string" where
  "set_element_line sn v = ''add element inet purewrt '' @ sn @ '' { '' @ v @ '' }''"

end
