(* ===== verification/Rule_Index_Facts.thy ===== *)
theory Rule_Index_Facts
  imports Rule_Index
begin

section \<open>Which provider answers\<close>

text \<open>
  A fresh index answers with the first provider by name that lists the domain on its own: the
  lazy parsing, the shared maps and the early stop are not visible. A locale states what the
  query loops need of a parser; the parser of the program is its interpretation.
\<close>

definition merge :: "'a option \<Rightarrow> 'a option \<Rightarrow> 'a option" where
  "merge a b = (case a of Some m \<Rightarrow> Some m | None \<Rightarrow> b)"

lemma merge_simps [simp]: "merge (Some m) b = Some m" "merge None b = b" "merge a None = a"
  "merge (merge a b) c = merge a (merge b c)"
  by (auto simp: merge_def split: option.splits)

definition empty_index :: "config \<Rightarrow> rule_index" where
  "empty_index c = (new_index c) \<lparr>ix_pending := []\<rparr>"

lemma empty_index_simps [simp]:
  "ix_warnings (empty_index c) = []" "ix_pending (empty_index c) = []" "ix_cfg (empty_index c) = c"
  "ix_exact (empty_index c) = Map.empty" "ix_suffix (empty_index c) = Map.empty" "ix_sets (empty_index c) = []"
  "ix_keywords (empty_index c) = []" "ix_cidrs (empty_index c) = []"
  by (simp_all add: empty_index_def new_index_def)

lemma lookup_parents_merge:
  "lookup_parents p d = None \<Longrightarrow> lookup_parents (\<lambda>k. merge (p k) (q k)) d = lookup_parents q d"
proof (induction "length d" arbitrary: d rule: less_induct)
  case less
  show ?case
  proof (cases "str_index d ''.''")
    case None
    then show ?thesis by (simp add: lookup_parents.simps [of _ d])
  next
    case (Some i)
    let ?e = "drop (i + 1) d"
    have "length ?e < length d" using Some by (cases d) auto
    with less Some show ?thesis
      by (auto simp: lookup_parents.simps [of _ d] Let_def split: option.splits if_splits)
  qed
qed

lemma lookup_parents_empty [simp]: "lookup_parents Map.empty d = None"
proof (induction "length d" arbitrary: d rule: less_induct)
  case less
  show ?case
  proof (cases "str_index d ''.''")
    case None
    then show ?thesis by (simp add: lookup_parents.simps [of _ d])
  next
    case (Some i)
    have "length (drop (i + 1) d) < length d" using Some by (cases d) auto
    with less Some show ?thesis by (simp add: lookup_parents.simps [of _ d] Let_def)
  qed
qed

lemma lookup_sets_append: "lookup_sets (xs @ ys) d = merge (lookup_sets xs d) (lookup_sets ys d)"
  by (induction xs) (auto split: option.splits)

lemma pending_irrelevant [simp]: "index_lookup (x \<lparr>ix_pending := ps\<rparr>) d = index_lookup x d"
  by (simp add: index_lookup_def cong: option.case_cong)

locale index_builder =
  fixes parse :: "rule_provider \<Rightarrow> rule_index \<Rightarrow> rule_index" and cfg :: config
  assumes cfg: "ix_cfg (parse rp x) = ix_cfg x"
    and exact: "ix_cfg x = cfg \<Longrightarrow> ix_exact (parse rp x) k = merge (ix_exact x k) (ix_exact (parse rp (empty_index cfg)) k)"
    and suffix: "ix_cfg x = cfg \<Longrightarrow> ix_suffix (parse rp x) k = merge (ix_suffix x k) (ix_suffix (parse rp (empty_index cfg)) k)"
    and sets: "ix_cfg x = cfg \<Longrightarrow> ix_sets (parse rp x) = ix_sets x @ ix_sets (parse rp (empty_index cfg))"
    and words: "ix_cfg x = cfg \<Longrightarrow> ix_keywords (parse rp x) = ix_keywords x @ ix_keywords (parse rp (empty_index cfg))"
    and cidrs: "ix_cfg x = cfg \<Longrightarrow> ix_cidrs (parse rp x) = ix_cidrs x @ ix_cidrs (parse rp (empty_index cfg))"
begin

abbreviation alone :: "rule_provider \<Rightarrow> rule_index" where
  "alone rp \<equiv> parse rp (empty_index cfg)"

lemma lookup_after:
  assumes "ix_cfg x = cfg" and "index_lookup x d = None"
  shows "index_lookup (parse rp x) d = index_lookup (alone rp) d"
proof -
  have none: "ix_exact x d = None" "ix_suffix x d = None" "lookup_parents (ix_suffix x) d = None"
    "lookup_sets (ix_sets x) d = None"
    using assms(2) by (auto simp: index_lookup_def split: option.splits)
  have suf: "ix_suffix (parse rp x) = (\<lambda>k. merge (ix_suffix x k) (ix_suffix (alone rp) k))"
    using suffix [OF assms(1)] by auto
  show ?thesis
    unfolding index_lookup_def exact [OF assms(1)] suf lookup_parents_merge [OF none(3)] sets [OF assms(1)]
      lookup_sets_append none merge_simps ..
qed

lemma match_pending_first:
  assumes "ix_cfg x = cfg" and "index_lookup x d = None"
  shows "fst (match_pending parse ps d x)
      = (case find (\<lambda>rp. index_lookup (alone rp) d \<noteq> None) ps of
           Some rp \<Rightarrow> index_lookup (alone rp) d | None \<Rightarrow> None)
    \<and> (fst (match_pending parse ps d x) = None \<longrightarrow> ix_keywords (snd (match_pending parse ps d x))
          = ix_keywords x @ concat (map (\<lambda>rp. ix_keywords (alone rp)) ps))"
  using assms
proof (induction ps arbitrary: x)
  case (Cons rp ps)
  let ?x = "x \<lparr>ix_pending := ps\<rparr>"
  have c: "ix_cfg ?x = cfg" using Cons.prems by simp
  have "index_lookup ?x d = None" using Cons.prems by simp
  from lookup_after [OF c this] have l: "index_lookup (parse rp ?x) d = index_lookup (alone rp) d" .
  have c': "ix_cfg (parse rp ?x) = cfg" using c cfg by metis
  show ?case
  proof (cases "index_lookup (alone rp) d")
    case None
    then show ?thesis using Cons.IH [OF c'] l words [OF c] by (simp add: Let_def)
  next
    case (Some m)
    then show ?thesis using l by (simp add: Let_def)
  qed
qed simp

lemma parse_pending_cidrs:
  "ix_cfg x = cfg \<Longrightarrow> ix_cidrs (parse_pending parse ps x) = ix_cidrs x @ concat (map (\<lambda>rp. ix_cidrs (alone rp)) ps)"
proof (induction ps arbitrary: x)
  case (Cons rp ps)
  let ?x = "x \<lparr>ix_pending := ps\<rparr>"
  have c: "ix_cfg ?x = cfg" using Cons.prems by simp
  then have "ix_cfg (parse rp ?x) = cfg" using cfg by metis
  from Cons.IH [OF this] cidrs [OF c] show ?case by simp
qed simp

lemma fresh_lookup: "index_lookup (new_index cfg) d = None"
  by (simp add: index_lookup_def new_index_def)

lemma fresh_match:
  "fst (index_match parse lo domain (new_index cfg))
    = (case find (\<lambda>rp. index_lookup (alone rp) (normalize_domain lo domain) \<noteq> None) (ix_pending (new_index cfg)) of
         Some rp \<Rightarrow> the (index_lookup (alone rp) (normalize_domain lo domain))
       | None \<Rightarrow> (case find (\<lambda>k. str_contains domain (fst k))
             (concat (map (\<lambda>rp. ix_keywords (alone rp)) (ix_pending (new_index cfg)))) of
            Some k \<Rightarrow> to_match (snd k) | None \<Rightarrow> no_match))"
proof -
  let ?x = "new_index cfg" and ?d = "normalize_domain lo domain"
  have c: "ix_cfg ?x = cfg" "ix_keywords ?x = []" by (simp_all add: new_index_def)
  note m = match_pending_first [OF c(1) fresh_lookup [of ?d], of "ix_pending ?x"]
  let ?first = "find (\<lambda>rp. index_lookup (alone rp) ?d \<noteq> None) (ix_pending ?x)"
  obtain r x' where r: "match_pending parse (ix_pending ?x) ?d ?x = (r, x')" by force
  show ?thesis
  proof (cases ?first)
    case None
    then have "r = None" "ix_keywords x' = concat (map (\<lambda>rp. ix_keywords (alone rp)) (ix_pending ?x))"
      using m r c(2) by simp_all
    then show ?thesis using None r by (simp add: index_match_def Let_def fresh_lookup split: option.splits)
  next
    case (Some rp)
    then have "index_lookup (alone rp) ?d \<noteq> None" by (auto simp: find_Some_iff)
    then show ?thesis using Some m r by (auto simp: index_match_def Let_def fresh_lookup)
  qed
qed

lemma fresh_match_ip:
  "fst (index_match_ip parse a (new_index cfg))
    = (case find (\<lambda>e. snd a = [] \<and> prefix_contains (fst e) (fst a))
          (concat (map (\<lambda>rp. ix_cidrs (alone rp)) (ix_pending (new_index cfg)))) of
         Some e \<Rightarrow> to_match (snd e) | None \<Rightarrow> no_match)"
proof -
  have "ix_cidrs (parse_pending parse (ix_pending (new_index cfg)) (new_index cfg))
      = concat (map (\<lambda>rp. ix_cidrs (alone rp)) (ix_pending (new_index cfg)))"
    by (subst parse_pending_cidrs) (simp_all add: new_index_def)
  then show ?thesis by (auto simp: index_match_ip_def Let_def split: option.splits)
qed

end

subsection \<open>The parser of the program\<close>

definition extends :: "(rule_index \<Rightarrow> rule_index) \<Rightarrow> bool" where
  "extends f \<longleftrightarrow> (\<exists>e s ds ks cs. \<forall>x.
     ix_cfg (f x) = ix_cfg x \<and> ix_pending (f x) = ix_pending x
     \<and> ix_exact (f x) = (\<lambda>k. merge (ix_exact x k) (e k)) \<and> ix_suffix (f x) = (\<lambda>k. merge (ix_suffix x k) (s k))
     \<and> ix_sets (f x) = ix_sets x @ ds \<and> ix_keywords (f x) = ix_keywords x @ ks
     \<and> ix_cidrs (f x) = ix_cidrs x @ cs)"

lemma extendsI:
  assumes "\<And>x. ix_cfg (f x) = ix_cfg x \<and> ix_pending (f x) = ix_pending x
     \<and> ix_exact (f x) = (\<lambda>k. merge (ix_exact x k) (e k)) \<and> ix_suffix (f x) = (\<lambda>k. merge (ix_suffix x k) (s k))
     \<and> ix_sets (f x) = ix_sets x @ ds \<and> ix_keywords (f x) = ix_keywords x @ ks
     \<and> ix_cidrs (f x) = ix_cidrs x @ cs"
  shows "extends f"
  unfolding extends_def using assms by blast

lemma extends_id: "extends (\<lambda>x. x)"
  by (rule extendsI [of _ "\<lambda>k. None" "\<lambda>k. None" "[]" "[]" "[]"]) simp

lemma extends_comp: "extends f \<Longrightarrow> extends g \<Longrightarrow> extends (\<lambda>x. g (f x))"
proof -
  assume "extends f" "extends g"
  then obtain e s ds ks cs e' s' ds' ks' cs' where
    f: "\<forall>x. ix_cfg (f x) = ix_cfg x \<and> ix_pending (f x) = ix_pending x
     \<and> ix_exact (f x) = (\<lambda>k. merge (ix_exact x k) (e k)) \<and> ix_suffix (f x) = (\<lambda>k. merge (ix_suffix x k) (s k))
     \<and> ix_sets (f x) = ix_sets x @ ds \<and> ix_keywords (f x) = ix_keywords x @ ks
     \<and> ix_cidrs (f x) = ix_cidrs x @ cs" and
    g: "\<forall>x. ix_cfg (g x) = ix_cfg x \<and> ix_pending (g x) = ix_pending x
     \<and> ix_exact (g x) = (\<lambda>k. merge (ix_exact x k) (e' k)) \<and> ix_suffix (g x) = (\<lambda>k. merge (ix_suffix x k) (s' k))
     \<and> ix_sets (g x) = ix_sets x @ ds' \<and> ix_keywords (g x) = ix_keywords x @ ks'
     \<and> ix_cidrs (g x) = ix_cidrs x @ cs'"
    unfolding extends_def by blast
  show ?thesis
    by (rule extendsI [of _ "\<lambda>k. merge (e k) (e' k)" "\<lambda>k. merge (s k) (s' k)" "ds @ ds'" "ks @ ks'" "cs @ cs'"])
      (simp add: f g)
qed

lemma extends_if: "extends f \<Longrightarrow> extends g \<Longrightarrow> extends (\<lambda>x. if P then f x else g x)"
  by (cases P) simp_all

lemma extends_sum:
  "(\<And>e. extends (f e)) \<Longrightarrow> (\<And>v. extends (g v)) \<Longrightarrow> extends (\<lambda>x. case s of Inl e \<Rightarrow> f e x | Inr v \<Rightarrow> g v x)"
  by (cases s) simp_all

lemma extends_foldl: "(\<And>r. extends (\<lambda>x. g x r)) \<Longrightarrow> extends (\<lambda>x. foldl g x rs)"
proof (induction rs)
  case (Cons r rs)
  then show ?case using extends_comp [of "\<lambda>x. g x r" "\<lambda>x. foldl g x rs"] by simp
qed (simp add: extends_id)

lemma put_new_merge: "put_new k m q = (\<lambda>j. merge (q j) ([k \<mapsto> m] j))"
  by (auto simp: put_new_def merge_def fun_eq_iff split: option.splits)

lemma extends_warn: "extends (index_warn w)"
  by (rule extendsI [of _ "\<lambda>k. None" "\<lambda>k. None" "[]" "[]" "[]"]) (simp add: index_warn_def)

lemma extends_cidr: "extends (add_cidr m)"
  by (rule extendsI [of _ "\<lambda>k. None" "\<lambda>k. None" "[]" "[]"
      "case parse_prefix (rl_value (mt_rule m)) of None \<Rightarrow> [] | Some p \<Rightarrow> [(p, m)]"])
    (simp add: add_cidr_def split: option.split)

lemma extends_mrs_rule: "extends (\<lambda>x. add_mrs_rule i x r)"
  unfolding add_mrs_rule_def by (intro extends_if extends_id extends_cidr)

lemma extends_text_rule: "extends (\<lambda>x. add_text_rule i x r)"
proof -
  let ?m = "i \<lparr>mt_rule := r\<rparr>"
  have "extends (\<lambda>x. x \<lparr>ix_exact := put_new (rl_value r) ?m (ix_exact x)\<rparr>)"
    by (rule extendsI [of _ "[rl_value r \<mapsto> ?m]" "\<lambda>k. None" "[]" "[]" "[]"]) (simp add: put_new_merge)
  moreover have "extends (\<lambda>x. x \<lparr>ix_suffix := put_new (rl_value r) ?m (ix_suffix x)\<rparr>)"
    by (rule extendsI [of _ "\<lambda>k. None" "[rl_value r \<mapsto> ?m]" "[]" "[]" "[]"]) (simp add: put_new_merge)
  moreover have "extends (\<lambda>x. x \<lparr>ix_keywords := ix_keywords x @ [(rl_value r, ?m)]\<rparr>)"
    by (rule extendsI [of _ "\<lambda>k. None" "\<lambda>k. None" "[]" "[(rl_value r, ?m)]" "[]"]) simp
  ultimately show ?thesis
    using extends_id extends_cidr [of ?m] by (cases "rl_type r") (simp_all add: add_text_rule_def Let_def)
qed

lemma extends_set: "extends (\<lambda>x. x \<lparr>ix_sets := ix_sets x @ [e]\<rparr>)"
  by (rule extendsI [of _ "\<lambda>k. None" "\<lambda>k. None" "[e]" "[]" "[]"]) simp

lemma parse_provider_extends:
  "\<exists>f. extends f \<and> (\<forall>x. ix_cfg x = c \<longrightarrow> parse_provider rd zstd gunzip lo up rp x = f x)"
proof -
  let ?info = "\<lparr>mt_provider = rp_name rp, mt_section = rp_section rp,
      mt_action = (case section_by_name c (rp_section rp) of Some s \<Rightarrow> sc_action s | None \<Rightarrow> []), mt_rule = zero_rule\<rparr>"
  have mrs: "extends (\<lambda>x. foldl (add_mrs_rule ?info) x rs)" for rs
    by (rule extends_foldl) (rule extends_mrs_rule)
  have plain: "extends (\<lambda>x. foldl (add_text_rule ?info) x rs)" for rs
    by (rule extends_foldl) (rule extends_text_rule)
  note wtxt = extends_comp [OF extends_warn plain]
  have eq: "parse_provider rd zstd gunzip lo up rp x
      = (case rd (rp_path rp) of
           Inl e \<Rightarrow> index_warn (Unreadable (rp_name rp) e) x
         | Inr data \<Rightarrow>
             if equal_fold (rp_format rp) ''mrs'' then
               (case parse_mrs_domain_set zstd gunzip (rp_name rp) data of
                  Inr s \<Rightarrow> x \<lparr>ix_sets := ix_sets x @ [(s, ?info)]\<rparr>
                | Inl e \<Rightarrow>
                    if e \<noteq> Not_domain_behavior then index_warn (Bad_mrs (rp_name rp) e) x
                    else (case parse_mrs zstd gunzip lo up (rp_name rp) data of
                        Inl e' \<Rightarrow> index_warn (Bad_mrs (rp_name rp) e') x
                      | Inr pv \<Rightarrow> foldl (add_mrs_rule ?info) x (pv_rules pv)))
             else if \<exists>r \<in> set (pv_rules (parse_text lo up (rp_name rp) data)). rl_type r = Native
               then foldl (add_text_rule ?info) (index_warn (Native_rules (rp_name rp)) x)
                      (pv_rules (parse_text lo up (rp_name rp) data))
               else foldl (add_text_rule ?info) x (pv_rules (parse_text lo up (rp_name rp) data)))"
    if "ix_cfg x = c" for x
    unfolding parse_provider_def Let_def that by (simp only: if_distrib [of "\<lambda>y. foldl f y rs" for f rs])
  have "extends (\<lambda>x. case rd (rp_path rp) of
           Inl e \<Rightarrow> index_warn (Unreadable (rp_name rp) e) x
         | Inr data \<Rightarrow>
             if equal_fold (rp_format rp) ''mrs'' then
               (case parse_mrs_domain_set zstd gunzip (rp_name rp) data of
                  Inr s \<Rightarrow> x \<lparr>ix_sets := ix_sets x @ [(s, ?info)]\<rparr>
                | Inl e \<Rightarrow>
                    if e \<noteq> Not_domain_behavior then index_warn (Bad_mrs (rp_name rp) e) x
                    else (case parse_mrs zstd gunzip lo up (rp_name rp) data of
                        Inl e' \<Rightarrow> index_warn (Bad_mrs (rp_name rp) e') x
                      | Inr pv \<Rightarrow> foldl (add_mrs_rule ?info) x (pv_rules pv)))
             else if \<exists>r \<in> set (pv_rules (parse_text lo up (rp_name rp) data)). rl_type r = Native
               then foldl (add_text_rule ?info) (index_warn (Native_rules (rp_name rp)) x)
                      (pv_rules (parse_text lo up (rp_name rp) data))
               else foldl (add_text_rule ?info) x (pv_rules (parse_text lo up (rp_name rp) data)))"
    by (intro extends_sum extends_if extends_warn extends_set mrs plain wtxt)
  then show ?thesis using eq by blast
qed

text \<open>One interpretation for every configuration and every outcome of the file reads.\<close>

interpretation provider_index: index_builder "parse_provider rd zstd gunzip lo up" c
  for rd zstd gunzip lo up c
proof (unfold_locales, goal_cases)
  case (1 rp x)
  obtain f where "extends f" "\<forall>y. ix_cfg y = ix_cfg x \<longrightarrow> parse_provider rd zstd gunzip lo up rp y = f y"
    using parse_provider_extends by blast
  then show ?case by (auto simp: extends_def)
next
  case (2 x rp k)
  obtain f where "extends f" "\<forall>y. ix_cfg y = c \<longrightarrow> parse_provider rd zstd gunzip lo up rp y = f y"
    using parse_provider_extends by blast
  with 2 show ?case by (auto simp: extends_def)
next
  case (3 x rp k)
  obtain f where "extends f" "\<forall>y. ix_cfg y = c \<longrightarrow> parse_provider rd zstd gunzip lo up rp y = f y"
    using parse_provider_extends by blast
  with 3 show ?case by (auto simp: extends_def)
next
  case (4 x rp)
  obtain f where "extends f" "\<forall>y. ix_cfg y = c \<longrightarrow> parse_provider rd zstd gunzip lo up rp y = f y"
    using parse_provider_extends by blast
  with 4 show ?case by (auto simp: extends_def)
next
  case (5 x rp)
  obtain f where "extends f" "\<forall>y. ix_cfg y = c \<longrightarrow> parse_provider rd zstd gunzip lo up rp y = f y"
    using parse_provider_extends by blast
  with 5 show ?case by (auto simp: extends_def)
next
  case (6 x rp)
  obtain f where "extends f" "\<forall>y. ix_cfg y = c \<longrightarrow> parse_provider rd zstd gunzip lo up rp y = f y"
    using parse_provider_extends by blast
  with 6 show ?case by (auto simp: extends_def)
qed

text \<open>
  C34: a fresh index answers a domain with the first provider by name that lists the domain on its
  own (by an exact name, a suffix, or an MRS set), with the rule that provider alone would give;
  when none does, the first keyword in provider order that the query contains decides, and without
  one the answer is the default route. The laziness and the maps shared by the providers are not
  visible.
\<close>

theorem first_provider_answers:
  "fst (index_match (parse_provider rd zstd gunzip lo up) lo domain (new_index c))
    = (let ps = sort_by (\<lambda>p q. rp_name p < rp_name q)
           (filter (\<lambda>p. rp_enabled p \<and> rp_path p \<noteq> []) (cf_rule_providers c));
           own = (\<lambda>rp. parse_provider rd zstd gunzip lo up rp (empty_index c));
           d = normalize_domain lo domain
       in case find (\<lambda>rp. index_lookup (own rp) d \<noteq> None) ps of
            Some rp \<Rightarrow> the (index_lookup (own rp) d)
          | None \<Rightarrow> (case find (\<lambda>k. str_contains domain (fst k)) (concat (map (\<lambda>rp. ix_keywords (own rp)) ps)) of
              Some k \<Rightarrow> to_match (snd k) | None \<Rightarrow> no_match))"
proof -
  have "ix_pending (new_index c) = sort_by (\<lambda>p q. rp_name p < rp_name q)
      (filter (\<lambda>p. rp_enabled p \<and> rp_path p \<noteq> []) (cf_rule_providers c))"
    by (simp add: new_index_def)
  then show ?thesis unfolding Let_def by (simp only: provider_index.fresh_match)
qed

definition list_provider :: "string \<Rightarrow> rule_provider" where
  "list_provider n =
     \<lparr>rp_name = n, rp_enabled = True, rp_behavior = [], rp_format = ''text'', rp_parse_mode = [], rp_url = [],
      rp_interval = 0, rp_path = n, rp_section = [], rp_category = [], rp_source_kind = [],
      rp_route_action = [], rp_source_subscription = [], rp_detected_category = [],
      rp_user_overridden_section = False, rp_user_overridden_action = False, rp_user_agent = [],
      rp_headers = [], rp_mirrors = [], rp_pin_sha256 = [], rp_last_error = [], rp_geo_target = []\<rparr>"

definition two_providers :: config where
  "two_providers = default_config \<lparr>cf_sections := [], cf_rule_providers := map list_provider [''a'', ''b'']\<rparr>"

definition two_files :: "string \<Rightarrow> string + bytes" where
  "two_files p = (if p = ''a'' then Inr ''DOMAIN-SUFFIX,x.com'' else Inr ''DOMAIN,w.x.com'')"

definition two_parse :: "rule_provider \<Rightarrow> rule_index \<Rightarrow> rule_index" where
  "two_parse = parse_provider two_files (\<lambda>_. Inl []) (\<lambda>_ _. Inl []) id id"

lemma two_texts:
  "pv_rules (parse_text id id ''a'' ''DOMAIN-SUFFIX,x.com'')
    = [\<lparr>rl_type = Domain_Suffix, rl_value = ''x.com'', rl_no_resolve = False, rl_source = ''a'', rl_line = 1,
        rl_openwrt = True, rl_mihomo = True\<rparr>]"
  "pv_rules (parse_text id id ''b'' ''DOMAIN,w.x.com'')
    = [\<lparr>rl_type = Domain, rl_value = ''w.x.com'', rl_no_resolve = False, rl_source = ''b'', rl_line = 1,
        rl_openwrt = True, rl_mihomo = True\<rparr>]"
proof -
  have "scan_lines ''DOMAIN-SUFFIX,x.com'' = ([''DOMAIN-SUFFIX,x.com''], False)"
    "scan_lines ''DOMAIN,w.x.com'' = ([''DOMAIN,w.x.com''], False)"
    using scan_lines_last [of "''DOMAIN-SUFFIX,x.com''"] scan_lines_last [of "''DOMAIN,w.x.com''"]
    by (simp_all add: newline_def drop_cr_def return_def)
  moreover have "dedup (text_rules id id ''a'' 0 [''DOMAIN-SUFFIX,x.com''])
    = [\<lparr>rl_type = Domain_Suffix, rl_value = ''x.com'', rl_no_resolve = False, rl_source = ''a'', rl_line = 1,
        rl_openwrt = True, rl_mihomo = True\<rparr>]"
    "dedup (text_rules id id ''b'' 0 [''DOMAIN,w.x.com''])
    = [\<lparr>rl_type = Domain, rl_value = ''w.x.com'', rl_no_resolve = False, rl_source = ''b'', rl_line = 1,
        rl_openwrt = True, rl_mihomo = True\<rparr>]"
    by code_simp+
  ultimately show "pv_rules (parse_text id id ''a'' ''DOMAIN-SUFFIX,x.com'')
    = [\<lparr>rl_type = Domain_Suffix, rl_value = ''x.com'', rl_no_resolve = False, rl_source = ''a'', rl_line = 1,
        rl_openwrt = True, rl_mihomo = True\<rparr>]"
    "pv_rules (parse_text id id ''b'' ''DOMAIN,w.x.com'')
    = [\<lparr>rl_type = Domain, rl_value = ''w.x.com'', rl_no_resolve = False, rl_source = ''b'', rl_line = 1,
        rl_openwrt = True, rl_mihomo = True\<rparr>]"
    by (simp_all only: parse_text_def provider.simps fst_conv)
qed

lemma two_steps:
  "\<exists>m. mt_provider m = ''a'' \<and> (\<forall>x. ix_cfg x = two_providers \<longrightarrow>
      two_parse (list_provider ''a'') x = x \<lparr>ix_suffix := put_new ''x.com'' m (ix_suffix x)\<rparr>)"
  "\<exists>m. mt_provider m = ''b'' \<and> (\<forall>x. ix_cfg x = two_providers \<longrightarrow>
      two_parse (list_provider ''b'') x = x \<lparr>ix_exact := put_new ''w.x.com'' m (ix_exact x)\<rparr>)"
  unfolding two_parse_def parse_provider_def list_provider_def two_files_def rule_provider.select_convs
  by (auto simp: two_texts section_by_name_def two_providers_def add_text_rule_def Let_def lower_ascii_def intro!: exI)

text \<open>
  C35: on an index that has answered another query the answer can be a different provider. The
  domain below is listed by provider \<open>a\<close> as a suffix and by provider \<open>b\<close> exactly; a fresh
  index says \<open>a\<close>, an index that has parsed both says \<open>b\<close>.
\<close>

theorem reused_index_answer_differs:
  "rm_provider (fst (index_match two_parse id ''w.x.com'' (new_index two_providers))) = ''a''
    \<and> rm_provider (fst (index_match two_parse id ''w.x.com''
          (snd (index_match two_parse id ''q'' (new_index two_providers))))) = ''b''"
proof -
  obtain ma mb where m: "mt_provider ma = ''a''" "mt_provider mb = ''b''"
    and a: "\<And>x. ix_cfg x = two_providers \<Longrightarrow>
      two_parse (list_provider ''a'') x = x \<lparr>ix_suffix := put_new ''x.com'' ma (ix_suffix x)\<rparr>"
    and b: "\<And>x. ix_cfg x = two_providers \<Longrightarrow>
      two_parse (list_provider ''b'') x = x \<lparr>ix_exact := put_new ''w.x.com'' mb (ix_exact x)\<rparr>"
    using two_steps by metis
  have fresh: "new_index two_providers = (empty_index two_providers) \<lparr>ix_pending := [list_provider ''a'', list_provider ''b'']\<rparr>"
    by (simp add: new_index_def empty_index_def two_providers_def sort_by_def list_provider_def)
  have d: "normalize_domain id ''w.x.com'' = ''w.x.com''" "normalize_domain id ''q'' = ''q''" by code_simp+
  have parents: "lookup_parents p ''w.x.com'' = (case p ''x.com'' of Some m \<Rightarrow> Some m | None \<Rightarrow> p ''com'')"
    "lookup_parents p ''q'' = None" for p
    by (simp_all add: lookup_parents.simps [of p "''w.x.com''"] lookup_parents.simps [of p "''x.com''"]
        lookup_parents.simps [of p "''com''"] lookup_parents.simps [of p "''q''"] Let_def split: option.splits)
  show ?thesis
    using m by (simp add: fresh index_match_def d index_lookup_def parents a b put_new_def to_match_def Let_def
        cong: option.case_cong)
qed

end
