(* ===== verification/Routing_Facts.thy ===== *)
theory Routing_Facts
  imports Routing_Trace Rule_Index_Facts
begin

section \<open>What the destination trace says\<close>

text \<open>
  The trace of a partly described flow against the traces of the flows it stands for, and the
  dispatch loop against its specification \<open>first_verdict\<close>: the first candidate section that does
  not let the flow fall through decides.
\<close>

definition completes :: "flow \<Rightarrow> flow \<Rightarrow> bool" where
  "completes g f \<longleftrightarrow> (fw_protocol f \<noteq> [] \<longrightarrow> fw_protocol g = fw_protocol f)
     \<and> (fw_port f \<noteq> 0 \<longrightarrow> fw_port g = fw_port f) \<and> (fw_wan f \<noteq> [] \<longrightarrow> fw_wan g = fw_wan f)"

subsection \<open>The ports of one flow\<close>

definition allows :: "port_range list \<Rightarrow> int \<Rightarrow> bool" where
  "allows rs p \<longleftrightarrow> rs = [] \<or> p \<in> ports_of rs"

lemma parse_port [simp]:
  assumes "1 \<le> p" and "p \<le> 65535"
  shows "parse_port_ranges (itoa p) = Inr [\<lparr>pr_first = p, pr_last = p\<rparr>]"
proof -
  have "parse_port_ranges (format_port_ranges [\<lparr>pr_first = p, pr_last = p\<rparr>]) = Inr [\<lparr>pr_first = p, pr_last = p\<rparr>]"
    by (rule parse_format_canonical) (use assms in \<open>simp add: canonical_def valid_range_def\<close>)
  then show ?thesis by (simp add: format_port_ranges_def format_range_def)
qed

lemma intersect_ranges_Nil: "intersect_ranges ar br = [] \<longleftrightarrow> (\<forall>x \<in> set ar. \<forall>y \<in> set br. ports_in x \<inter> ports_in y = {})"
  by (auto simp: intersect_ranges_def range_overlap_def ports_in_def Let_def)

lemma port_allowed:
  assumes "1 \<le> p" and "p \<le> 65535"
  shows "snd (intersect_destination_ports v (itoa p)) \<longleftrightarrow> (\<exists>rs. parse_port_ranges v = Inr rs \<and> allows rs p)"
proof (cases "parse_port_ranges v")
  case (Inr ar)
  then show ?thesis
    using parse_port [OF assms] assms
    by (auto simp del: itoa_pos simp: intersect_destination_ports_def allows_def intersect_ranges_Nil ports_of_def
        Let_def ports_in_def)
qed (simp add: intersect_destination_ports_def)

text \<open>The intersection of two lists allows the ports that both allow.\<close>

lemma intersect_allows:
  assumes "intersect_destination_ports a b = (v, True)"
  shows "\<exists>ar br rs. parse_port_ranges a = Inr ar \<and> parse_port_ranges b = Inr br \<and> parse_port_ranges v = Inr rs
    \<and> (\<forall>p. allows rs p \<longleftrightarrow> allows ar p \<and> allows br p)"
proof -
  obtain ar br where ab: "parse_port_ranges a = Inr ar" "parse_port_ranges b = Inr br"
    using assms by (auto simp: intersect_destination_ports_def split: sum.splits)
  have c: "canonical ar" "canonical br" using ab parse_port_ranges_canonical by auto
  show ?thesis
  proof (cases "ar = [] \<or> br = []")
    case True
    then have "v = format_port_ranges (ar @ br)" using assms ab
      by (cases "ar = []") (simp_all add: intersect_destination_ports_def)
    moreover have "canonical (ar @ br)" using True c by auto
    ultimately show ?thesis using ab True parse_format_canonical by (fastforce simp: allows_def)
  next
    case False
    let ?out = "intersect_ranges ar br"
    have v: "v = format_port_ranges ?out" "?out \<noteq> []" using assms ab False
      by (auto simp: intersect_destination_ports_def Let_def)
    have val: "list_all valid_range ?out" using c intersect_ranges_valid by (simp add: canonical_def)
    let ?rs = "merge_ranges (sort_key pr_first ?out)"
    have rs: "parse_port_ranges v = Inr ?rs" using v parse_format_ports [OF val] by simp
    have po: "ports_of ?rs = ports_of ar \<inter> ports_of br"
      using merge_ranges_canonical(2) [OF val] by (simp add: intersect_ranges_ports)
    have "pr_first (hd ?out) \<in> ports_of ?out"
      using v(2) val by (cases ?out) (auto simp: valid_range_def ports_in_def)
    then have "?rs \<noteq> []" using merge_ranges_canonical(2) [OF val] by auto
    then show ?thesis using ab rs po False by (auto simp: allows_def)
  qed
qed

subsection \<open>The zapret scope\<close>

definition admits :: "route_section \<Rightarrow> flow \<Rightarrow> zapret_strategy \<Rightarrow> string \<Rightarrow> bool" where
  "admits s f zs proto \<longleftrightarrow> (fw_protocol f = [] \<or> proto = fw_protocol f) \<and> matches_protocol s proto
     \<and> (case intersect_destination_ports (if proto = ''udp'' then zs_udp_ports zs else zs_tcp_ports zs)
             (sc_destination_ports s) of (both, ok) \<Rightarrow>
          ok \<and> (fw_port f = 0 \<or> snd (intersect_destination_ports both (itoa (fw_port f)))))"

definition on_wan :: "flow \<Rightarrow> zapret_profile option \<Rightarrow> bool" where
  "on_wan f p \<longleftrightarrow> (case p of None \<Rightarrow> False
     | Some q \<Rightarrow> zp_interfaces q = [] \<or> fw_wan f \<in> set (zp_interfaces q))"

lemma scope_protocol_admits:
  "scope_protocol s f zs p acc proto
    = (if admits s f zs proto then (True, snd acc \<or> on_wan f p) else acc)"
  by (auto simp: scope_protocol_def admits_def on_wan_def Let_def split: prod.splits)

lemma foldl_scope_protocol:
  "foldl (scope_protocol s f zs p) acc protos
    = (if \<exists>x \<in> set protos. admits s f zs x then (True, snd acc \<or> on_wan f p) else acc)"
  by (induction protos arbitrary: acc) (auto simp: scope_protocol_admits)

lemma scope_strategy_eq:
  "scope_strategy c s f acc name =
     (case zapret_strategy_by_name c name of None \<Rightarrow> acc
      | Some zs \<Rightarrow> if \<exists>x \<in> set (zs_protocols zs). admits s f zs x
          then (True, snd acc \<or> on_wan f (zapret_profile_by_name c (zs_profile zs))) else acc)"
  by (simp add: scope_strategy_def foldl_scope_protocol split: option.splits)

lemma foldl_scope_strategy:
  "fst (foldl (scope_strategy c s f) acc names) \<longleftrightarrow> fst acc \<or> (\<exists>n \<in> set names. \<exists>zs. zapret_strategy_by_name c n = Some zs
      \<and> (\<exists>x \<in> set (zs_protocols zs). admits s f zs x))"
  by (induction names arbitrary: acc) (auto simp: scope_strategy_eq split: option.splits)

lemma zapret_scope_possible:
  "fst (zapret_scope c s f) \<longleftrightarrow> (\<exists>n \<in> set (sc_zapret_strategies s). \<exists>zs. zapret_strategy_by_name c n = Some zs
      \<and> (\<exists>x \<in> set (zs_protocols zs). admits s f zs x))"
  by (simp add: zapret_scope_def foldl_scope_strategy)

lemma admits_completes: "completes g f \<Longrightarrow> admits s g zs x \<Longrightarrow> admits s f zs x"
  by (auto simp: admits_def completes_def split: prod.splits)

lemma zapret_scope_completes: "completes g f \<Longrightarrow> fst (zapret_scope c s g) \<Longrightarrow> fst (zapret_scope c s f)"
  unfolding zapret_scope_possible using admits_completes by blast

subsection \<open>Partly described flows\<close>

lemma completes_full:
  "completes g f \<Longrightarrow> fw_protocol f \<noteq> [] \<Longrightarrow> fw_port f \<noteq> 0 \<Longrightarrow> fw_wan f \<noteq> [] \<Longrightarrow> g = f"
  by (auto simp: completes_def)

lemma valid_flow_port: "validate_flow g = None \<Longrightarrow> fw_port g \<noteq> 0 \<Longrightarrow> 1 \<le> fw_port g \<and> fw_port g \<le> 65535"
  by (auto simp: validate_flow_def split: if_splits)

definition mismatch :: "route_section \<Rightarrow> flow \<Rightarrow> bool" where
  "mismatch s f \<longleftrightarrow> fw_protocol f \<noteq> [] \<and> \<not> matches_protocol s (fw_protocol f)
     \<or> fw_port f \<noteq> 0 \<and> \<not> snd (intersect_destination_ports (sc_destination_ports s) (itoa (fw_port f)))"

lemma mismatch_completes: "completes g f \<Longrightarrow> mismatch s f \<Longrightarrow> mismatch s g"
  unfolding mismatch_def completes_def by auto

text \<open>The status, action by action.\<close>

lemma zapret_status:
  assumes "sc_action s = ''zapret''"
  shows "fst (section_flow_scope c s f) =
    (if mismatch s f \<or> \<not> fst (zapret_scope c s f) then ''skip''
     else if fw_protocol f = [] \<or> fw_port f = 0 \<or> fw_wan f = [] then ''conditional''
     else if snd (zapret_scope c s f) then ''match'' else ''direct'')"
  using assms by (simp add: section_flow_scope_def mismatch_def split: prod.split)

lemma proxy_status:
  assumes "sc_action s = ''proxy''"
  shows "fst (section_flow_scope c s f) =
    (if mismatch s f \<or> fw_protocol f = ''udp'' \<and> sc_udp_mode s = ''tcp_only'' then ''skip''
     else if fw_protocol f = []
       \<or> fw_port f = 0 \<and> (sc_destination_ports s \<noteq> [] \<or> sc_udp_mode s = ''block_quic'') then ''conditional''
     else if fw_protocol f = ''udp'' \<and> fw_port f = 443 \<and> sc_udp_mode s = ''block_quic'' then ''reject''
     else ''match'')"
  using assms by (simp add: section_flow_scope_def mismatch_def) blast

lemma other_status:
  assumes "sc_action s \<noteq> ''proxy''" and "sc_action s \<noteq> ''zapret''"
  shows "fst (section_flow_scope c s f) =
    (if sc_action s = ''direct'' \<or> sc_action s = ''reject'' then ''match'' else ''skip'')"
  using assms by (simp add: section_flow_scope_def)

lemma string_neqs:
  "''skip'' \<noteq> ''conditional''" "''match'' \<noteq> ''conditional''" "''direct'' \<noteq> ''conditional''"
  "''reject'' \<noteq> ''conditional''" "''match'' \<noteq> ''skip''" "''direct'' \<noteq> ''match''" "''reject'' \<noteq> ''match''"
  by simp_all

lemma scope_completes:
  assumes g: "completes g f" "validate_flow g = None" and s: "fst (section_flow_scope c s f) \<noteq> ''conditional''"
  shows "fst (section_flow_scope c s g) = fst (section_flow_scope c s f)"
proof -
  have same: "fw_protocol f \<noteq> [] \<Longrightarrow> fw_protocol g = fw_protocol f" "fw_port f \<noteq> 0 \<Longrightarrow> fw_port g = fw_port f"
    "fw_wan f \<noteq> [] \<Longrightarrow> fw_wan g = fw_wan f"
    using g(1) by (simp_all add: completes_def)
  consider (zapret) "sc_action s = ''zapret''" | (proxy) "sc_action s = ''proxy''"
    | (other) "sc_action s \<noteq> ''proxy''" "sc_action s \<noteq> ''zapret''" by blast
  then show ?thesis
  proof cases
    case zapret
    show ?thesis
    proof (cases "mismatch s f \<or> \<not> fst (zapret_scope c s f)")
      case True
      then have "mismatch s g \<or> \<not> fst (zapret_scope c s g)"
        using mismatch_completes [OF g(1)] zapret_scope_completes [OF g(1)] by blast
      then show ?thesis unfolding zapret_status [OF zapret] using True by (simp only: if_True)
    next
      case False
      then have "fw_protocol f \<noteq> []" "fw_port f \<noteq> 0" "fw_wan f \<noteq> []"
        using s unfolding zapret_status [OF zapret] by (simp_all only: if_False if_True split: if_split_asm) simp_all
      then show ?thesis using completes_full [OF g(1)] by simp
    qed
  next
    case proxy
    show ?thesis
    proof (cases "mismatch s f \<or> fw_protocol f = ''udp'' \<and> sc_udp_mode s = ''tcp_only''")
      case True
      then have "mismatch s g \<or> fw_protocol g = ''udp'' \<and> sc_udp_mode s = ''tcp_only''"
        using mismatch_completes [OF g(1)] same(1) by force
      then show ?thesis unfolding proxy_status [OF proxy] using True by (simp only: if_True)
    next
      case False
      then have full: "fw_protocol f \<noteq> []"
          "fw_port f \<noteq> 0 \<or> sc_destination_ports s = [] \<and> sc_udp_mode s \<noteq> ''block_quic''"
        using s unfolding proxy_status [OF proxy] by (auto simp only: if_False if_True split: if_split_asm)
      have any: "snd (intersect_destination_ports [] (itoa (fw_port g)))" if "fw_port g \<noteq> 0"
        using valid_flow_port [OF g(2) that] port_allowed [of "fw_port g" "[]"]
        by (simp del: itoa_pos add: parse_port_ranges_def allows_def)
      have "\<not> mismatch s g" using full same False any unfolding mismatch_def by metis
      then show ?thesis unfolding proxy_status [OF proxy] using False full same by auto
    qed
  next
    case other
    then show ?thesis by (simp only: other_status [OF other])
  qed
qed

lemma query_scope_completes:
  assumes "completes g f" "validate_flow g = None" and "fst (query_scope lo c query f s) \<noteq> ''conditional''"
  shows "fst (query_scope lo c query g s) = fst (query_scope lo c query f s)"
  using assms scope_completes [OF assms(1,2), of c s]
  by (auto simp: query_scope_def split: option.splits prod.splits ip_addr.splits if_splits)

subsection \<open>The dispatch loop\<close>

text \<open>What a section says about the query: nothing, or its action with its status.\<close>

definition section_answer ::
    "(string \<Rightarrow> string) \<Rightarrow> config \<Rightarrow> string \<Rightarrow> flow \<Rightarrow> route_section \<Rightarrow> string \<times> string \<times> string" where
  "section_answer lo c query f s = (sc_name s, scope_action s (fst (query_scope lo c query f s)))"

definition candidate_sections :: "config \<Rightarrow> (string \<Rightarrow> string list) \<Rightarrow> route_section list" where
  "candidate_sections c matches = filter (\<lambda>s. sc_enabled s \<and> matches (sc_name s) \<noteq> []) (routing_sections c)"

fun first_verdict :: "(string \<times> string \<times> string) list \<Rightarrow> string \<times> string" where
  "first_verdict [] = (''direct'', [])"
| "first_verdict ((name, action, status) # xs) =
     (if status = ''match'' then (action, name)
      else if status = ''conditional'' then (''conditional'', [])
      else first_verdict xs)"

text \<open>The statuses shown, by the statuses computed: the loop keeps one of three modes.\<close>

fun shown :: "bool \<Rightarrow> bool \<Rightarrow> string list \<Rightarrow> string list" where
  "shown u t [] = []"
| "shown u t (st # sts) =
     (if st \<noteq> ''match'' \<and> st \<noteq> ''conditional'' then st # shown u t sts
      else if t then ''shadowed'' # shown u t sts
      else if u \<or> st = ''conditional'' then ''conditional'' # shown True t sts
      else ''match'' # shown u True sts)"

lemma dispatch_skips: "\<not> (sc_enabled s \<and> m (sc_name s) \<noteq> []) \<Longrightarrow> dispatch_section lo c q f m d s = d"
  by (auto simp: dispatch_section_def)

lemma foldl_candidates:
  "foldl (dispatch_section lo c q f m) d ss
    = foldl (dispatch_section lo c q f m) d (filter (\<lambda>s. sc_enabled s \<and> m (sc_name s) \<noteq> []) ss)"
  by (induction ss arbitrary: d) (auto simp: dispatch_skips)

lemma dispatch_section_eq:
  assumes "sc_enabled s" and "m (sc_name s) \<noteq> []" and "section_answer lo c q f s = (n, a, st)"
  shows "\<exists>p. dispatch_section lo c q f m d s =
    (if st \<noteq> ''match'' \<and> st \<noteq> ''conditional'' then d \<lparr>dp_steps := dp_steps d @ [p \<lparr>rs_status := st\<rparr>]\<rparr>
     else if dp_terminal d then d \<lparr>dp_steps := dp_steps d @ [p \<lparr>rs_status := ''shadowed''\<rparr>]\<rparr>
     else if dp_uncertain d \<or> st = ''conditional''
     then d \<lparr>dp_uncertain := True, dp_action := ''conditional'', dp_steps := dp_steps d @ [p \<lparr>rs_status := ''conditional''\<rparr>]\<rparr>
     else d \<lparr>dp_action := a, dp_section := n, dp_terminal := True, dp_steps := dp_steps d @ [p \<lparr>rs_status := ''match''\<rparr>]\<rparr>)"
proof -
  obtain sr where q: "query_scope lo c q f s = sr" by simp
  obtain s0 r where sr: "sr = (s0, r)" by (cases sr)
  have a: "scope_action s s0 = (a, st)" and n: "n = sc_name s" using assms(3) q sr
    by (simp_all add: section_answer_def)
  let ?p = "\<lparr>rs_section = n, rs_priority = sc_priority s, rs_action = a, rs_providers = sort (m n),
    rs_status = [], rs_reason = snd (fst (settle a n (st, r) d))\<rparr>"
  show ?thesis
    by (rule exI [of _ ?p])
      (use assms(1,2) in \<open>simp add: dispatch_section_def Let_def q sr a n [symmetric] settle_def split: prod.split\<close>)
qed

text \<open>The verdict that is already certain after the sections seen so far.\<close>

definition dispatch_ok :: "dispatch \<Rightarrow> bool" where
  "dispatch_ok d \<longleftrightarrow> dp_terminal d
     \<or> dp_section d = [] \<and> dp_action d = (if dp_uncertain d then ''conditional'' else ''direct'')"

definition verdict_from :: "dispatch \<Rightarrow> (string \<times> string \<times> string) list \<Rightarrow> string \<times> string" where
  "verdict_from d xs = (if dp_terminal d \<or> dp_uncertain d then (dp_action d, dp_section d) else first_verdict xs)"

lemma dispatch_step:
  fixes lo c q f
  assumes "sc_enabled s" and "m (sc_name s) \<noteq> []" and ok: "dispatch_ok d"
  defines "d' \<equiv> dispatch_section lo c q f m d s" and "x \<equiv> section_answer lo c q f s"
  shows "dispatch_ok d'" and "verdict_from d' xs = verdict_from d (x # xs)"
    and "map rs_status (dp_steps d') @ shown (dp_uncertain d') (dp_terminal d') sts
      = map rs_status (dp_steps d) @ shown (dp_uncertain d) (dp_terminal d) (snd (snd x) # sts)"
proof -
  obtain n a st where ans: "section_answer lo c q f s = (n, a, st)" by (metis prod_cases3)
  obtain p where eq: "d' =
    (if st \<noteq> ''match'' \<and> st \<noteq> ''conditional'' then d \<lparr>dp_steps := dp_steps d @ [p \<lparr>rs_status := st\<rparr>]\<rparr>
     else if dp_terminal d then d \<lparr>dp_steps := dp_steps d @ [p \<lparr>rs_status := ''shadowed''\<rparr>]\<rparr>
     else if dp_uncertain d \<or> st = ''conditional''
     then d \<lparr>dp_uncertain := True, dp_action := ''conditional'', dp_steps := dp_steps d @ [p \<lparr>rs_status := ''conditional''\<rparr>]\<rparr>
     else d \<lparr>dp_action := a, dp_section := n, dp_terminal := True, dp_steps := dp_steps d @ [p \<lparr>rs_status := ''match''\<rparr>]\<rparr>)"
    using dispatch_section_eq [where m = m and s = s and d = d, OF assms(1,2) ans] unfolding d'_def by blast
  consider (skip) "st \<noteq> ''match''" "st \<noteq> ''conditional''"
    | (closed) "st = ''match'' \<or> st = ''conditional''" "dp_terminal d"
    | (unsure) "st = ''match'' \<or> st = ''conditional''" "\<not> dp_terminal d" "dp_uncertain d \<or> st = ''conditional''"
    | (decide) "st = ''match''" "\<not> dp_terminal d" "\<not> dp_uncertain d" by blast
  then have "dispatch_ok d' \<and> verdict_from d' xs = verdict_from d (x # xs)
    \<and> map rs_status (dp_steps d') @ shown (dp_uncertain d') (dp_terminal d') sts
      = map rs_status (dp_steps d) @ shown (dp_uncertain d) (dp_terminal d) (snd (snd x) # sts)"
  proof cases
    case skip
    then have "d' = d \<lparr>dp_steps := dp_steps d @ [p \<lparr>rs_status := st\<rparr>]\<rparr>" using eq by simp
    then show ?thesis using skip ok by (simp add: ans x_def dispatch_ok_def verdict_from_def)
  next
    case closed
    then have "d' = d \<lparr>dp_steps := dp_steps d @ [p \<lparr>rs_status := ''shadowed''\<rparr>]\<rparr>" using eq by auto
    then show ?thesis using closed ok by (auto simp: ans x_def dispatch_ok_def verdict_from_def)
  next
    case unsure
    then have "d' = d \<lparr>dp_uncertain := True, dp_action := ''conditional'',
        dp_steps := dp_steps d @ [p \<lparr>rs_status := ''conditional''\<rparr>]\<rparr>" using eq by auto
    then show ?thesis using unsure ok by (auto simp: ans x_def dispatch_ok_def verdict_from_def)
  next
    case decide
    then have "d' = d \<lparr>dp_action := a, dp_section := n, dp_terminal := True,
        dp_steps := dp_steps d @ [p \<lparr>rs_status := ''match''\<rparr>]\<rparr>" using eq by simp
    then show ?thesis using decide ok by (simp add: ans x_def dispatch_ok_def verdict_from_def)
  qed
  then show "dispatch_ok d'" "verdict_from d' xs = verdict_from d (x # xs)"
    "map rs_status (dp_steps d') @ shown (dp_uncertain d') (dp_terminal d') sts
      = map rs_status (dp_steps d) @ shown (dp_uncertain d) (dp_terminal d) (snd (snd x) # sts)" by simp_all
qed

lemma dispatch_result:
  fixes lo c q f
  assumes "\<forall>s \<in> set ss. sc_enabled s \<and> m (sc_name s) \<noteq> []" and "dispatch_ok d"
  defines "e \<equiv> foldl (dispatch_section lo c q f m) d ss"
  shows "(dp_action e, dp_section e) = verdict_from d (map (section_answer lo c q f) ss)
    \<and> map rs_status (dp_steps e) = map rs_status (dp_steps d)
        @ shown (dp_uncertain d) (dp_terminal d) (map (\<lambda>s. snd (snd (section_answer lo c q f s))) ss)"
  using assms(1,2) unfolding e_def
proof (induction ss arbitrary: d)
  case Nil
  then show ?case by (auto simp: verdict_from_def dispatch_ok_def)
next
  case (Cons s ss)
  then show ?case
    using dispatch_step [where m = m and s = s and d = d and lo = lo and c = c and q = q and f = f] Cons.IH [of "dispatch_section lo c q f m d s"] by simp
qed

definition answers ::
    "(string \<Rightarrow> string) \<Rightarrow> candidates \<Rightarrow> string \<Rightarrow> flow \<Rightarrow> (string \<times> string \<times> string) list" where
  "answers lo t query f = map (section_answer lo (cd_cfg t) query f) (candidate_sections (cd_cfg t) (cd_matches t))"

lemma trace_result:
  fixes lo c query f stat parse
  defines "t \<equiv> trace_candidates stat parse lo c query" and "r \<equiv> trace_destination stat parse lo c query f"
  shows "rt_warnings r = cd_warnings t"
    and "(rt_action r, rt_section r) = (if cd_warnings t = [] then first_verdict (answers lo t query f) else (''conditional'', []))"
    and "map rs_status (rt_steps r) = shown False False (map (\<lambda>x. snd (snd x)) (answers lo t query f))"
proof -
  let ?e = "foldl (dispatch_section lo (cd_cfg t) query f (cd_matches t)) start_dispatch (routing_sections (cd_cfg t))"
  have e: "?e = foldl (dispatch_section lo (cd_cfg t) query f (cd_matches t)) start_dispatch
      (candidate_sections (cd_cfg t) (cd_matches t))"
    unfolding candidate_sections_def by (rule foldl_candidates)
  have "(dp_action ?e, dp_section ?e) = first_verdict (answers lo t query f)
      \<and> map rs_status (dp_steps ?e) = shown False False (map (\<lambda>x. snd (snd x)) (answers lo t query f))"
    unfolding e using dispatch_result [of "candidate_sections (cd_cfg t) (cd_matches t)" "cd_matches t" start_dispatch]
    by (simp add: candidate_sections_def answers_def start_dispatch_def dispatch_ok_def verdict_from_def comp_def)
  then show "rt_warnings r = cd_warnings t"
    "(rt_action r, rt_section r) = (if cd_warnings t = [] then first_verdict (answers lo t query f) else (''conditional'', []))"
    "map rs_status (rt_steps r) = shown False False (map (\<lambda>x. snd (snd x)) (answers lo t query f))"
    by (simp_all add: r_def trace_destination_def t_def [symmetric] Let_def)
qed

lemma scope_status_cases:
  obtains "fst (section_flow_scope c s f) = ''skip''"
  | "fst (section_flow_scope c s f) = ''conditional''"
  | "fst (section_flow_scope c s f) = ''match''" "sc_action s \<in> {''proxy'', ''zapret'', ''direct'', ''reject''}"
  | "fst (section_flow_scope c s f) = ''reject''"
  | "fst (section_flow_scope c s f) = ''direct''"
proof -
  consider "sc_action s = ''zapret''" | "sc_action s = ''proxy''" | "sc_action s \<noteq> ''proxy''" "sc_action s \<noteq> ''zapret''"
    by blast
  then show ?thesis
  proof cases
    case 1
    then show ?thesis using zapret_status [OF 1, of c f] that by (metis insertCI)
  next
    case 2
    then show ?thesis using proxy_status [OF 2, of c f] that by (metis insertCI)
  next
    case 3
    then show ?thesis using other_status [OF 3, of c f] that by (metis insertCI)
  qed
qed

lemma query_scope_cases:
  "fst (query_scope lo c q f s) = ''skip'' \<or> fst (query_scope lo c q f s) = fst (section_flow_scope c s f)"
  by (auto simp: query_scope_def split: option.split prod.split ip_addr.split)

lemma answer_cases:
  assumes "section_answer lo c q f s = (n, a, st)"
  obtains "st = ''skip''" | "st = ''conditional''" "fst (query_scope lo c q f s) = ''conditional''"
  | "st = ''match''" "a \<in> {''proxy'', ''zapret'', ''direct'', ''reject''}"
proof -
  have sa: "scope_action s (fst (query_scope lo c q f s)) = (a, st)"
    using assms by (simp add: section_answer_def)
  show ?thesis
    using query_scope_cases [of lo c q f s]
    by (rule disjE; cases rule: scope_status_cases [of c s f])
      (use sa that in \<open>simp_all add: scope_action_def\<close>)
qed

lemma answer_completes:
  assumes "completes g f" "validate_flow g = None" and "snd (snd (section_answer lo c q f s)) \<noteq> ''conditional''"
  shows "section_answer lo c q g s = section_answer lo c q f s"
proof -
  have "fst (query_scope lo c q f s) \<noteq> ''conditional''"
    using assms(3) by (auto simp: section_answer_def scope_action_def)
  then show ?thesis using query_scope_completes [OF assms(1,2)] by (simp add: section_answer_def)
qed

lemma verdict_completes:
  assumes "completes g f" "validate_flow g = None"
    and "fst (first_verdict (map (section_answer lo c q f) ss)) \<noteq> ''conditional''"
  shows "first_verdict (map (section_answer lo c q g) ss) = first_verdict (map (section_answer lo c q f) ss)"
  using assms(3)
proof (induction ss)
  case (Cons s ss)
  obtain n a st where x: "section_answer lo c q f s = (n, a, st)" by (metis prod_cases3)
  have "st \<noteq> ''conditional''" using Cons.prems x by auto
  then have "section_answer lo c q g s = (n, a, st)" using answer_completes [OF assms(1,2), of lo c q s] x by simp
  then show ?case using Cons x by (cases "st = ''match''") auto
qed simp

lemma status_complete:
  assumes "fw_protocol f \<noteq> []" "fw_port f \<noteq> 0" "fw_wan f \<noteq> []"
  shows "fst (query_scope lo c q f s) \<noteq> ''conditional''"
proof -
  consider "sc_action s = ''zapret''" | "sc_action s = ''proxy''" | "sc_action s \<noteq> ''proxy''" "sc_action s \<noteq> ''zapret''"
    by blast
  then have "fst (section_flow_scope c s f) \<noteq> ''conditional''"
    by cases (use assms in \<open>simp_all add: zapret_status proxy_status other_status\<close>)
  then show ?thesis using query_scope_cases [of lo c q f s] by auto
qed

lemma verdict_complete:
  assumes "fw_protocol f \<noteq> []" "fw_port f \<noteq> 0" "fw_wan f \<noteq> []"
  shows "fst (first_verdict (map (section_answer lo c q f) ss)) \<in> {''proxy'', ''zapret'', ''direct'', ''reject''}"
proof (induction ss)
  case (Cons s ss)
  obtain n a st where x: "section_answer lo c q f s = (n, a, st)" by (metis prod_cases3)
  show ?case
    using x Cons status_complete [OF assms, of lo c q s] by (cases rule: answer_cases [OF x]) auto
qed simp

lemma shown_closed:
  "set sts \<subseteq> {''skip'', ''match'', ''conditional''} \<Longrightarrow>
    filter (\<lambda>x. x \<noteq> ''skip'') (shown u True sts) = replicate (length (filter (\<lambda>x. x \<noteq> ''skip'') sts)) ''shadowed''"
  by (induction sts) auto

lemma shown_unsure:
  "set sts \<subseteq> {''skip'', ''match'', ''conditional''} \<Longrightarrow>
    filter (\<lambda>x. x \<noteq> ''skip'') (shown True False sts) = replicate (length (filter (\<lambda>x. x \<noteq> ''skip'') sts)) ''conditional''"
  by (induction sts) auto

lemma shown_fresh:
  "set sts \<subseteq> {''skip'', ''match'', ''conditional''} \<Longrightarrow>
    filter (\<lambda>x. x \<noteq> ''skip'') (shown False False sts) =
      (case filter (\<lambda>x. x \<noteq> ''skip'') sts of [] \<Rightarrow> []
       | x # xs \<Rightarrow> if x = ''match'' then ''match'' # replicate (length xs) ''shadowed''
           else replicate (Suc (length xs)) ''conditional'')"
  by (induction sts) (auto simp: shown_closed shown_unsure)

lemma answers_statuses: "set (map (\<lambda>x. snd (snd x)) (answers lo t q f)) \<subseteq> {''skip'', ''match'', ''conditional''}"
proof
  fix st assume "st \<in> set (map (\<lambda>x. snd (snd x)) (answers lo t q f))"
  then obtain s n a where "section_answer lo (cd_cfg t) q f s = (n, a, st)"
    by (auto simp: answers_def) (metis prod.collapse)
  then show "st \<in> {''skip'', ''match'', ''conditional''}" by (cases rule: answer_cases) auto
qed

interpretation dispatch_order: slice_order dispatch_less
  by unfold_locales (auto simp: dispatch_less_def split: if_splits)

subsection \<open>An example\<close>

text \<open>One proxy section for TCP with one list, which holds the domain suffix \<open>x.com\<close>.\<close>

definition example_section :: route_section where
  "example_section = zero_route_section \<lparr>sc_name := ''games'', sc_enabled := True, sc_action := ''proxy'',
     sc_match_protocol := ''tcp''\<rparr>"

definition example_list :: rule_provider where
  "example_list = list_provider ''a'' \<lparr>rp_section := ''games''\<rparr>"

definition example_config :: config where
  "example_config = default_config \<lparr>cf_sections := [example_section], cf_rule_providers := [example_list]\<rparr>"

lemma example_index:
  "index_query two_parse id ''x.com'' (new_index example_config)
    = (let x = two_parse example_list ((new_index example_config) \<lparr>ix_pending := []\<rparr>)
       in (the (index_lookup x ''x.com''), x))"
  "index_lookup (two_parse example_list ((new_index example_config) \<lparr>ix_pending := []\<rparr>)) ''x.com'' \<noteq> None"
  "rm_matched (the (index_lookup (two_parse example_list ((new_index example_config) \<lparr>ix_pending := []\<rparr>)) ''x.com''))"
  "ix_warnings (two_parse example_list ((new_index example_config) \<lparr>ix_pending := []\<rparr>)) = []"
proof -
  have p: "parse_addr_zone (trim_space ''x.com'') = None" "normalize_domain id ''x.com'' = ''x.com''" by code_simp+
  have q: "ix_pending (new_index example_config) = [example_list]"
    by (simp add: new_index_def example_config_def example_list_def list_provider_def sort_by_def)
  have e: "ix_exact (new_index example_config) = Map.empty" "ix_suffix (new_index example_config) = Map.empty"
    "ix_sets (new_index example_config) = []" "ix_warnings (new_index example_config) = []" by (simp_all add: new_index_def)
  obtain m where t: "two_parse example_list x = x \<lparr>ix_suffix := put_new ''x.com'' m (ix_suffix x)\<rparr>"
    if "ix_cfg x = example_config" for x
    using that unfolding two_parse_def parse_provider_def example_list_def list_provider_def two_files_def
    by (force simp: two_texts add_text_rule_def Let_def lower_ascii_def section_by_name_def example_config_def)
  have c: "ix_cfg ((new_index example_config) \<lparr>ix_pending := []\<rparr>) = example_config" by (simp add: new_index_def)
  show l: "index_lookup (two_parse example_list ((new_index example_config) \<lparr>ix_pending := []\<rparr>)) ''x.com'' \<noteq> None"
    "rm_matched (the (index_lookup (two_parse example_list ((new_index example_config) \<lparr>ix_pending := []\<rparr>)) ''x.com''))"
    "ix_warnings (two_parse example_list ((new_index example_config) \<lparr>ix_pending := []\<rparr>)) = []"
    by (simp_all add: t [OF c] index_lookup_def e put_new_def to_match_def)
  have "index_lookup (new_index example_config) ''x.com'' = None"
    by (simp add: index_lookup_def e lookup_parents_empty)
  then show "index_query two_parse id ''x.com'' (new_index example_config)
    = (let x = two_parse example_list ((new_index example_config) \<lparr>ix_pending := []\<rparr>)
       in (the (index_lookup x ''x.com''), x))"
    using l(1) by (auto simp: index_query_def p index_match_def q Let_def)
qed

lemma example_candidates:
  "trace_candidates (\<lambda>_. None) two_parse id example_config ''x.com''
    = \<lparr>cd_cfg = example_config, cd_matches = (\<lambda>_. []) (''games'' := [''a'']), cd_warnings = []\<rparr>"
proof -
  have s: "section_by_name example_config ''games'' = Some example_section"
    by (simp add: section_by_name_def example_config_def example_section_def)
  have l: "rp_enabled example_list" "rp_section example_list = ''games''" "rp_name example_list = ''a''"
    by (simp_all add: example_list_def list_provider_def)
  have sec: "sc_enabled example_section" "sc_name example_section = ''games''" by (simp_all add: example_section_def)
  have one: "cf_rule_providers example_config = [example_list]"
    "example_config \<lparr>cf_rule_providers := [example_list]\<rparr> = example_config" by (simp_all add: example_config_def)
  show ?thesis
    using example_index
    by (simp add: trace_candidates_def one trace_provider_def provider_section_def s l sec Let_def)
qed

lemma example_sections: "routing_sections example_config = [example_section]"
  by (simp add: routing_sections_def example_config_def sort_by_def)

text \<open>A TCP flow whose port and device are open.\<close>

definition tcp_flow :: "int \<Rightarrow> string \<Rightarrow> flow" where
  "tcp_flow p w = \<lparr>fw_protocol = ''tcp'', fw_port = p, fw_wan = w\<rparr>"

lemma example_trace:
  "rt_action (trace_destination (\<lambda>_. None) two_parse id example_config ''x.com'' (tcp_flow 0 [])) = ''proxy''"
proof -
  have sc: "section_flow_scope example_config example_section (tcp_flow 0 []) = (''match'', Scope_matches)" by code_simp
  have p: "parse_addr_zone (trim_space ''x.com'') = None" by code_simp
  have "sc_enabled example_section" "sc_name example_section = ''games''" "sc_action example_section = ''proxy''"
    by (simp_all add: example_section_def)
  then show ?thesis
    by (simp add: trace_destination_def example_candidates example_sections dispatch_section_def query_scope_def p sc
        scope_action_def settle_def start_dispatch_def Let_def)
qed

subsection \<open>Properties\<close>

text \<open>
  C7: the dispatch loop computes the specification. The candidate sections are enabled, list the
  destination and are in dispatch order (reject before direct before the others, then by
  priority); the first of them that does not let the flow fall through gives the action and the
  section, one that needs more of the flow makes the trace conditional, and without one the
  destination is direct. Any warning makes the trace conditional. Apart from skips, the statuses
  shown are one match followed by shadowed sections, or conditional ones only.
\<close>

theorem trace_first_verdict:
  "let t = trace_candidates stat parse lo c query; r = trace_destination stat parse lo c query f
   in (rt_action r, rt_section r)
        = (if rt_warnings r = [] then first_verdict (answers lo t query f) else (''conditional'', []))
     \<and> sorted_wrt (\<lambda>x y. \<not> dispatch_less y x) (candidate_sections (cd_cfg t) (cd_matches t))
     \<and> filter (\<lambda>x. x \<noteq> ''skip'') (map rs_status (rt_steps r))
        \<in> {[]} \<union> range (\<lambda>n. ''match'' # replicate n ''shadowed'') \<union> range (\<lambda>n. replicate (Suc n) ''conditional'')"
proof -
  let ?t = "trace_candidates stat parse lo c query" and ?r = "trace_destination stat parse lo c query f"
  note r = trace_result [of stat parse lo c query f]
  have "sorted_wrt (\<lambda>x y. \<not> dispatch_less y x) (candidate_sections (cd_cfg ?t) (cd_matches ?t))"
    unfolding candidate_sections_def routing_sections_def by (intro sorted_wrt_filter dispatch_order.sorted)
  moreover have "filter (\<lambda>x. x \<noteq> ''skip'') (map rs_status (rt_steps ?r))
      \<in> {[]} \<union> range (\<lambda>n. ''match'' # replicate n ''shadowed'') \<union> range (\<lambda>n. replicate (Suc n) ''conditional'')"
    unfolding r(3) shown_fresh [OF answers_statuses] by (auto split: list.split)
  ultimately show ?thesis using r by (simp add: Let_def)
qed

text \<open>
  C6: a trace of a partly described flow can be trusted. When the protocol, the port or the
  device is left open and the trace still decides, every valid flow that fills in the open parts
  gets the same action from the same section.
\<close>

theorem partial_trace_sound:
  assumes "rt_action (trace_destination stat parse lo c query f) \<noteq> ''conditional''"
    and "completes g f" and "validate_flow g = None"
  shows "rt_action (trace_destination stat parse lo c query g) = rt_action (trace_destination stat parse lo c query f)
    \<and> rt_section (trace_destination stat parse lo c query g) = rt_section (trace_destination stat parse lo c query f)"
proof -
  note f = trace_result [of stat parse lo c query f] and g = trace_result [of stat parse lo c query g]
  have w: "cd_warnings (trace_candidates stat parse lo c query) = []"
    using assms(1) f(2) by (auto split: if_splits)
  then have "fst (first_verdict (answers lo (trace_candidates stat parse lo c query) query f)) \<noteq> ''conditional''"
    using assms(1) f(2) by (metis fst_conv)
  from verdict_completes [OF assms(2,3) this [unfolded answers_def]]
  show ?thesis using f(2) g(2) w unfolding answers_def by (metis prod.inject)
qed

theorem partial_trace_sound_witness:
  "rt_action (trace_destination (\<lambda>_. None) two_parse id example_config ''x.com'' (tcp_flow 443 ''eth1'')) = ''proxy''"
  using partial_trace_sound [of "\<lambda>_. None" two_parse id example_config "''x.com''" "tcp_flow 0 []" "tcp_flow 443 ''eth1''"]
    example_trace
  by (simp add: completes_def validate_flow_def tcp_flow_def)

text \<open>
  A trace of a completely described flow is conditional only because of a warning; otherwise
  it names one of the four actions.
\<close>

theorem complete_trace_decides:
  assumes "fw_protocol f \<noteq> []" and "fw_port f \<noteq> 0" and "fw_wan f \<noteq> []"
  shows "if rt_warnings (trace_destination stat parse lo c query f) = []
    then rt_action (trace_destination stat parse lo c query f) \<in> {''proxy'', ''zapret'', ''direct'', ''reject''}
    else rt_action (trace_destination stat parse lo c query f) = ''conditional''"
  using trace_result [of stat parse lo c query f]
    verdict_complete [OF assms, of lo "cd_cfg (trace_candidates stat parse lo c query)" query
      "candidate_sections (cd_cfg (trace_candidates stat parse lo c query)) (cd_matches (trace_candidates stat parse lo c query))"]
  unfolding answers_def by (auto split: if_splits) (metis fst_conv)+

theorem complete_trace_decides_witness:
  "rt_action (trace_destination (\<lambda>_. None) two_parse id example_config ''x.com'' (tcp_flow 443 ''eth1''))
    \<in> {''proxy'', ''zapret'', ''direct'', ''reject''}"
  using complete_trace_decides [of "tcp_flow 443 ''eth1''" "\<lambda>_. None" two_parse id example_config "''x.com''"]
  by (simp add: tcp_flow_def trace_result example_candidates)

end
