(* ===== verification/Nft_Facts.thy ===== *)
theory Nft_Facts
  imports Nft_Rules Routing_Facts
begin

section \<open>What the ruleset does with a packet\<close>

text \<open>
  The reading of the set rules by the kernel, as far as the destination pass uses it: a rule
  applies to a packet whose family, destination, protocol and port it names, and the first rule
  that applies decides. \<open>nft\<close> is the set of ports that nftables reads from the text between
  braces, \<open>inset\<close> says which sets hold the destination.
\<close>

record packet =
  pk_v6 :: bool
  pk_proto :: string
  pk_port :: int

definition packet_family :: "packet \<Rightarrow> string" where
  "packet_family pk = (if pk_v6 pk then ''ip6'' else ''ip'')"

definition ports_admit :: "(string \<Rightarrow> int set) \<Rightarrow> string \<Rightarrow> int \<Rightarrow> bool" where
  "ports_admit nft ports p \<longleftrightarrow> trim_space ports = [] \<or> p \<in> nft (trim_space ports)"

definition rule_applies :: "(string \<Rightarrow> int set) \<Rightarrow> (string \<Rightarrow> bool) \<Rightarrow> packet \<Rightarrow> set_rule \<Rightarrow> bool" where
  "rule_applies nft inset pk r \<longleftrightarrow> sr_family r = packet_family pk \<and> inset (sr_set r)
     \<and> (case sr_scope r of None \<Rightarrow> True
        | Some (proto, ports) \<Rightarrow> pk_proto pk = proto \<and> ports_admit nft ports (pk_port pk))
     \<and> (sr_quic r \<longrightarrow> pk_proto pk = ''udp'' \<and> pk_port pk = 443)"

fun first_action :: "(string \<Rightarrow> int set) \<Rightarrow> (string \<Rightarrow> bool) \<Rightarrow> packet \<Rightarrow> set_rule list \<Rightarrow> rule_action option" where
  "first_action nft inset pk [] = None"
| "first_action nft inset pk (r # rs) =
     (if rule_applies nft inset pk r then Some (sr_action r) else first_action nft inset pk rs)"

fun set_rules :: "chain_entry list \<Rightarrow> set_rule list" where
  "set_rules [] = []"
| "set_rules (Set_rule r # es) = r # set_rules es"
| "set_rules (Raw_line l # es) = set_rules es"

text \<open>
  A chain: the first entry that decides. What nftables does with a line copied from a provider
  is an argument, \<open>raw\<close>: the verdict of that line on the packet, if it applies.
\<close>

fun chain_action ::
    "(packet \<Rightarrow> string \<Rightarrow> rule_action option) \<Rightarrow> (string \<Rightarrow> int set) \<Rightarrow> (string \<Rightarrow> bool) \<Rightarrow> packet
     \<Rightarrow> chain_entry list \<Rightarrow> rule_action option" where
  "chain_action raw nft inset pk [] = None"
| "chain_action raw nft inset pk (Set_rule r # es) =
     (if rule_applies nft inset pk r then Some (sr_action r) else chain_action raw nft inset pk es)"
| "chain_action raw nft inset pk (Raw_line l # es) =
     (case raw pk l of Some a \<Rightarrow> Some a | None \<Rightarrow> chain_action raw nft inset pk es)"

text \<open>The documented syntax of a port set: single ports and ranges, separated by commas.\<close>

definition reads_ports :: "(string \<Rightarrow> int set) \<Rightarrow> bool" where
  "reads_ports nft \<longleftrightarrow> (\<forall>rs. list_all valid_range rs \<longrightarrow> rs \<noteq> [] \<longrightarrow> nft (format_port_ranges rs) = ports_of rs)"

subsection \<open>Chains\<close>

lemma first_action_append:
  "first_action nft inset pk (xs @ ys) = merge (first_action nft inset pk xs) (first_action nft inset pk ys)"
  by (induction xs) auto

lemma set_rules_append [simp]: "set_rules (xs @ ys) = set_rules xs @ set_rules ys"
  by (induction xs rule: set_rules.induct) auto

lemma set_rules_map [simp]: "set_rules (map Set_rule rs) = rs"
  by (induction rs) auto

lemma set_rules_raw [simp]: "set_rules (map Raw_line ls) = []"
  by (induction ls) auto

lemma chain_action_append:
  "chain_action raw nft inset pk (xs @ ys) = merge (chain_action raw nft inset pk xs) (chain_action raw nft inset pk ys)"
  by (induction raw nft inset pk xs rule: chain_action.induct) (auto split: option.split)

lemma chain_action_rules [simp]: "chain_action raw nft inset pk (map Set_rule rs) = first_action nft inset pk rs"
  by (induction rs) auto

lemma chain_action_set_rules:
  "Raw_line ` UNIV \<inter> set es = {} \<Longrightarrow> chain_action raw nft inset pk es = first_action nft inset pk (set_rules es)"
  by (induction raw nft inset pk es rule: chain_action.induct) auto

lemma destination_pass_rules: "Raw_line ` UNIV \<inter> set (destination_pass c (\<lambda>_. []) v6) = {}"
  by (auto simp: destination_pass_def section_entries_def split: if_splits)

text \<open>Without a rule that applies, the lines of the providers decide.\<close>

lemma chain_action_raw:
  "first_action nft inset pk (set_rules es) = None \<Longrightarrow> chain_action raw nft inset pk es = Some a
    \<Longrightarrow> \<exists>l. Raw_line l \<in> set es \<and> raw pk l = Some a"
  by (induction raw nft inset pk es rule: chain_action.induct) (auto split: if_splits option.splits)

lemma merge_eq_None: "merge a b = None \<longleftrightarrow> a = None \<and> b = None"
  by (cases a) auto

definition in_refs :: "(string \<Rightarrow> bool) \<Rightarrow> string \<Rightarrow> bool" where
  "in_refs inset sn \<longleftrightarrow> (\<exists>r \<in> set (nft_set_refs sn). inset r)"

definition family_set :: "packet \<Rightarrow> string \<Rightarrow> string \<Rightarrow> string" where
  "family_set pk set4 set6 = (if pk_v6 pk then set6 else set4)"

lemma both_families_action:
  assumes "\<And>family sn. first_action nft inset pk (f family sn)
    = (if family = packet_family pk \<and> inset sn then body family else None)"
  shows "first_action nft inset pk (both_families v6 set4 set6 f)
    = (if (pk_v6 pk \<longrightarrow> v6) \<and> in_refs inset (family_set pk set4 set6) then body (packet_family pk) else None)"
proof (cases "body (packet_family pk)")
  case None
  then show ?thesis
    by (auto simp: both_families_def nft_set_refs_def first_action_append assms merge_def)
next
  case (Some a)
  then show ?thesis
    by (auto simp: both_families_def nft_set_refs_def first_action_append assms in_refs_def family_set_def
        packet_family_def)
qed

lemma first_action_plain:
  "first_action nft inset pk (plain_rules a v6 set4 set6)
    = (if (pk_v6 pk \<longrightarrow> v6) \<and> in_refs inset (family_set pk set4 set6) then Some a else None)"
  unfolding plain_rules_def
  by (subst both_families_action [where body = "\<lambda>_. Some a"])
    (auto simp: rule_applies_def set_rule_for_def)

definition quic_body :: "route_section \<Rightarrow> packet \<Rightarrow> rule_action option" where
  "quic_body s pk =
     (if sc_udp_mode s = ''block_quic'' \<and> matches_protocol s ''udp''
        \<and> snd (intersect_destination_ports (sc_destination_ports s) ''443'')
        \<and> pk_proto pk = ''udp'' \<and> pk_port pk = 443 then Some Do_reject else None)"

lemma first_action_quic:
  "first_action nft inset pk (quic_rules s v6)
    = (if (pk_v6 pk \<longrightarrow> v6) \<and> in_refs inset (family_set pk (nft_set4 s) (nft_set6 s)) then quic_body s pk else None)"
proof (cases "sc_udp_mode s = ''block_quic'' \<and> matches_protocol s ''udp''
    \<and> snd (intersect_destination_ports (sc_destination_ports s) ''443'')")
  case True
  then show ?thesis
    unfolding quic_rules_def
    by (subst if_P, simp) (subst both_families_action [where body = "\<lambda>_. quic_body s pk"],
        auto simp: rule_applies_def set_rule_for_def quic_body_def)
qed (auto simp: quic_rules_def quic_body_def)

definition proxy_body :: "(string \<Rightarrow> int set) \<Rightarrow> route_section \<Rightarrow> packet \<Rightarrow> (string \<Rightarrow> rule_action) \<Rightarrow> string \<Rightarrow> rule_action option" where
  "proxy_body nft s pk act family =
     (if pk_proto pk \<in> set (proxied_protocols s) \<and> ports_admit nft (section_ports s) (pk_port pk)
      then Some (act family) else None)"

lemma first_action_proxy:
  "first_action nft inset pk (proxy_rules s v6 act)
    = (if (pk_v6 pk \<longrightarrow> v6) \<and> in_refs inset (family_set pk (nft_set4 s) (nft_set6 s))
       then proxy_body nft s pk act (packet_family pk) else None)"
  unfolding proxy_rules_def
  by (subst both_families_action [where body = "proxy_body nft s pk act"])
    (auto simp: rule_applies_def set_rule_for_def proxy_body_def proxied_protocols_def)

definition claim_body :: "(string \<Rightarrow> int set) \<Rightarrow> config \<Rightarrow> route_section \<Rightarrow> packet \<Rightarrow> rule_action option" where
  "claim_body nft c s pk =
     (if pk_proto pk \<in> {''tcp'', ''udp''}
        \<and> (case section_claims c s (pk_proto pk) of None \<Rightarrow> False
           | Some All_ports \<Rightarrow> True | Some (Some_ports v) \<Rightarrow> ports_admit nft v (pk_port pk))
      then Some Do_return else None)"

lemma first_action_claims:
  "first_action nft inset pk (claim_returns c s v6)
    = (if (pk_v6 pk \<longrightarrow> v6) \<and> in_refs inset (family_set pk (nft_set4 s) (nft_set6 s))
       then claim_body nft c s pk else None)"
  unfolding claim_returns_def Let_def
  by (subst both_families_action [where body = "\<lambda>_. claim_body nft c s pk"])
    (auto simp: rule_applies_def set_rule_for_def claim_body_def ports_admit_def split: option.splits port_claim.splits)

end
