(* ===== verification/Nft_Claims.thy ===== *)
theory Nft_Claims
  imports Nft_Facts
begin

section \<open>The ports a zapret section claims\<close>

text \<open>
  \<open>zapretSectionPortClaims\<close> joins the port lists of the strategies of a section as text, leaving
  out tokens it has seen. The text stays the printed form of a list of ranges that denotes the
  union, and what is claimed is what the destination trace calls possible.
\<close>

definition claim_allows :: "(string \<Rightarrow> int set) \<Rightarrow> port_claim option \<Rightarrow> int \<Rightarrow> bool" where
  "claim_allows nft cl p \<longleftrightarrow>
     (case cl of None \<Rightarrow> False | Some All_ports \<Rightarrow> True | Some (Some_ports v) \<Rightarrow> ports_admit nft v p)"

definition claim_inv :: "claims \<Rightarrow> string \<Rightarrow> bool" where
  "claim_inv q proto \<longleftrightarrow>
     (case cl_claims q proto of
        None \<Rightarrow> cl_seen q proto = []
      | Some All_ports \<Rightarrow> True
      | Some (Some_ports v) \<Rightarrow> (\<exists>rs. list_all valid_range rs \<and> rs \<noteq> [] \<and> v = format_port_ranges rs
            \<and> cl_seen q proto = map format_range rs))"

lemma format_range_inj:
  "valid_range r \<Longrightarrow> valid_range t \<Longrightarrow> format_range r = format_range t \<Longrightarrow> r = t"
  by (metis parse_format_range sum.inject(2))

lemma format_range_solid:
  "valid_range r \<Longrightarrow> trim_space (format_range r) = format_range r \<and> format_range r \<noteq> []"
  using itoa_range_ends(2) [of r] by (auto simp: solid_ends_def)

lemma trim_format_ports:
  assumes "list_all valid_range rs"
  shows "trim_space (format_port_ranges rs) = format_port_ranges rs"
    and "format_port_ranges rs = [] \<longleftrightarrow> rs = []"
  using format_solid_ends [OF assms] by (cases "rs = []"; force simp: solid_ends_def format_port_ranges_def)+

lemma ports_admit_format:
  assumes "reads_ports nft" and "list_all valid_range rs"
  shows "ports_admit nft (format_port_ranges rs) p \<longleftrightarrow> rs = [] \<or> p \<in> ports_of rs"
  using assms trim_format_ports [OF assms(2)] by (auto simp: ports_admit_def reads_ports_def)

lemma split_format_ports:
  assumes "list_all valid_range rs" and "rs \<noteq> []"
  shows "map trim_space (split_on (CHR '','') (format_port_ranges rs)) = map format_range rs"
proof -
  have "split_on (CHR '','') (format_port_ranges rs) =
      hd (map format_range rs) # map (\<lambda>p. '' '' @ p) (tl (map format_range rs))"
    unfolding format_port_ranges_def using assms
    by (intro split_on_join) (auto simp: list_all_iff itoa_range_ends)
  then show ?thesis
    using assms by (cases rs) (auto simp: list_all_iff itoa_range_ends comp_def)
qed

lemma claim_parts_new:
  assumes "map trim_space raws = map format_range ns" and "list_all valid_range ns"
  shows "\<exists>news. claim_parts raws seen = (map format_range news, seen @ map format_range news)
    \<and> set news \<subseteq> set ns \<and> format_range ` set ns \<subseteq> set seen \<union> format_range ` set news"
  using assms
proof (induction raws arbitrary: ns seen)
  case (Cons raw raws)
  then obtain n ns' where ns: "ns = n # ns'" "trim_space raw = format_range n" "map trim_space raws = map format_range ns'"
    by (cases ns) auto
  have n: "format_range n \<noteq> []" using Cons.prems ns format_range_solid by simp
  show ?case
  proof (cases "format_range n \<in> set seen")
    case True
    obtain news where "claim_parts raws seen = (map format_range news, seen @ map format_range news)"
      "set news \<subseteq> set ns'" "format_range ` set ns' \<subseteq> set seen \<union> format_range ` set news"
      using Cons.IH [OF ns(3), of seen] Cons.prems ns by auto
    then show ?thesis using True ns n by (intro exI [of _ news]) auto
  next
    case False
    obtain news where "claim_parts raws (seen @ [format_range n]) = (map format_range news, (seen @ [format_range n]) @ map format_range news)"
      "set news \<subseteq> set ns'" "format_range ` set ns' \<subseteq> set (seen @ [format_range n]) \<union> format_range ` set news"
      using Cons.IH [OF ns(3), of "seen @ [format_range n]"] Cons.prems ns by auto
    then show ?thesis using False ns n by (intro exI [of _ "n # news"]) (auto simp: Let_def)
  qed
qed auto

lemma join_nested: "xs \<noteq> [] \<Longrightarrow> join sep (join sep xs # ys) = join sep (xs @ ys)"
proof (induction xs rule: induct_list012)
  case (3 x y zs)
  then show ?case by (cases ys) auto
qed auto

lemma add_claim_range:
  assumes nft: "reads_ports nft" and inv: "claim_inv q proto" and ns: "list_all valid_range ns"
  defines "q' \<equiv> add_claim proto (format_port_ranges ns) q"
  shows "claim_inv q' proto"
    and "claim_allows nft (cl_claims q' proto) p \<longleftrightarrow> claim_allows nft (cl_claims q proto) p \<or> ns = [] \<or> p \<in> ports_of ns"
    and "x \<noteq> proto \<Longrightarrow> cl_claims q' x = cl_claims q x \<and> cl_seen q' x = cl_seen q x"
proof -
  have "claim_inv q' proto \<and> (claim_allows nft (cl_claims q' proto) p
      \<longleftrightarrow> claim_allows nft (cl_claims q proto) p \<or> ns = [] \<or> p \<in> ports_of ns)"
  proof (cases "cl_claims q proto = Some All_ports \<or> ns = []")
    case True
    then show ?thesis using inv trim_format_ports [OF ns]
      by (auto simp: q'_def add_claim_def claim_inv_def claim_allows_def)
  next
    case False
    obtain news where news: "claim_parts (split_on (CHR '','') (format_port_ranges ns)) (cl_seen q proto)
        = (map format_range news, cl_seen q proto @ map format_range news)"
      "set news \<subseteq> set ns" "format_range ` set ns \<subseteq> set (cl_seen q proto) \<union> format_range ` set news"
      using claim_parts_new [OF split_format_ports [OF ns] ns] False by blast
    obtain rs where rs: "list_all valid_range rs" "cl_seen q proto = map format_range rs"
      "cl_claims q proto = (if rs = [] then None else Some (Some_ports (format_port_ranges rs)))"
      using inv False by (auto simp: claim_inv_def split: option.splits port_claim.splits)
    let ?all = "rs @ news"
    have val: "list_all valid_range ?all" using rs(1) news(2) ns by (auto simp: list_all_iff)
    have sub: "set ns \<subseteq> set ?all"
    proof
      fix n assume n: "n \<in> set ns"
      have "format_range n \<in> format_range ` set ?all"
        using subsetD [OF news(3) imageI [OF n]] by (simp add: rs(2) image_Un)
      then obtain t where "t \<in> set ?all" "format_range t = format_range n"
        by (metis imageE)
      moreover have "valid_range t" "valid_range n" using val ns n \<open>t \<in> set ?all\<close> by (auto simp: list_all_iff)
      ultimately show "n \<in> set ?all" using format_range_inj by metis
    qed
    have ne: "?all \<noteq> []" using sub False by (cases ns) auto
    have po: "ports_of ?all = ports_of rs \<union> ports_of ns" using sub news(2) by (auto simp: ports_of_def)
    have joined: "join '', '' ((case cl_claims q proto of Some (Some_ports v) \<Rightarrow> if v = [] then [] else [v] | _ \<Rightarrow> [])
        @ map format_range news) = format_port_ranges ?all"
      using rs trim_format_ports(2) [OF rs(1)]
      by (auto simp: format_port_ranges_def join_nested)
    have q': "cl_claims q' proto = Some (Some_ports (format_port_ranges ?all))" "cl_seen q' proto = map format_range ?all"
      using False trim_format_ports [OF ns] news(1) joined rs(2) by (simp_all add: q'_def add_claim_def Let_def)
    have "claim_allows nft (cl_claims q proto) p \<longleftrightarrow> p \<in> ports_of rs"
      using rs ports_admit_format [OF nft rs(1)] by (simp add: claim_allows_def)
    moreover have "claim_allows nft (cl_claims q' proto) p \<longleftrightarrow> p \<in> ports_of rs \<union> ports_of ns"
      unfolding po [symmetric] claim_allows_def q'(1) option.case port_claim.case
      using ne ports_admit_format [OF nft val] by blast
    moreover have "claim_inv q' proto"
      unfolding claim_inv_def q'(1) option.case port_claim.case
      by (rule exI [of _ ?all]) (use q' ne val in simp)
    ultimately show ?thesis using False by simp
  qed
  then show "claim_inv q' proto" "claim_allows nft (cl_claims q' proto) p
      \<longleftrightarrow> claim_allows nft (cl_claims q proto) p \<or> ns = [] \<or> p \<in> ports_of ns" by simp_all
  show "x \<noteq> proto \<Longrightarrow> cl_claims q' x = cl_claims q x \<and> cl_seen q' x = cl_seen q x"
    by (auto simp: q'_def add_claim_def Let_def split: prod.split)
qed

subsection \<open>One strategy\<close>

lemma intersect_text:
  assumes "intersect_destination_ports a b = (v, True)"
  shows "\<exists>ns. list_all valid_range ns \<and> v = format_port_ranges ns"
proof -
  obtain ar br where ab: "parse_port_ranges a = Inr ar" "parse_port_ranges b = Inr br"
    using assms by (auto simp: intersect_destination_ports_def split: sum.splits)
  have val: "list_all valid_range ar" "list_all valid_range br"
    using ab parse_port_ranges_canonical by (auto simp: canonical_def)
  let ?ns = "if ar = [] then br else if br = [] then ar else intersect_ranges ar br"
  have "v = format_port_ranges ?ns" using assms ab
    by (cases "ar = []"; cases "br = []") (simp_all add: intersect_destination_ports_def Let_def)
  moreover have "list_all valid_range ?ns" using val intersect_ranges_valid [OF val] by simp
  ultimately show ?thesis by blast
qed

lemma format_port_allowed:
  assumes "list_all valid_range ns" and "1 \<le> p" and "p \<le> 65535"
  shows "snd (intersect_destination_ports (format_port_ranges ns) (itoa p)) \<longleftrightarrow> ns = [] \<or> p \<in> ports_of ns"
proof -
  let ?rs = "merge_ranges (sort_key pr_first ns)"
  have "ports_of ?rs = ports_of ns" "canonical ?rs" using merge_ranges_canonical [OF assms(1)] by simp_all
  moreover from this have "?rs = [] \<longleftrightarrow> ns = []"
    using valid_ports_nonempty [OF assms(1)] valid_ports_nonempty [of ?rs] by (simp add: canonical_def)
  ultimately show ?thesis
    using port_allowed [OF assms(2,3)] parse_format_ports [OF assms(1)] by (simp add: allows_def)
qed

text \<open>The ports of a protocol that a strategy handles for a section.\<close>

definition strategy_ports :: "zapret_strategy \<Rightarrow> string \<Rightarrow> string" where
  "strategy_ports zs proto = (if proto = ''udp'' then zs_udp_ports zs else zs_tcp_ports zs)"

definition handles :: "route_section \<Rightarrow> zapret_strategy \<Rightarrow> string \<Rightarrow> int \<Rightarrow> bool" where
  "handles s zs proto p \<longleftrightarrow> protocol_enabled zs proto \<and> matches_protocol s proto
     \<and> (case intersect_destination_ports (strategy_ports zs proto) (sc_destination_ports s) of
          (v, ok) \<Rightarrow> ok \<and> snd (intersect_destination_ports v (itoa p)))"

lemma protocol_enabled_plain:
  assumes "set (zs_protocols zs) \<subseteq> {''tcp'', ''udp''}" and "proto \<in> {''tcp'', ''udp''}"
  shows "protocol_enabled zs proto \<longleftrightarrow> proto \<in> set (zs_protocols zs)"
proof -
  have "equal_fold (trim_space ''tcp'') ''tcp''" "equal_fold (trim_space ''udp'') ''udp''"
    "\<not> equal_fold (trim_space ''tcp'') ''udp''" "\<not> equal_fold (trim_space ''udp'') ''tcp''" by code_simp+
  then have "equal_fold (trim_space x) y \<longleftrightarrow> x = y" if "x \<in> {''tcp'', ''udp''}" "y \<in> {''tcp'', ''udp''}" for x y
    using that by (elim insertE emptyE) simp_all
  then show ?thesis using assms unfolding protocol_enabled_def by blast
qed

definition narrowed :: "route_section \<Rightarrow> zapret_strategy \<Rightarrow> string \<Rightarrow> string option" where
  "narrowed s zs proto =
     (if protocol_enabled zs proto \<and> matches_protocol s proto
      then (case intersect_destination_ports (strategy_ports zs proto) (sc_destination_ports s) of
              (v, ok) \<Rightarrow> if ok then Some v else None) else None)"

lemma narrowed_protocols:
  "proto \<in> {''tcp'', ''udp''} \<Longrightarrow>
    protocol_enabled (section_zapret_strategy s zs) proto \<longleftrightarrow> narrowed s zs proto \<noteq> None"
  "narrowed s zs ''tcp'' = Some v \<Longrightarrow> zs_tcp_ports (section_zapret_strategy s zs) = v"
  "narrowed s zs ''udp'' = Some v \<Longrightarrow> zs_udp_ports (section_zapret_strategy s zs) = v"
proof -
  have e: "section_zapret_strategy s zs =
      zs \<lparr>zs_tcp_ports := (case narrowed s zs ''tcp'' of Some v \<Rightarrow> v | None \<Rightarrow> zs_tcp_ports zs),
         zs_udp_ports := (case narrowed s zs ''udp'' of Some v \<Rightarrow> v | None \<Rightarrow> zs_udp_ports zs),
         zs_protocols := (if narrowed s zs ''tcp'' = None then [] else [''tcp''])
           @ (if narrowed s zs ''udp'' = None then [] else [''udp''])\<rparr>"
    by (simp add: section_zapret_strategy_def narrowed_def strategy_ports_def Let_def)
  show "narrowed s zs ''tcp'' = Some v \<Longrightarrow> zs_tcp_ports (section_zapret_strategy s zs) = v"
    "narrowed s zs ''udp'' = Some v \<Longrightarrow> zs_udp_ports (section_zapret_strategy s zs) = v" by (simp_all add: e)
  show "protocol_enabled (section_zapret_strategy s zs) proto \<longleftrightarrow> narrowed s zs proto \<noteq> None"
    if "proto \<in> {''tcp'', ''udp''}"
    by (subst protocol_enabled_plain) (use that in \<open>auto simp: e\<close>)
qed

lemma narrowed_handles:
  assumes "reads_ports nft" and "1 \<le> p" and "p \<le> 65535"
  shows "handles s zs proto p \<longleftrightarrow> (\<exists>ns. narrowed s zs proto = Some (format_port_ranges ns)
      \<and> list_all valid_range ns \<and> (ns = [] \<or> p \<in> ports_of ns))"
    and "narrowed s zs proto = Some v \<Longrightarrow> \<exists>ns. list_all valid_range ns \<and> v = format_port_ranges ns"
proof -
  show *: "narrowed s zs proto = Some v \<Longrightarrow> \<exists>ns. list_all valid_range ns \<and> v = format_port_ranges ns" for v
    using intersect_text by (auto simp: narrowed_def split: if_splits prod.splits)
  have "handles s zs proto p \<longleftrightarrow> (\<exists>v. narrowed s zs proto = Some v \<and> snd (intersect_destination_ports v (itoa p)))"
    by (auto simp: handles_def narrowed_def simp del: itoa_pos split: prod.split)
  then show "handles s zs proto p \<longleftrightarrow> (\<exists>ns. narrowed s zs proto = Some (format_port_ranges ns)
      \<and> list_all valid_range ns \<and> (ns = [] \<or> p \<in> ports_of ns))"
    using * format_port_allowed [OF _ assms(2,3)] by metis
qed

lemma claim_inv_same:
  "cl_claims q' y = cl_claims q y \<and> cl_seen q' y = cl_seen q y \<Longrightarrow> claim_inv q' y \<longleftrightarrow> claim_inv q y"
  unfolding claim_inv_def by (elim conjE) (simp only:)

lemma claim_strategy_allows:
  fixes c s name
  assumes nft: "reads_ports nft" and p: "1 \<le> p" "p \<le> 65535"
    and inv: "claim_inv q ''tcp''" "claim_inv q ''udp''" and proto: "proto \<in> {''tcp'', ''udp''}"
  defines "q' \<equiv> claim_strategy c s q name"
  shows "claim_inv q' ''tcp'' \<and> claim_inv q' ''udp''
    \<and> (claim_allows nft (cl_claims q' proto) p \<longleftrightarrow> claim_allows nft (cl_claims q proto) p
         \<or> (\<exists>zs. zapret_strategy_by_name c name = Some zs \<and> handles s zs proto p))"
proof (cases "zapret_strategy_by_name c name")
  case None
  then show ?thesis using inv by (simp add: q'_def claim_strategy_def)
next
  case (Some zs)
  let ?add = "\<lambda>proto q. case narrowed s zs proto of None \<Rightarrow> q | Some v \<Rightarrow> add_claim proto v q"
  have step: "claim_inv (?add x q) x
      \<and> (claim_allows nft (cl_claims (?add x q) x) p \<longleftrightarrow> claim_allows nft (cl_claims q x) p \<or> handles s zs x p)
      \<and> (\<forall>y. y \<noteq> x \<longrightarrow> cl_claims (?add x q) y = cl_claims q y \<and> cl_seen (?add x q) y = cl_seen q y)"
    if "claim_inv q x" for x q
  proof (cases "narrowed s zs x")
    case None
    then show ?thesis using that narrowed_handles(1) [OF nft p] by simp
  next
    case (Some v)
    then obtain ns where ns: "list_all valid_range ns" "v = format_port_ranges ns"
      using narrowed_handles(2) [OF nft p] by blast
    have "handles s zs x p \<longleftrightarrow> ns = [] \<or> p \<in> ports_of ns"
      using narrowed_handles(1) [OF nft p, of s zs x] Some ns trim_format_ports(2)
        format_port_allowed [OF _ p] by (metis option.inject)
    then show ?thesis using add_claim_range [OF nft that ns(1)] Some ns(2) by auto
  qed
  have q': "q' = ?add ''udp'' (?add ''tcp'' q)"
    using Some narrowed_protocols(1) [of "''tcp''" s zs] narrowed_protocols(1) [of "''udp''" s zs]
      narrowed_protocols(2,3) [of s zs]
    by (simp add: q'_def claim_strategy_def Let_def split: option.split)
  have other: "claim_inv (?add x q) y \<longleftrightarrow> claim_inv q y" if "claim_inv q x" "x \<noteq> y" for x y q
    using step [OF that(1)] that(2) claim_inv_same by metis
  note t = step [OF inv(1)]
  have u: "claim_inv (?add ''tcp'' q) ''udp''" using other [OF inv(1), of "''udp''"] inv(2) by simp
  note u' = step [OF u]
  have "claim_inv q' ''tcp''" unfolding q' using other [OF u, of "''tcp''"] t by simp
  moreover have "claim_inv q' ''udp''" unfolding q' using u' by simp
  moreover have "claim_allows nft (cl_claims q' proto) p \<longleftrightarrow> claim_allows nft (cl_claims q proto) p \<or> handles s zs proto p"
    using proto t u' unfolding q' by (elim insertE emptyE) simp_all
  ultimately show ?thesis using Some by simp
qed

lemma section_claims_allow:
  assumes "reads_ports nft" and "1 \<le> p" and "p \<le> 65535" and "proto \<in> {''tcp'', ''udp''}"
  shows "claim_allows nft (section_claims c s proto) p \<longleftrightarrow>
    (\<exists>name \<in> set (sc_zapret_strategies s). \<exists>zs. zapret_strategy_by_name c name = Some zs \<and> handles s zs proto p)"
proof -
  have "claim_inv q ''tcp'' \<Longrightarrow> claim_inv q ''udp'' \<Longrightarrow>
      claim_allows nft (cl_claims (foldl (claim_strategy c s) q names) proto) p \<longleftrightarrow>
      claim_allows nft (cl_claims q proto) p
      \<or> (\<exists>name \<in> set names. \<exists>zs. zapret_strategy_by_name c name = Some zs \<and> handles s zs proto p)" for q names
  proof (induction names arbitrary: q)
    case (Cons name names)
    then show ?case using claim_strategy_allows [where c = c and s = s and name = name, OF assms(1-3) Cons.prems assms(4)] by auto
  qed simp
  from this [of "\<lparr>cl_claims = (\<lambda>_. None), cl_seen = (\<lambda>_. [])\<rparr>"] show ?thesis
    by (simp add: section_claims_def claim_inv_def claim_allows_def)
qed

text \<open>What is claimed is what the trace calls possible, if the protocols are written as the trace expects.\<close>

lemma strategy_protocols:
  assumes "\<forall>zs \<in> set (cf_zapret_strategies c). set (zs_protocols zs) \<subseteq> {''tcp'', ''udp''}"
    and "zapret_strategy_by_name c name = Some zs"
  shows "set (zs_protocols zs) \<subseteq> {''tcp'', ''udp''}"
proof -
  obtain i zs0 where "find (\<lambda>(i, s). zs_name s = name \<and> zs_enabled s) (enumerate 0 (cf_zapret_strategies c)) = Some (i, zs0)"
    and zs: "zs = normalize_zapret_strategy_at zs0 (int i)"
    using assms(2) by (auto simp: zapret_strategy_by_name_def split: option.splits)
  then have "zs0 \<in> set (cf_zapret_strategies c)"
    by (auto simp: find_Some_iff nth_enumerate_eq)
  then show ?thesis using assms(1) zs by (auto simp: normalize_zapret_strategy_at_def)
qed

lemma claims_are_scope:
  assumes "reads_ports nft" and "fw_protocol f \<in> {''tcp'', ''udp''}" and "1 \<le> fw_port f" and "fw_port f \<le> 65535"
    and "\<forall>zs \<in> set (cf_zapret_strategies c). set (zs_protocols zs) \<subseteq> {''tcp'', ''udp''}"
  shows "claim_allows nft (section_claims c s (fw_protocol f)) (fw_port f) \<longleftrightarrow> fst (zapret_scope c s f)"
proof -
  have "handles s zs (fw_protocol f) (fw_port f) \<longleftrightarrow> (\<exists>x \<in> set (zs_protocols zs). admits s f zs x)"
    if "zapret_strategy_by_name c name = Some zs" for name zs
  proof -
    have ne: "fw_protocol f \<noteq> []" using assms(2) by auto
    then have "(\<exists>x \<in> set (zs_protocols zs). admits s f zs x)
        \<longleftrightarrow> fw_protocol f \<in> set (zs_protocols zs) \<and> admits s f zs (fw_protocol f)"
      by (auto simp: admits_def)
    then show ?thesis
      using protocol_enabled_plain [OF strategy_protocols [OF assms(5) that] assms(2)] assms(3)
      by (auto simp: handles_def admits_def strategy_ports_def simp del: itoa_pos split: prod.split)
  qed
  then show ?thesis
    unfolding section_claims_allow [OF assms(1,3,4,2)] zapret_scope_possible by metis
qed

end
