(* ===== verification/Nft_Agree.thy ===== *)
theory Nft_Agree
  imports Nft_Claims
begin

section \<open>The trace and the ruleset\<close>

text \<open>
  The destination trace of the checker against the rules of the generator: for a completely
  described flow, the first rule of the destination pass that applies to its packets is the one
  of the section that decides in the trace.
\<close>

subsection \<open>Stable sorting and selection\<close>

context slice_order
begin

lemma filter_insert:
  assumes "sorted_wrt (\<lambda>x y. \<not> lt y x) acc"
  shows "filter P (insert_by lt x acc) = (if P x then insert_by lt x (filter P acc) else filter P acc)"
  using assms
proof (induction acc)
  case (Cons y ys)
  show ?case
  proof (cases "lt x y")
    case True
    have "lt x z" if "z \<in> set ys" for z
      using Cons.prems that True neg_trans [of x z y] by auto
    then have "insert_by lt x (filter P ys) = x # filter P ys"
      by (cases "filter P ys") (auto simp: filter_eq_Cons_iff)
    then show ?thesis using True by simp
  next
    case False
    then show ?thesis using Cons by simp
  qed
qed simp

lemma filter_sort_by: "filter P (sort_by lt xs) = sort_by lt (filter P xs)"
proof -
  have "sorted_wrt (\<lambda>x y. \<not> lt y x) acc \<Longrightarrow>
      filter P (foldl (\<lambda>acc x. insert_by lt x acc) acc xs) = foldl (\<lambda>acc x. insert_by lt x acc) (filter P acc) (filter P xs)"
    for acc
    by (induction xs arbitrary: acc) (auto simp: insert_sorted filter_insert)
  then show ?thesis by (simp add: sort_by_def)
qed

end

lemma insert_by_cong:
  "(\<And>y. y \<in> set ys \<Longrightarrow> lt x y = lt' x y) \<Longrightarrow> insert_by lt x ys = insert_by lt' x ys"
  by (induction ys) auto

lemma sort_by_cong:
  assumes "\<And>x y. x \<in> set xs \<Longrightarrow> y \<in> set xs \<Longrightarrow> lt x y = lt' x y"
  shows "sort_by lt xs = sort_by lt' xs"
proof -
  have "set acc \<union> set ys \<subseteq> set xs \<Longrightarrow>
      foldl (\<lambda>acc x. insert_by lt x acc) acc ys = foldl (\<lambda>acc x. insert_by lt' x acc) acc ys" for acc ys
  proof (induction ys arbitrary: acc)
    case (Cons y ys)
    then have "insert_by lt y acc = insert_by lt' y acc" by (intro insert_by_cong assms) auto
    moreover have "set (insert_by lt' y acc) = insert y (set acc)"
      by (metis mset_insert_by set_mset_add_mset_insert set_mset_mset)
    ultimately show ?case using Cons by simp
  qed simp
  from this [of "[]" xs] show ?thesis by (simp add: sort_by_def)
qed

interpretation priority_order: slice_order "\<lambda>s t :: route_section. sc_priority s < sc_priority t"
  by unfold_locales auto

definition by_rank :: "nat \<Rightarrow> route_section \<Rightarrow> bool" where
  "by_rank k s \<longleftrightarrow> dispatch_rank s = k"

lemma by_rank_action: "by_rank 0 s \<longleftrightarrow> sc_action s = ''reject''" "by_rank 1 s \<longleftrightarrow> sc_action s = ''direct''"
  by (auto simp: by_rank_def dispatch_rank_def)

lemma rank_split:
  "sorted_wrt (\<lambda>x y. \<not> dispatch_less y x) xs \<Longrightarrow>
    xs = filter (by_rank 0) xs @ filter (by_rank 1) xs @ filter (by_rank 2) xs"
proof (induction xs)
  case (Cons x xs)
  have le: "dispatch_rank x \<le> dispatch_rank y" if "y \<in> set xs" for y
    using Cons.prems that by (force simp: dispatch_less_def split: if_splits)
  consider "dispatch_rank x = 0" | "dispatch_rank x = 1" | "dispatch_rank x = 2"
    by (metis dispatch_rank_def)
  then show ?case
  proof cases
    case 1
    have "by_rank 0 x" "\<not> by_rank 1 x" "\<not> by_rank 2 x" using 1 by (simp_all add: by_rank_def)
    then show ?thesis using Cons by simp
  next
    case 2
    have "\<not> by_rank 0 x" "by_rank 1 x" "\<not> by_rank 2 x" using 2 by (simp_all add: by_rank_def)
    moreover from 2 have "filter (by_rank 0) xs = []" using le by (force simp: by_rank_def filter_empty_conv)
    ultimately show ?thesis using Cons by simp
  next
    case 3
    have "\<not> by_rank 0 x" "\<not> by_rank 1 x" "by_rank 2 x" using 3 by (simp_all add: by_rank_def)
    moreover from 3 have "filter (by_rank 0) xs = []" "filter (by_rank 1) xs = []"
      using le by (force simp: by_rank_def filter_empty_conv)+
    ultimately show ?thesis using Cons by simp
  qed
qed simp

lemma map_merge: "map_option f (merge a b) = merge (map_option f a) (map_option f b)"
  by (cases a) auto

lemma find_append: "find P (xs @ ys) = merge (find P xs) (find P ys)"
  by (induction xs) auto

lemma find_filter: "find P (filter Q xs) = find (\<lambda>x. Q x \<and> P x) xs"
  by (induction xs) auto

lemma first_action_concat:
  assumes "\<And>s. s \<in> set ss \<Longrightarrow> first_action nft inset pk (f s) = (if P s then Some (g s) else None)"
  shows "first_action nft inset pk (concat (map f ss)) = map_option g (find P ss)"
  using assms by (induction ss) (auto simp: first_action_append)

subsection \<open>One section\<close>

definition packet_action :: "packet \<Rightarrow> route_section \<Rightarrow> string \<Rightarrow> rule_action" where
  "packet_action pk s status =
     (if status = ''reject'' \<or> sc_action s = ''reject'' then Do_reject
      else if sc_action s = ''proxy'' then Do_tproxy (packet_family pk) (sc_tproxy_port s) else Do_return)"

definition dest_set :: "packet \<Rightarrow> route_section \<Rightarrow> string" where
  "dest_set pk s = family_set pk (nft_set4 s) (nft_set6 s)"

text \<open>A packet of a completely described flow, and a section whose port list parses.\<close>

definition packet_of :: "packet \<Rightarrow> flow \<Rightarrow> bool" where
  "packet_of pk f \<longleftrightarrow> pk_proto pk = fw_protocol f \<and> pk_port pk = fw_port f
     \<and> fw_protocol f \<in> {''tcp'', ''udp''} \<and> 1 \<le> fw_port f \<and> fw_port f \<le> 65535 \<and> fw_wan f \<noteq> []"

lemma section_ports_admit:
  assumes "reads_ports nft" and "packet_of pk f" and "validate_match s = None"
    and "sc_action s = ''proxy'' \<or> sc_action s = ''zapret''"
  shows "ports_admit nft (section_ports s) (fw_port f)
    \<longleftrightarrow> snd (intersect_destination_ports (sc_destination_ports s) (itoa (fw_port f)))"
proof -
  have p: "1 \<le> fw_port f" "fw_port f \<le> 65535" using assms(2) by (simp_all add: packet_of_def)
  obtain v where "normalize_destination_ports (sc_destination_ports s) = Inr v"
    using assms(3,4) by (auto simp: validate_match_def split: if_splits sum.splits)
  then obtain rs where rs: "parse_port_ranges (sc_destination_ports s) = Inr rs"
      and v: "section_ports s = format_port_ranges rs"
    using assms(4) by (auto simp: normalize_destination_ports_def andthen_eq_Inr section_ports_def)
  have "list_all valid_range rs" using parse_port_ranges_canonical [OF rs] by (simp add: canonical_def)
  then show ?thesis
    using port_allowed [OF p, of "sc_destination_ports s"] ports_admit_format [OF assms(1)] rs v
    by (auto simp: allows_def simp del: itoa_pos)
qed

lemma proxy_bodies:
  assumes "reads_ports nft" and "packet_of pk f" and "validate_match s = None" and "sc_action s = ''proxy''"
  shows "merge (quic_body s pk) (proxy_body nft s pk (\<lambda>family. Do_tproxy family (sc_tproxy_port s)) (packet_family pk))
    = (let st = fst (section_flow_scope c s f) in if st = ''skip'' then None else Some (packet_action pk s st))"
proof -
  have p: "pk_proto pk = fw_protocol f" "pk_port pk = fw_port f" "fw_protocol f \<in> {''tcp'', ''udp''}"
    "fw_protocol f \<noteq> []" "fw_port f \<noteq> 0"
    using assms(2) by (auto simp: packet_of_def)
  note admit = section_ports_admit [OF assms(1-3)]
  have mis: "mismatch s f \<longleftrightarrow> \<not> matches_protocol s (fw_protocol f) \<or> \<not> ports_admit nft (section_ports s) (fw_port f)"
    using p admit assms(4) by (simp add: mismatch_def)
  have q: "itoa 443 = ''443''" by code_simp
  have quic: "quic_body s pk = (if \<not> mismatch s f \<and> fw_protocol f = ''udp'' \<and> fw_port f = 443 \<and> sc_udp_mode s = ''block_quic''
      then Some Do_reject else None)"
    using p q by (auto simp: quic_body_def mismatch_def simp del: itoa_pos)
  have proxy: "proxy_body nft s pk act fam = (if mismatch s f \<or> fw_protocol f = ''udp'' \<and> sc_udp_mode s = ''tcp_only''
      then None else Some (act fam))" for act fam
    using p(1-3) mis by (auto simp: proxy_body_def proxied_protocols_def)
  show ?thesis
    unfolding quic proxy proxy_status [OF assms(4)]
    using p(4,5) assms(4) by (auto simp: packet_action_def Let_def)
qed

lemma possible_no_mismatch:
  assumes "packet_of pk f" and "fst (zapret_scope c s f)"
  shows "\<not> mismatch s f"
proof -
  have p: "1 \<le> fw_port f" "fw_port f \<le> 65535" "fw_protocol f \<noteq> []" using assms(1) by (auto simp: packet_of_def)
  obtain zs x where x: "admits s f zs x" using assms(2) by (auto simp: zapret_scope_possible)
  then obtain both where both: "intersect_destination_ports (if x = ''udp'' then zs_udp_ports zs else zs_tcp_ports zs)
      (sc_destination_ports s) = (both, True)" "snd (intersect_destination_ports both (itoa (fw_port f)))"
      "x = fw_protocol f" "matches_protocol s x"
    using p by (auto simp: admits_def simp del: itoa_pos split: prod.splits)
  from intersect_allows [OF both(1)] both(2) have "snd (intersect_destination_ports (sc_destination_ports s) (itoa (fw_port f)))"
    unfolding port_allowed [OF p(1,2)] by (metis sum.inject(2))
  then show ?thesis using both by (simp add: mismatch_def)
qed

lemma claim_action:
  assumes "reads_ports nft" and "packet_of pk f" and "sc_action s = ''zapret''"
    and "\<forall>zs \<in> set (cf_zapret_strategies c). set (zs_protocols zs) \<subseteq> {''tcp'', ''udp''}"
  shows "claim_body nft c s pk
    = (let st = fst (section_flow_scope c s f) in if st = ''skip'' then None else Some (packet_action pk s st))"
proof -
  have p: "pk_proto pk = fw_protocol f" "pk_port pk = fw_port f" "fw_protocol f \<in> {''tcp'', ''udp''}"
    "1 \<le> fw_port f" "fw_port f \<le> 65535" "fw_wan f \<noteq> []" "fw_protocol f \<noteq> []" "fw_port f \<noteq> 0"
    using assms(2) by (auto simp: packet_of_def)
  have "claim_body nft c s pk = (if fst (zapret_scope c s f) then Some Do_return else None)"
    unfolding claim_body_def p(1,2) claims_are_scope [OF assms(1) p(3-5) assms(4), symmetric] claim_allows_def
    using p(3) by (simp split: option.split port_claim.split)
  then show ?thesis
    unfolding zapret_status [OF assms(3)]
    using possible_no_mismatch [OF assms(2), of c s] p assms(3) by (auto simp: packet_action_def Let_def)
qed

subsection \<open>The whole pass\<close>

text \<open>
  \<open>secs\<close> are the sections the trace works with. The sets hold the destination exactly for the
  sections whose lists name it: a set holds it when some candidate section fills the set.
\<close>

definition names_it :: "(string \<Rightarrow> string list) \<Rightarrow> route_section \<Rightarrow> bool" where
  "names_it matches s \<longleftrightarrow> sc_enabled s \<and> matches (sc_name s) \<noteq> []"

definition sets_hold :: "(string \<Rightarrow> bool) \<Rightarrow> packet \<Rightarrow> (string \<Rightarrow> string list) \<Rightarrow> route_section list \<Rightarrow> bool" where
  "sets_hold inset pk matches secs \<longleftrightarrow>
     list_all (\<lambda>sn. in_refs inset sn \<longleftrightarrow> (\<exists>t \<in> set secs. names_it matches t \<and> dest_set pk t = sn))
       (family_set pk ''reject4'' ''reject6'' # family_set pk ''direct4'' ''direct6''
         # map (dest_set pk) (filter (\<lambda>s. sc_action s = ''proxy'' \<or> sc_action s = ''zapret'') secs))"

lemma global_sets:
  "dest_set pk s = family_set pk ''reject4'' ''reject6'' \<longleftrightarrow> sc_action s = ''reject''"
  "dest_set pk s = family_set pk ''direct4'' ''direct6'' \<longleftrightarrow> sc_action s = ''direct''"
  by (auto simp: dest_set_def family_set_def nft_set4_def nft_set6_def)

lemma section_set_names:
  assumes "dest_set pk t = dest_set pk s" and "by_rank 2 s"
  shows "sc_name t = sc_name s"
  using assms by (auto simp: dest_set_def family_set_def nft_set4_def nft_set6_def by_rank_def dispatch_rank_def
      split: if_splits)

text \<open>Whether a section that is neither direct nor reject stops the packet.\<close>

definition stops :: "config \<Rightarrow> flow \<Rightarrow> (string \<Rightarrow> string list) \<Rightarrow> route_section \<Rightarrow> bool" where
  "stops c f matches s \<longleftrightarrow> names_it matches s \<and> fst (section_flow_scope c s f) \<noteq> ''skip''"

lemma in_refs_section:
  assumes "sets_hold inset pk matches secs" and "s \<in> set secs" and "sc_enabled s"
    and "sc_action s = ''proxy'' \<or> sc_action s = ''zapret''"
  shows "in_refs inset (dest_set pk s) \<longleftrightarrow> names_it matches s"
proof -
  have "in_refs inset (dest_set pk s) \<longleftrightarrow> (\<exists>t \<in> set secs. names_it matches t \<and> dest_set pk t = dest_set pk s)"
    using assms(1,2,4) unfolding sets_hold_def list_all_iff by auto
  moreover have "by_rank 2 s" using assms(4) by (auto simp: by_rank_def dispatch_rank_def)
  then have "names_it matches t \<Longrightarrow> dest_set pk t = dest_set pk s \<Longrightarrow> names_it matches s" for t
    using section_set_names assms(3) unfolding names_it_def by metis
  ultimately show ?thesis using assms(2) by blast
qed

lemma in_refs_global:
  assumes "sets_hold inset pk matches secs"
  shows "in_refs inset (family_set pk ''reject4'' ''reject6'') \<longleftrightarrow> (\<exists>t \<in> set secs. names_it matches t \<and> sc_action t = ''reject'')"
    and "in_refs inset (family_set pk ''direct4'' ''direct6'') \<longleftrightarrow> (\<exists>t \<in> set secs. names_it matches t \<and> sc_action t = ''direct'')"
  using assms unfolding sets_hold_def by (simp_all add: global_sets)

lemma section_entries_action:
  assumes nft: "reads_ports nft" and pk: "packet_of pk f" "pk_v6 pk \<longrightarrow> v6"
    and strat: "\<forall>zs \<in> set (cf_zapret_strategies c). set (zs_protocols zs) \<subseteq> {''tcp'', ''udp''}"
    and holds: "sets_hold inset pk matches secs" and s: "s \<in> set secs" "sc_enabled s" "validate_match s = None"
    and rank: "by_rank 2 s"
  shows "first_action nft inset pk (set_rules (section_entries c (\<lambda>_. []) v6 s))
    = (if stops c f matches s then Some (packet_action pk s (fst (section_flow_scope c s f))) else None)"
proof -
  have act: "sc_action s \<noteq> ''reject''" "sc_action s \<noteq> ''direct''"
    using rank by (auto simp: by_rank_def dispatch_rank_def split: if_splits)
  note own = in_refs_section [OF holds s(1,2), unfolded dest_set_def]
  consider (zapret) "sc_action s = ''zapret''" | (proxy) "sc_action s = ''proxy''"
    | (other) "sc_action s \<noteq> ''proxy''" "sc_action s \<noteq> ''zapret''" by blast
  then show ?thesis
  proof cases
    case zapret
    then show ?thesis
      using act own pk(2) claim_action [OF nft pk(1) zapret strat]
      by (simp add: section_entries_def first_action_claims stops_def Let_def)
  next
    case proxy
    then show ?thesis
      using act own pk(2) proxy_bodies [OF nft pk(1) s(3) proxy, of c]
      by (simp add: section_entries_def first_action_append first_action_quic first_action_proxy stops_def Let_def)
  next
    case other
    then show ?thesis
      using act other_status [OF other, of c f] by (simp add: section_entries_def stops_def)
  qed
qed

text \<open>Sections with a global action add nothing when the global sets do not hold the destination.\<close>

lemma global_entries_action:
  assumes "\<not> by_rank 2 s"
    and "\<not> in_refs inset (family_set pk ''reject4'' ''reject6'')" "\<not> in_refs inset (family_set pk ''direct4'' ''direct6'')"
  shows "first_action nft inset pk (set_rules (section_entries c native v6 s)) = None"
proof -
  consider "sc_action s = ''reject''" | "sc_action s = ''direct''"
    using assms(1) by (auto simp: by_rank_def dispatch_rank_def split: if_splits)
  then show ?thesis
    using assms(2,3) by cases (simp_all add: section_entries_def first_action_plain nft_set4_def nft_set6_def)
qed

lemma scope_sections: "section_flow_scope (c \<lparr>cf_sections := ss\<rparr>) = section_flow_scope c"
proof -
  have "zapret_strategy_by_name (c \<lparr>cf_sections := ss\<rparr>) = zapret_strategy_by_name c"
    "zapret_profile_by_name (c \<lparr>cf_sections := ss\<rparr>) = zapret_profile_by_name c"
    by (simp_all add: fun_eq_iff zapret_strategy_by_name_def zapret_profile_by_name_def enabled_zapret_profiles_def)
  note same = this
  have "zapret_scope (c \<lparr>cf_sections := ss\<rparr>) s f = zapret_scope c s f" for s f
    unfolding zapret_scope_def scope_strategy_def [abs_def] same by (rule refl)
  then show ?thesis by (simp add: section_flow_scope_def fun_eq_iff)
qed

lemma set_rules_concat: "set_rules (concat (map f xs)) = concat (map (\<lambda>x. set_rules (f x)) xs)"
  by (induction xs) simp_all

lemma global_status: "\<not> by_rank 2 s \<Longrightarrow> fst (section_flow_scope c s f) = ''match''"
  by (auto simp: by_rank_def dispatch_rank_def section_flow_scope_def split: if_splits)

lemma others_in_order:
  assumes "list_all (\<lambda>s. \<not> by_rank 2 s) extra"
  shows "filter (by_rank 2) (sections_by_priority ss)
    = filter (\<lambda>s. by_rank 2 s \<and> sc_enabled s) (sort_by dispatch_less (ss @ extra))"
proof -
  have "filter (\<lambda>s. by_rank 2 s \<and> sc_enabled s) (ss @ extra) = filter (\<lambda>s. by_rank 2 s \<and> sc_enabled s) ss"
    using assms by (auto simp: list_all_iff filter_empty_conv)
  then have "filter (\<lambda>s. by_rank 2 s \<and> sc_enabled s) (sort_by dispatch_less (ss @ extra))
      = sort_by dispatch_less (filter (\<lambda>s. by_rank 2 s \<and> sc_enabled s) ss)"
    by (simp only: dispatch_order.filter_sort_by)
  also have "\<dots> = sort_by (\<lambda>s t. sc_priority s < sc_priority t) (filter (\<lambda>s. by_rank 2 s \<and> sc_enabled s) ss)"
    by (rule sort_by_cong) (auto simp: dispatch_less_def by_rank_def)
  also have "\<dots> = filter (by_rank 2) (sections_by_priority ss)"
    unfolding sections_by_priority_def priority_order.filter_sort_by by (simp add: filter_filter conj_commute)
  finally show ?thesis by simp
qed

lemma destination_pass_action:
  fixes c extra matches
  defines "c' \<equiv> c \<lparr>cf_sections := cf_sections c @ extra\<rparr>"
  assumes nft: "reads_ports nft" and pk: "packet_of pk f" "pk_v6 pk \<longrightarrow> v6"
    and strat: "\<forall>zs \<in> set (cf_zapret_strategies c). set (zs_protocols zs) \<subseteq> {''tcp'', ''udp''}"
    and valid: "\<forall>s \<in> set (cf_sections c). validate_match s = None"
    and extra: "list_all (\<lambda>s. \<not> by_rank 2 s) extra" and holds: "sets_hold inset pk matches (cf_sections c')"
  shows "chain_action raw nft inset pk (destination_pass c (\<lambda>_. []) v6)
    = map_option (\<lambda>s. packet_action pk s (fst (section_flow_scope c' s f)))
        (find (\<lambda>s. fst (section_flow_scope c' s f) \<noteq> ''skip'') (candidate_sections c' matches))"
proof -
  let ?R = "in_refs inset (family_set pk ''reject4'' ''reject6'')"
  let ?D = "in_refs inset (family_set pk ''direct4'' ''direct6'')"
  let ?rest = "first_action nft inset pk (concat (map (\<lambda>s. set_rules (section_entries c (\<lambda>_. []) v6 s))
      (sections_by_priority (cf_sections c))))"
  let ?xs = "candidate_sections c' matches"
  let ?go = "\<lambda>s. fst (section_flow_scope c' s f) \<noteq> ''skip''"
  let ?act = "\<lambda>s. packet_action pk s (fst (section_flow_scope c' s f))"
  have chain: "chain_action raw nft inset pk (destination_pass c (\<lambda>_. []) v6)
      = merge (if ?R then Some Do_reject else None) (merge (if ?D then Some Do_return else None) ?rest)"
    using pk(2) by (subst chain_action_set_rules [OF destination_pass_rules])
      (simp add: destination_pass_def first_action_append first_action_plain set_rules_concat)
  have split: "?xs = filter (by_rank 0) ?xs @ filter (by_rank 1) ?xs @ filter (by_rank 2) ?xs"
    by (rule rank_split) (simp add: candidate_sections_def routing_sections_def dispatch_order.sorted sorted_wrt_filter)
  have cand: "s \<in> set ?xs \<longleftrightarrow> s \<in> set (cf_sections c') \<and> names_it matches s" for s
    by (auto simp: candidate_sections_def routing_sections_def names_it_def)
  have zero: "?R \<longleftrightarrow> filter (by_rank 0) ?xs \<noteq> []"
    unfolding in_refs_global(1) [OF holds] filter_empty_conv by_rank_action using cand by blast
  have one: "?D \<longleftrightarrow> filter (by_rank 1) ?xs \<noteq> []"
    unfolding in_refs_global(2) [OF holds] filter_empty_conv by_rank_action using cand by blast
  have first: "map_option ?act (find ?go (filter (by_rank k) ?xs))
      = (if filter (by_rank k) ?xs = [] then None else Some (if k = 0 then Do_reject else Do_return))"
    if k: "k = 0 \<or> k = 1" for k
  proof (cases "filter (by_rank k) ?xs")
    case (Cons x ys)
    then have x: "by_rank k x" by (metis filter_eq_ConsD)
    then have "\<not> by_rank 2 x" using k by (auto simp: by_rank_def)
    moreover have "?act x = (if k = 0 then Do_reject else Do_return)"
      using k x global_status [OF calculation, of c' f] by_rank_action [of x] by (auto simp: packet_action_def)
    ultimately show ?thesis using Cons global_status by simp
  qed simp
  have rest: "?rest = map_option ?act (find ?go (filter (by_rank 2) ?xs))" if "\<not> ?R" "\<not> ?D"
  proof -
    have each: "first_action nft inset pk (set_rules (section_entries c (\<lambda>_. []) v6 s))
        = (if by_rank 2 s \<and> stops c f matches s then Some (?act s) else None)"
      if "s \<in> set (sections_by_priority (cf_sections c))" for s
    proof (cases "by_rank 2 s")
      case True
      have s: "s \<in> set (cf_sections c')" "sc_enabled s" "validate_match s = None"
        using that valid by (auto simp: sections_by_priority_def c'_def)
      show ?thesis
        using section_entries_action [OF nft pk strat holds s True] True by (simp add: c'_def scope_sections)
    next
      case False
      then show ?thesis using global_entries_action [OF False \<open>\<not> ?R\<close> \<open>\<not> ?D\<close>] by simp
    qed
    have "?rest = map_option ?act (find (\<lambda>s. by_rank 2 s \<and> stops c f matches s) (sections_by_priority (cf_sections c)))"
      by (rule first_action_concat) (rule each)
    also have "find (\<lambda>s. by_rank 2 s \<and> stops c f matches s) (sections_by_priority (cf_sections c))
        = find (stops c f matches) (filter (by_rank 2) (sections_by_priority (cf_sections c)))"
      by (simp add: find_filter)
    also have "\<dots> = find ?go (filter (by_rank 2) ?xs)"
      unfolding others_in_order [OF extra] candidate_sections_def routing_sections_def find_filter
      by (simp add: c'_def scope_sections stops_def names_it_def) meson
    finally show ?thesis .
  qed
  have "map_option ?act (find ?go ?xs) = merge (if ?R then Some Do_reject else None)
      (merge (if ?D then Some Do_return else None) (map_option ?act (find ?go (filter (by_rank 2) ?xs))))"
    using zero one first [of 0] first [of 1]
    by (subst split) (auto simp: find_append map_merge)
  then show ?thesis using chain rest by auto
qed

subsection \<open>The configuration the trace works with\<close>

lemma provider_section_cfg:
  assumes "provider_section c rp = Some (sec, c1, rp1)"
  shows "c1 = c \<or> (\<exists>sec. \<not> by_rank 2 sec \<and> c1 = c \<lparr>cf_sections := cf_sections c @ [sec]\<rparr>)"
proof (cases "section_by_name c (rp_section rp)")
  case None
  define action where "action = (if rp_section rp = ''direct'' \<or> rp_section rp = ''reject'' then rp_section rp else rp_route_action rp)"
  define new where "new = zero_route_section \<lparr>sc_name := action, sc_action := action, sc_enabled := True,
    sc_ipv4_enabled := True, sc_ipv6_enabled := True\<rparr>"
  have act: "action = ''direct'' \<or> action = ''reject''"
    using assms None by (simp add: provider_section_def Let_def action_def [symmetric] split: if_split_asm)
  then have rank: "\<not> by_rank 2 new" by (auto simp: new_def by_rank_def dispatch_rank_def)
  have na: "\<not> (action \<noteq> ''direct'' \<and> action \<noteq> ''reject'')" using act by blast
  have eq: "provider_section c rp = (case section_by_name c action of
      Some sec \<Rightarrow> Some (sec, c, rp \<lparr>rp_section := sc_name sec\<rparr>)
    | None \<Rightarrow> Some (new, c \<lparr>cf_sections := cf_sections c @ [new]\<rparr>, rp \<lparr>rp_section := action\<rparr>))"
    unfolding provider_section_def Let_def action_def [symmetric] new_def [symmetric] None option.case if_not_P [OF na]
    by (rule refl)
  have "c1 = c \<or> c1 = c \<lparr>cf_sections := cf_sections c @ [new]\<rparr>"
    using assms unfolding eq by (cases "section_by_name c action") (simp_all only: option.case option.inject prod.inject, blast+)
  then show ?thesis using rank by blast
qed (use assms in \<open>simp add: provider_section_def\<close>)

lemma trace_candidates_cfg:
  "\<exists>extra. cd_cfg (trace_candidates stat parse lo c query) = c \<lparr>cf_sections := cf_sections c @ extra\<rparr>
    \<and> list_all (\<lambda>s. \<not> by_rank 2 s) extra"
proof -
  define ok where "ok t \<longleftrightarrow> (\<exists>extra. cd_cfg t = c \<lparr>cf_sections := cf_sections c @ extra\<rparr>
    \<and> list_all (\<lambda>s. \<not> by_rank 2 s) extra)" for t :: candidates
  have added: "cd_cfg (trace_provider stat parse lo query t rp) = cd_cfg t
      \<or> (\<exists>sec. \<not> by_rank 2 sec \<and> cd_cfg (trace_provider stat parse lo query t rp)
            = (cd_cfg t) \<lparr>cf_sections := cf_sections (cd_cfg t) @ [sec]\<rparr>)" for t rp
  proof (cases "provider_section (cd_cfg t) rp")
    case None
    then show ?thesis by (simp add: trace_provider_def)
  next
    case (Some r)
    obtain sec c1 rp1 where r: "r = (sec, c1, rp1)" by (cases r)
    have "c1 = cd_cfg t \<or> (\<exists>sec. \<not> by_rank 2 sec \<and> c1 = (cd_cfg t) \<lparr>cf_sections := cf_sections (cd_cfg t) @ [sec]\<rparr>)"
      using provider_section_cfg Some r by metis
    moreover have "cd_cfg (trace_provider stat parse lo query t rp) \<in> {cd_cfg t, c1}"
      unfolding trace_provider_def Some r Let_def
      by (simp split: option.split prod.split)
    ultimately show ?thesis by auto
  qed
  have step: "ok (trace_provider stat parse lo query t rp)" if t: "ok t" for t rp
  proof -
    obtain extra where "cd_cfg t = c \<lparr>cf_sections := cf_sections c @ extra\<rparr>" "list_all (\<lambda>s. \<not> by_rank 2 s) extra"
      using t unfolding ok_def by blast
    note extra = this
    from added [of t rp] show ?thesis
    proof (elim disjE exE conjE)
      assume "cd_cfg (trace_provider stat parse lo query t rp) = cd_cfg t"
      then show ?thesis using t unfolding ok_def by simp
    next
      fix sec assume "\<not> by_rank 2 sec" "cd_cfg (trace_provider stat parse lo query t rp)
        = (cd_cfg t) \<lparr>cf_sections := cf_sections (cd_cfg t) @ [sec]\<rparr>"
      then show ?thesis unfolding ok_def using extra by (intro exI [of _ "extra @ [sec]"]) simp
    qed
  qed
  have all: "ok t \<Longrightarrow> ok (foldl (trace_provider stat parse lo query) t rps)" for t rps
    by (induction rps arbitrary: t) (auto intro: step)
  have "ok \<lparr>cd_cfg = c, cd_matches = (\<lambda>_. []), cd_warnings = []\<rparr>"
    unfolding ok_def by (rule exI [of _ "[]"]) simp
  from all [OF this] show ?thesis unfolding trace_candidates_def ok_def .
qed

lemma direct_status: "fst (section_flow_scope c s f) = ''direct'' \<Longrightarrow> sc_action s = ''zapret''"
proof (rule ccontr)
  assume st: "fst (section_flow_scope c s f) = ''direct''" and z: "sc_action s \<noteq> ''zapret''"
  show False
  proof (cases "sc_action s = ''proxy''")
    case True
    then show ?thesis using st by (simp add: proxy_status split: if_splits)
  next
    case False
    then show ?thesis using st z by (simp add: other_status split: if_splits)
  qed
qed

lemma first_verdict_find:
  assumes "fw_protocol f \<noteq> []" "fw_port f \<noteq> 0" "fw_wan f \<noteq> []"
    and scope: "\<And>s. query_scope lo c q f s = section_flow_scope c s f"
  shows "first_verdict (map (section_answer lo c q f) ss) =
    (case find (\<lambda>s. fst (section_flow_scope c s f) \<noteq> ''skip'') ss of
       None \<Rightarrow> (''direct'', [])
     | Some s \<Rightarrow> (fst (scope_action s (fst (section_flow_scope c s f))), sc_name s))"
proof (induction ss)
  case (Cons s ss)
  have "fst (section_flow_scope c s f) \<noteq> ''conditional''"
    using status_complete [OF assms(1-3), of lo c q s] by (simp add: scope)
  then show ?case
    using Cons by (cases rule: scope_status_cases [of c s f])
      (simp_all add: section_answer_def scope scope_action_def)
qed simp

subsection \<open>Properties\<close>

text \<open>
  C5: the destination trace and the generated ruleset agree. Take a completely described flow, a
  trace of it without warnings, and one of its packets, while the sets of the table hold the
  destination exactly for the sections whose lists name it. The first rule of the destination
  pass that applies to the packet sends it to the listener of the section the trace names when
  the trace says proxy, rejects it when the trace says reject, returns it when the trace says
  direct or zapret, and no rule applies only when the trace says direct. The ports of the
  sections have to parse, the protocols of the strategies to be written in lower case, and the
  family of the packet has to be one the ruleset routes.
\<close>

theorem trace_agrees_with_ruleset:
  fixes stat parse lo c query f
  defines "t \<equiv> trace_candidates stat parse lo c query" and "r \<equiv> trace_destination stat parse lo c query f"
  assumes "reads_ports nft" and "packet_of pk f" and "rt_warnings r = []"
    and "\<forall>s \<in> set (cf_sections c). validate_match s = None"
    and "\<forall>zs \<in> set (cf_zapret_strategies c). set (zs_protocols zs) \<subseteq> {''tcp'', ''udp''}"
    and "pk_v6 pk \<longrightarrow> ipv6_routed lo c"
    and "\<And>a z. parse_addr_zone (trim_space query) = Some (V6 a, z) \<Longrightarrow> pk_v6 pk"
    and "sets_hold inset pk (cd_matches t) (cf_sections (cd_cfg t))"
  shows "case chain_action raw nft inset pk (destination_pass c (\<lambda>_. []) (ipv6_routed lo c)) of
      None \<Rightarrow> rt_action r = ''direct''
    | Some Do_reject \<Rightarrow> rt_action r = ''reject''
    | Some Do_return \<Rightarrow> rt_action r = ''direct'' \<or> rt_action r = ''zapret''
    | Some (Do_tproxy family port) \<Rightarrow> rt_action r = ''proxy'' \<and> family = packet_family pk
        \<and> (\<exists>s \<in> set (cf_sections c). sc_name s = rt_section r \<and> sc_tproxy_port s = port)
    | Some (Do_mark _) \<Rightarrow> False"
proof -
  obtain extra where cfg: "cd_cfg t = c \<lparr>cf_sections := cf_sections c @ extra\<rparr>" "list_all (\<lambda>s. \<not> by_rank 2 s) extra"
    unfolding t_def using trace_candidates_cfg by blast
  have flow: "fw_protocol f \<noteq> []" "fw_port f \<noteq> 0" "fw_wan f \<noteq> []" using assms(4) by (auto simp: packet_of_def)
  have "ipv6_routed lo (cd_cfg t) = ipv6_routed lo c"
    unfolding cfg(1) by (simp add: ipv6_routed_def low_resource_def resource_profile_def)
  then have scope: "query_scope lo (cd_cfg t) query f s = section_flow_scope (cd_cfg t) s f" for s
    using assms(8,9) by (auto simp: query_scope_def split: option.split prod.split ip_addr.split)
  let ?found = "find (\<lambda>s. fst (section_flow_scope (cd_cfg t) s f) \<noteq> ''skip'') (candidate_sections (cd_cfg t) (cd_matches t))"
  have chain: "chain_action raw nft inset pk (destination_pass c (\<lambda>_. []) (ipv6_routed lo c))
      = map_option (\<lambda>s. packet_action pk s (fst (section_flow_scope (cd_cfg t) s f))) ?found"
    unfolding cfg(1)
    by (rule destination_pass_action [OF assms(3,4,8,7,6) cfg(2)]) (use assms(10) cfg(1) in simp)
  have trace: "(rt_action r, rt_section r) = (case ?found of None \<Rightarrow> (''direct'', [])
      | Some s \<Rightarrow> (fst (scope_action s (fst (section_flow_scope (cd_cfg t) s f))), sc_name s))"
    using trace_result [of stat parse lo c query f, folded t_def r_def] assms(5)
      first_verdict_find [OF flow scope] by (simp add: answers_def)
  show ?thesis
  proof (cases ?found)
    case None
    then show ?thesis using chain trace by simp
  next
    case (Some s)
    note found = find_SomeD [OF Some]
    have s: "s \<in> set (cf_sections c @ extra)" "fst (section_flow_scope (cd_cfg t) s f) \<noteq> ''skip''"
      using found cfg(1) by (simp_all add: candidate_sections_def routing_sections_def)
    have "fst (section_flow_scope (cd_cfg t) s f) \<noteq> ''conditional''"
      using status_complete [OF flow, of lo "cd_cfg t" query s] by (simp add: scope)
    note s = s this
    have "sc_action s = ''proxy'' \<Longrightarrow> s \<in> set (cf_sections c)"
      using s(1) cfg(2) by (auto simp: list_all_iff by_rank_def dispatch_rank_def)
    note proxied = this
    have chain_s: "chain_action raw nft inset pk (destination_pass c (\<lambda>_. []) (ipv6_routed lo c))
        = Some (packet_action pk s (fst (section_flow_scope (cd_cfg t) s f)))"
      using chain Some by simp
    have r: "rt_action r = fst (scope_action s (fst (section_flow_scope (cd_cfg t) s f)))" "rt_section r = sc_name s"
      using trace Some by simp_all
    show ?thesis
    proof (cases rule: scope_status_cases [of "cd_cfg t" s f])
      case 3
      then show ?thesis using r proxied chain_s by (auto simp: packet_action_def scope_action_def)
    next
      case 5
      then show ?thesis using r chain_s direct_status [OF 5] by (simp add: packet_action_def scope_action_def)
    qed (use s r chain_s in \<open>simp_all add: packet_action_def scope_action_def\<close>)
  qed
qed

text \<open>The ports that the canonical reading of the text gives.\<close>

definition read_ports :: "string \<Rightarrow> int set" where
  "read_ports v = (case parse_port_ranges v of Inl _ \<Rightarrow> {} | Inr rs \<Rightarrow> ports_of rs)"

lemma reads_ports_read_ports: "reads_ports read_ports"
  using merge_ranges_canonical(2) by (simp add: reads_ports_def read_ports_def parse_format_ports)

theorem trace_agrees_with_ruleset_witness:
  "chain_action (\<lambda>_ _. None) read_ports (\<lambda>sn. sn = ''proxy_games4'') \<lparr>pk_v6 = False, pk_proto = ''tcp'', pk_port = 443\<rparr>
     (destination_pass example_config (\<lambda>_. []) (ipv6_routed id example_config)) = Some (Do_tproxy ''ip'' 0)"
proof -
  let ?pk = "\<lparr>pk_v6 = False, pk_proto = ''tcp'', pk_port = 443\<rparr>"
  let ?r = "trace_destination (\<lambda>_. None) two_parse id example_config ''x.com'' (tcp_flow 443 ''eth1'')"
  have cfg: "cf_sections example_config = [example_section]" "cf_zapret_strategies example_config = []"
    by (simp_all add: example_config_def default_config_def)
  have sec: "validate_match example_section = None" by code_simp
  have set: "nft_set4 example_section = ''proxy_games4''" "sc_enabled example_section" "sc_name example_section = ''games''"
    "sc_action example_section = ''proxy''"
    by (simp_all add: example_section_def nft_set4_def)
  have "sets_hold (\<lambda>sn. sn = ''proxy_games4'') ?pk ((\<lambda>_. []) (''games'' := [''a''])) [example_section]"
    using set by (auto simp: sets_hold_def in_refs_def nft_set_refs_def dns_set_name_def names_it_def dest_set_def family_set_def)
  moreover have "rt_warnings ?r = []" by (simp add: trace_result example_candidates)
  moreover have "packet_of ?pk (tcp_flow 443 ''eth1'')" by (simp add: packet_of_def tcp_flow_def)
  moreover have zone: "parse_addr_zone (trim_space ''x.com'') = None" by code_simp
  ultimately have "case chain_action (\<lambda>_ _. None) read_ports (\<lambda>sn. sn = ''proxy_games4'') ?pk
      (destination_pass example_config (\<lambda>_. []) (ipv6_routed id example_config)) of
      None \<Rightarrow> rt_action ?r = ''direct''
    | Some Do_reject \<Rightarrow> rt_action ?r = ''reject''
    | Some Do_return \<Rightarrow> rt_action ?r = ''direct'' \<or> rt_action ?r = ''zapret''
    | Some (Do_tproxy family port) \<Rightarrow> rt_action ?r = ''proxy'' \<and> family = packet_family ?pk
        \<and> (\<exists>s \<in> set (cf_sections example_config). sc_name s = rt_section ?r \<and> sc_tproxy_port s = port)
    | Some (Do_mark _) \<Rightarrow> False"
    by (intro trace_agrees_with_ruleset [OF reads_ports_read_ports]) (auto simp: cfg sec example_candidates)
  moreover have "section_flow_scope example_config example_section (tcp_flow 443 ''eth1'') = (''match'', Scope_matches)"
    by code_simp
  then have "rt_action ?r = ''proxy''"
    using set zone
    by (simp add: trace_destination_def example_candidates example_sections dispatch_section_def query_scope_def
        scope_action_def settle_def start_dispatch_def Let_def)
  moreover have "sc_tproxy_port example_section = 0" by (simp add: example_section_def zero_route_section_def)
  ultimately show ?thesis using cfg by (auto simp: packet_family_def split: option.splits rule_action.splits)
qed

end
