(* ===== verification/Nft_Sets.thy ===== *)
theory Nft_Sets
  imports Nft_Facts
begin

section \<open>The sets a ruleset uses, and where its chains differ\<close>

text \<open>
  Every set that a generated rule looks up is declared with the family of the rule. Where the
  IPv6 switch cuts the ruleset and the trace apart.
\<close>

definition declared_sets :: "(string \<Rightarrow> string) \<Rightarrow> config \<Rightarrow> string set" where
  "declared_sets lo c = set (concat (map nft_set_refs (nft_payload_sets lo c)))"

text \<open>A rule uses a declared set of its own address family.\<close>

definition rule_ok :: "(string \<Rightarrow> string) \<Rightarrow> config \<Rightarrow> set_rule \<Rightarrow> bool" where
  "rule_ok lo c r \<longleftrightarrow> sr_set r \<in> declared_sets lo c
     \<and> (sr_family r = ''ip6'' \<longleftrightarrow> has_suffix (sr_set r) ''6'') \<and> sr_family r \<in> {''ip'', ''ip6''}"

lemma has_suffix_six [simp]:
  "has_suffix (xs @ ''6'') ''6''" "\<not> has_suffix (xs @ ''4'') ''6''"
  "has_suffix (dns_set_name xs) ''6'' = (if xs = [] then False else has_suffix xs ''6'')"
  by (cases xs rule: rev_cases; simp add: has_suffix_def has_prefix_def dns_set_name_def)+

lemma has_suffix_Nil [simp]: "\<not> has_suffix [] ''6''"
  by (simp add: has_suffix_def has_prefix_def)

lemma declared_payload:
  "sn \<in> set (nft_payload_sets lo c) \<Longrightarrow> sn \<in> declared_sets lo c \<and> dns_set_name sn \<in> declared_sets lo c"
  by (auto simp: declared_sets_def nft_set_refs_def)

lemma both_families_ok:
  assumes "\<And>family sn r. r \<in> set (f family sn) \<Longrightarrow> sr_family r = family \<and> sr_set r = sn"
    and "set4 \<in> set (nft_payload_sets lo c)" "set4 \<noteq> []" "\<not> has_suffix set4 ''6''"
    and "v6 \<Longrightarrow> set6 \<in> set (nft_payload_sets lo c)" "v6 \<Longrightarrow> has_suffix set6 ''6''"
  shows "r \<in> set (both_families v6 set4 set6 f) \<Longrightarrow> rule_ok lo c r"
  using assms(2-) declared_payload [of _ lo c]
  by (auto simp: both_families_def rule_ok_def nft_set_refs_def split: if_splits dest!: assms(1))

lemma payload_sets:
  "set (nft_payload_sets lo c) = {''bypass4'', ''proxy_server_bypass4'', ''direct4'', ''reject4''}
    \<union> (if ipv6_routed lo c then {''bypass6'', ''proxy_server_bypass6'', ''direct6'', ''reject6''} else {})
    \<union> (\<Union>s \<in> {s \<in> set (cf_sections c). sc_action s = ''proxy'' \<or> sc_action s = ''zapret''}.
          {nft_set4 s} \<union> (if ipv6_routed lo c then {nft_set6 s} else {}))"
  by (auto simp: nft_payload_sets_def Let_def)

lemma global_sets_ok:
  assumes "v6 \<longrightarrow> ipv6_routed lo c" and "\<And>family sn r. r \<in> set (f family sn) \<Longrightarrow> sr_family r = family \<and> sr_set r = sn"
  shows "r \<in> set (both_families v6 ''reject4'' ''reject6'' f) \<Longrightarrow> rule_ok lo c r"
    and "r \<in> set (both_families v6 ''direct4'' ''direct6'' f) \<Longrightarrow> rule_ok lo c r"
  by (rule both_families_ok [OF assms(2)]; use assms(1) in \<open>auto simp: payload_sets has_suffix_def has_prefix_def\<close>)+

lemma section_sets_ok:
  assumes v6: "v6 \<longrightarrow> ipv6_routed lo c" and f: "\<And>family sn r. r \<in> set (f family sn) \<Longrightarrow> sr_family r = family \<and> sr_set r = sn"
    and s: "s \<in> set (cf_sections c)" "sc_action s \<in> {''direct'', ''reject'', ''proxy'', ''zapret''}"
  shows "r \<in> set (both_families v6 (nft_set4 s) (nft_set6 s) f) \<Longrightarrow> rule_ok lo c r"
proof -
  consider (direct) "sc_action s = ''direct''" | (reject) "sc_action s = ''reject''"
    | (own) "sc_action s = ''proxy'' \<or> sc_action s = ''zapret''" using s(2) by blast
  then show "r \<in> set (both_families v6 (nft_set4 s) (nft_set6 s) f) \<Longrightarrow> rule_ok lo c r"
  proof cases
    case direct
    then show "r \<in> set (both_families v6 (nft_set4 s) (nft_set6 s) f) \<Longrightarrow> rule_ok lo c r"
      using global_sets_ok(2) [OF v6 f] by (simp add: nft_set4_def nft_set6_def)
  next
    case reject
    then show "r \<in> set (both_families v6 (nft_set4 s) (nft_set6 s) f) \<Longrightarrow> rule_ok lo c r"
      using global_sets_ok(1) [OF v6 f] by (simp add: nft_set4_def nft_set6_def)
  next
    case own
    then have "sc_action s \<noteq> ''direct''" "sc_action s \<noteq> ''reject''" by auto
    then have n: "nft_set4 s = (''proxy_'' @ sc_name s) @ ''4''" "nft_set6 s = (''proxy_'' @ sc_name s) @ ''6''"
      by (simp_all add: nft_set4_def nft_set6_def)
    show "r \<in> set (both_families v6 (nft_set4 s) (nft_set6 s) f) \<Longrightarrow> rule_ok lo c r"
    proof (rule both_families_ok [OF f])
      show "nft_set4 s \<in> set (nft_payload_sets lo c)" using own s(1) by (auto simp: payload_sets)
      show "v6 \<Longrightarrow> nft_set6 s \<in> set (nft_payload_sets lo c)" using own s(1) v6 by (auto simp: payload_sets)
      show "nft_set4 s \<noteq> []" "\<not> has_suffix (nft_set4 s) ''6''" "v6 \<Longrightarrow> has_suffix (nft_set6 s) ''6''"
        unfolding n by (simp_all only: has_suffix_six append_is_Nil_conv) simp_all
    qed
  qed
qed

lemma set_rule_for_simps [simp]:
  "sr_family (set_rule_for a family sn) = family" "sr_set (set_rule_for a family sn) = sn"
  by (simp_all add: set_rule_for_def)

lemma rules_over_set:
  "r \<in> set [set_rule_for a family sn] \<Longrightarrow> sr_family r = family \<and> sr_set r = sn"
  "r \<in> set [(set_rule_for a family sn) \<lparr>sr_quic := True\<rparr>] \<Longrightarrow> sr_family r = family \<and> sr_set r = sn"
  "r \<in> set (map (\<lambda>proto. (set_rule_for (act family) family sn) \<lparr>sr_scope := Some (proto, ports)\<rparr>) protos)
    \<Longrightarrow> sr_family r = family \<and> sr_set r = sn"
  "r \<in> set (concat (map (\<lambda>proto. case cl proto of None \<Rightarrow> [] | Some x \<Rightarrow> [(set_rule_for a family sn) \<lparr>sr_scope := Some (proto, g x)\<rparr>]) protos))
    \<Longrightarrow> sr_family r = family \<and> sr_set r = sn"
  by (auto simp: set_rule_for_def split: option.splits)

lemma section_entries_ok:
  assumes v6: "v6 \<longrightarrow> ipv6_routed lo c" and s: "s \<in> set (cf_sections c)"
  shows "r \<in> set (set_rules (section_entries c native v6 s)) \<Longrightarrow> rule_ok lo c r"
proof -
  assume r: "r \<in> set (set_rules (section_entries c native v6 s))"
  then have act: "sc_action s \<in> {''direct'', ''reject'', ''proxy'', ''zapret''}"
    by (auto simp: section_entries_def split: if_splits)
  note ok = section_sets_ok [OF v6 _ s act, rotated]
  show ?thesis
    using r
    by (auto simp: section_entries_def plain_rules_def quic_rules_def proxy_rules_def claim_returns_def Let_def
        split: if_splits elim!: ok dest: rules_over_set)
qed

lemma output_entries_ok:
  assumes v6: "v6 \<longrightarrow> ipv6_routed lo c" and s: "s \<in> set (cf_sections c)" "sc_action s \<noteq> []"
  shows "r \<in> set (set_rules (output_section_entries c native v6 s)) \<Longrightarrow> rule_ok lo c r"
proof -
  assume r: "r \<in> set (set_rules (output_section_entries c native v6 s))"
  then have act: "sc_action s \<in> {''direct'', ''reject'', ''proxy'', ''zapret''}"
    using s(2) by (auto simp: output_section_entries_def split: if_splits)
  note ok = section_sets_ok [OF v6 _ s(1) act, rotated]
  show ?thesis
    using r s(2)
    by (auto simp: output_section_entries_def plain_rules_def proxy_rules_def claim_returns_def Let_def
        split: if_splits elim!: ok dest: rules_over_set)
qed

lemma plain_rule_ok:
  assumes "sn \<in> set (nft_payload_sets lo c)" and "sn \<noteq> []" and "family = (if has_suffix sn ''6'' then ''ip6'' else ''ip'')"
  shows "rule_ok lo c (set_rule_for a family sn)" and "rule_ok lo c (set_rule_for a family (dns_set_name sn))"
  using assms declared_payload [OF assms(1)] by (simp_all add: rule_ok_def)

lemma bypass_rules_ok:
  assumes "v6 \<longrightarrow> ipv6_routed lo c" and "r \<in> set (bypass_rules v6)"
  shows "rule_ok lo c r"
proof -
  have four: "sn \<in> set (nft_payload_sets lo c)" if "sn \<in> {''bypass4'', ''proxy_server_bypass4''}" for sn
    using that by (auto simp: payload_sets)
  have six: "sn \<in> set (nft_payload_sets lo c)" if "v6" "sn \<in> {''bypass6'', ''proxy_server_bypass6''}" for sn
    using that assms(1) by (auto simp: payload_sets)
  have suffix: "\<not> has_suffix ''bypass4'' ''6''" "\<not> has_suffix ''proxy_server_bypass4'' ''6''"
    "has_suffix ''bypass6'' ''6''" "has_suffix ''proxy_server_bypass6'' ''6''"
    by code_simp+
  have "r \<in> {set_rule_for Do_return ''ip'' ''bypass4'', set_rule_for Do_return ''ip'' (dns_set_name ''bypass4''),
      set_rule_for Do_return ''ip'' ''proxy_server_bypass4''}
    \<or> v6 \<and> r \<in> {set_rule_for Do_return ''ip6'' ''bypass6'', set_rule_for Do_return ''ip6'' (dns_set_name ''bypass6''),
      set_rule_for Do_return ''ip6'' ''proxy_server_bypass6''}"
    using assms(2) unfolding bypass_rules_def by (cases v6) (simp_all, blast)
  then show ?thesis
    by (elim disjE conjE insertE emptyE) (simp_all add: plain_rule_ok four six suffix)
qed

subsection \<open>Properties\<close>

text \<open>
  C30: the ruleset is closed. Every set that a rule of the bypass rules, the destination pass or
  the output chain looks up is declared, and is a set of the rule's address family, provided no
  section has an empty action. (A name that is looked up and not declared makes nft refuse the
  whole file.)
\<close>

theorem rules_use_declared_sets:
  assumes "\<forall>s \<in> set (cf_sections c). sc_action s \<noteq> []"
    and "r \<in> set (bypass_rules (ipv6_routed lo c)) \<union> set (set_rules (destination_pass c native (ipv6_routed lo c)))
      \<union> (\<Union>s \<in> set (sections_by_priority (cf_sections c)).
           set (set_rules (output_section_entries c native (ipv6_routed lo c) s)))"
  shows "sr_set r \<in> declared_sets lo c \<and> (sr_family r = ''ip6'' \<longleftrightarrow> has_suffix (sr_set r) ''6'')
    \<and> sr_family r \<in> {''ip'', ''ip6''}"
proof -
  let ?v6 = "ipv6_routed lo c"
  have sec: "s \<in> set (sections_by_priority (cf_sections c)) \<Longrightarrow> s \<in> set (cf_sections c)" for s
    by (simp add: sections_by_priority_def)
  have concat: "set (set_rules (concat (map f xs))) = (\<Union>x \<in> set xs. set (set_rules (f x)))" for f :: "route_section \<Rightarrow> _" and xs
    by (induction xs) auto
  consider "r \<in> set (bypass_rules ?v6)" | "r \<in> set (set_rules (destination_pass c native ?v6))"
    | s where "s \<in> set (cf_sections c)" "r \<in> set (set_rules (output_section_entries c native ?v6 s))"
    using assms(2) sec by blast
  then have "rule_ok lo c r"
  proof cases
    case 1
    then show ?thesis by (rule bypass_rules_ok [rotated]) simp
  next
    case 2
    then consider "r \<in> set (plain_rules Do_reject ?v6 ''reject4'' ''reject6'')"
      | "r \<in> set (plain_rules Do_return ?v6 ''direct4'' ''direct6'')"
      | s where "s \<in> set (cf_sections c)" "r \<in> set (set_rules (section_entries c native ?v6 s))"
      using sec by (auto simp: destination_pass_def concat)
    then show ?thesis
    proof cases
      case 1
      then show ?thesis unfolding plain_rules_def
        by (rule global_sets_ok(1) [rotated 2]) (auto dest: rules_over_set(1))
    next
      case 2
      then show ?thesis unfolding plain_rules_def
        by (rule global_sets_ok(2) [rotated 2]) (auto dest: rules_over_set(1))
    next
      case 3
      then show ?thesis using section_entries_ok [of ?v6 lo c s r native] by simp
    qed
  next
    case 3
    then show ?thesis using output_entries_ok [of ?v6 lo c s r native] assms(1) by simp
  qed
  then show ?thesis by (simp only: rule_ok_def)
qed

theorem rules_use_declared_sets_witness:
  "sr_set (set_rule_for Do_reject ''ip'' ''reject4'') \<in> declared_sets id default_config"
proof -
  have "\<forall>s \<in> set (cf_sections default_config). sc_action s \<noteq> []"
    by (simp add: default_config_def default_sections_def zero_route_section_def)
  moreover have "set_rule_for Do_reject ''ip'' ''reject4'' \<in> set (set_rules (destination_pass default_config (\<lambda>_. []) v6))" for v6
    by (simp add: destination_pass_def plain_rules_def both_families_def nft_set_refs_def)
  ultimately show ?thesis
    using rules_use_declared_sets [of default_config "set_rule_for Do_reject ''ip'' ''reject4''" id "\<lambda>_. []"] by blast
qed

lemma unrouted_pass_rules:
  assumes "pk_v6 pk"
  shows "first_action nft inset pk (set_rules (destination_pass c native False)) = None"
proof -
  have one: "first_action nft inset pk (set_rules (section_entries c native False s)) = None" for s
    using assms by (simp add: section_entries_def first_action_append first_action_plain first_action_quic
        first_action_proxy first_action_claims)
  have "first_action nft inset pk (set_rules (concat (map (section_entries c native False) ss))) = None" for ss
    by (induction ss) (simp_all add: first_action_append one)
  then show ?thesis using assms by (simp add: destination_pass_def first_action_append first_action_plain)
qed

lemma reject_leads:
  assumes "sorted_wrt (\<lambda>x y. \<not> dispatch_less y x) ss" and "s \<in> set ss" and "sc_action s = ''reject''"
  shows "ss \<noteq> [] \<and> sc_action (hd ss) = ''reject''"
proof (cases ss)
  case (Cons t ts)
  then have "t = s \<or> \<not> dispatch_less s t" using assms(1,2) by auto
  then show ?thesis using assms(3) Cons
    by (auto simp: dispatch_less_def dispatch_rank_def split: if_splits)
qed (use assms(2) in simp)

text \<open>A list of the reject action that holds the destination settles the trace.\<close>

lemma reject_traced:
  fixes stat parse lo c query f
  defines "t \<equiv> trace_candidates stat parse lo c query" and "r \<equiv> trace_destination stat parse lo c query f"
  assumes "s \<in> set (candidate_sections (cd_cfg t) (cd_matches t))" and "sc_action s = ''reject''"
    and "rt_warnings r = []"
  shows "rt_action r = ''reject''"
proof -
  let ?ss = "candidate_sections (cd_cfg t) (cd_matches t)"
  have "sorted_wrt (\<lambda>x y. \<not> dispatch_less y x) ?ss"
    unfolding candidate_sections_def routing_sections_def by (intro sorted_wrt_filter dispatch_order.sorted)
  from reject_leads [OF this assms(3,4)] obtain u us where u: "?ss = u # us" "sc_action u = ''reject''"
    by (cases ?ss) auto
  have "fst (query_scope lo (cd_cfg t) query f u) = ''match''"
    using u(2) by (auto simp: query_scope_def section_flow_scope_def split: option.split prod.split ip_addr.split)
  then have "section_answer lo (cd_cfg t) query f u = (sc_name u, ''reject'', ''match'')"
    using u(2) by (simp add: section_answer_def scope_action_def)
  then have "first_verdict (answers lo t query f) = (''reject'', sc_name u)"
    by (simp add: answers_def u(1))
  then show ?thesis
    using trace_result [of stat parse lo c query f, folded t_def r_def] assms(5) by simp
qed

text \<open>
  C36: the trace promises a reject that the rules do not hold. Take a destination that a list of
  a reject section holds, and a trace of it without warnings: the trace answers reject. When IPv6
  is not routed, no entry of the destination pass rejects an IPv6 packet to that destination,
  whatever the sets hold; without lines copied from providers none decides at all. The lines
  copied from providers are assumed not to reject: the generator ends them with an accept.
\<close>

theorem unrouted_ipv6_reject_not_enforced:
  fixes stat parse lo c query f
  defines "t \<equiv> trace_candidates stat parse lo c query" and "r \<equiv> trace_destination stat parse lo c query f"
  assumes "\<not> ipv6_routed lo c" and "pk_v6 pk" and "\<And>l. raw pk l \<noteq> Some Do_reject"
    and "s \<in> set (candidate_sections (cd_cfg t) (cd_matches t))" and "sc_action s = ''reject''"
    and "rt_warnings r = []"
  shows "rt_action r = ''reject''
    \<and> chain_action raw nft inset pk (destination_pass c native (ipv6_routed lo c)) \<noteq> Some Do_reject
    \<and> chain_action raw nft inset pk (destination_pass c (\<lambda>_. []) (ipv6_routed lo c)) = None"
proof (intro conjI)
  show "rt_action r = ''reject''"
    using reject_traced [of s stat parse lo c query f] assms(6-8) by (simp add: t_def r_def)
  have quiet: "first_action nft inset pk (set_rules (destination_pass c native (ipv6_routed lo c))) = None" for native
    using unrouted_pass_rules [OF assms(4)] assms(3) by simp
  then show "chain_action raw nft inset pk (destination_pass c native (ipv6_routed lo c)) \<noteq> Some Do_reject"
    using chain_action_raw assms(5) by metis
  show "chain_action raw nft inset pk (destination_pass c (\<lambda>_. []) (ipv6_routed lo c)) = None"
    using quiet by (simp add: chain_action_set_rules [OF destination_pass_rules])
qed

text \<open>An IPv6 network on the list of a reject section, with IPv6 off.\<close>

definition blocked_config :: config where
  "blocked_config = default_config \<lparr>
     cf_settings := default_settings \<lparr>st_ipv6_mode := ''off''\<rparr>,
     cf_sections := [zero_route_section \<lparr>sc_name := ''block'', sc_enabled := True, sc_action := ''reject''\<rparr>],
     cf_rule_providers := [list_provider ''a'' \<lparr>rp_section := ''block''\<rparr>]\<rparr>"

definition blocked_parse :: "rule_provider \<Rightarrow> rule_index \<Rightarrow> rule_index" where
  "blocked_parse rp x = x \<lparr>ix_cidrs := ix_cidrs x @
     [((V6 0x20010DB8000000000000000000000000, 32),
       \<lparr>mt_provider = rp_name rp, mt_section = rp_section rp, mt_action = ''reject'',
        mt_rule = \<lparr>rl_type = Ip_Cidr6, rl_value = ''2001:db8::/32'', rl_no_resolve = False,
          rl_source = rp_name rp, rl_line = 1, rl_openwrt = True, rl_mihomo = True\<rparr>\<rparr>)]\<rparr>"

lemma blocked_query:
  "parse_addr_zone (trim_space ''2001:db8::1'') = Some (V6 0x20010DB8000000000000000000000001, [])"
proof -
  have "trim_space ''2001:db8::1'' = ''2001:db8::1''" by (rule trim_space_solid) (simp add: solid_ends_def solid_def)
  moreover have "replicate 5 (0 :: nat) = [0, 0, 0, 0, 0]" by (simp add: numeral_eq_Suc)
  ultimately show ?thesis
    by (simp add: parse_addr_zone_def parse_v6_def parse_groups.simps hex_digit_def expand_groups_def groups_word_def)
qed

lemma blocked_candidates:
  "trace_candidates (\<lambda>_. None) blocked_parse id blocked_config ''2001:db8::1''
    = \<lparr>cd_cfg = blocked_config, cd_matches = (\<lambda>_. []) (''block'' := [''a'']), cd_warnings = []\<rparr>"
proof -
  let ?rp = "list_provider ''a'' \<lparr>rp_section := ''block''\<rparr>"
  have rp: "rp_enabled ?rp" "rp_section ?rp = ''block''" "rp_name ?rp = ''a''" "rp_path ?rp = ''a''"
    by (simp_all add: list_provider_def)
  have sec: "section_by_name blocked_config ''block'' =
      Some (zero_route_section \<lparr>sc_name := ''block'', sc_enabled := True, sc_action := ''reject''\<rparr>)"
    by (simp add: section_by_name_def blocked_config_def)
  have cfg: "cf_rule_providers blocked_config = [?rp]" "blocked_config \<lparr>cf_rule_providers := [?rp]\<rparr> = blocked_config"
    by (simp_all add: blocked_config_def)
  have new: "ix_pending (new_index blocked_config) = [?rp]" "ix_cidrs (new_index blocked_config) = []"
    "ix_warnings (new_index blocked_config) = []"
    by (simp_all add: new_index_def cfg rp sort_by_def)
  have holds: "masked128 32 0x20010DB8000000000000000000000000 = masked128 32 0x20010DB8000000000000000000000001"
    by (simp add: masked128_def)
  show ?thesis
    by (simp add: trace_candidates_def cfg trace_provider_def provider_section_def rp sec Let_def
        index_query_def blocked_query index_match_ip_def new blocked_parse_def holds to_match_def)
qed

theorem unrouted_ipv6_reject_not_enforced_witness:
  "rt_action (trace_destination (\<lambda>_. None) blocked_parse id blocked_config ''2001:db8::1'' (tcp_flow 443 ''eth1'')) = ''reject''
   \<and> chain_action (\<lambda>_ _. None) (\<lambda>_. UNIV) (\<lambda>_. True) \<lparr>pk_v6 = True, pk_proto = ''tcp'', pk_port = 443\<rparr>
       (destination_pass blocked_config (\<lambda>_. []) (ipv6_routed id blocked_config)) = None"
proof -
  let ?pk = "\<lparr>pk_v6 = True, pk_proto = ''tcp'', pk_port = 443\<rparr>"
  let ?s = "zero_route_section \<lparr>sc_name := ''block'', sc_enabled := True, sc_action := ''reject''\<rparr>"
  have off: "\<not> ipv6_routed id blocked_config" by (simp add: ipv6_routed_def blocked_config_def) code_simp
  have s: "?s \<in> set (candidate_sections (cd_cfg (trace_candidates (\<lambda>_. None) blocked_parse id blocked_config ''2001:db8::1''))
      (cd_matches (trace_candidates (\<lambda>_. None) blocked_parse id blocked_config ''2001:db8::1'')))"
    by (simp add: blocked_candidates candidate_sections_def routing_sections_def) (simp add: blocked_config_def)
  have w: "rt_warnings (trace_destination (\<lambda>_. None) blocked_parse id blocked_config ''2001:db8::1'' (tcp_flow 443 ''eth1'')) = []"
    by (simp add: trace_result blocked_candidates)
  have raw: "(\<lambda>_ _. None) ?pk l \<noteq> Some Do_reject" for l :: string by simp
  have act: "sc_action ?s = ''reject''" by simp
  have v6: "pk_v6 ?pk" by simp
  show ?thesis
    using unrouted_ipv6_reject_not_enforced [OF off v6 raw s act w] by simp
qed

text \<open>
  The output chain takes the sections in priority order only, while the destination pass rejects
  before it looks at any section.
\<close>

definition two_actions :: config where
  "two_actions = default_config \<lparr>cf_sections :=
     [zero_route_section \<lparr>sc_name := ''p'', sc_enabled := True, sc_action := ''proxy'', sc_priority := 10\<rparr>,
      zero_route_section \<lparr>sc_name := ''r'', sc_enabled := True, sc_action := ''reject'', sc_priority := 50\<rparr>]\<rparr>"

lemma output_chain_order_differs:
  "chain_action (\<lambda>_ _. None) (\<lambda>_. {}) (\<lambda>sn. sn = ''proxy_p4'' \<or> sn = ''reject4'') \<lparr>pk_v6 = False, pk_proto = ''tcp'', pk_port = 443\<rparr>
      (destination_pass two_actions (\<lambda>_. []) True) = Some Do_reject
   \<and> chain_action (\<lambda>_ _. None) (\<lambda>_. {}) (\<lambda>sn. sn = ''proxy_p4'' \<or> sn = ''reject4'') \<lparr>pk_v6 = False, pk_proto = ''tcp'', pk_port = 443\<rparr>
      (concat (map (output_section_entries two_actions (\<lambda>_. []) True) (sections_by_priority (cf_sections two_actions))))
     = Some (Do_mark ''ip'')"
  by code_simp

text \<open>
  Lines copied from providers are not tied to the family switch: with IPv6 off, an expression
  that names no family still yields a rule for IPv6.
\<close>

lemma native_ipv6_line_ungated:
  "list_ex (\<lambda>e. case e of Raw_line l \<Rightarrow> has_prefix l ''    ip6 version 6 meta l4proto tcp'' | Set_rule r \<Rightarrow> False)
     (destination_pass two_actions (\<lambda>_. [''meta l4proto tcp th dport 25'']) False)"
  by code_simp

end
