(* ===== verification/Ip_Db.thy ===== *)
theory Ip_Db
  imports Go_Text Go_Sort Cidr_Cover
begin

section \<open>The address database\<close>

text \<open>
  \<open>internal/ipdb/db.go\<close>: the table of address ranges with their autonomous system, country
  and owner. Loading reads the rows of a tab-separated file into one list per family, sorted
  by start address; a lookup is a binary search; the prefixes of a system are the cut of its
  ranges. The gzip decoder is a parameter, as is the outcome of opening the file. The path
  helpers \<open>GZPath\<close> and \<open>DownloadPath\<close> are left out. \<open>sort.Slice\<close> is not stable; here the
  rows of one start address keep the order of the file.

  A \<open>[16]byte\<close> is the 128-bit word of its big-endian bytes, a nil database is \<open>None\<close>, and
  the zero \<open>netip.Addr\<close> is \<open>None\<close>.
\<close>

record 'w ip_entry =
  ie_start :: 'w
  ie_end :: 'w
  ie_asn :: "32 word"
  ie_cc :: string
  ie_org :: string

record ip_db =
  db_entries :: "32 word ip_entry list"
  db_entries6 :: "128 word ip_entry list"

record as_lookup =
  lk_asn :: "32 word"
  lk_org :: string
  lk_country :: string

record as_info =
  ai_asn :: "32 word"
  ai_org :: string
  ai_country :: string
  ai_prefixes :: "string list"
  ai_ranges :: nat

datatype ipdb_error = Open_failed | Gunzip_failed | Scan_failed

subsection \<open>Reading the rows\<close>

text \<open>\<open>parseIPv4\<close> goes through \<open>net.ParseIP\<close>, so a mapped IPv6 text is an IPv4 row.\<close>

definition parse_ipv4 :: "string \<Rightarrow> 32 word option" where
  "parse_ipv4 s =
     (case parse_addr s of
        None \<Rightarrow> None
      | Some a \<Rightarrow> (case unmap a of V4 b \<Rightarrow> Some b | V6 b \<Rightarrow> None))"

definition parse_ipv6 :: "string \<Rightarrow> 128 word option" where
  "parse_ipv6 s =
     (case parse_addr_zone s of
        Some (V6 a, z) \<Rightarrow> if is_4in6 a then None else Some a
      | _ \<Rightarrow> None)"

text \<open>\<open>strings.SplitN(s, sep, n)\<close> for \<open>n > 0\<close>, and \<open>strconv.ParseUint(s, 10, 32)\<close>.\<close>

fun split_n :: "nat \<Rightarrow> char \<Rightarrow> string \<Rightarrow> string list" where
  "split_n 0 c s = []"
| "split_n (Suc 0) c s = [s]"
| "split_n (Suc (Suc n)) c s =
     (case str_index s [c] of
        None \<Rightarrow> [s]
      | Some i \<Rightarrow> take i s # split_n (Suc n) c (drop (i + 1) s))"

definition parse_uint32 :: "string \<Rightarrow> 32 word option" where
  "parse_uint32 s =
     (if s = [] then None
      else (case digits_val 0 s of
          None \<Rightarrow> None
        | Some n \<Rightarrow> if n < 2 ^ 32 then Some (word_of_nat n) else None))"

definition parse_row :: "string \<Rightarrow> (32 word ip_entry + 128 word ip_entry) option" where
  "parse_row line =
     (if line = [] \<or> hd line = CHR ''#'' then None
      else (case split_n 5 tab line of
          [from, to, number, cc, org] \<Rightarrow>
            (case parse_uint32 number of
               None \<Rightarrow> None
             | Some asn \<Rightarrow>
                 (case parse_ipv4 from of
                    Some a \<Rightarrow>
                      (case parse_ipv4 to of
                         None \<Rightarrow> None
                       | Some b \<Rightarrow> Some (Inl \<lparr>ie_start = a, ie_end = b, ie_asn = asn,
                           ie_cc = trim_space cc, ie_org = trim_space org\<rparr>))
                  | None \<Rightarrow>
                      (case (parse_ipv6 from, parse_ipv6 to) of
                         (Some a, Some b) \<Rightarrow> Some (Inr \<lparr>ie_start = a, ie_end = b, ie_asn = asn,
                           ie_cc = trim_space cc, ie_org = trim_space org\<rparr>)
                       | _ \<Rightarrow> None)))
        | _ \<Rightarrow> None))"

definition starts_before :: "('w :: linorder) ip_entry \<Rightarrow> 'w ip_entry \<Rightarrow> bool" where
  "starts_before e f \<longleftrightarrow> ie_start e < ie_start f"

definition rows4 :: "(32 word ip_entry + 128 word ip_entry) list \<Rightarrow> 32 word ip_entry list" where
  "rows4 rs = List.map_filter (\<lambda>r. case r of Inl e \<Rightarrow> Some e | Inr e \<Rightarrow> None) rs"

definition rows6 :: "(32 word ip_entry + 128 word ip_entry) list \<Rightarrow> 128 word ip_entry list" where
  "rows6 rs = List.map_filter (\<lambda>r. case r of Inl e \<Rightarrow> None | Inr e \<Rightarrow> Some e) rs"

definition parse_tsv :: "bytes \<Rightarrow> ipdb_error + ip_db" where
  "parse_tsv data =
     (case scan_within 1048576 data of
        (ls, too_long) \<Rightarrow>
          if too_long then Inl Scan_failed
          else (let rs = List.map_filter parse_row ls
                in Inr \<lparr>db_entries = sort_by starts_before (rows4 rs),
                        db_entries6 = sort_by starts_before (rows6 rs)\<rparr>))"

text \<open>
  A decoder that accepts the header gives the bytes it produces and whether it fails after
  them; the scanner reports such a failure as its error.
\<close>

definition load_db ::
  "(bytes \<Rightarrow> (bytes \<times> bool) option) \<Rightarrow> string \<Rightarrow> bytes option \<Rightarrow> ipdb_error + ip_db" where
  "load_db gunzip path file =
     (case file of
        None \<Rightarrow> Inl Open_failed
      | Some data \<Rightarrow>
          if has_suffix path ''.gz'' then
            (case gunzip data of
               None \<Rightarrow> Inl Gunzip_failed
             | Some (out, failed) \<Rightarrow> if failed then Inl Scan_failed else parse_tsv out)
          else parse_tsv data)"

subsection \<open>Lookups\<close>

text \<open>\<open>sort.Search\<close> on the half-open interval from \<open>i\<close> to \<open>j\<close>.\<close>

function search_between :: "(nat \<Rightarrow> bool) \<Rightarrow> nat \<Rightarrow> nat \<Rightarrow> nat" where
  "search_between f i j =
     (if i < j then
        (let h = (i + j) div 2
         in if \<not> f h then search_between f (h + 1) j else search_between f i h)
      else i)"
  by pat_completeness auto
termination by (relation "measure (\<lambda>(f, i, j). j - i)") auto

declare search_between.simps [simp del]

definition zero_lookup :: as_lookup where
  "zero_lookup = \<lparr>lk_asn = 0, lk_org = [], lk_country = []\<rparr>"

text \<open>The body that \<open>Lookup\<close> and \<open>lookup6\<close> have in common, on a table of either family.\<close>

definition lookup_in :: "('w :: linorder) ip_entry list \<Rightarrow> 'w \<Rightarrow> as_lookup" where
  "lookup_in es needle =
     (case search_between (\<lambda>i. ie_start (es ! i) > needle) 0 (length es) of
        0 \<Rightarrow> zero_lookup
      | Suc i \<Rightarrow>
          (let e = es ! i
           in if needle > ie_end e then zero_lookup
              else if ie_asn e = 0 then zero_lookup
              else \<lparr>lk_asn = ie_asn e, lk_org = ie_org e, lk_country = ie_cc e\<rparr>))"

definition lookup6 :: "ip_db \<Rightarrow> ip_addr option \<Rightarrow> as_lookup" where
  "lookup6 db ip =
     (case ip of
        Some (V6 a) \<Rightarrow> if db_entries6 db = [] then zero_lookup else lookup_in (db_entries6 db) a
      | _ \<Rightarrow> zero_lookup)"

definition ip_lookup :: "ip_db option \<Rightarrow> ip_addr option \<Rightarrow> as_lookup" where
  "ip_lookup dbo ip =
     (case dbo of
        None \<Rightarrow> zero_lookup
      | Some db \<Rightarrow>
          if db_entries db = [] then zero_lookup
          else (case map_option unmap ip of
              Some (V4 a) \<Rightarrow> lookup_in (db_entries db) a
            | _ \<Rightarrow> lookup6 db ip))"

definition entry_count :: "ip_db option \<Rightarrow> nat" where
  "entry_count dbo =
     (case dbo of None \<Rightarrow> 0 | Some db \<Rightarrow> length (db_entries db) + length (db_entries6 db))"

subsection \<open>The prefixes of a system\<close>

definition cidr_string :: "32 word \<Rightarrow> nat \<Rightarrow> string" where
  "cidr_string ip plen = v4_string ip @ ''/'' @ dec_of plen"

text \<open>The texts \<open>rangeToPrefixes6\<close> returns.\<close>

definition range6_strings :: "128 word \<Rightarrow> 128 word \<Rightarrow> string list option" where
  "range6_strings a b = map_option (map (\<lambda>(x, n). prefix_string (V6 x, n))) (v6_prefixes a b)"

definition claim_range :: "'w ip_entry \<Rightarrow> string list \<Rightarrow> as_info \<Rightarrow> as_info" where
  "claim_range e ps info =
     info\<lparr>ai_ranges := ai_ranges info + 1,
          ai_org := if ai_org info = [] then ie_org e else ai_org info,
          ai_country := if ai_country info = [] then ie_cc e else ai_country info,
          ai_prefixes := ai_prefixes info @ ps\<rparr>"

definition claim_entry4 :: "32 word \<Rightarrow> 32 word ip_entry \<Rightarrow> as_info \<Rightarrow> as_info" where
  "claim_entry4 asn e info =
     (if ie_asn e \<noteq> asn then info
      else claim_range e (map (\<lambda>(x, n). cidr_string x n) (v4_prefixes (ie_start e) (ie_end e))) info)"

definition claim_entry6 :: "32 word \<Rightarrow> 128 word ip_entry \<Rightarrow> as_info \<Rightarrow> as_info option" where
  "claim_entry6 asn e info =
     (if ie_asn e \<noteq> asn then Some info
      else map_option (\<lambda>ps. claim_range e ps info) (range6_strings (ie_start e) (ie_end e)))"

text \<open>\<open>None\<close> is a cut that does not end; no range has one.\<close>

definition prefixes_for_asn :: "ip_db option \<Rightarrow> 32 word \<Rightarrow> as_info option" where
  "prefixes_for_asn dbo asn =
     (let info = \<lparr>ai_asn = asn, ai_org = [], ai_country = [], ai_prefixes = [], ai_ranges = 0\<rparr>
      in case dbo of
           None \<Rightarrow> Some info
         | Some db \<Rightarrow>
             if asn = 0 then Some info
             else foldl (\<lambda>acc e. Option.bind acc (claim_entry6 asn e))
               (Some (foldl (\<lambda>acc e. claim_entry4 asn e acc) info (db_entries db)))
               (db_entries6 db))"

end
