(* ===== verification/Ip_Db_Facts.thy ===== *)
theory Ip_Db_Facts
  imports Ip_Db
begin

section \<open>What a lookup in the address database answers\<close>

text \<open>
  The binary search finds the first position where a monotone test holds; on a sorted table of
  disjoint ranges the answer of a lookup is the row that covers the address, and the prefixes
  listed for a system are the addresses whose lookup names it.
\<close>

subsection \<open>The search\<close>

definition first_at :: "(nat \<Rightarrow> bool) \<Rightarrow> nat \<Rightarrow> nat \<Rightarrow> nat \<Rightarrow> bool" where
  "first_at f i j r \<longleftrightarrow>
     i \<le> r \<and> r \<le> j \<and> (\<forall>k. i \<le> k \<longrightarrow> k < r \<longrightarrow> \<not> f k) \<and> (\<forall>k. r \<le> k \<longrightarrow> k < j \<longrightarrow> f k)"

lemma first_at_lower: "first_at f i h r \<Longrightarrow> h \<le> j \<Longrightarrow> (\<And>k. h \<le> k \<Longrightarrow> k < j \<Longrightarrow> f k) \<Longrightarrow> first_at f i j r"
  unfolding first_at_def by (metis le_trans not_less)

lemma first_at_upper: "first_at f h j r \<Longrightarrow> i \<le> h \<Longrightarrow> (\<And>k. k < h \<Longrightarrow> \<not> f k) \<Longrightarrow> first_at f i j r"
  unfolding first_at_def by (metis le_trans not_less)

lemma search_between_first:
  assumes "i \<le> j" and "\<And>a b. a \<le> b \<Longrightarrow> b < j \<Longrightarrow> f a \<Longrightarrow> f b"
  shows "first_at f i j (search_between f i j)"
  using assms
proof (induction f i j rule: search_between.induct)
  case (1 f i j)
  show ?case
  proof (cases "i < j")
    case True
    let ?h = "(i + j) div 2"
    have h: "i \<le> ?h" "?h < j" using True by auto
    show ?thesis
    proof (cases "f ?h")
      case True
      have step: "search_between f i j = search_between f i ?h"
        using True \<open>i < j\<close> by (subst search_between.simps) (simp add: Let_def)
      have mono: "f a \<Longrightarrow> f b" if "a \<le> b" "b < ?h" for a b
        using "1.prems"(2) [OF that(1)] that(2) h(2) by simp
      have "first_at f i ?h (search_between f i ?h)"
        using "1.IH"(2) [OF \<open>i < j\<close> refl _ h(1) mono] True by simp
      moreover have "f k" if "?h \<le> k" "k < j" for k
        using "1.prems"(2) [OF that] True by simp
      ultimately show ?thesis unfolding step using first_at_lower [OF _ less_imp_le [OF h(2)]] by blast
    next
      case False
      have step: "search_between f i j = search_between f (?h + 1) j"
        using False \<open>i < j\<close> by (subst search_between.simps) (simp add: Let_def)
      have le: "?h + 1 \<le> j" using h(2) by simp
      have "first_at f (?h + 1) j (search_between f (?h + 1) j)"
        using "1.IH"(1) [OF \<open>i < j\<close> refl False le "1.prems"(2)] by simp
      moreover have "\<not> f k" if "k < ?h + 1" for k
        using "1.prems"(2) [of k ?h] False h(2) that by auto
      ultimately show ?thesis unfolding step using first_at_upper [OF _ le_SucI [OF h(1)]] by simp
    qed
  next
    case False
    then have "search_between f i j = i" by (subst search_between.simps) simp
    then show ?thesis using False "1.prems"(1) by (simp add: first_at_def)
  qed
qed

subsection \<open>Tables of disjoint ranges\<close>

definition covers :: "('w :: linorder) \<Rightarrow> 'w ip_entry \<Rightarrow> bool" where
  "covers a e \<longleftrightarrow> ie_start e \<le> a \<and> a \<le> ie_end e"

definition ranges_apart :: "('w :: linorder) ip_entry list \<Rightarrow> bool" where
  "ranges_apart es \<longleftrightarrow>
     list_all (\<lambda>e. ie_start e \<le> ie_end e
       \<and> list_all (\<lambda>f. f = e \<or> ie_end e < ie_start f \<or> ie_end f < ie_start e) es) es"

definition entry_answer :: "'w ip_entry option \<Rightarrow> as_lookup" where
  "entry_answer eo =
     (case eo of
        None \<Rightarrow> zero_lookup
      | Some e \<Rightarrow> if ie_asn e = 0 then zero_lookup
          else \<lparr>lk_asn = ie_asn e, lk_org = ie_org e, lk_country = ie_cc e\<rparr>)"

interpretation start_order: slice_order "starts_before :: ('w :: linorder) ip_entry \<Rightarrow> _"
  by unfold_locales (auto simp: starts_before_def)

lemma covers_unique:
  assumes "ranges_apart es" "e \<in> set es" "f \<in> set es" "covers a e" "covers a f"
  shows "e = f"
  using assms unfolding ranges_apart_def list_all_iff covers_def by (meson le_less_trans not_less)

lemma find_cover:
  assumes "ranges_apart es" "e \<in> set es" "covers a e"
  shows "find (covers a) es = Some e"
proof (cases "find (covers a) es")
  case None
  then show ?thesis using assms by (auto simp: find_None_iff)
next
  case (Some f)
  then show ?thesis using find_SomeD [OF Some] covers_unique [OF assms(1,2) _ assms(3)] by auto
qed

lemma lookup_in_correct:
  assumes apart: "ranges_apart es" and ordered: "sorted_wrt (\<lambda>e f. \<not> starts_before f e) es"
  shows "lookup_in es a = entry_answer (find (covers a) es)"
proof -
  let ?f = "\<lambda>i. ie_start (es ! i) > a" let ?r = "search_between ?f 0 (length es)"
  have le: "ie_start (es ! i) \<le> ie_start (es ! j)" if "i \<le> j" "j < length es" for i j
    using that sorted_wrt_nth_less [OF ordered, of i j]
    by (cases "i = j") (auto simp: starts_before_def not_less)
  have "first_at ?f 0 (length es) ?r"
  proof (rule search_between_first)
    fix i j assume "i \<le> j" "j < length es" "?f i"
    then show "?f j" using le [of i j] by (meson less_le_trans)
  qed simp
  then have r: "?r \<le> length es" "\<And>k. k < ?r \<Longrightarrow> \<not> ?f k" "\<And>k. ?r \<le> k \<Longrightarrow> k < length es \<Longrightarrow> ?f k"
    unfolding first_at_def by blast+
  have at: "k < ?r" if "k < length es" "covers a (es ! k)" for k
    using r(3) [of k] that by (metis covers_def not_less)
  show ?thesis
  proof (cases ?r)
    case 0
    then have "find (covers a) es = None"
      using at by (auto simp: find_None_iff in_set_conv_nth)
    then show ?thesis using 0 by (simp add: lookup_in_def entry_answer_def)
  next
    case (Suc i)
    let ?e = "es ! i"
    have i: "i < length es" "ie_start ?e \<le> a" using Suc r(1,2) by (auto simp: not_less)
    show ?thesis
    proof (cases "a \<le> ie_end ?e")
      case True
      then have "find (covers a) es = Some ?e"
        using find_cover [OF apart, of ?e a] i by (simp add: covers_def)
      then show ?thesis
        using Suc True by (simp add: lookup_in_def entry_answer_def Let_def)
    next
      case False
      have "\<not> covers a (es ! k)" if k: "k < length es" for k
      proof
        assume cov: "covers a (es ! k)"
        then have "k \<le> i" using at [OF k] Suc by simp
        then have "ie_start (es ! k) \<le> ie_start ?e" using le i by simp
        moreover have "es ! k \<noteq> ?e" using cov False by (auto simp: covers_def)
        moreover have "ie_start ?e \<le> ie_end ?e" "es ! k = ?e \<or> ie_end ?e < ie_start (es ! k) \<or> ie_end (es ! k) < ie_start ?e"
          using apart i(1) k by (auto simp: ranges_apart_def list_all_iff)
        ultimately show False using cov i False by (auto simp: covers_def)
      qed
      then have "find (covers a) es = None" by (auto simp: find_None_iff in_set_conv_nth)
      then show ?thesis
        using Suc False by (simp add: lookup_in_def entry_answer_def Let_def)
    qed
  qed
qed

lemma parse_tsv_sorted:
  assumes "parse_tsv data = Inr db"
  shows "sorted_wrt (\<lambda>e f. \<not> starts_before f e) (db_entries db)"
    "sorted_wrt (\<lambda>e f. \<not> starts_before f e) (db_entries6 db)"
  using assms start_order.sorted
  by (auto simp: parse_tsv_def Let_def split: prod.splits if_splits)

subsection \<open>Lookups in a loaded database\<close>

definition loaded_apart :: "bytes \<Rightarrow> ip_db \<Rightarrow> bool" where
  "loaded_apart data db \<longleftrightarrow>
     parse_tsv data = Inr db \<and> ranges_apart (db_entries db) \<and> ranges_apart (db_entries6 db)"

lemma lookup_loaded:
  assumes "loaded_apart data db" and "db_entries db \<noteq> []"
  shows "ip_lookup (Some db) (Some (V4 a)) = entry_answer (find (covers a) (db_entries db))"
    "\<not> is_4in6 c \<Longrightarrow>
      ip_lookup (Some db) (Some (V6 c)) = entry_answer (find (covers c) (db_entries6 db))"
  using assms parse_tsv_sorted [of data db]
  by (simp_all add: loaded_apart_def ip_lookup_def lookup6_def to4_def lookup_in_correct)
    (simp add: entry_answer_def)

text \<open>
  On a loaded database whose ranges are disjoint, and that has IPv4 rows, a lookup answers
  with the row that covers the address, and with nothing when no row does or the row belongs
  to no system; a mapped address is looked up as the IPv4 address it holds.
\<close>

theorem ip_lookup_correct:
  assumes "loaded_apart data db" and "db_entries db \<noteq> []"
  shows "ip_lookup (Some db) (Some ip) =
    (case unmap ip of
       V4 a \<Rightarrow> entry_answer (find (covers a) (db_entries db))
     | V6 c \<Rightarrow> entry_answer (find (covers c) (db_entries6 db)))"
proof (cases "unmap ip")
  case (V4 a)
  then have "ip_lookup (Some db) (Some ip) = ip_lookup (Some db) (Some (V4 a))"
    by (simp add: ip_lookup_def)
  then show ?thesis using lookup_loaded(1) [OF assms] V4 by simp
next
  case (V6 c)
  then have "ip = V6 c" "\<not> is_4in6 c" by (cases ip; simp add: to4_def split: if_splits)+
  then show ?thesis using lookup_loaded(2) [OF assms] V6 by simp
qed

text \<open>Without IPv4 rows every lookup is empty, whatever IPv6 rows there are.\<close>

lemma v6_lookup_needs_v4_rows:
  "db_entries db = [] \<Longrightarrow> ip_lookup (Some db) ip = zero_lookup"
  by (simp add: ip_lookup_def)

subsection \<open>The prefixes of a system\<close>

definition cut4 :: "32 word ip_entry \<Rightarrow> prefix list" where
  "cut4 e = map (\<lambda>(x, n). (V4 x, n)) (v4_prefixes (ie_start e) (ie_end e))"

definition cut6 :: "128 word ip_entry \<Rightarrow> prefix list" where
  "cut6 e = map (\<lambda>(x, n). (V6 x, n)) (the (v6_prefixes (ie_start e) (ie_end e)))"

lemma cut4_contains: "(\<exists>p \<in> set (cut4 e). prefix_contains p (V4 a)) \<longleftrightarrow> covers a e"
  using cuts_range_contains(1) [OF v4_prefixes_cut]
  by (simp add: cut4_def covers_def word_le_nat_alt)

lemma cut6_range: "cuts_range 128 (unat (ie_start e)) (unat (ie_end e)) (cut6 e)"
  using v6_prefixes_cut [of "ie_start e" "ie_end e"] by (auto simp: cut6_def)

lemma cut6_contains: "(\<exists>p \<in> set (cut6 e). prefix_contains p (V6 c)) \<longleftrightarrow> covers c e"
  using cuts_range_contains(2) [OF cut6_range] by (simp add: covers_def word_le_nat_alt)

lemma cut_family:
  "p \<in> set (cut4 e) \<Longrightarrow> \<not> prefix_contains p (V6 c)" "p \<in> set (cut6 e') \<Longrightarrow> \<not> prefix_contains p (V4 a)"
  by (auto simp: cut4_def cut6_def)

lemma claim_entry4_prefixes:
  "ai_prefixes (foldl (\<lambda>acc e. claim_entry4 asn e acc) info es) =
     ai_prefixes info @ map prefix_string (concat (map cut4 (filter (\<lambda>e. ie_asn e = asn) es)))"
proof (induction es arbitrary: info)
  case (Cons e es)
  have "map (\<lambda>(x, n). cidr_string x n) (v4_prefixes (ie_start e) (ie_end e)) = map prefix_string (cut4 e)"
    by (simp add: cut4_def cidr_string_def prefix_string_def split_beta)
  then show ?case using Cons.IH by (simp add: claim_entry4_def claim_range_def)
qed simp

lemma claim_entry6_prefixes:
  "\<exists>info'. foldl (\<lambda>acc e. Option.bind acc (claim_entry6 asn e)) (Some info) es = Some info'
    \<and> ai_prefixes info' =
      ai_prefixes info @ map prefix_string (concat (map cut6 (filter (\<lambda>e. ie_asn e = asn) es)))"
proof (induction es arbitrary: info)
  case (Cons e es)
  have "range6_strings (ie_start e) (ie_end e) = Some (map prefix_string (cut6 e))"
    using v6_prefixes_cut [of "ie_start e" "ie_end e"]
    by (auto simp: range6_strings_def cut6_def split_beta)
  then have "\<exists>i. claim_entry6 asn e info = Some i \<and> ai_prefixes i = ai_prefixes info
      @ map prefix_string (if ie_asn e = asn then cut6 e else [])"
    by (simp add: claim_entry6_def claim_range_def)
  then obtain i where "claim_entry6 asn e info = Some i" "ai_prefixes i = ai_prefixes info
      @ map prefix_string (if ie_asn e = asn then cut6 e else [])" by blast
  then show ?case using Cons.IH [of i] by auto
qed simp

lemma answer_asn:
  assumes "ranges_apart es" and "asn \<noteq> 0"
  shows "lk_asn (entry_answer (find (covers a) es)) = asn \<longleftrightarrow> (\<exists>e \<in> set es. ie_asn e = asn \<and> covers a e)"
proof
  assume "lk_asn (entry_answer (find (covers a) es)) = asn"
  then show "\<exists>e \<in> set es. ie_asn e = asn \<and> covers a e"
    using assms(2) find_SomeD [of "covers a" es]
    by (auto simp: entry_answer_def zero_lookup_def split: option.splits if_splits)
next
  assume "\<exists>e \<in> set es. ie_asn e = asn \<and> covers a e"
  then show "lk_asn (entry_answer (find (covers a) es)) = asn"
    using find_cover [OF assms(1)] assms(2) by (auto simp: entry_answer_def)
qed

text \<open>
  C16: the prefixes listed for a system agree with the lookups: they contain exactly the
  addresses, of either family, whose lookup names the system.
\<close>

theorem asn_prefixes_agree_with_lookup:
  assumes "loaded_apart data db" and "db_entries db \<noteq> []" and "asn \<noteq> 0"
  shows "\<exists>info ps. prefixes_for_asn (Some db) asn = Some info \<and> ai_prefixes info = map prefix_string ps
    \<and> (\<forall>a. (\<exists>p \<in> set ps. prefix_contains p (V4 a)) \<longleftrightarrow> lk_asn (ip_lookup (Some db) (Some (V4 a))) = asn)
    \<and> (\<forall>c. is_4in6 c \<or> ((\<exists>p \<in> set ps. prefix_contains p (V6 c)) \<longleftrightarrow>
           lk_asn (ip_lookup (Some db) (Some (V6 c))) = asn))"
proof -
  let ?ps = "concat (map cut4 (filter (\<lambda>e. ie_asn e = asn) (db_entries db)))
    @ concat (map cut6 (filter (\<lambda>e. ie_asn e = asn) (db_entries6 db)))"
  let ?info = "\<lparr>ai_asn = asn, ai_org = [], ai_country = [], ai_prefixes = [], ai_ranges = 0\<rparr>"
  have apart: "ranges_apart (db_entries db)" "ranges_apart (db_entries6 db)"
    using assms(1) by (simp_all add: loaded_apart_def)
  obtain info where "prefixes_for_asn (Some db) asn = Some info" "ai_prefixes info = map prefix_string ?ps"
    using claim_entry6_prefixes [of asn "foldl (\<lambda>acc e. claim_entry4 asn e acc) ?info (db_entries db)" "db_entries6 db"]
      claim_entry4_prefixes [of asn ?info "db_entries db"] assms(3)
    by (auto simp: prefixes_for_asn_def)
  moreover have "(\<exists>p \<in> set ?ps. prefix_contains p (V4 a)) \<longleftrightarrow> lk_asn (ip_lookup (Some db) (Some (V4 a))) = asn" for a
  proof -
    have "(\<exists>p \<in> set ?ps. prefix_contains p (V4 a)) \<longleftrightarrow>
        (\<exists>e \<in> set (db_entries db). ie_asn e = asn \<and> (\<exists>p \<in> set (cut4 e). prefix_contains p (V4 a)))"
      using cut_family(2) [of _ _ a] by auto
    then show ?thesis
      by (simp only: cut4_contains lookup_loaded [OF assms(1,2)] answer_asn [OF apart(1) assms(3)])
  qed
  moreover have "is_4in6 c \<or> ((\<exists>p \<in> set ?ps. prefix_contains p (V6 c)) \<longleftrightarrow>
      lk_asn (ip_lookup (Some db) (Some (V6 c))) = asn)" for c
  proof (cases "is_4in6 c")
    case False
    have "(\<exists>p \<in> set ?ps. prefix_contains p (V6 c)) \<longleftrightarrow>
        (\<exists>e \<in> set (db_entries6 db). ie_asn e = asn \<and> (\<exists>p \<in> set (cut6 e). prefix_contains p (V6 c)))"
      using cut_family(1) [of _ _ c] by auto
    then show ?thesis
      by (simp only: cut6_contains lookup_loaded(2) [OF assms(1,2) False] answer_asn [OF apart(2) assms(3)] simp_thms)
  qed simp
  ultimately show ?thesis by blast
qed

text \<open>A file with two IPv4 rows out of order and an IPv6 row.\<close>

definition example_lines :: "string list" where
  "example_lines = map (join [tab])
     [[''8.8.8.0'', ''8.8.8.255'', ''15169'', ''US'', ''GOOGLE''],
      [''1.0.0.0'', ''1.0.0.255'', ''13335'', ''US'', ''CF''],
      [''2001:db8::'', ''2001:db8::ff'', ''15169'', ''US'', ''GOOGLE'']]"

definition row4 :: "32 word \<Rightarrow> 32 word \<Rightarrow> 32 word \<Rightarrow> string \<Rightarrow> 32 word ip_entry" where
  "row4 a b n org = \<lparr>ie_start = a, ie_end = b, ie_asn = n, ie_cc = ''US'', ie_org = org\<rparr>"

definition row6 :: "128 word \<Rightarrow> 128 word \<Rightarrow> 32 word \<Rightarrow> string \<Rightarrow> 128 word ip_entry" where
  "row6 a b n org = \<lparr>ie_start = a, ie_end = b, ie_asn = n, ie_cc = ''US'', ie_org = org\<rparr>"

definition example_db :: ip_db where
  "example_db = \<lparr>
     db_entries = [row4 0x01000000 0x010000FF 13335 ''CF'', row4 0x08080800 0x080808FF 15169 ''GOOGLE''],
     db_entries6 = [row6 0x20010DB8000000000000000000000000 0x20010DB80000000000000000000000FF 15169 ''GOOGLE'']\<rparr>"

lemma example_scan: "scan_within 1048576 (join [newline] example_lines) = (example_lines, False)"
  by (simp add: example_lines_def scan_within.simps drop_cr_def newline_def tab_def return_def Let_def)

lemma example_texts:
  "parse_ipv4 ''8.8.8.0'' = Some 0x08080800" "parse_ipv4 ''8.8.8.255'' = Some 0x080808FF"
  "parse_ipv4 ''1.0.0.0'' = Some 0x01000000" "parse_ipv4 ''1.0.0.255'' = Some 0x010000FF"
  by (simp_all add: parse_ipv4_def parse_addr_def parse_addr_zone_def parse_v4_def octet_def digit_val_def)

lemma example_zeros:
  "replicate 6 (0 :: nat) = [0, 0, 0, 0, 0, 0]" "replicate 5 (0 :: nat) = [0, 0, 0, 0, 0]"
  by (simp_all add: numeral_eq_Suc)

lemma example_texts6:
  "parse_ipv4 ''2001:db8::'' = None"
  "parse_ipv6 ''2001:db8::'' = Some 0x20010DB8000000000000000000000000"
  "parse_ipv6 ''2001:db8::ff'' = Some 0x20010DB80000000000000000000000FF"
  by (simp_all add: parse_ipv4_def parse_ipv6_def parse_addr_def parse_addr_zone_def parse_v6_def
      parse_groups.simps hex_digit_def expand_groups_def groups_word_def is_4in6_def to4_def
      example_zeros)

lemma example_fields:
  "map (split_n 5 tab) example_lines =
     [[''8.8.8.0'', ''8.8.8.255'', ''15169'', ''US'', ''GOOGLE''],
      [''1.0.0.0'', ''1.0.0.255'', ''13335'', ''US'', ''CF''],
      [''2001:db8::'', ''2001:db8::ff'', ''15169'', ''US'', ''GOOGLE'']]"
  "map (\<lambda>l. l = [] \<or> hd l = CHR ''#'') example_lines = [False, False, False]"
  by code_simp+

lemma example_parsed:
  "map parse_row example_lines =
     [Some (Inl (row4 0x08080800 0x080808FF 15169 ''GOOGLE'')), Some (Inl (row4 0x01000000 0x010000FF 13335 ''CF'')),
      Some (Inr (row6 0x20010DB8000000000000000000000000 0x20010DB80000000000000000000000FF 15169 ''GOOGLE''))]"
proof -
  have "parse_uint32 ''13335'' = Some 13335" "parse_uint32 ''15169'' = Some 15169"
    by (simp_all add: parse_uint32_def digit_val_def)
  moreover have "trim_space ''US'' = ''US''" "trim_space ''GOOGLE'' = ''GOOGLE''" "trim_space ''CF'' = ''CF''"
    by (simp_all add: solid_ends_def solid_def)
  moreover obtain a b c where abc: "example_lines = [a, b, c]"
    by (simp add: example_lines_def)
  ultimately show ?thesis
    using example_fields unfolding abc
    by (simp add: parse_row_def example_texts example_texts6 row4_def row6_def)
qed

lemma example_loaded: "loaded_apart (join [newline] example_lines) example_db"
proof -
  have "List.map_filter parse_row example_lines = map the (map parse_row example_lines)"
    using example_parsed by (auto simp: example_lines_def List.map_filter_def)
  then have "parse_tsv (join [newline] example_lines) = Inr example_db"
    by (simp add: parse_tsv_def example_scan example_parsed Let_def rows4_def rows6_def List.map_filter_def
        sort_by_def starts_before_def example_db_def row4_def row6_def)
  moreover have "ranges_apart (db_entries example_db)" "ranges_apart (db_entries6 example_db)"
    by (simp_all add: ranges_apart_def example_db_def row4_def row6_def)
  ultimately show ?thesis by (simp add: loaded_apart_def)
qed

theorem ip_lookup_correct_witness:
  "ip_lookup (Some example_db) (Some (V4 0x08080808)) = \<lparr>lk_asn = 15169, lk_org = ''GOOGLE'', lk_country = ''US''\<rparr>"
proof -
  have "db_entries example_db \<noteq> []" by (simp add: example_db_def)
  from ip_lookup_correct [OF example_loaded this, of "V4 0x08080808"]
  show ?thesis by (simp add: example_db_def row4_def covers_def entry_answer_def)
qed

theorem asn_prefixes_agree_with_lookup_witness:
  "\<exists>info ps. prefixes_for_asn (Some example_db) 15169 = Some info \<and> ai_prefixes info = map prefix_string ps
    \<and> (\<exists>p \<in> set ps. prefix_contains p (V4 0x08080808)) \<and> \<not> (\<exists>p \<in> set ps. prefix_contains p (V4 0x01000001))"
proof -
  have ne: "db_entries example_db \<noteq> []" by (simp add: example_db_def)
  have "lk_asn (ip_lookup (Some example_db) (Some (V4 0x08080808))) = 15169"
    "lk_asn (ip_lookup (Some example_db) (Some (V4 0x01000001))) = 13335"
    using lookup_loaded(1) [OF example_loaded ne]
    by (simp_all add: example_db_def row4_def covers_def entry_answer_def)
  then show ?thesis
    using asn_prefixes_agree_with_lookup [OF example_loaded ne, of 15169] by force
qed

end
