(* ===== verification/Flow_Enrich.thy ===== *)
theory Flow_Enrich
  imports Ip_Db
begin

section \<open>What the traffic view knows about an address\<close>

text \<open>
  \<open>internal/manager/client_traffic_enrich.go\<close> and the reserved ranges of
  \<open>client_traffic_flow.go\<close>: host names learned from packets, memberships in the sets of the
  routing table, and the record of the address database. The output of \<open>nft -j\<close> is a
  parameter: its sets, and the elements of each in the shapes that the decoder tells apart.
  The mutexes and the background refresh are left out.
\<close>

subsection \<open>Host names\<close>

type_synonym host_names = "string \<rightharpoonup> string list"

definition hosts_of :: "host_names \<Rightarrow> string \<Rightarrow> string list" where
  "hosts_of h ip = (case h ip of None \<Rightarrow> [] | Some hs \<Rightarrow> hs)"

definition add_host :: "host_names \<Rightarrow> string \<Rightarrow> string \<Rightarrow> host_names" where
  "add_host h ip host =
     (if ip = [] \<or> host = [] then h
      else if host \<in> set (hosts_of h ip) then h
      else (let hs = hosts_of h ip @ [host]
            in h(ip \<mapsto> (if length hs > 5 then drop (length hs - 5) hs else hs))))"

definition get_host :: "host_names \<Rightarrow> string \<Rightarrow> string" where
  "get_host h ip = (if hosts_of h ip = [] then [] else last (hosts_of h ip))"

subsection \<open>Set memberships\<close>

text \<open>\<open>netip.PrefixFrom\<close> drops the zone; bits out of range make the invalid prefix, \<open>None\<close>.\<close>

definition prefix_from :: "ip_addr \<Rightarrow> int \<Rightarrow> prefix option" where
  "prefix_from a n = (if n < 0 \<or> int (bit_len a) < n then None else Some (a, nat n))"

record nftset_view =
  nv_ips :: "string \<rightharpoonup> string list"
  nv_cidrs :: "(prefix option \<times> string) list"

text \<open>A set element of \<open>nft -j\<close>: a text, or an object with a \<open>prefix\<close> or an \<open>elem\<close> field.\<close>

datatype raw_elem = Raw_text string | Raw_object "(string \<times> int) option" "string option" | Raw_other

definition parse_nft_prefix :: "raw_elem \<Rightarrow> prefix option option" where
  "parse_nft_prefix raw =
     (case raw of
        Raw_object (Some (addr, len)) v \<Rightarrow>
          if addr = [] then None
          else (case parse_addr_zone addr of
              None \<Rightarrow> None
            | Some (a, zone) \<Rightarrow> Some (prefix_from a len))
      | _ \<Rightarrow> None)"

definition parse_prefix_or_range :: "string \<Rightarrow> prefix option option" where
  "parse_prefix_or_range s =
     (if str_contains s ''/'' then map_option Some (parse_prefix s)
      else (case str_index s ''-'' of
          None \<Rightarrow> None
        | Some i \<Rightarrow>
            if i = 0 then None
            else (case (parse_addr_zone (take i s), parse_addr_zone (drop (i + 1) s)) of
                (Some a, Some b) \<Rightarrow> if a = b then Some (prefix_from (fst a) 32) else None
              | _ \<Rightarrow> None)))"

definition parse_nft_elem :: "raw_elem \<Rightarrow> string" where
  "parse_nft_elem raw =
     (case raw of
        Raw_text s \<Rightarrow> s
      | Raw_object p (Some v) \<Rightarrow> v
      | _ \<Rightarrow> [])"

definition normalise_set_name :: "string \<Rightarrow> string" where
  "normalise_set_name s =
     (let t = (if s \<noteq> [] \<and> (last s = CHR ''4'' \<or> last s = CHR ''6'') then butlast s else s)
      in if t \<in> {''bypass'', ''proxy_server_bypass'', ''dns_bypass'', ''dns_proxy_server_bypass''}
         then [] else t)"

definition add_element :: "string \<Rightarrow> raw_elem \<Rightarrow> nftset_view \<Rightarrow> nftset_view" where
  "add_element name raw v =
     (case parse_nft_prefix raw of
        Some p \<Rightarrow> v\<lparr>nv_cidrs := nv_cidrs v @ [(p, name)]\<rparr>
      | None \<Rightarrow>
          (let ip = parse_nft_elem raw
           in if ip = [] then v
              else if CHR ''/'' \<in> set ip \<or> CHR ''-'' \<in> set ip then
                (case parse_prefix_or_range ip of
                   Some p \<Rightarrow> v\<lparr>nv_cidrs := nv_cidrs v @ [(p, name)]\<rparr>
                 | None \<Rightarrow> v)
              else (let names = (case nv_ips v ip of None \<Rightarrow> [] | Some ns \<Rightarrow> ns)
                    in if name \<in> set names then v
                       else v\<lparr>nv_ips := (nv_ips v)(ip \<mapsto> names @ [name])\<rparr>)))"

text \<open>
  \<open>refresh\<close>: \<open>list_table\<close> holds the names of the sets, \<open>None\<close> when the command or the
  decoding fails; \<open>list_set\<close> the items of one set, each with its elements or without a set.
\<close>

definition add_set ::
  "(string \<Rightarrow> raw_elem list option list option) \<Rightarrow> string \<Rightarrow> nftset_view \<Rightarrow> nftset_view" where
  "add_set list_set raw_name v =
     (let name = normalise_set_name raw_name
      in if name = [] then v
         else (case list_set raw_name of
             None \<Rightarrow> v
           | Some items \<Rightarrow>
               foldl (\<lambda>v item. case item of
                   None \<Rightarrow> v
                 | Some elems \<Rightarrow> foldl (\<lambda>v raw. add_element name raw v) v elems) v items))"

definition refresh_sets ::
  "string option list option \<Rightarrow> (string \<Rightarrow> raw_elem list option list option) \<Rightarrow> nftset_view
    \<Rightarrow> nftset_view" where
  "refresh_sets list_table list_set v =
     (case list_table of
        None \<Rightarrow> v
      | Some items \<Rightarrow>
          foldl (\<lambda>v item. case item of None \<Rightarrow> v | Some name \<Rightarrow> add_set list_set name v)
            \<lparr>nv_ips = (\<lambda>_. None), nv_cidrs = []\<rparr> items)"

text \<open>\<open>Prefix.Contains\<close> refuses an address with a zone and never holds of the invalid prefix.\<close>

definition in_prefix :: "prefix option \<Rightarrow> ip_addr \<times> string \<Rightarrow> bool" where
  "in_prefix p a \<longleftrightarrow> (case p of None \<Rightarrow> False | Some q \<Rightarrow> snd a = [] \<and> prefix_contains q (fst a))"

definition set_names :: "nftset_view \<Rightarrow> string \<Rightarrow> string list" where
  "set_names v ip =
     (let out = (case nv_ips v ip of None \<Rightarrow> [] | Some ns \<Rightarrow> ns)
      in case parse_addr_zone ip of
           None \<Rightarrow> out
         | Some a \<Rightarrow>
             foldl (\<lambda>out (p, name). if in_prefix p a \<and> name \<notin> set out then out @ [name] else out)
               out (nv_cidrs v))"

subsection \<open>Enrichment of a rejection\<close>

record reject_info =
  rj_host :: string
  rj_sets :: "string list"
  rj_asn :: "32 word"
  rj_org :: string
  rj_country :: string

record enrichers =
  en_hosts :: host_names
  en_sets :: "nftset_view option"
  en_asndb :: "ip_db option"

text \<open>An address database that is not there or not loaded yet is \<open>None\<close>.\<close>

definition as_of :: "ip_db option \<Rightarrow> string \<Rightarrow> as_lookup" where
  "as_of db ip =
     (case parse_addr_zone ip of None \<Rightarrow> zero_lookup | Some a \<Rightarrow> ip_lookup db (Some (fst a)))"

definition enrich :: "enrichers \<Rightarrow> string \<Rightarrow> reject_info" where
  "enrich en ip =
     (if ip = [] then \<lparr>rj_host = [], rj_sets = [], rj_asn = 0, rj_org = [], rj_country = []\<rparr>
      else \<lparr>rj_host = get_host (en_hosts en) ip,
            rj_sets = (case en_sets en of None \<Rightarrow> [] | Some v \<Rightarrow> set_names v ip),
            rj_asn = lk_asn (as_of (en_asndb en) ip),
            rj_org = lk_org (as_of (en_asndb en) ip),
            rj_country = lk_country (as_of (en_asndb en) ip)\<rparr>)"

subsection \<open>Reserved ranges\<close>

text \<open>
  \<open>isBogonIPv4\<close> on the octets of the address; the first disjuncts are \<open>IsLoopback\<close>,
  \<open>IsMulticast\<close>, \<open>IsLinkLocalUnicast\<close>, \<open>IsLinkLocalMulticast\<close>, \<open>IsUnspecified\<close> and
  \<open>IsPrivate\<close> of \<open>net.IP\<close>; \<open>IsInterfaceLocalMulticast\<close> holds of no IPv4 address.
\<close>

definition octet_at :: "nat \<Rightarrow> 32 word \<Rightarrow> nat" where
  "octet_at i w = unat w div 2 ^ (24 - 8 * i) mod 256"

definition reserved_v4 :: "32 word \<Rightarrow> bool" where
  "reserved_v4 w \<longleftrightarrow>
     (let a = octet_at 0 w; b = octet_at 1 w; c = octet_at 2 w
      in a = 127
       \<or> a div 16 = 14
       \<or> (a = 169 \<and> b = 254)
       \<or> (a = 224 \<and> b = 0 \<and> c = 0)
       \<or> w = 0
       \<or> a = 10 \<or> (a = 172 \<and> b div 16 = 1) \<or> (a = 192 \<and> b = 168)
       \<or> (a = 100 \<and> 64 \<le> b \<and> b \<le> 127)
       \<or> (a = 192 \<and> b = 0 \<and> c = 0)
       \<or> (a = 192 \<and> b = 0 \<and> c = 2)
       \<or> (a = 198 \<and> (b = 18 \<or> b = 19))
       \<or> (a = 198 \<and> b = 51 \<and> c = 100)
       \<or> (a = 203 \<and> b = 0 \<and> c = 113)
       \<or> 240 \<le> a)"

definition is_bogon_ipv4 :: "string \<Rightarrow> bool" where
  "is_bogon_ipv4 s = (case parse_ipv4 s of None \<Rightarrow> False | Some w \<Rightarrow> reserved_v4 w)"

end
