(* ===== verification/Client_Flows.thy ===== *)
theory Client_Flows
  imports Flow_Enrich "HOL-Library.AList"
begin

section \<open>Connection tracking\<close>

text \<open>
  \<open>internal/manager/client_traffic_flow.go\<close>: parsing of \<open>/proc/net/nf_conntrack\<close>, the
  classification of a flow, the count of ticks without progress, and the sorted snapshot. The
  file is an argument. Go iterates over the map of entries in an unspecified order, so the
  snapshot takes a function that orders them.
\<close>

record ct_entry =
  ct_proto :: string
  ct_src :: string
  ct_dst :: string
  ct_sport :: int
  ct_dport :: int
  ct_state :: string
  ct_unreplied :: bool
  ct_assured :: bool
  ct_offload :: bool
  ct_orig_packets :: int
  ct_orig_bytes :: int
  ct_reply_packets :: int
  ct_reply_bytes :: int
  ct_ttl :: int
  ct_frozen :: int

record flow_summary =
  fs_proto :: string
  fs_dest :: string
  fs_dport :: int
  fs_sport :: int
  fs_state :: string
  fs_unreplied :: bool
  fs_assured :: bool
  fs_offload :: bool
  fs_lopsided :: bool
  fs_stalled :: bool
  fs_frozen :: bool
  fs_orig_packets :: int
  fs_orig_bytes :: int
  fs_reply_packets :: int
  fs_reply_bytes :: int
  fs_host :: string
  fs_ttl :: int
  fs_sets :: "string list"
  fs_bogon :: bool
  fs_asn :: "32 word"
  fs_org :: string
  fs_country :: string

definition ct_key :: "ct_entry \<Rightarrow> string" where
  "ct_key e = ct_proto e @ ''|'' @ ct_src e @ '':'' @ itoa (ct_sport e) @ ''->'' @ ct_dst e
     @ '':'' @ itoa (ct_dport e)"

subsection \<open>Parsing\<close>

text \<open>
  The value of \<open>strconv.Atoi\<close> and \<open>strconv.ParseInt\<close> when the error is dropped: 0 for a text
  that is not a number, the nearest bound for a number that does not fit.
\<close>

definition atoi_value :: "string \<Rightarrow> int" where
  "atoi_value s =
     (case parse_int64 s of
        Some v \<Rightarrow> v
      | None \<Rightarrow>
          (let neg = has_prefix s ''-'';
               body = (if neg \<or> has_prefix s ''+'' then tl s else s)
           in if body = [] \<or> digits_val 0 body = None then 0
              else if neg then - (2 ^ 63) else 2 ^ 63 - 1))"

definition token_value :: "string \<Rightarrow> string \<Rightarrow> string option" where
  "token_value name f = (if has_prefix f name then Some (trim_prefix f name) else None)"

text \<open>One field of the line; the flag says that the original tuple is complete.\<close>

definition ct_token :: "ct_entry \<times> bool \<Rightarrow> string \<Rightarrow> ct_entry \<times> bool" where
  "ct_token = (\<lambda>(e, got) f.
     if f = ''[UNREPLIED]'' then (e\<lparr>ct_unreplied := True\<rparr>, got)
     else if f = ''[ASSURED]'' then (e\<lparr>ct_assured := True\<rparr>, got)
     else if f = ''[OFFLOAD]'' \<or> f = ''[HW_OFFLOAD]'' then (e\<lparr>ct_offload := True\<rparr>, got)
     else (case token_value ''src='' f of Some v \<Rightarrow> (if got then e else e\<lparr>ct_src := v\<rparr>, got) | None \<Rightarrow>
       (case token_value ''dst='' f of Some v \<Rightarrow> (if got then e else e\<lparr>ct_dst := v\<rparr>, got) | None \<Rightarrow>
       (case token_value ''sport='' f of
          Some v \<Rightarrow> (if got then e else e\<lparr>ct_sport := atoi_value v\<rparr>, got) | None \<Rightarrow>
       (case token_value ''dport='' f of
          Some v \<Rightarrow> (if got then e else e\<lparr>ct_dport := atoi_value v\<rparr>, got) | None \<Rightarrow>
       (case token_value ''packets='' f of
          Some v \<Rightarrow> (if got then e\<lparr>ct_reply_packets := atoi_value v\<rparr>
            else e\<lparr>ct_orig_packets := atoi_value v\<rparr>, got) | None \<Rightarrow>
       (case token_value ''bytes='' f of
          Some v \<Rightarrow> (if got then (e\<lparr>ct_reply_bytes := atoi_value v\<rparr>, got)
            else (e\<lparr>ct_orig_bytes := atoi_value v\<rparr>, True)) | None \<Rightarrow> (e, got))))))))"

definition blank_entry :: "string \<Rightarrow> int \<Rightarrow> ct_entry" where
  "blank_entry proto ttl =
     \<lparr>ct_proto = proto, ct_src = [], ct_dst = [], ct_sport = 0, ct_dport = 0, ct_state = [],
      ct_unreplied = False, ct_assured = False, ct_offload = False, ct_orig_packets = 0,
      ct_orig_bytes = 0, ct_reply_packets = 0, ct_reply_bytes = 0, ct_ttl = ttl, ct_frozen = 0\<rparr>"

definition parse_conntrack_line :: "string \<Rightarrow> ct_entry option" where
  "parse_conntrack_line line =
     (let fs = str_fields line
      in if length fs < 7 \<or> fs ! 0 \<noteq> ''ipv4'' then None
         else if fs ! 2 \<noteq> ''tcp'' \<and> fs ! 2 \<noteq> ''udp'' then None
         else (let e = blank_entry (fs ! 2) (atoi_value (fs ! 4));
                   start = (if fs ! 2 = ''tcp'' then (e\<lparr>ct_state := fs ! 5\<rparr>, 6) else (e, 5 :: nat));
                   e' = fst (foldl ct_token (fst start, False) (drop (snd start) fs))
               in if ct_src e' = [] \<or> ct_dst e' = [] then None else Some e'))"

subsection \<open>Classification\<close>

definition stalled :: "ct_entry \<Rightarrow> bool" where
  "stalled e \<longleftrightarrow>
     (if ct_proto e = ''tcp'' then
        ct_assured e \<and> ct_reply_packets e \<le> 1 \<and> ct_orig_packets e \<ge> 4
        \<and> ct_orig_bytes e > wrap64 (ct_reply_bytes e * 4)
      else if ct_proto e = ''udp'' then
        ct_dport e \<noteq> 53 \<and> ct_dport e \<noteq> 123
        \<and> ct_reply_packets e \<le> 1 \<and> ct_orig_packets e \<ge> 5
        \<and> ct_orig_bytes e > wrap64 (ct_reply_bytes e * 4)
      else False)"

definition flow_summary_for :: "ct_entry \<Rightarrow> flow_summary" where
  "flow_summary_for e =
     \<lparr>fs_proto = ct_proto e, fs_dest = ct_dst e, fs_dport = ct_dport e, fs_sport = ct_sport e,
      fs_state = ct_state e, fs_unreplied = ct_unreplied e, fs_assured = ct_assured e,
      fs_offload = ct_offload e,
      fs_lopsided = (ct_assured e \<and> ct_reply_packets e < 5 \<and> ct_orig_packets e > 20),
      fs_stalled = stalled e, fs_frozen = False,
      fs_orig_packets = ct_orig_packets e, fs_orig_bytes = ct_orig_bytes e,
      fs_reply_packets = ct_reply_packets e, fs_reply_bytes = ct_reply_bytes e,
      fs_host = [], fs_ttl = ct_ttl e, fs_sets = [], fs_bogon = is_bogon_ipv4 (ct_dst e),
      fs_asn = 0, fs_org = [], fs_country = []\<rparr>"

definition frozen_step :: "ct_entry option \<Rightarrow> ct_entry \<Rightarrow> bool" where
  "frozen_step prev cur =
     (case prev of
        None \<Rightarrow> False
      | Some p \<Rightarrow>
          ct_proto cur = ''tcp'' \<and> ct_state cur = ''ESTABLISHED'' \<and> ct_assured cur
          \<and> \<not> ct_offload cur
          \<and> ct_reply_bytes cur > 16384 \<and> ct_reply_bytes cur > wrap64 (ct_orig_bytes cur * 2)
          \<and> ct_reply_bytes cur = ct_reply_bytes p \<and> ct_reply_packets cur = ct_reply_packets p)"

subsection \<open>Sorting\<close>

definition less_flow :: "flow_summary \<Rightarrow> flow_summary \<Rightarrow> bool" where
  "less_flow a b =
     (if fs_unreplied a \<noteq> fs_unreplied b then fs_unreplied a
      else if fs_stalled a \<noteq> fs_stalled b then fs_stalled a
      else if fs_frozen a \<noteq> fs_frozen b then fs_frozen a
      else if fs_lopsided a \<noteq> fs_lopsided b then fs_lopsided a
      else fs_orig_packets a > fs_orig_packets b)"

fun sift_flow :: "flow_summary list \<Rightarrow> nat \<Rightarrow> flow_summary list" where
  "sift_flow fs 0 = fs"
| "sift_flow fs (Suc j) =
     (if less_flow (fs ! Suc j) (fs ! j)
      then sift_flow (fs[Suc j := fs ! j, j := fs ! Suc j]) j else fs)"

definition sort_flows :: "flow_summary list \<Rightarrow> flow_summary list" where
  "sort_flows fs = foldl sift_flow fs [1..<length fs]"

subsection \<open>The snapshot\<close>

type_synonym ct_table = "(string \<times> ct_entry) list"

definition read_conntrack :: "string \<Rightarrow> string list \<Rightarrow> ct_table \<times> nat" where
  "read_conntrack client ls =
     foldl (\<lambda>(curr, skipped) line.
         if line = [] then (curr, skipped)
         else if has_prefix line ''ipv6 '' then (curr, skipped + 1)
         else (case parse_conntrack_line line of
             None \<Rightarrow> (curr, skipped)
           | Some e \<Rightarrow>
               if ct_src e \<noteq> client then (curr, skipped)
               else (AList.update (ct_key e) e curr, skipped)))
       ([], 0) ls"

definition carry_frozen :: "ct_entry option \<Rightarrow> ct_entry \<Rightarrow> ct_entry" where
  "carry_frozen prev e =
     (case prev of
        None \<Rightarrow> e
      | Some p \<Rightarrow> if frozen_step prev e then e\<lparr>ct_frozen := ct_frozen p + 1\<rparr> else e)"

definition enrich_flow :: "enrichers \<Rightarrow> ct_entry \<Rightarrow> flow_summary \<Rightarrow> flow_summary" where
  "enrich_flow en e fs =
     (let lk = (if fs_bogon fs then zero_lookup else as_of (en_asndb en) (ct_dst e))
      in fs\<lparr>fs_host := get_host (en_hosts en) (ct_dst e),
            fs_sets := (case en_sets en of None \<Rightarrow> [] | Some v \<Rightarrow> set_names v (ct_dst e)),
            fs_asn := lk_asn lk, fs_org := lk_org lk, fs_country := lk_country lk\<rparr>)"

definition flow_of :: "enrichers \<Rightarrow> bool \<Rightarrow> ct_entry option \<Rightarrow> ct_entry \<Rightarrow> flow_summary option" where
  "flow_of en verbose prev e =
     (let fs = flow_summary_for e;
          fs' = (if ct_frozen e \<ge> 5 then fs\<lparr>fs_frozen := True\<rparr> else fs);
          shown = (verbose
            \<or> (case prev of None \<Rightarrow> True | Some p \<Rightarrow> ct_orig_packets e > ct_orig_packets p)
            \<or> ct_unreplied e \<or> fs_lopsided fs' \<or> fs_stalled fs' \<or> fs_frozen fs')
      in if shown then Some (enrich_flow en e fs') else None)"

record snapshot =
  sn_flows :: "flow_summary list"
  sn_total :: nat
  sn_skipped6 :: nat

text \<open>
  A tick: the new table and the snapshot, or the old table and no snapshot (a warning) when
  the file cannot be read. The frozen counters live in the entries of the new table.
\<close>

definition emit_conntrack ::
  "(ct_table \<Rightarrow> ct_table) \<Rightarrow> string \<Rightarrow> enrichers \<Rightarrow> bool \<Rightarrow> bytes option \<Rightarrow> ct_table
    \<Rightarrow> ct_table \<times> snapshot option" where
  "emit_conntrack order client en verbose file prev =
     (case file of
        None \<Rightarrow> (prev, None)
      | Some data \<Rightarrow>
          (let (read, skipped) = read_conntrack client (split_on newline data);
               curr = map (\<lambda>(k, e). (k, carry_frozen (map_of prev k) e)) read;
               out = List.map_filter (\<lambda>(k, e). flow_of en verbose (map_of prev k) e) (order curr)
           in (curr, Some \<lparr>sn_flows = sort_flows out, sn_total = length curr,
                 sn_skipped6 = skipped\<rparr>)))"

end
