(* ===== verification/Flow_Facts.thy ===== *)
theory Flow_Facts
  imports Client_Flows Uci_Text
begin

section \<open>What the traffic view reports of a flow\<close>

text \<open>
  The reserved ranges as a list of prefixes, the insertion sort of the flows as the stable sort
  by their rank, and the frozen counter as a count of ticks over the readings of the
  connection table.
\<close>

subsection \<open>Reserved ranges\<close>

definition reserved_ranges :: "prefix list" where
  "reserved_ranges =
     [(V4 0, 32), (V4 0x0A000000, 8), (V4 0x64400000, 10), (V4 0x7F000000, 8), (V4 0xA9FE0000, 16),
      (V4 0xAC100000, 12), (V4 0xC0000000, 24), (V4 0xC0000200, 24), (V4 0xC0A80000, 16),
      (V4 0xC6120000, 15), (V4 0xC6336400, 24), (V4 0xCB007100, 24), (V4 0xE0000000, 4),
      (V4 0xF0000000, 4)]"

lemma octets_sum: "unat w = ((octet_at 0 w * 256 + octet_at 1 w) * 256 + octet_at 2 w) * 256 + octet_at 3 w"
proof -
  let ?n = "unat w"
  have "?n < 2 ^ 32" by (rule unat_bound32)
  then have "?n div 2 ^ 24 mod 256 = ?n div 2 ^ 24" by simp
  moreover have "?n = ?n div 256 * 256 + ?n mod 256" by simp
  moreover have "?n div 256 = ?n div 2 ^ 16 * 256 + ?n div 256 mod 256"
    using div_mult_mod_eq [of "?n div 256" 256] by (simp add: div_mult2_eq [symmetric])
  moreover have "?n div 2 ^ 16 = ?n div 2 ^ 24 * 256 + ?n div 2 ^ 16 mod 256"
    using div_mult_mod_eq [of "?n div 2 ^ 16" 256] by (simp add: div_mult2_eq [symmetric])
  ultimately show ?thesis by (simp add: octet_at_def)
qed

lemma octet_less: "octet_at i w < 256"
  by (simp add: octet_at_def)

lemma reserved_proper: "p \<in> set reserved_ranges \<Longrightarrow> proper_prefix 32 p"
  by (auto simp: reserved_ranges_def proper_prefix_def)

lemma block_quotient:
  fixes q r m :: nat
  assumes "r < m"
  shows "k * m \<le> q * m + r \<and> q * m + r < k * m + j * m \<longleftrightarrow> k \<le> q \<and> q < k + j"
proof -
  have "k * m \<le> q * m + r \<longleftrightarrow> k \<le> q"
    using div_le_mono [of "k * m" "q * m + r" m] assms by (auto intro: trans_le_add1)
  moreover have "q * m + r < k * m + j * m \<longleftrightarrow> q < k + j"
    using assms less_mult_imp_div_less [of "q * m + r" "k + j" m] mult_le_mono1 [of "Suc q" "k + j" m]
    by (auto simp: add_mult_distrib)
  ultimately show ?thesis by simp
qed

lemma pair_range:
  fixes x y X Y j :: nat
  assumes "y < 256" and "Y + j \<le> 256"
  shows "X * 256 + Y \<le> x * 256 + y \<and> x * 256 + y < X * 256 + Y + j \<longleftrightarrow> x = X \<and> Y \<le> y \<and> y < Y + j"
  using assms by (cases x X rule: linorder_cases) auto

text \<open>Membership in a range that fixes one, two or three octets.\<close>

lemma block_one:
  assumes "n = ((a * 256 + b) * 256 + c) * 256 + d" "b < 256" "c < 256" "d < (256 :: nat)"
    and "lo = A * 0x1000000" "hi = A * 0x1000000 + j * 0x1000000"
  shows "n \<in> {lo ..< hi} \<longleftrightarrow> A \<le> a \<and> a < A + j"
proof -
  have "n = a * 0x1000000 + ((b * 256 + c) * 256 + d)" "(b * 256 + c) * 256 + d < 0x1000000"
    using assms(1-4) by simp_all
  then show ?thesis using block_quotient [of "(b * 256 + c) * 256 + d" "0x1000000" A a j] assms(5,6) by simp
qed

lemma block_two:
  assumes "n = ((a * 256 + b) * 256 + c) * 256 + d" "b < 256" "c < 256" "d < (256 :: nat)"
    and "B + j \<le> 256" "lo = (A * 256 + B) * 0x10000" "hi = (A * 256 + B) * 0x10000 + j * 0x10000"
  shows "n \<in> {lo ..< hi} \<longleftrightarrow> a = A \<and> B \<le> b \<and> b < B + j"
proof -
  have "n = (a * 256 + b) * 0x10000 + (c * 256 + d)" "c * 256 + d < 0x10000"
    using assms(1-4) by simp_all
  then have "n \<in> {lo ..< hi} \<longleftrightarrow> A * 256 + B \<le> a * 256 + b \<and> a * 256 + b < A * 256 + B + j"
    using block_quotient [of "c * 256 + d" "0x10000" "A * 256 + B" "a * 256 + b" j]
    by (simp only: assms(6,7) atLeastLessThan_iff)
  then show ?thesis using pair_range [OF assms(2,5)] by simp
qed

lemma block_three:
  assumes "n = ((a * 256 + b) * 256 + c) * 256 + d" "b < 256" "c < 256" "d < (256 :: nat)"
    and "B < 256" "C < 256" "lo = ((A * 256 + B) * 256 + C) * 0x100" "hi = ((A * 256 + B) * 256 + C) * 0x100 + 0x100"
  shows "n \<in> {lo ..< hi} \<longleftrightarrow> a = A \<and> b = B \<and> c = C"
proof -
  have "n \<in> {lo ..< hi} \<longleftrightarrow>
      (A * 256 + B) * 256 + C \<le> (a * 256 + b) * 256 + c \<and> (a * 256 + b) * 256 + c < (A * 256 + B) * 256 + C + 1"
    using block_quotient [of d "0x100" "(A * 256 + B) * 256 + C" "(a * 256 + b) * 256 + c" 1] assms(4)
    by (simp only: assms(1,7,8) atLeastLessThan_iff mult_1)
  also have "\<dots> \<longleftrightarrow> a * 256 + b = A * 256 + B \<and> c = C"
    using pair_range [OF assms(3), of C 1 "A * 256 + B" "a * 256 + b"] assms(6) by auto
  also have "\<dots> \<longleftrightarrow> a = A \<and> b = B \<and> c = C"
    using pair_range [OF assms(2), of B 1 A a] assms(5) by auto
  finally show ?thesis .
qed

lemma reserved_v4_prefixes:
  "reserved_v4 w \<longleftrightarrow> (\<exists>p \<in> set reserved_ranges. prefix_contains p (V4 w))"
proof -
  obtain a b c d where abcd: "octet_at 0 w = a" "octet_at 1 w = b" "octet_at 2 w = c" "octet_at 3 w = d" by blast
  have n: "unat w = ((a * 256 + b) * 256 + c) * 256 + d" "a < 256" "b < 256" "c < 256" "d < 256"
    using octets_sum [of w] octet_less [of 0 w] octet_less [of 1 w] octet_less [of 2 w] octet_less [of 3 w]
    by (simp_all only: abcd)
  note one = block_one [OF n(1,3,4,5)] and two = block_two [OF n(1,3,4,5)] and three = block_three [OF n(1,3,4,5)]
  have "(\<exists>p \<in> set reserved_ranges. prefix_contains p (V4 w)) \<longleftrightarrow>
      (\<exists>p \<in> set reserved_ranges. unat w \<in> prefix_range p)"
    using prefix_contains_range(1) reserved_proper by blast
  also have "\<dots> \<longleftrightarrow> unat w \<in> {0 ..< 1} \<or> unat w \<in> {0x0A000000 ..< 0x0B000000} \<or> unat w \<in> {0x64400000 ..< 0x64800000}
      \<or> unat w \<in> {0x7F000000 ..< 0x80000000} \<or> unat w \<in> {0xA9FE0000 ..< 0xA9FF0000}
      \<or> unat w \<in> {0xAC100000 ..< 0xAC200000} \<or> unat w \<in> {0xC0000000 ..< 0xC0000100}
      \<or> unat w \<in> {0xC0000200 ..< 0xC0000300} \<or> unat w \<in> {0xC0A80000 ..< 0xC0A90000}
      \<or> unat w \<in> {0xC6120000 ..< 0xC6140000} \<or> unat w \<in> {0xC6336400 ..< 0xC6336500}
      \<or> unat w \<in> {0xCB007100 ..< 0xCB007200} \<or> unat w \<in> {0xE0000000 ..< 0xF0000000}
      \<or> unat w \<in> {0xF0000000 ..< 0x100000000}"
    by (simp add: reserved_ranges_def prefix_range_def)
  also have "\<dots> \<longleftrightarrow> w = 0 \<or> (10 \<le> a \<and> a < 11) \<or> (a = 100 \<and> 64 \<le> b \<and> b < 128)
      \<or> (127 \<le> a \<and> a < 128) \<or> (a = 169 \<and> 254 \<le> b \<and> b < 255)
      \<or> (a = 172 \<and> 16 \<le> b \<and> b < 32) \<or> (a = 192 \<and> b = 0 \<and> c = 0)
      \<or> (a = 192 \<and> b = 0 \<and> c = 2) \<or> (a = 192 \<and> 168 \<le> b \<and> b < 169)
      \<or> (a = 198 \<and> 18 \<le> b \<and> b < 20) \<or> (a = 198 \<and> b = 51 \<and> c = 100)
      \<or> (a = 203 \<and> b = 0 \<and> c = 113) \<or> (224 \<le> a \<and> a < 240) \<or> (240 \<le> a \<and> a < 256)"
  proof (intro arg_cong2 [where f = "(\<or>)"])
    show "unat w \<in> {0 ..< 1} \<longleftrightarrow> w = 0" by (simp add: unat_eq_zero)
    show "unat w \<in> {0x0A000000 ..< 0x0B000000} \<longleftrightarrow> 10 \<le> a \<and> a < 11" by (subst one [of _ 10 _ 1]) simp_all
    show "unat w \<in> {0x64400000 ..< 0x64800000} \<longleftrightarrow> a = 100 \<and> 64 \<le> b \<and> b < 128" by (subst two [of 64 64 _ 100]) simp_all
    show "unat w \<in> {0x7F000000 ..< 0x80000000} \<longleftrightarrow> 127 \<le> a \<and> a < 128" by (subst one [of _ 127 _ 1]) simp_all
    show "unat w \<in> {0xA9FE0000 ..< 0xA9FF0000} \<longleftrightarrow> a = 169 \<and> 254 \<le> b \<and> b < 255" by (subst two [of 254 1 _ 169]) simp_all
    show "unat w \<in> {0xAC100000 ..< 0xAC200000} \<longleftrightarrow> a = 172 \<and> 16 \<le> b \<and> b < 32" by (subst two [of 16 16 _ 172]) simp_all
    show "unat w \<in> {0xC0000000 ..< 0xC0000100} \<longleftrightarrow> a = 192 \<and> b = 0 \<and> c = 0" by (subst three [of 0 0 _ 192]) simp_all
    show "unat w \<in> {0xC0000200 ..< 0xC0000300} \<longleftrightarrow> a = 192 \<and> b = 0 \<and> c = 2" by (subst three [of 0 2 _ 192]) simp_all
    show "unat w \<in> {0xC0A80000 ..< 0xC0A90000} \<longleftrightarrow> a = 192 \<and> 168 \<le> b \<and> b < 169" by (subst two [of 168 1 _ 192]) simp_all
    show "unat w \<in> {0xC6120000 ..< 0xC6140000} \<longleftrightarrow> a = 198 \<and> 18 \<le> b \<and> b < 20" by (subst two [of 18 2 _ 198]) simp_all
    show "unat w \<in> {0xC6336400 ..< 0xC6336500} \<longleftrightarrow> a = 198 \<and> b = 51 \<and> c = 100" by (subst three [of 51 100 _ 198]) simp_all
    show "unat w \<in> {0xCB007100 ..< 0xCB007200} \<longleftrightarrow> a = 203 \<and> b = 0 \<and> c = 113" by (subst three [of 0 113 _ 203]) simp_all
    show "unat w \<in> {0xE0000000 ..< 0xF0000000} \<longleftrightarrow> 224 \<le> a \<and> a < 240" by (subst one [of _ 224 _ 16]) simp_all
    show "unat w \<in> {0xF0000000 ..< 0x100000000} \<longleftrightarrow> 240 \<le> a \<and> a < 256" by (subst one [of _ 240 _ 16]) simp_all
  qed
  also have "\<dots> \<longleftrightarrow> reserved_v4 w"
  proof -
    have "x div 16 = q \<longleftrightarrow> q * 16 \<le> x \<and> x < (q + 1) * 16" for x q :: nat
    proof -
      have "x div 16 = q \<longleftrightarrow> q \<le> x div 16 \<and> x div 16 < q + 1" by auto
      then show ?thesis by (simp only: less_eq_div_iff_mult_less_eq div_less_iff_less_mult zero_less_numeral)
    qed
    from this [of b 1] this [of a 14]
    have sixteen: "b div 16 = 1 \<longleftrightarrow> 16 \<le> b \<and> b < 32" "a div 16 = 14 \<longleftrightarrow> 224 \<le> a \<and> a < 240"
      by simp_all
    have eqs: "10 \<le> a \<and> a < 11 \<longleftrightarrow> a = 10" "127 \<le> a \<and> a < 128 \<longleftrightarrow> a = 127" "254 \<le> b \<and> b < 255 \<longleftrightarrow> b = 254"
      "168 \<le> b \<and> b < 169 \<longleftrightarrow> b = 168" "18 \<le> b \<and> b < 20 \<longleftrightarrow> b = 18 \<or> b = 19"
      "64 \<le> b \<and> b < 128 \<longleftrightarrow> 64 \<le> b \<and> b \<le> 127" "240 \<le> a \<and> a < 256 \<longleftrightarrow> 240 \<le> a"
      using n(2) by auto
    show ?thesis unfolding reserved_v4_def abcd Let_def eqs sixteen
      by (rule iffI; elim disjE; simp)
  qed
  finally show ?thesis by simp
qed

text \<open>
  An address is left out as reserved exactly when it is an IPv4 address inside one of the
  listed ranges.
\<close>

theorem is_bogon_ranges:
  "is_bogon_ipv4 s \<longleftrightarrow>
     (\<exists>w. parse_ipv4 s = Some w \<and> (\<exists>p \<in> set reserved_ranges. prefix_contains p (V4 w)))"
  by (auto simp: is_bogon_ipv4_def reserved_v4_prefixes split: option.split)

subsection \<open>The order of a snapshot\<close>

interpretation flow_order: slice_order less_flow
  by unfold_locales (auto simp: less_flow_def split: if_splits)

lemma insert_by_snoc: "lt x y \<Longrightarrow> insert_by lt x (acc @ [y]) = insert_by lt x acc @ [y]"
  by (induction acc) auto

lemma insert_by_end: "list_all (\<lambda>z. \<not> lt x z) acc \<Longrightarrow> insert_by lt x acc = acc @ [x]"
  by (induction acc) auto

lemma sift_flow_insert:
  "sorted_wrt (\<lambda>x y. \<not> less_flow y x) acc \<Longrightarrow>
     sift_flow (acc @ x # rest) (length acc) = insert_by less_flow x acc @ rest"
proof (induction acc arbitrary: rest rule: rev_induct)
  case (snoc y acc)
  have eq: "sift_flow ((acc @ [y]) @ x # rest) (length (acc @ [y])) =
      (if less_flow x y then sift_flow (acc @ x # y # rest) (length acc) else (acc @ [y]) @ x # rest)"
    by (simp add: nth_append list_update_append)
  show ?case
  proof (cases "less_flow x y")
    case True
    then show ?thesis unfolding eq using snoc by (simp add: insert_by_snoc sorted_wrt_append)
  next
    case False
    have "\<not> less_flow x z" if "z \<in> set acc" for z
      using snoc.prems that flow_order.neg_trans [OF False, of z] by (simp add: sorted_wrt_append)
    then have "insert_by less_flow x (acc @ [y]) = acc @ [y, x]"
      using insert_by_end [of less_flow x "acc @ [y]"] False by (simp add: list_all_iff)
    then show ?thesis unfolding eq using False by simp
  qed
qed simp

lemma sift_upto:
  "k \<le> length fs \<Longrightarrow> 0 < k \<Longrightarrow>
     foldl sift_flow fs [1..<k] = sort_by less_flow (take k fs) @ drop k fs"
proof (induction k)
  case (Suc k)
  show ?case
  proof (cases "k = 0")
    case True
    then show ?thesis using Suc.prems by (cases fs) (simp_all add: sort_by_def)
  next
    case False
    have fs: "drop k fs = fs ! k # drop (Suc k) fs" "take (Suc k) fs = take k fs @ [fs ! k]"
      using Suc.prems by (simp_all add: Cons_nth_drop_Suc take_Suc_conv_app_nth)
    have len: "length (sort_by less_flow (take k fs)) = k" using Suc.prems by simp
    have "foldl sift_flow fs [1..<Suc k] = sift_flow (sort_by less_flow (take k fs) @ fs ! k # drop (Suc k) fs) k"
      using Suc False fs(1) by simp
    also have "\<dots> = insert_by less_flow (fs ! k) (sort_by less_flow (take k fs)) @ drop (Suc k) fs"
      using sift_flow_insert [OF flow_order.sorted, of "take k fs" "fs ! k" "drop (Suc k) fs"] unfolding len .
    also have "\<dots> = sort_by less_flow (take (Suc k) fs) @ drop (Suc k) fs"
      by (simp add: fs(2) sort_by_def)
    finally show ?thesis .
  qed
qed simp

text \<open>
  The insertion sort of the snapshot is the stable sort by rank: it keeps the flows, no
  flow ranks before an earlier one, and flows of the same rank stay in the order they came in.
\<close>

lemma sort_flows_correct:
  "sort_flows fs = sort_by less_flow fs \<and> mset (sort_flows fs) = mset fs
   \<and> sorted_wrt (\<lambda>x y. \<not> less_flow y x) (sort_flows fs)"
proof -
  have "sort_flows fs = sort_by less_flow fs"
    using sift_upto [of "length fs" fs] by (cases fs) (simp_all add: sort_flows_def)
  then show ?thesis by (simp add: flow_order.sorted)
qed

subsection \<open>Frozen flows\<close>

text \<open>The entries of one reading of the connection table, and the table after some readings.\<close>

definition reading :: "string \<Rightarrow> bytes \<Rightarrow> ct_table" where
  "reading client d = fst (read_conntrack client (split_on newline d))"

definition conntrack_run ::
  "(ct_table \<Rightarrow> ct_table) \<Rightarrow> string \<Rightarrow> enrichers \<Rightarrow> bool \<Rightarrow> bytes list \<Rightarrow> ct_table" where
  "conntrack_run order client en verbose ds =
     foldl (\<lambda>t d. fst (emit_conntrack order client en verbose (Some d) t)) [] ds"

text \<open>
  The ticks, up to the latest reading, in which the connection of a key has stood still: the
  number of successive pairs of readings, the latest pair first, without progress.
\<close>

fun still_ticks :: "string \<Rightarrow> string \<Rightarrow> bytes list \<Rightarrow> int" where
  "still_ticks client k (d # d' # ds) =
     (case map_of (reading client d) k of
        None \<Rightarrow> 0
      | Some e \<Rightarrow>
          if frozen_step (map_of (reading client d') k) e then still_ticks client k (d' # ds) + 1 else 0)"
| "still_ticks client k ds = 0"

lemma ct_token_frozen: "ct_frozen (fst (ct_token p f)) = ct_frozen (fst p)"
  by (cases p) (simp add: ct_token_def split: option.split)

lemma parse_line_frozen: "parse_conntrack_line line = Some e \<Longrightarrow> ct_frozen e = 0"
proof -
  have "ct_frozen (fst (foldl ct_token p fs)) = ct_frozen (fst p)" for p fs
    by (induction fs arbitrary: p) (simp_all add: ct_token_frozen)
  then show "parse_conntrack_line line = Some e \<Longrightarrow> ct_frozen e = 0"
    by (auto simp: parse_conntrack_line_def blank_entry_def Let_def split: if_splits)
qed

lemma update_entries: "x \<in> set (AList.update k v al) \<Longrightarrow> x = (k, v) \<or> x \<in> set al"
  by (induction al) (auto split: if_splits)

definition table_ok :: "ct_table \<Rightarrow> bool" where
  "table_ok t \<longleftrightarrow> distinct (map fst t) \<and> (\<forall>x \<in> set t. ct_frozen (snd x) = 0)"

lemma table_ok_update: "table_ok t \<Longrightarrow> ct_frozen e = 0 \<Longrightarrow> table_ok (AList.update k e t)"
  unfolding table_ok_def by (auto simp: distinct_update dest!: update_entries)

definition conntrack_line :: "string \<Rightarrow> ct_table \<times> nat \<Rightarrow> string \<Rightarrow> ct_table \<times> nat" where
  "conntrack_line client p line =
     (if line = [] then p
      else if has_prefix line ''ipv6 '' then (fst p, snd p + 1)
      else (case parse_conntrack_line line of
          None \<Rightarrow> p
        | Some e \<Rightarrow> if ct_src e \<noteq> client then p else (AList.update (ct_key e) e (fst p), snd p)))"

lemma read_conntrack_lines: "read_conntrack client ls = foldl (conntrack_line client) ([], 0) ls"
  unfolding read_conntrack_def
  by (rule arg_cong [where f = "\<lambda>f. foldl f ([], 0) ls"])
    (simp add: fun_eq_iff conntrack_line_def split: option.split)

lemma conntrack_line_ok: "table_ok (fst p) \<Longrightarrow> table_ok (fst (conntrack_line client p line))"
  by (cases "parse_conntrack_line line")
    (simp_all add: conntrack_line_def table_ok_update parse_line_frozen)

lemma read_conntrack_ok: "table_ok (fst (read_conntrack client ls))"
proof -
  have "table_ok (fst p) \<Longrightarrow> table_ok (fst (foldl (conntrack_line client) p ls))" for p
    by (induction ls arbitrary: p) (simp_all add: conntrack_line_ok)
  from this [of "([], 0)"] show ?thesis by (simp add: read_conntrack_lines table_ok_def)
qed

lemma reading_ok:
  "distinct (map fst (reading client d))" "map_of (reading client d) k = Some e \<Longrightarrow> ct_frozen e = 0"
  using read_conntrack_ok [of client "split_on newline d"]
  by (auto simp: reading_def table_ok_def dest: map_of_SomeD)

lemma emit_conntrack_table:
  "fst (emit_conntrack order client en verbose (Some d) prev) =
     map (\<lambda>(k, e). (k, carry_frozen (map_of prev k) e)) (reading client d)"
  by (simp add: emit_conntrack_def reading_def Let_def split: prod.split)

lemma map_of_carry:
  "map_of (map (\<lambda>(k, e). (k, carry_frozen (map_of prev k) e)) t) k
     = map_option (carry_frozen (map_of prev k)) (map_of t k)"
  by (induction t) auto

lemma frozen_step_prev:
  "ct_reply_bytes p = ct_reply_bytes q \<Longrightarrow> ct_reply_packets p = ct_reply_packets q \<Longrightarrow>
     frozen_step (Some p) e = frozen_step (Some q) e"
  by (simp add: frozen_step_def)

lemma conntrack_run_frozen:
  "map_of (conntrack_run order client en verbose (rev ds)) k =
     (case ds of [] \<Rightarrow> None
      | d # _ \<Rightarrow> map_option (\<lambda>e. e\<lparr>ct_frozen := still_ticks client k ds\<rparr>) (map_of (reading client d) k))"
proof (induction ds)
  case (Cons d ds)
  let ?prev = "conntrack_run order client en verbose (rev ds)"
  have run: "map_of (conntrack_run order client en verbose (rev (d # ds))) k
      = map_option (carry_frozen (map_of ?prev k)) (map_of (reading client d) k)"
    by (simp add: conntrack_run_def emit_conntrack_table map_of_carry)
  show ?case
  proof (cases "map_of (reading client d) k")
    case (Some e)
    have e: "e\<lparr>ct_frozen := 0\<rparr> = e" using reading_ok(2) [OF Some] by simp
    show ?thesis
    proof (cases ds)
      case Nil
      then show ?thesis using run Some e by (simp add: conntrack_run_def carry_frozen_def)
    next
      case (Cons d' ds')
      show ?thesis
      proof (cases "map_of (reading client d') k")
        case None
        then show ?thesis using run Some Cons Cons.IH e by (simp add: carry_frozen_def frozen_step_def)
      next
        case (Some p)
        then show ?thesis
          using run \<open>map_of (reading client d) k = Some e\<close> Cons Cons.IH e
            frozen_step_prev [of "p\<lparr>ct_frozen := still_ticks client k ds\<rparr>" p e]
          by (simp add: carry_frozen_def)
      qed
    qed
  next
    case None
    then show ?thesis using run by simp
  qed
qed (simp add: conntrack_run_def)

lemma flow_of_Some:
  "flow_of en verbose prev e = Some fs \<Longrightarrow> fs_dest fs = ct_dst e \<and> fs_dport fs = ct_dport e \<and> fs_sport fs = ct_sport e
     \<and> fs_proto fs = ct_proto e \<and> (fs_frozen fs \<longleftrightarrow> 5 \<le> ct_frozen e)"
  by (auto simp: flow_of_def flow_summary_for_def enrich_flow_def Let_def split: if_splits)

text \<open>Six readings of the same line: the one flow is shown as frozen.\<close>

definition frozen_words :: "string list" where
  "frozen_words =
     [''ipv4'', ''2'', ''tcp'', ''6'', ''100'', ''ESTABLISHED'', ''src=10.0.0.2'', ''dst=8.8.8.8'', ''sport=5'',
      ''dport=443'', ''packets=3'', ''bytes=300'', ''packets=20'', ''bytes=20000'', ''[ASSURED]'']"

definition frozen_file :: bytes where
  "frozen_file = join '' '' frozen_words"

definition frozen_entry :: ct_entry where
  "frozen_entry =
     \<lparr>ct_proto = ''tcp'', ct_src = ''10.0.0.2'', ct_dst = ''8.8.8.8'', ct_sport = 5, ct_dport = 443,
      ct_state = ''ESTABLISHED'', ct_unreplied = False, ct_assured = True, ct_offload = False,
      ct_orig_packets = 3, ct_orig_bytes = 300, ct_reply_packets = 20, ct_reply_bytes = 20000,
      ct_ttl = 100, ct_frozen = 0\<rparr>"

lemma frozen_file_parsed: "parse_conntrack_line frozen_file = Some frozen_entry"
proof -
  have "word w" if "w \<in> set frozen_words" for w
    using that by (intro word_solid) (auto simp: frozen_words_def solid_def)
  then have f: "str_fields frozen_file = frozen_words"
    unfolding frozen_file_def by (intro str_fields_join) blast
  have h: "length frozen_words = 15" "frozen_words ! 0 = ''ipv4''" "frozen_words ! 2 = ''tcp''"
      "frozen_words ! 4 = ''100''" "frozen_words ! 5 = ''ESTABLISHED''"
      "drop 6 frozen_words = [''src=10.0.0.2'', ''dst=8.8.8.8'', ''sport=5'', ''dport=443'', ''packets=3'',
         ''bytes=300'', ''packets=20'', ''bytes=20000'', ''[ASSURED]'']"
    by (simp_all add: frozen_words_def)
  show ?thesis
    by (simp add: parse_conntrack_line_def f h Let_def ct_token_def token_value_def has_prefix_def
      trim_prefix_def blank_entry_def frozen_entry_def atoi_value_def parse_int64_def digit_val_def)
qed

lemma frozen_lines: "read_conntrack ''10.0.0.2'' (split_on newline frozen_file) = ([(ct_key frozen_entry, frozen_entry)], 0)"
proof -
  have "split_on newline frozen_file = [frozen_file]"
    by (rule split_on_free) (simp add: frozen_file_def frozen_words_def newline_def)
  moreover have "frozen_file \<noteq> []" "\<not> has_prefix frozen_file ''ipv6 ''" "ct_src frozen_entry = ''10.0.0.2''"
    by (simp_all add: frozen_file_def frozen_words_def has_prefix_def frozen_entry_def)
  ultimately show ?thesis
    by (simp add: read_conntrack_lines conntrack_line_def frozen_file_parsed)
qed

definition bare_enrichers :: enrichers where
  "bare_enrichers = \<lparr>en_hosts = (\<lambda>_. None), en_sets = None, en_asndb = None\<rparr>"

definition frozen_flow :: flow_summary where
  "frozen_flow = enrich_flow bare_enrichers (frozen_entry\<lparr>ct_frozen := 5\<rparr>)
     ((flow_summary_for frozen_entry)\<lparr>fs_frozen := True\<rparr>)"

lemma frozen_run:
  "conntrack_run id ''10.0.0.2'' bare_enrichers False (replicate (Suc n) frozen_file)
     = [(ct_key frozen_entry, frozen_entry\<lparr>ct_frozen := int n\<rparr>)]"
proof (induction n)
  case 0
  have "frozen_entry\<lparr>ct_frozen := 0\<rparr> = frozen_entry" by (simp add: frozen_entry_def)
  then show ?case
    by (simp add: conntrack_run_def emit_conntrack_def frozen_lines carry_frozen_def frozen_step_def)
next
  case (Suc n)
  let ?run = "conntrack_run id ''10.0.0.2'' bare_enrichers False"
  have step: "frozen_step (Some (frozen_entry\<lparr>ct_frozen := m\<rparr>)) frozen_entry" for m
    by (simp add: frozen_step_def frozen_entry_def wrap64_def)
  have "replicate (Suc (Suc n)) frozen_file = replicate (Suc n) frozen_file @ [frozen_file]"
    using replicate_append_same [of "Suc n" frozen_file] by simp
  then have "?run (replicate (Suc (Suc n)) frozen_file) =
      fst (emit_conntrack id ''10.0.0.2'' bare_enrichers False (Some frozen_file) (?run (replicate (Suc n) frozen_file)))"
    by (simp only: conntrack_run_def foldl_append foldl_Cons foldl_Nil)
  also have "\<dots> = [(ct_key frozen_entry, frozen_entry\<lparr>ct_frozen := int (Suc n)\<rparr>)]"
    unfolding Suc by (simp add: emit_conntrack_def frozen_lines carry_frozen_def step)
  finally show ?case .
qed

lemma frozen_tick:
  "emit_conntrack id ''10.0.0.2'' bare_enrichers False (Some frozen_file)
     (conntrack_run id ''10.0.0.2'' bare_enrichers False (rev (replicate 5 frozen_file)))
   = ([(ct_key frozen_entry, frozen_entry\<lparr>ct_frozen := 5\<rparr>)],
      Some \<lparr>sn_flows = [frozen_flow], sn_total = 1, sn_skipped6 = 0\<rparr>)"
proof -
  have run: "conntrack_run id ''10.0.0.2'' bare_enrichers False (rev (replicate 5 frozen_file))
      = [(ct_key frozen_entry, frozen_entry\<lparr>ct_frozen := 4\<rparr>)]"
    using frozen_run [of 4] by (simp del: replicate_Suc add: numeral_eq_Suc)
  have step: "carry_frozen (Some (frozen_entry\<lparr>ct_frozen := 4\<rparr>)) frozen_entry = frozen_entry\<lparr>ct_frozen := 5\<rparr>"
    by (simp add: carry_frozen_def frozen_step_def frozen_entry_def wrap64_def)
  have "flow_summary_for (frozen_entry\<lparr>ct_frozen := 5\<rparr>) = flow_summary_for frozen_entry"
    by (simp add: flow_summary_for_def stalled_def)
  then have "flow_of bare_enrichers False (Some (frozen_entry\<lparr>ct_frozen := 4\<rparr>)) (frozen_entry\<lparr>ct_frozen := 5\<rparr>)
      = Some frozen_flow"
    by (simp add: flow_of_def frozen_flow_def)
  then show ?thesis
    unfolding run by (simp add: emit_conntrack_def frozen_lines step List.map_filter_def sort_flows_def)
qed

text \<open>
  C26: a flow of a snapshot is called frozen exactly when its connection has stood still for
  five ticks: in each of the last five pairs of successive readings it was established, assured
  and not offloaded, had received more than 16 KiB and more than twice what it sent, and its
  reply counters did not change. The order in which the entries are visited does not matter.
\<close>

theorem frozen_flag_counts_ticks:
  assumes "emit_conntrack order client en verbose (Some d) (conntrack_run order client en verbose (rev ds)) = (tb, Some sn)"
    and "\<And>t. set (order t) = set t" and "fs \<in> set (sn_flows sn)"
  shows "\<exists>k e. map_of (reading client d) k = Some e \<and> fs_proto fs = ct_proto e \<and> fs_dest fs = ct_dst e
    \<and> fs_dport fs = ct_dport e \<and> fs_sport fs = ct_sport e \<and> (fs_frozen fs \<longleftrightarrow> 5 \<le> still_ticks client k (d # ds))"
proof -
  let ?prev = "conntrack_run order client en verbose (rev ds)"
  have tb: "tb = conntrack_run order client en verbose (rev (d # ds))"
    using assms(1) by (simp add: conntrack_run_def)
  have "tb = map (\<lambda>(k, e). (k, carry_frozen (map_of ?prev k) e)) (reading client d)"
    using emit_conntrack_table [of order client en verbose d ?prev] assms(1) by simp
  then have dist: "distinct (map fst tb)"
    using reading_ok(1) [of client d] by (simp add: comp_def split_beta)
  have "set (sn_flows sn) = set (List.map_filter (\<lambda>(k, e). flow_of en verbose (map_of ?prev k) e) (order tb))"
    using assms(1) mset_eq_setD [OF conjunct1 [OF conjunct2 [OF sort_flows_correct]]]
    by (auto simp: emit_conntrack_def Let_def split: prod.splits)
  then obtain k e where e: "(k, e) \<in> set tb" "flow_of en verbose (map_of ?prev k) e = Some fs"
    using assms(2,3) by (auto simp: List.map_filter_def split: if_splits)
  have "map_of tb k = Some e" using e(1) dist by simp
  then obtain r where "map_of (reading client d) k = Some r" "e = r\<lparr>ct_frozen := still_ticks client k (d # ds)\<rparr>"
    unfolding tb using conntrack_run_frozen [of order client en verbose "d # ds" k]
    by (cases "map_of (reading client d) k") simp_all
  then show ?thesis using flow_of_Some [OF e(2)] by (intro exI [of _ k] exI [of _ r]) simp
qed

theorem frozen_flag_counts_ticks_witness:
  "\<exists>k e. map_of (reading ''10.0.0.2'' frozen_file) k = Some e \<and> fs_proto frozen_flow = ct_proto e
     \<and> fs_dest frozen_flow = ct_dst e \<and> fs_dport frozen_flow = ct_dport e \<and> fs_sport frozen_flow = ct_sport e
     \<and> (fs_frozen frozen_flow \<longleftrightarrow> 5 \<le> still_ticks ''10.0.0.2'' k (replicate 6 frozen_file))"
  using frozen_flag_counts_ticks [OF frozen_tick, of frozen_flow] by (simp add: numeral_eq_Suc)

end
