(* ===== verification/Packet_Decode.thy ===== *)
theory Packet_Decode
  imports Flow_Enrich
begin

section \<open>Packets of a client\<close>

text \<open>
  \<open>internal/manager/client_traffic_pcap.go\<close>: the reader of a packet capture, the decoders of
  Ethernet, IPv4, TCP, UDP and ICMP, of DNS messages and of the server name in a TLS handshake,
  and the tracker of QUIC retries. Each decoder returns the new state of the capture, with the
  events it has emitted, or a fault: \<open>Panic\<close> where Go would panic because an index or a slice is
  out of range, \<open>Hang\<close> where a loop does not end.

  Every slice that is cut here ends where its array ends or is cut inside a checked length, so
  that the bound of a slice expression, the capacity, is the length. Times are in nanoseconds.
  The JSON form of the events and the mutexes are left out; a nil \<open>packetEnrichers\<close> does not
  occur.
\<close>

datatype fault = Panic | Hang

subsection \<open>Bytes\<close>

definition byte_at :: "bytes \<Rightarrow> nat \<Rightarrow> fault + nat" where
  "byte_at b i = (if i < length b then Inr (of_char (b ! i)) else Inl Panic)"

definition go_slice :: "bytes \<Rightarrow> nat \<Rightarrow> nat \<Rightarrow> fault + bytes" where
  "go_slice b i j = (if i \<le> j \<and> j \<le> length b then Inr (take (j - i) (drop i b)) else Inl Panic)"

definition u16_at :: "bytes \<Rightarrow> nat \<Rightarrow> fault + nat" where
  "u16_at b i = andthen (go_slice b i (i + 2)) (\<lambda>s. Inr (be_nat s))"

definition ip4_at :: "bytes \<Rightarrow> nat \<Rightarrow> fault + string" where
  "ip4_at b i = andthen (go_slice b i (i + 4)) (\<lambda>s. Inr (v4_string (word_of_nat (be_nat s))))"

subsection \<open>State and events\<close>

record icmp_info =
  im_from :: string
  im_to :: string
  im_code :: nat
  im_code_text :: string
  im_dest :: string
  im_port :: nat
  im_proto :: string
  im_source :: string
  im_bogon :: bool
  im_info :: reject_info

record rst_info =
  rs_from :: string
  rs_from_port :: nat
  rs_to :: string
  rs_to_port :: nat
  rs_source :: string
  rs_bogon :: bool
  rs_info :: reject_info

record quic_info =
  qr_client :: string
  qr_dest :: string
  qr_port :: nat
  qr_count :: nat
  qr_window :: nat
  qr_bogon :: bool
  qr_info :: reject_info

text \<open>The payloads of the events; a DNS query has client, server, type, name, id and source.\<close>

datatype event_data =
    Dns_query string string string string nat string
  | Dns_reply string string "string list" nat
  | Icmp_unreachable icmp_info
  | Tcp_rst rst_info
  | Tls_sni string string nat string string
  | Quic_retry quic_info

record quic_state =
  qs_times :: "int list"
  qs_emitted :: bool

record quic_tracker =
  qt_retries :: "string \<rightharpoonup> quic_state"
  qt_window :: int
  qt_min_hits :: nat

record capture =
  cp_hosts :: host_names
  cp_quic :: quic_tracker
  cp_events :: "(int \<times> event_data) list"

record view =
  vw_client :: string
  vw_sets :: "nftset_view option"
  vw_asndb :: "ip_db option"

definition emit_event :: "int \<Rightarrow> event_data \<Rightarrow> capture \<Rightarrow> capture" where
  "emit_event ts d st = st\<lparr>cp_events := cp_events st @ [(ts, d)]\<rparr>"

definition learn_host :: "string \<Rightarrow> string \<Rightarrow> capture \<Rightarrow> capture" where
  "learn_host ip host st = st\<lparr>cp_hosts := add_host (cp_hosts st) ip host\<rparr>"

definition enrich_in :: "view \<Rightarrow> capture \<Rightarrow> string \<Rightarrow> reject_info" where
  "enrich_in v st ip = enrich \<lparr>en_hosts = cp_hosts st, en_sets = vw_sets v, en_asndb = vw_asndb v\<rparr> ip"

subsection \<open>QUIC retries\<close>

definition quic_observe :: "quic_tracker \<Rightarrow> string \<Rightarrow> nat \<Rightarrow> int \<Rightarrow> nat \<times> quic_tracker" where
  "quic_observe q dst dport now =
     (let key = dst @ '':'' @ dec_of dport;
          st = (case qt_retries q key of None \<Rightarrow> \<lparr>qs_times = [], qs_emitted = False\<rparr> | Some st \<Rightarrow> st);
          cutoff = now - qt_window q;
          cleaned = filter (\<lambda>t. t > cutoff) (qs_times st) @ [now];
          crossed = length cleaned \<ge> qt_min_hits q \<and> \<not> qs_emitted st;
          emitted = (if crossed then True
            else if length cleaned < qt_min_hits q then False else qs_emitted st)
      in (if crossed then length cleaned else 0,
          q\<lparr>qt_retries := (qt_retries q)(key \<mapsto> \<lparr>qs_times = cleaned, qs_emitted = emitted\<rparr>)\<rparr>))"

subsection \<open>DNS\<close>

text \<open>
  \<open>dnsName\<close>: the name at an offset and the bytes it takes. The loop may revisit an offset, so
  it runs on fuel; \<open>length b + 1\<close> rounds are enough for every call that returns. The count of
  bytes before a jump is overwritten when the name ends, so only the final value is kept.
\<close>

fun dns_name_loop ::
  "nat \<Rightarrow> bytes \<Rightarrow> nat \<Rightarrow> nat \<Rightarrow> string list \<Rightarrow> bool \<Rightarrow> fault + (string \<times> nat) option" where
  "dns_name_loop 0 b orig off parts jumped = Inl Hang"
| "dns_name_loop (Suc n) b orig off parts jumped =
     (if off \<ge> length b then Inr None
      else andthen (byte_at b off) (\<lambda>l.
        if l = 0 then Inr (Some (join ''.'' parts, if jumped then 2 else off + 1 - orig))
        else if l \<ge> 192 then
          (if off + 1 \<ge> length b then Inr None
           else andthen (u16_at b off) (\<lambda>w.
             let ptr = w mod 16384
             in if ptr \<ge> off then Inr None
                else dns_name_loop n b orig ptr parts True))
        else if off + 1 + l > length b then Inr None
        else andthen (go_slice b (off + 1) (off + 1 + l)) (\<lambda>p.
          dns_name_loop n b orig (off + 1 + l) (parts @ [p]) jumped)))"

definition dns_name :: "bytes \<Rightarrow> nat \<Rightarrow> fault + (string \<times> nat) option" where
  "dns_name b off = dns_name_loop (length b + 1) b off off [] False"

definition dns_qtype_name :: "nat \<Rightarrow> string" where
  "dns_qtype_name t =
     (if t = 1 then ''A'' else if t = 28 then ''AAAA'' else if t = 5 then ''CNAME''
      else if t = 65 then ''HTTPS'' else if t = 33 then ''SRV'' else if t = 16 then ''TXT''
      else if t = 12 then ''PTR'' else ''TYPE'' @ dec_of t)"

text \<open>
  The question loop with \<open>todo\<close> questions left: \<open>None\<close> is the early return, otherwise the
  offset behind the questions and the first name and type.
\<close>

fun dns_questions ::
  "bytes \<Rightarrow> nat \<Rightarrow> nat \<Rightarrow> (string \<times> nat) option \<Rightarrow> fault + (nat \<times> (string \<times> nat) option) option" where
  "dns_questions b 0 off first = Inr (Some (off, first))"
| "dns_questions b (Suc todo) off first =
     (if off \<ge> length b then Inr (Some (off, first))
      else andthen (dns_name b off) (\<lambda>r. case r of
          None \<Rightarrow> Inr None
        | Some (name, n) \<Rightarrow>
            if off + n + 4 > length b then Inr None
            else andthen (u16_at b (off + n)) (\<lambda>qtype.
              dns_questions b todo (off + n + 4)
                (case first of None \<Rightarrow> Some (name, qtype) | Some f \<Rightarrow> Some f))))"

fun dns_answers ::
  "bytes \<Rightarrow> string \<Rightarrow> nat \<Rightarrow> nat \<Rightarrow> string list \<Rightarrow> capture \<Rightarrow> fault + string list \<times> capture" where
  "dns_answers b host 0 off answers st = Inr (answers, st)"
| "dns_answers b host (Suc todo) off answers st =
     (if off \<ge> length b then Inr (answers, st)
      else andthen (dns_name b off) (\<lambda>r. case r of
          None \<Rightarrow> Inr (answers, st)
        | Some (name, n) \<Rightarrow>
            if off + n + 10 > length b then Inr (answers, st)
            else andthen (u16_at b (off + n)) (\<lambda>rr_type.
              andthen (u16_at b (off + n + 8)) (\<lambda>rdl.
                let data = off + n + 10
                in if data + rdl > length b then Inr (answers, st)
                   else andthen
                     (if rr_type = 1 \<and> rdl = 4 then
                        andthen (ip4_at b data) (\<lambda>a. Inr (answers @ [a], learn_host a host st))
                      else if rr_type = 28 \<and> rdl = 16 then
                        andthen (go_slice b data (data + 16)) (\<lambda>s.
                          Inr (answers @ [ip_string (word_of_nat (be_nat s))], st))
                      else Inr (answers, st))
                     (\<lambda>(answers', st'). dns_answers b host todo (data + rdl) answers' st')))))"

definition parse_dns ::
  "view \<Rightarrow> int \<Rightarrow> string \<Rightarrow> string \<Rightarrow> nat \<Rightarrow> nat \<Rightarrow> bytes \<Rightarrow> capture \<Rightarrow> fault + capture" where
  "parse_dns v ts src dst sport dport payload st =
     (if length payload < 12 then Inr st
      else andthen (u16_at payload 0) (\<lambda>id.
        andthen (u16_at payload 2) (\<lambda>flags.
        andthen (u16_at payload 4) (\<lambda>qd.
        andthen (u16_at payload 6) (\<lambda>an.
        andthen (dns_questions payload qd 12 None) (\<lambda>r.
          let multicast = sport = 5353 \<or> dport = 5353
          in case r of
            None \<Rightarrow> Inr st
          | Some (off, first) \<Rightarrow>
              (case first of
                 None \<Rightarrow> Inr st
               | Some (name, qtype) \<Rightarrow>
                   if name = [] then Inr st
                   else if flags < 32768 then
                     (if src \<noteq> vw_client v then Inr st
                      else Inr (emit_event ts (Dns_query src dst (dns_qtype_name qtype) name id
                        (if multicast then ''mdns'' else ''dns'')) st))
                   else if dst \<noteq> vw_client v
                     \<and> \<not> (multicast \<and> (dst = ''224.0.0.251'' \<or> dst = ''ff02::fb'')) then Inr st
                   else andthen (dns_answers payload name an off [] st) (\<lambda>(answers, st').
                     if answers = [] then Inr st'
                     else Inr (emit_event ts (Dns_reply dst name answers id) st')))))))))"

subsection \<open>The server name of a TLS handshake\<close>

function sni_extensions :: "bytes \<Rightarrow> nat \<Rightarrow> nat \<Rightarrow> fault + string" where
  "sni_extensions hs p stop =
     (if p + 4 > stop then Inr []
      else andthen (u16_at hs p) (\<lambda>ext_type.
        andthen (u16_at hs (p + 2)) (\<lambda>len.
          if p + 4 + len > stop then Inr []
          else if ext_type = 0 \<and> len \<ge> 5 then
            andthen (go_slice hs (p + 4) (p + 4 + len)) (\<lambda>sn.
              andthen (u16_at sn 3) (\<lambda>name_len.
                if 5 + name_len > length sn then sni_extensions hs (p + 4 + len) stop
                else go_slice sn 5 (5 + name_len)))
          else sni_extensions hs (p + 4 + len) stop)))"
  by pat_completeness auto
termination by (relation "measure (\<lambda>(hs, p, stop). stop - p)") auto

declare sni_extensions.simps [simp del]

definition extract_tls_sni :: "bytes \<Rightarrow> fault + string" where
  "extract_tls_sni payload =
     (if length payload < 5 then Inr []
      else andthen (byte_at payload 0) (\<lambda>kind.
        if kind \<noteq> 0x16 then Inr []
        else andthen (go_slice payload 5 (length payload)) (\<lambda>hs.
          if length hs < 4 then Inr []
          else andthen (byte_at hs 0) (\<lambda>hello.
            if hello \<noteq> 1 \<or> 38 > length hs then Inr []
            else if 38 \<ge> length hs then Inr []
            else andthen (byte_at hs 38) (\<lambda>sid_len.
              let p = 39 + sid_len
              in if p + 2 > length hs then Inr []
                 else andthen (u16_at hs p) (\<lambda>cs_len.
                   let q = p + 2 + cs_len
                   in if q + 1 > length hs then Inr []
                      else andthen (byte_at hs q) (\<lambda>cm_len.
                        let r = q + 1 + cm_len
                        in if r + 2 > length hs then Inr []
                           else andthen (u16_at hs r) (\<lambda>ext_len.
                             sni_extensions hs (r + 2) (min (r + 2 + ext_len) (length hs))))))))))"

subsection \<open>Transport protocols\<close>

definition parse_tcp :: "view \<Rightarrow> int \<Rightarrow> string \<Rightarrow> string \<Rightarrow> bytes \<Rightarrow> capture \<Rightarrow> fault + capture" where
  "parse_tcp v ts src dst tcp st =
     (if length tcp < 20 then Inr st
      else andthen (u16_at tcp 0) (\<lambda>sport.
        andthen (u16_at tcp 2) (\<lambda>dport.
        andthen (byte_at tcp 12) (\<lambda>hl.
        andthen (byte_at tcp 13) (\<lambda>flags.
          let data_off = hl div 16 * 4
          in if data_off > length tcp then Inr st
             else if bit flags 2 then
               (if src = vw_client v then Inr st
                else Inr (emit_event ts (Tcp_rst \<lparr>rs_from = src, rs_from_port = sport, rs_to = dst,
                  rs_to_port = dport, rs_source = ''peer'', rs_bogon = is_bogon_ipv4 src,
                  rs_info = enrich_in v st src\<rparr>) st))
             else if src \<noteq> vw_client v \<or> dport \<noteq> 443 then Inr st
             else andthen (go_slice tcp data_off (length tcp)) (\<lambda>payload.
               andthen (extract_tls_sni payload) (\<lambda>sni.
                 if sni = [] then Inr st
                 else Inr (emit_event ts (Tls_sni src dst dport sni ''tcp'') (learn_host dst sni st)))))))))"

definition parse_udp :: "view \<Rightarrow> int \<Rightarrow> string \<Rightarrow> string \<Rightarrow> bytes \<Rightarrow> capture \<Rightarrow> fault + capture" where
  "parse_udp v ts src dst udp st =
     (if length udp < 8 then Inr st
      else andthen (u16_at udp 0) (\<lambda>sport.
        andthen (u16_at udp 2) (\<lambda>dport.
        andthen (go_slice udp 8 (length udp)) (\<lambda>payload.
          if sport = 53 \<or> dport = 53 \<or> sport = 5353 \<or> dport = 5353 then
            parse_dns v ts src dst sport dport payload st
          else if dport = 443 \<and> src = vw_client v then
            (if payload = [] then Inr st
             else andthen (byte_at payload 0) (\<lambda>first.
               if first < 0xc0 then Inr st
               else (case quic_observe (cp_quic st) dst dport ts of (n, q) \<Rightarrow>
                   let st' = st\<lparr>cp_quic := q\<rparr>
                   in if n = 0 then Inr st'
                      else Inr (emit_event ts (Quic_retry \<lparr>qr_client = vw_client v, qr_dest = dst,
                        qr_port = dport, qr_count = n, qr_window = 2, qr_bogon = is_bogon_ipv4 dst,
                        qr_info = enrich_in v st' dst\<rparr>) st'))))
          else Inr st))))"

definition icmp_code_text :: "nat \<Rightarrow> string" where
  "icmp_code_text code =
     (if code = 0 then ''net unreachable'' else if code = 1 then ''host unreachable''
      else if code = 2 then ''protocol unreachable'' else if code = 3 then ''port unreachable''
      else if code = 9 then ''net admin-prohibited'' else if code = 10 then ''host admin-prohibited''
      else if code = 13 then ''communication admin-prohibited (filtered)''
      else ''code '' @ dec_of code)"

text \<open>The destination, protocol and port of the packet that an ICMP message quotes.\<close>

definition quoted_packet :: "bytes \<Rightarrow> fault + (string \<times> string \<times> nat) option" where
  "quoted_packet icmp =
     (if length icmp < 28 then Inr None
      else andthen (go_slice icmp 8 (length icmp)) (\<lambda>inner.
        andthen (byte_at inner 0) (\<lambda>b0.
          let ihl = b0 mod 16 * 4
          in if ihl < 20 \<or> length inner < ihl + 8 then Inr None
             else andthen (byte_at inner 9) (\<lambda>proto.
               andthen (ip4_at inner 16) (\<lambda>dst.
                 if proto = 6 \<or> proto = 17 then
                   andthen (u16_at inner (ihl + 2)) (\<lambda>port.
                     Inr (Some (dst, if proto = 6 then ''tcp'' else ''udp'', port)))
                 else Inr (Some (dst, [], 0)))))))"

definition parse_icmp :: "view \<Rightarrow> int \<Rightarrow> string \<Rightarrow> string \<Rightarrow> bytes \<Rightarrow> capture \<Rightarrow> fault + capture" where
  "parse_icmp v ts src dst icmp st =
     (if length icmp < 8 then Inr st
      else andthen (byte_at icmp 0) (\<lambda>typ.
        andthen (byte_at icmp 1) (\<lambda>code.
          if typ \<noteq> 3 \<or> dst \<noteq> vw_client v then Inr st
          else andthen (quoted_packet icmp) (\<lambda>r.
            let (odst, oproto, oport) = (case r of None \<Rightarrow> ([], [], 0) | Some q \<Rightarrow> q)
            in Inr (emit_event ts (Icmp_unreachable \<lparr>im_from = src, im_to = dst, im_code = code,
                 im_code_text = icmp_code_text code, im_dest = odst, im_port = oport, im_proto = oproto,
                 im_source = (if odst = [] then [] else if src = odst then ''peer'' else ''middlebox''),
                 im_bogon = (is_bogon_ipv4 src \<or> odst \<noteq> [] \<and> is_bogon_ipv4 odst),
                 im_info = enrich_in v st (if odst = [] then src else odst)\<rparr>) st)))))"

subsection \<open>Frames and the capture\<close>

definition parse_packet :: "view \<Rightarrow> int \<Rightarrow> bytes \<Rightarrow> capture \<Rightarrow> fault + capture" where
  "parse_packet v ts frame st =
     (if length frame < 14 then Inr st
      else andthen (u16_at frame 12) (\<lambda>eth_type.
        if eth_type \<noteq> 0x0800 then Inr st
        else andthen (go_slice frame 14 (length frame)) (\<lambda>ip.
          if length ip < 20 then Inr st
          else andthen (byte_at ip 0) (\<lambda>b0.
            let ihl = b0 mod 16 * 4
            in if ihl < 20 \<or> length ip < ihl then Inr st
               else andthen (byte_at ip 9) (\<lambda>proto.
                 andthen (ip4_at ip 12) (\<lambda>src.
                 andthen (ip4_at ip 16) (\<lambda>dst.
                 andthen (go_slice ip ihl (length ip)) (\<lambda>payload.
                   if proto = 6 then parse_tcp v ts src dst payload st
                   else if proto = 17 then parse_udp v ts src dst payload st
                   else if proto = 1 then parse_icmp v ts src dst payload st
                   else Inr st))))))))"

datatype pcap_error = Short_global_header | Bad_magic nat | Bad_link_type nat | Bad_caplen nat | Short_body

text \<open>A number in the byte order of the capture; the stream is the bytes up to its end.\<close>

definition ord_nat :: "bool \<Rightarrow> bytes \<Rightarrow> nat" where
  "ord_nat big b = be_nat (if big then b else rev b)"

function pcap_records :: "bool \<Rightarrow> view \<Rightarrow> bytes \<Rightarrow> capture \<Rightarrow> fault + capture \<times> pcap_error option" where
  "pcap_records big v s st =
     (if length s < 16 then Inr (st, None)
      else (let sec = ord_nat big (take 4 s);
                usec = ord_nat big (take 4 (drop 4 s));
                caplen = ord_nat big (take 4 (drop 8 s));
                body = drop 16 s
            in if caplen > 65535 then Inr (st, Some (Bad_caplen caplen))
               else if length body < caplen then Inr (st, Some Short_body)
               else andthen (parse_packet v (int sec * 1000000000 + int usec * 1000) (take caplen body) st)
                 (\<lambda>st'. pcap_records big v (drop caplen body) st')))"
  by pat_completeness auto
termination by (relation "measure (\<lambda>(big, v, s, st). length s)") auto

declare pcap_records.simps [simp del]

definition run_pcap_reader :: "view \<Rightarrow> bytes \<Rightarrow> capture \<Rightarrow> fault + capture \<times> pcap_error option" where
  "run_pcap_reader v s st =
     (if length s < 24 then Inr (st, Some Short_global_header)
      else (let magic = ord_nat False (take 4 s);
                big = magic = 0xd4c3b2a1;
                link_type = ord_nat big (take 4 (drop 20 s))
            in if magic \<noteq> 0xa1b2c3d4 \<and> \<not> big then Inr (st, Some (Bad_magic magic))
               else if link_type \<noteq> 1 then Inr (st, Some (Bad_link_type link_type))
               else pcap_records big v (drop 24 s) st))"

end
