(* ===== verification/Packet_Facts.thy ===== *)
theory Packet_Facts
  imports Packet_Decode
begin

section \<open>What the packet decoders guarantee\<close>

text \<open>
  No frame makes a decoder read outside its bytes. The loop over a DNS name returns within
  \<open>length b + 1\<close> rounds or never: its next offset depends on the offset alone, so a longer run
  has met an offset twice. A name is decoded as it is written, and some names never return.
\<close>

subsection \<open>No panic\<close>

definition safe :: "fault + 'a \<Rightarrow> bool" where
  "safe m \<longleftrightarrow> m \<noteq> Inl Panic"

lemma safe_Inr [simp, intro]: "safe (Inr x)"
  by (simp add: safe_def)

lemma safe_andthen: "safe m \<Longrightarrow> (\<And>x. m = Inr x \<Longrightarrow> safe (f x)) \<Longrightarrow> safe (andthen m f)"
  by (cases m) (auto simp: safe_def)

lemma safe_if: "(P \<Longrightarrow> safe m) \<Longrightarrow> (\<not> P \<Longrightarrow> safe k) \<Longrightarrow> safe (if P then m else k)"
  by simp

lemma safe_byte: "i < length b \<Longrightarrow> safe (byte_at b i)"
  by (simp add: byte_at_def)

lemma safe_slice: "i \<le> j \<Longrightarrow> j \<le> length b \<Longrightarrow> safe (go_slice b i j)"
  by (simp add: go_slice_def)

lemma slice_Inr: "go_slice b i j = Inr s \<Longrightarrow> s = take (j - i) (drop i b) \<and> length s = j - i \<and> j \<le> length b"
  by (auto simp: go_slice_def split: if_splits)

lemma slice_length: "go_slice b i j = Inr s \<Longrightarrow> length s = j - i"
  using slice_Inr by blast

lemma safe_u16: "i + 2 \<le> length b \<Longrightarrow> safe (u16_at b i)"
  unfolding u16_at_def by (intro safe_andthen safe_slice) auto

lemma safe_ip4: "i + 4 \<le> length b \<Longrightarrow> safe (ip4_at b i)"
  unfolding ip4_at_def by (intro safe_andthen safe_slice) auto

lemmas safe_reads = safe_byte safe_slice safe_u16 safe_ip4

lemma safe_name_loop: "safe (dns_name_loop n b orig off parts jumped)"
proof (induction n arbitrary: off parts jumped)
  case (Suc n)
  then show ?case
    by (auto intro!: safe_andthen safe_reads simp: Let_def)
qed (simp add: safe_def)

lemma safe_dns_name: "safe (dns_name b off)"
  unfolding dns_name_def by (rule safe_name_loop)

lemma safe_questions: "safe (dns_questions b todo off first)"
proof (induction todo arbitrary: off first)
  case (Suc todo)
  then show ?case
    by (auto intro!: safe_andthen safe_reads safe_dns_name split: option.split)
qed simp

lemma safe_answers: "safe (dns_answers b host todo off answers st)"
proof (induction todo arbitrary: off answers st)
  case (Suc todo)
  then show ?case
    by (auto intro!: safe_andthen safe_reads safe_dns_name simp: Let_def split: option.split prod.split)
qed simp

lemma safe_parse_dns: "safe (parse_dns v ts src dst sport dport payload st)"
  unfolding parse_dns_def
  by (auto intro!: safe_andthen safe_reads safe_questions safe_answers simp: Let_def split: option.split prod.split)

lemma safe_extensions: "stop \<le> length hs \<Longrightarrow> safe (sni_extensions hs p stop)"
proof (induction hs p stop rule: sni_extensions.induct)
  case (1 hs p stop)
  then show ?case
    by (subst sni_extensions.simps)
      (auto intro!: safe_andthen safe_reads, (drule slice_length, simp)+)
qed

lemma safe_sni: "safe (extract_tls_sni payload)"
  unfolding extract_tls_sni_def
  by (auto intro!: safe_andthen safe_reads safe_extensions simp: Let_def dest: slice_length)

lemma safe_tcp: "safe (parse_tcp v ts src dst tcp st)"
  unfolding parse_tcp_def by (auto intro!: safe_andthen safe_reads safe_sni simp: Let_def)

lemma safe_udp: "safe (parse_udp v ts src dst udp st)"
  unfolding parse_udp_def
  by (auto intro!: safe_andthen safe_reads safe_parse_dns simp: Let_def split: prod.split)

lemma safe_quoted: "safe (quoted_packet icmp)"
  unfolding quoted_packet_def by (auto intro!: safe_andthen safe_reads simp: Let_def dest: slice_length)

lemma safe_icmp: "safe (parse_icmp v ts src dst icmp st)"
  unfolding parse_icmp_def
  by (auto intro!: safe_andthen safe_reads safe_quoted simp: Let_def split: prod.split)

lemma safe_packet: "safe (parse_packet v ts frame st)"
  unfolding parse_packet_def
  by (auto intro!: safe_andthen safe_reads safe_tcp safe_udp safe_icmp simp: Let_def dest: slice_length)

lemma safe_records: "safe (pcap_records big v s st)"
proof (induction big v s st rule: pcap_records.induct)
  case (1 big v s st)
  then show ?case
    by (subst pcap_records.simps) (auto intro!: safe_andthen safe_packet simp: Let_def)
qed

text \<open>
  C38: no capture makes the decoders panic: whatever the bytes of the stream and of its frames,
  every index and every slice of the decoders is in range.
\<close>

theorem capture_never_panics: "run_pcap_reader v s st \<noteq> Inl Panic"
  using safe_records by (auto simp: run_pcap_reader_def Let_def safe_def)

subsection \<open>The loop over a DNS name\<close>

text \<open>The offset after one round, when there is one more.\<close>

definition next_offset :: "bytes \<Rightarrow> nat \<Rightarrow> nat option" where
  "next_offset b off =
     (if off \<ge> length b then None
      else let l = of_char (b ! off)
           in if l = 0 then None
              else if l \<ge> 192 then
                (if off + 1 \<ge> length b then None
                 else let ptr = be_nat (take 2 (drop off b)) mod 16384
                      in if ptr \<ge> off then None else Some ptr)
              else if off + 1 + l > length b then None else Some (off + 1 + l))"

fun offset_after :: "bytes \<Rightarrow> nat \<Rightarrow> nat \<Rightarrow> nat option" where
  "offset_after b 0 off = Some off"
| "offset_after b (Suc n) off = Option.bind (next_offset b off) (offset_after b n)"

lemma name_loop_hangs: "dns_name_loop n b orig off parts jumped = Inl Hang \<longleftrightarrow> offset_after b n off \<noteq> None"
proof (induction n arbitrary: off parts jumped)
  case (Suc n)
  have u: "u16_at b off = Inr (be_nat (take 2 (drop off b)))" if "\<not> off + 1 \<ge> length b"
    using that by (simp add: u16_at_def go_slice_def)
  have s: "go_slice b (off + 1) (off + 1 + l) = Inr (take l (drop (off + 1) b))" if "\<not> off + 1 + l > length b" for l
    using that by (simp add: go_slice_def)
  show ?case
    using Suc u s [of "of_char (b ! off)"]
    by (auto simp: next_offset_def byte_at_def Let_def)
qed simp


lemma offset_after_add:
  "offset_after b (m + n) off = Option.bind (offset_after b m off) (offset_after b n)"
  by (induction m arbitrary: off) (auto split: option.split bind_split)

lemma offset_prefix: "offset_after b (m + k) off \<noteq> None \<Longrightarrow> offset_after b m off \<noteq> None"
  using offset_after_add [of b m k off] by (cases "offset_after b m off") auto

lemma offset_bound: "offset_after b (Suc m) off \<noteq> None \<Longrightarrow> \<exists>p. offset_after b m off = Some p \<and> p < length b"
  using offset_after_add [of b m 1 off]
  by (auto simp: next_offset_def Let_def split: if_splits Option.bind_splits)

text \<open>A run of more than \<open>length b\<close> rounds has met an offset twice, and goes on for ever.\<close>

lemma offset_repeats:
  assumes "offset_after b (length b + 1) off \<noteq> None"
  shows "\<exists>i j p. i < j \<and> j \<le> length b \<and> offset_after b i off = Some p \<and> offset_after b j off = Some p"
proof -
  have defined: "\<exists>p. offset_after b m off = Some p \<and> p < length b" if "m \<le> length b" for m
  proof -
    have "length b + 1 = Suc m + (length b - m)" using that by simp
    then show ?thesis using assms offset_prefix offset_bound by metis
  qed
  let ?g = "\<lambda>m. the (offset_after b m off)"
  have "?g ` {..length b} \<subseteq> {..<length b}" using defined by force
  then have "card (?g ` {..length b}) \<le> length b"
    by (metis card_lessThan card_mono finite_lessThan)
  then have "\<not> inj_on ?g {..length b}"
    by (intro pigeonhole) simp
  then obtain i j where ij: "i \<le> length b" "j \<le> length b" "i \<noteq> j" "?g i = ?g j"
    by (auto simp: inj_on_def)
  obtain p q where "offset_after b i off = Some p" "offset_after b j off = Some q"
    using defined ij(1,2) by blast
  with ij show ?thesis by (metis linorder_neqE_nat option.sel)
qed

lemma offset_for_ever:
  assumes "offset_after b (length b + 1) off \<noteq> None"
  shows "offset_after b m off \<noteq> None"
proof -
  obtain i j p where ij: "i < j" "j \<le> length b" "offset_after b i off = Some p" "offset_after b j off = Some p"
    using offset_repeats [OF assms] by blast
  show ?thesis
  proof (induction m rule: less_induct)
    case (less m)
    show ?case
    proof (cases "m \<le> j")
      case True
      have "offset_after b (m + (j - m)) off \<noteq> None" using True ij(4) by simp
      then show ?thesis by (rule offset_prefix)
    next
      case False
      have "offset_after b m off = offset_after b (m - j) p"
        using offset_after_add [of b j "m - j" off] ij(4) False by simp
      also have "\<dots> = offset_after b (i + (m - j)) off"
        using offset_after_add [of b i "m - j" off] ij(3) by simp
      finally show ?thesis using less [of "i + (m - j)"] ij(1) False by simp
    qed
  qed
qed


subsection \<open>A frame that stops the reader\<close>

text \<open>
  A DNS reply of one question whose name is the label \<open>a\<close> followed by a pointer to that label.
  The pointer goes backwards, as the decoder requires, and the loop reads the label again.
\<close>

definition byte_list :: "nat list \<Rightarrow> bytes" where
  "byte_list = map char_of"

definition loop_message :: bytes where
  "loop_message = byte_list [0, 1, 0x81, 0x80, 0, 1, 0, 0, 0, 0, 0, 0, 1, 97, 192, 12]"

definition loop_frame :: bytes where
  "loop_frame = byte_list
     ([0, 0, 0, 0, 0, 0, 0, 0, 0, 0, 0, 0, 8, 0]
      @ [69, 0, 0, 44, 0, 0, 0, 0, 64, 17, 0, 0, 8, 8, 8, 8, 192, 168, 1, 10]
      @ [0, 53, 200, 1, 0, 24, 0, 0]) @ loop_message"

definition capture_header :: bytes where
  "capture_header = byte_list
     [0xd4, 0xc3, 0xb2, 0xa1, 2, 0, 4, 0, 0, 0, 0, 0, 0, 0, 0, 0, 0, 2, 0, 0, 1, 0, 0, 0]"

definition loop_record :: bytes where
  "loop_record = byte_list [0, 0, 0, 0, 0, 0, 0, 0, 58, 0, 0, 0, 58, 0, 0, 0] @ loop_frame"

lemma loop_offsets: "next_offset loop_message 12 = Some 14" "next_offset loop_message 14 = Some 12"
  by (simp_all add: next_offset_def loop_message_def byte_list_def be_nat_def)

lemma loop_name: "dns_name loop_message 12 = Inl Hang"
proof -
  have "offset_after loop_message n 12 \<noteq> None \<and> offset_after loop_message n 14 \<noteq> None" for n
    by (induction n) (simp_all add: loop_offsets)
  then show ?thesis by (simp only: dns_name_def name_loop_hangs simp_thms)
qed

lemma loop_dns: "parse_dns v ts src dst sport dport loop_message st = Inl Hang"
proof -
  have len: "length loop_message = 16" by (simp add: loop_message_def byte_list_def)
  have u: "u16_at loop_message 0 = Inr 1" "u16_at loop_message 2 = Inr 0x8180" "u16_at loop_message 4 = Inr 1"
    "u16_at loop_message 6 = Inr 0"
    by (simp_all add: u16_at_def go_slice_def len) (simp_all add: loop_message_def byte_list_def be_nat_def)
  have "dns_questions loop_message 1 12 None = Inl Hang"
    by (simp add: loop_name len)
  then show ?thesis by (simp add: parse_dns_def len u)
qed

lemma loop_packet: "parse_packet v ts loop_frame st = Inl Hang"
proof -
  define ip where "ip = byte_list [69, 0, 0, 44, 0, 0, 0, 0, 64, 17, 0, 0, 8, 8, 8, 8, 192, 168, 1, 10]
    @ byte_list [0, 53, 200, 1, 0, 24, 0, 0] @ loop_message"
  define udp where "udp = byte_list [0, 53, 200, 1, 0, 24, 0, 0] @ loop_message"
  have len: "length loop_frame = 58" "length ip = 44" "length udp = 24"
    by (simp_all add: loop_frame_def ip_def udp_def loop_message_def byte_list_def)
  have frame: "u16_at loop_frame 12 = Inr 0x0800" "go_slice loop_frame 14 58 = Inr ip"
    by (simp_all add: u16_at_def go_slice_def len) (simp_all add: loop_frame_def ip_def byte_list_def be_nat_def loop_message_def)
  have ip: "byte_at ip 0 = Inr 69" "byte_at ip 9 = Inr 17" "go_slice ip 20 44 = Inr udp"
    "ip4_at ip 12 = Inr (v4_string 0x08080808)" "ip4_at ip 16 = Inr (v4_string 0xC0A8010A)"
    by (simp_all add: byte_at_def ip4_at_def go_slice_def len)
      (simp_all add: ip_def udp_def byte_list_def be_nat_def loop_message_def)
  have udp: "u16_at udp 0 = Inr 53" "u16_at udp 2 = Inr 0xC801" "go_slice udp 8 24 = Inr loop_message"
    by (simp_all add: u16_at_def go_slice_def len) (simp_all add: udp_def byte_list_def be_nat_def loop_message_def)
  have "parse_udp v ts src dst udp st = Inl Hang" for src dst
    by (simp add: parse_udp_def len udp loop_dns)
  then show ?thesis by (simp add: parse_packet_def len frame ip)
qed

text \<open>
  C39: one crafted DNS reply stops the traffic view. A capture whose first frame is that reply
  never returns, whatever follows it and whatever the state; in the decoder every round adds
  the label once more.
\<close>

theorem crafted_reply_hangs_reader:
  "run_pcap_reader v (capture_header @ loop_record @ rest) st = Inl Hang
   \<and> (\<forall>n. dns_name_loop n loop_message 12 12 [] False = Inl Hang)"
proof
  show "\<forall>n. dns_name_loop n loop_message 12 12 [] False = Inl Hang"
  proof
    fix n
    show "dns_name_loop n loop_message 12 12 [] False = Inl Hang"
      using offset_for_ever [of loop_message 12 n] loop_name unfolding dns_name_def name_loop_hangs by blast
  qed
  have len: "length capture_header = 24" "length loop_record = 74" "length loop_frame = 58"
    by (simp_all add: capture_header_def loop_record_def loop_frame_def loop_message_def byte_list_def)
  have "pcap_records False v (loop_record @ rest) st = Inl Hang"
  proof -
    have "ord_nat False (take 4 (drop 8 (loop_record @ rest))) = 58" "take 58 (drop 16 (loop_record @ rest)) = loop_frame"
      using len(3) by (simp_all add: loop_record_def ord_nat_def be_nat_def byte_list_def)
    then show ?thesis
      by (subst pcap_records.simps) (simp add: Let_def len loop_packet)
  qed
  moreover have "ord_nat False (take 4 (capture_header @ loop_record @ rest)) = 0xa1b2c3d4"
    "ord_nat False (take 4 (drop 20 (capture_header @ loop_record @ rest))) = 1"
    by (simp_all add: capture_header_def ord_nat_def be_nat_def byte_list_def)
  ultimately show "run_pcap_reader v (capture_header @ loop_record @ rest) st = Inl Hang"
    by (simp add: run_pcap_reader_def Let_def len)
qed

subsection \<open>Names as they are written\<close>

definition wire_labels :: "string list \<Rightarrow> bytes" where
  "wire_labels ls = concat (map (\<lambda>l. char_of (length l) # l) ls)"

definition labels_ok :: "string list \<Rightarrow> bool" where
  "labels_ok ls \<longleftrightarrow> list_all (\<lambda>l. l \<noteq> [] \<and> length l < 64) ls"

lemma name_loop_label:
  "off + 1 + l \<le> length b \<Longrightarrow> byte_at b off = Inr l \<Longrightarrow> 0 < l \<Longrightarrow> l < 192 \<Longrightarrow>
     go_slice b (off + 1) (off + 1 + l) = Inr p \<Longrightarrow>
     dns_name_loop (Suc n) b orig off parts jumped = dns_name_loop n b orig (off + 1 + l) (parts @ [p]) jumped"
  by simp

lemma name_loop_pointer:
  "off + 1 < length b \<Longrightarrow> byte_at b off = Inr l \<Longrightarrow> 192 \<le> l \<Longrightarrow> u16_at b off = Inr w \<Longrightarrow> w mod 16384 < off \<Longrightarrow>
     dns_name_loop (Suc n) b orig off parts jumped = dns_name_loop n b orig (w mod 16384) parts True"
  by (simp add: Let_def)

lemma name_loop_end:
  "off < length b \<Longrightarrow> byte_at b off = Inr 0 \<Longrightarrow>
     dns_name_loop (Suc n) b orig off parts jumped = Inr (Some (join ''.'' parts, if jumped then 2 else off + 1 - orig))"
  by simp

lemma name_loop_labels:
  "labels_ok ls \<Longrightarrow> dns_name_loop (length ls + n) (pre @ wire_labels ls @ rest) orig (length pre) parts jumped
     = dns_name_loop n (pre @ wire_labels ls @ rest) orig (length pre + length (wire_labels ls)) (parts @ ls) jumped"
proof (induction ls arbitrary: pre parts)
  case (Cons l ls)
  let ?b = "pre @ wire_labels (l # ls) @ rest" and ?off = "length pre"
  have l: "l \<noteq> []" "length l < 64" "labels_ok ls" using Cons.prems by (simp_all add: labels_ok_def)
  have b: "?b = (pre @ char_of (length l) # l) @ wire_labels ls @ rest" by (simp add: wire_labels_def)
  have "dns_name_loop (length (l # ls) + n) ?b orig ?off parts jumped =
      dns_name_loop (length ls + n) ?b orig (?off + 1 + length l) (parts @ [l]) jumped"
    unfolding length_Cons add_Suc
  proof (rule name_loop_label)
    show "byte_at ?b ?off = Inr (length l)" using l(2) by (simp add: byte_at_def wire_labels_def nth_append)
    show "go_slice ?b (?off + 1) (?off + 1 + length l) = Inr l"
      by (simp add: go_slice_def wire_labels_def)
  qed (use l(1,2) in \<open>simp_all add: wire_labels_def\<close>)
  also have "\<dots> = dns_name_loop n ?b orig (?off + length (wire_labels (l # ls))) (parts @ l # ls) jumped"
    using Cons.IH [OF l(3), of "pre @ char_of (length l) # l" "parts @ [l]"]
    unfolding b by (simp add: wire_labels_def add.assoc)
  finally show ?case .
qed (simp add: wire_labels_def)

lemma labels_length: "labels_ok ls \<Longrightarrow> length ls \<le> length (wire_labels ls)"
  by (induction ls) (auto simp: wire_labels_def labels_ok_def)

text \<open>A name written out is read back with its length.\<close>

lemma name_loop_written:
  assumes "labels_ok ls"
  shows "dns_name_loop (length ls + Suc n) (pre @ wire_labels ls @ char_of (0 :: nat) # rest) orig (length pre) parts jumped
    = Inr (Some (join ''.'' (parts @ ls), if jumped then 2 else length pre + length (wire_labels ls) + 1 - orig))"
  unfolding name_loop_labels [OF assms]
  by (rule name_loop_end) (simp_all add: byte_at_def nth_append)

lemma dns_name_round_trip:
  assumes "labels_ok ls"
  shows "dns_name (pre @ wire_labels ls @ char_of (0 :: nat) # rest) (length pre)
    = Inr (Some (join ''.'' ls, length (wire_labels ls) + 1))"
proof -
  let ?b = "pre @ wire_labels ls @ char_of (0 :: nat) # rest"
  have "length ?b + 1 = length ls + Suc (length ?b - length ls)"
    using labels_length [OF assms] by simp
  then show ?thesis
    unfolding dns_name_def using name_loop_written [OF assms, of "length ?b - length ls"] by simp
qed

text \<open>
  Labels followed by a pointer to an earlier name: the name is right, but the bytes reported are
  always those of the pointer, two, so that a caller goes on inside the labels.
\<close>

lemma labels_before_pointer_not_counted:
  fixes ls ms pre mid rest
  defines "b \<equiv> pre @ wire_labels ls @ char_of (0 :: nat) # mid @ wire_labels ms
        @ char_of (192 + length pre div 256) # char_of (length pre mod 256) # rest"
  assumes "labels_ok ls" and "labels_ok ms" and "length pre < 16384"
  shows "dns_name b (length pre + length (wire_labels ls) + 1 + length mid) = Inr (Some (join ''.'' (ms @ ls), 2))"
proof -
  note dns_name_loop.simps [simp del]
  let ?P = "pre @ wire_labels ls @ char_of (0 :: nat) # mid"
  let ?T = "char_of (192 + length pre div 256) # char_of (length pre mod 256) # rest"
  let ?q = "length ?P + length (wire_labels ms)"
  have b: "b = ?P @ wire_labels ms @ ?T" by (simp add: b_def)
  have at: "byte_at b ?q = Inr (192 + length pre div 256)"
    using assms(4) by (simp add: b byte_at_def nth_append)
  have ptr: "u16_at b ?q = Inr (49152 + length pre)"
    using assms(4) by (simp add: b u16_at_def go_slice_def be_nat_def)
  have m: "(49152 + length pre) mod 16384 = length pre"
    using assms(4) mod_mult_self1 [of "length pre" 3 16384] by (simp add: add.commute)
  have "length ls + length ms + 2 \<le> length b + 1"
    using labels_length [OF assms(2)] labels_length [OF assms(3)] by (simp add: b_def)
  then obtain k where "length b + 1 = length ls + length ms + 2 + k" using le_Suc_ex by blast
  then have k: "length b + 1 = length ms + Suc (length ls + Suc k)" by simp
  have "dns_name b (length ?P) = dns_name_loop (Suc (length ls + Suc k)) b (length ?P) ?q ms False"
    unfolding dns_name_def k unfolding b
    using name_loop_labels [OF assms(3), of "Suc (length ls + Suc k)" ?P ?T "length ?P" "[]" False] by simp
  also have "\<dots> = dns_name_loop (length ls + Suc k) b (length ?P) (length pre) ms True"
    using assms(4) m name_loop_pointer [OF _ at _ ptr, of "length ls + Suc k" "length ?P" ms False]
    by (simp add: b_def)
  also have "\<dots> = Inr (Some (join ''.'' (ms @ ls), 2))"
    unfolding b_def by (subst name_loop_written [OF assms(2)]) simp
  finally show ?thesis by (simp add: add.assoc)
qed

end
