(* ===== verification/Spec2Isabelle.thy ===== *)
theory Spec2Isabelle
  imports Prelude Port_Match Mrs_Stream Rule_Text Cidr_Cover Guard_Apply Geo_Reader Mesh_Auth
    Config_Facts Zapret_Facts Uci_Example Nft_Agree Nft_Sets
    Ip_Db_Facts Flow_Facts Packet_Facts
begin

text \<open>
  A verification library for PureWRT, a manager for selective routing on OpenWrt routers. This
  theory imports all the others and holds their documentation; the definitions and theorems are
  in the theories named below. A text with a label such as C7 in front of a theorem states one of
  the properties the library is about; each of them that has hypotheses has a witness, the same
  theorem at a concrete input.

  \<^bold>\<open>The program.\<close> A configuration file in the UCI format (\<open>internal/config\<close>) names routing
  sections, rule providers, devices, Zapret applications and the settings of the services. Rule
  lists of several formats (\<open>internal/rules\<close>, \<open>internal/geodb\<close>) are downloaded and brought into one
  rule model. The generators (\<open>internal/generator\<close>) turn configuration and rules into an nftables
  ruleset and into configurations for the daemons. The checker (\<open>internal/checker\<close>) answers, from
  the same inputs, where a destination would be routed. The manager (\<open>internal/manager\<close>) runs it
  all; of its parts with logic of their own, the proxy guard watches the proxies and takes bad
  ones out of their groups, the traffic view explains what a client of the router experiences,
  using the address database of \<open>internal/ipdb\<close>, and the mesh interface authenticates the
  requests of other routers (\<open>internal/mesh\<close>).

  \<^bold>\<open>Conventions.\<close> A Go byte is a \<open>char\<close>, a string or byte slice a list of them; a \<open>uint32\<close>,
  \<open>uint64\<close> or pair of \<open>uint64\<close> is a word of 32, 64 or 128 bits; an \<open>int\<close> whose size cannot reach 64 bits
  is \<open>int\<close> or \<open>nat\<close>, and wrap-around is written out where it can matter (\<open>wrap64\<close>). A struct is
  a record with a prefix of two or three letters on its fields. An error return is a value of a
  sum type (\<open>andthen\<close> sequences them), with a constructor for each kind of error instead of its
  text. A map is a partial function, or an association list where the order or the number of its
  entries matters; where the code iterates over a Go map, the order is that list or an argument,
  and the theorems hold for every such order.

  \<^bold>\<open>Theories, in the order of their imports.\<close>

  \<^item> \<open>Prelude\<close>, \<open>Go_Text\<close>, \<open>Go_Sort\<close>, \<open>Net_Addr\<close>: what the program uses of the packages
    \<open>strings\<close>, \<open>strconv\<close>, \<open>bufio\<close>, \<open>encoding/base64\<close>, \<open>sort\<close>, \<open>net\<close> and \<open>net/netip\<close>, with their
    laws (numbers and base 64 read back, scanner lines, sorting).
  \<^item> \<open>Port_Match\<close>: destination ports (\<open>internal/config/section_match.go\<close>). Parsing yields the
    canonical ranges of exactly the ports named; equal sets have equal texts; intersection is
    intersection of sets.
  \<^item> \<open>Rule_Text\<close>: rule model, host names, text lists, logical rules, duplicate filter and the
    neutral artifact (\<open>rules/model.go\<close>, \<open>normalize.go\<close>, \<open>parse_text.go\<close>, \<open>artifact.go\<close> and their
    neighbours). What each line becomes, the first rule of each key is kept, a written artifact is
    read back, a line longer than the scanner's buffer ends the list.
  \<^item> \<open>Cidr_Range\<close>, \<open>Cidr_Cover\<close>: three routines that cut an address range into prefixes
    (\<open>rules/parse_mrs.go\<close>, \<open>ipdb/db.go\<close>). Each ends and covers the range exactly with proper,
    ordered, disjoint prefixes; on the whole IPv6 range the one of the MRS reader is not minimal.
  \<^item> \<open>Mrs_Trie\<close>, \<open>Mrs_Lookup\<close>: the succinct domain trie (\<open>parse_mrs.go\<close>, \<open>domainset.go\<close>):
    rank and select, the walk, the lookup. The lookup on bitmaps answers with the shortest
    covering name that the walk would expand.
  \<^item> \<open>Mrs_Format\<close>, \<open>Mrs_Stream\<close>: the MRS container, its bounded readers, the parsed, streamed
    and indexed use of a payload. A written file is read back; streaming agrees with parsing.
  \<^item> \<open>Geo_Db\<close>, \<open>Geo_Reader\<close>: \<open>geosite.dat\<close> and \<open>geoip.dat\<close> (\<open>internal/geodb/v2dat.go\<close>). Encoded
    lists are read back; no length field makes a read leave the buffer.
  \<^item> \<open>Mesh_Code\<close>, \<open>Mesh_Auth\<close>: sync codes, derived keys, request signatures and the nonce cache
    (\<open>internal/mesh\<close>). A code is read back from any spelling; an accepted request was signed, is fresh
    and new; how long a replay is refused, and when it is not.
  \<^item> \<open>Config_Model\<close>, \<open>Config_Facts\<close>: the structs of \<open>config/model.go\<close>, defaults, queries and
    edits. A re-imported provider keeps what the user chose.
  \<^item> \<open>Zapret_Apps\<close>, \<open>Zapret_Facts\<close>: compilation of applications into strategies with selector
    marks (\<open>zapret_applications.go\<close>, \<open>zapret_references.go\<close>, \<open>candidates.go\<close>). Marks and names are
    distinct, each assignment is served by exactly one strategy, sections name compiled ones.
  \<^item> \<open>Uci_Parse\<close>, \<open>Uci_Write\<close>: \<open>Load\<close> and \<open>Serialize\<close> (\<open>uci.go\<close>, \<open>write.go\<close>).
    \<open>Uci_Text\<close>, \<open>Uci_Lines\<close>, \<open>Uci_Settings\<close>, \<open>Uci_Round\<close>, \<open>Uci_Singles\<close>, \<open>Uci_Config\<close> build the round
    trip from values and lines up to the whole configuration; \<open>Uci_Facts\<close> has ids, devices and the
    values the file cannot hold; \<open>Uci_Example\<close> a small configuration and the witnesses.
  \<^item> \<open>Guard_State\<close>, \<open>Guard_Tick\<close>, \<open>Guard_Safety\<close>, \<open>Guard_Apply\<close>: the proxy guard
    (\<open>internal/proxyguard\<close>, \<open>manager/proxy_guard.go\<close>, \<open>generator/mihomo_guard.go\<close>): its state, one run
    phase by phase, the step relation \<open>guard_step\<close> that the phases refine, reachable states and
    their invariant, the safety of quarantine and release, the probe budget, and the change of the
    live configuration with its way back.
  \<^item> \<open>Rule_Index\<close>, \<open>Rule_Index_Facts\<close>: the lazy index of \<open>checker/rules.go\<close>. A fresh index answers
    with the first provider by name that lists the domain on its own; a used one need not.
  \<^item> \<open>Routing_Trace\<close>, \<open>Routing_Facts\<close>: \<open>checker/routing_trace.go\<close>. The dispatch loop is the first
    verdict in order, and what is decided for a partly described flow holds for its completions.
  \<^item> \<open>Nft_Rules\<close>, \<open>Nft_Facts\<close>, \<open>Nft_Claims\<close>, \<open>Nft_Agree\<close>, \<open>Nft_Sets\<close>: the text of the ruleset
    (\<open>generator/nftables.go\<close>, \<open>section_match.go\<close>), what a chain does with a packet, the ports a Zapret
    section claims, and the agreement of the trace with the ruleset; rules use declared sets.
  \<^item> \<open>Ip_Db\<close>, \<open>Ip_Db_Facts\<close>: the address database (\<open>ipdb/db.go\<close>): loading, binary search, and
    the prefixes of a system as the addresses whose lookup names it.
  \<^item> \<open>Flow_Enrich\<close>, \<open>Client_Flows\<close>, \<open>Flow_Facts\<close>: the traffic view on connections
    (\<open>client_traffic_enrich.go\<close>, \<open>client_traffic_flow.go\<close>): reserved ranges as prefixes, the insertion
    sort as a stable sort, the frozen mark as a count over the readings.
  \<^item> \<open>Packet_Decode\<close>, \<open>Packet_Facts\<close>: the capture reader and its decoders
    (\<open>client_traffic_pcap.go\<close>), with panics and endless loops as values: nothing panics, the fuel of
    the DNS name loop decides whether it ends, and one crafted reply does not.
\<close>

text \<open>
  \<^bold>\<open>Interfaces.\<close> The contracts that several components share are locales, each interpreted on the
  definitions of the program:

  \<^item> \<open>slice_order\<close> (\<open>Go_Sort\<close>): the comparison passed to a sort is a strict weak order. Instances:
    section priorities in the configuration, the dispatch order of the trace, the order of the
    generator, the three rankings of the proxy guard, start addresses, ranks of flows.
  \<^item> \<open>keyed_dedup\<close> (\<open>Go_Text\<close>): a filter that remembers the keys it has seen; instance: \<open>dedup_rules\<close>.
  \<^item> \<open>range_walk\<close>, its extension \<open>greedy_walk\<close>, and \<open>shortest_length\<close> (\<open>Cidr_Cover\<close>): a cursor moving
    through a range block by block. Instances: the walks of the MRS reader and of the address
    database, for both families.
  \<^item> \<open>index_builder\<close> (\<open>Rule_Index_Facts\<close>): what a query loop needs of a parser that adds to an
    index; instance: \<open>parse_provider\<close>.

  \<^bold>\<open>Parameters.\<close> Code that is not in the repository, and the outside world, are arguments: the
  zstd and gzip decoders, SHA-256 and HMAC, the case mappings of non-ASCII text (\<open>lo\<close>, \<open>up\<close>), the
  outcome of opening, reading and examining files, JSON and YAML decoding, the controller and the
  downloads of a guard run, the output of \<open>nft -j\<close>, the ports nftables reads from a port
  expression and what it does with a line copied from a provider (\<open>raw\<close>). A theorem that needs
  something of one says so in a hypothesis, e.g. \<open>reads_ports\<close>: a set of single ports and ranges
  means these ports. The witnesses instantiate them.

  \<^bold>\<open>Bounds and fuel.\<close> The trie walk descends 1024 levels below the root, the limit of the code,
  which is its termination argument. \<open>hkdf_expand\<close> has as many rounds as bytes are wanted, each
  of which yields at least one if a digest is not empty. \<open>dns_name\<close> has one round more than the
  message has bytes: a longer run repeats an offset and does not end, which is proved. Every other
  recursion is structural or has a measure; the IPv6 walks have an optional result for a cut
  that does not end, and no range gives it. The limits of the program are those of the model:
  64 KiB scanner lines (1 MiB in the address database), 128 MiB for geo files and MRS payloads,
  255 Zapret strategies, three downloads in a guard run, 65535 bytes in a captured packet.

  \<^bold>\<open>Choices in the model.\<close> In the proxy guard, rates are \<open>rat\<close> for \<open>float64\<close>, times are unbounded
  numbers of nanoseconds, a map is an association list whose order stands for the order in which
  \<open>range\<close> meets the keys (a run keeps one order; the theorems hold for each), and
  \<open>sort.Slice\<close> is a stable sort: where two elements rank equal, the program may choose the
  other one, and the properties of a run do not say which. In a chain of the ruleset a rule over a set applies
  to a packet whose family, destination, protocol and port it names; the first entry that
  decides, decides. The trace is compared with the ruleset without native lines; what these
  add is the argument \<open>raw\<close> in the theorem on IPv6.

  \<^bold>\<open>Not modelled.\<close> The command line; the pipeline of downloads, file writes and service calls of
  the manager; network and system probes; the templates of the daemon configurations (of them
  \<open>zapretInstances\<close>, \<open>itoa\<close> and the guard's overlay are modelled); the download and replacement of
  the address database and its path helpers; HTTP, DNS over HTTPS and the import of YAML profiles;
  the EasyTier and mihomo clients; metrics, logging, notifications, locks and processes; the
  stream of the traffic view around its decoders (goroutines, the capture process, suppression of
  repeated events); the shell and JavaScript parts. They call the modelled code or are input and
  output; none of them is assumed to do anything.

  \<^bold>\<open>What the model has shown about the program.\<close>

  \<^item> A DNS reply whose name points back at its own label keeps the capture reader busy for
    ever (\<open>Packet_Facts\<close>); labels in front of a pointer are not counted, so the records
    behind them are misread (\<open>labels_before_pointer_not_counted\<close>).
  \<^item> The nonce cache forgets a nonce while its timestamp may still be accepted, so a request can
    be replayed (\<open>Mesh_Auth\<close>); a peer name of 256 bytes makes an unreadable code.
  \<^item> With IPv6 not routed, the trace promises a reject that the ruleset does not contain
    (\<open>Nft_Sets\<close>), while native IPv6 expressions are still emitted
    (\<open>native_ipv6_line_ungated\<close>).
  \<^item> With stable latencies the proxy guard never quarantines, however slow the downloads are
    (\<open>Guard_Safety\<close>).
  \<^item> A used index may name another provider than a fresh one (\<open>Rule_Index_Facts\<close>); a
    miss answers default and direct, where comments announce common and proxy.
  \<^item> A value with a single quote grows with every save and load (\<open>single_quote_grows\<close>); a cleared
    setting may return with its default (\<open>cleared_setting_returns\<close>).
  \<^item> A line too long for the scanner silently ends a text list (\<open>parse_text_long_line\<close>).
  \<^item> An address database without IPv4 rows answers no IPv6 lookup (\<open>v6_lookup_needs_v4_rows\<close>).
\<close>

end
